(* ===== verification/RTL_Prelude.thy ===== *)
theory RTL_Prelude
  imports Main "HOL-Library.Word"
begin

text \<open>
  Shared vocabulary of the development: names for the C integer types, the signed 32-bit
  wrap-around, byte-addressed memories, little-endian 32-bit accesses, and the list and word
  lemmas that more than one component uses.

  The collections \<open>wrap_simps\<close> (arithmetic of signed wrap-around inside its range) and
  \<open>byte_simps\<close> (little-endian splitting and joining) gather the rewrite rules that the
  component proofs pass to \<open>simp add:\<close>.
\<close>

named_theorems wrap_simps
named_theorems byte_simps

type_synonym u8 = "8 word"
type_synonym u16 = "16 word"
type_synonym u32 = "32 word"
type_synonym bytes = "u8 list"

unbundle bit_operations_syntax

subsection \<open>Signed 32-bit integers kept as \<open>int\<close>\<close>

text \<open>The value an \<open>int\<close> of the target holds after a conversion from any integer.\<close>

definition sint32 :: "int \<Rightarrow> int" where
  "sint32 x = (x + 2 ^ 31) mod 2 ^ 32 - 2 ^ 31"

text \<open>The value an \<open>unsigned int\<close> of the target holds after a conversion.\<close>

definition uint32 :: "int \<Rightarrow> int" where
  "uint32 x = x mod 2 ^ 32"

text \<open>The value an unsigned variable of 8 or 16 bits holds.\<close>

definition uint8 :: "int \<Rightarrow> int" where "uint8 x = x mod 2 ^ 8"
definition uint16 :: "int \<Rightarrow> int" where "uint16 x = x mod 2 ^ 16"

lemma sint32_id [wrap_simps]: "- (2 ^ 31) \<le> x \<Longrightarrow> x < 2 ^ 31 \<Longrightarrow> sint32 x = x"
  by (simp add: sint32_def)

lemma uint32_id [wrap_simps]: "0 \<le> x \<Longrightarrow> x < 2 ^ 32 \<Longrightarrow> uint32 x = x"
  by (simp add: uint32_def)

lemma sint32_range: "- (2 ^ 31) \<le> sint32 x \<and> sint32 x < 2 ^ 31"
  by (simp add: sint32_def)

subsection \<open>Half-open address ranges\<close>

text \<open>The bytes of the block of \<open>n\<close> bytes at address \<open>p\<close>.\<close>

abbreviation block :: "int \<Rightarrow> int \<Rightarrow> int set" where
  "block p n \<equiv> {p..<p + n}"

subsection \<open>Searching\<close>

lemma find_append:
  "find P (xs @ ys) = (case find P xs of None \<Rightarrow> find P ys | Some x \<Rightarrow> Some x)"
  by (induction xs) auto

lemma find_map: "find P (map f xs) = map_option f (find (P \<circ> f) xs)"
  by (induction xs) auto

lemma find_upt_Some:
  "find P [a..<b] = Some i \<longleftrightarrow> a \<le> i \<and> i < b \<and> P i \<and> (\<forall>j. a \<le> j \<longrightarrow> j < i \<longrightarrow> \<not> P j)"
proof (induction b arbitrary: i)
  case (Suc b)
  show ?case
  proof (cases "find P [a..<b]")
    case None
    then have no: "\<not> P j" if "a \<le> j" "j < b" for j using that by (auto simp: find_None_iff)
    have "find P [a..<Suc b] = (if a \<le> b \<and> P b then Some b else None)"
      using None by (simp add: find_append)
    then show ?thesis using no less_Suc_eq by auto
  next
    case (Some j)
    then have j: "a \<le> j" "j < b" "P j" "\<forall>k. a \<le> k \<longrightarrow> k < j \<longrightarrow> \<not> P k"
      using Suc.IH [of j] by auto
    have "find P [a..<Suc b] = Some j" using Some j by (simp add: find_append)
    then show ?thesis using j by (metis less_SucI linorder_neqE_nat option.inject)
  qed
qed simp

lemma find_upt_None: "find P [a..<b] = None \<longleftrightarrow> (\<forall>i. a \<le> i \<longrightarrow> i < b \<longrightarrow> \<not> P i)"
  by (auto simp: find_None_iff)

subsection \<open>Bytes as numbers\<close>

lemma byte_cases:
  obtains n where "unat (d :: u8) = n" "uint d = int n" "n < 256"
  using that [of "unat d"] unsigned_less [of d, where ?'a = nat] by simp

end
