(* ===== verification/Tcm_Free_List.thy ===== *)
theory Tcm_Free_List
  imports RTL_Prelude
begin

text \<open>
  The abstract free list of the allocator: address-ordered chunks \<open>(address, size)\<close>, first-fit
  allocation from the end of a chunk and release with coalescing on both sides. The lemmas
  give the effect of both on the set of free bytes, the only thing a client can observe.
\<close>

type_synonym chunks = "(int \<times> int) list"

fun free_bytes :: "chunks \<Rightarrow> int set" where
  "free_bytes [] = {}"
| "free_bytes ((a, s) # r) = block a s \<union> free_bytes r"

text \<open>
  Well-formed from \<open>lo\<close> on: aligned chunks of positive, aligned size in address order, with a
  gap between neighbours (two adjacent chunks would have been merged).
\<close>

fun wf_chunks :: "int \<Rightarrow> chunks \<Rightarrow> bool" where
  "wf_chunks lo [] \<longleftrightarrow> True"
| "wf_chunks lo ((a, s) # r) \<longleftrightarrow>
     lo \<le> a \<and> 8 dvd a \<and> 8 dvd s \<and> 0 < s \<and> wf_chunks (a + s + 1) r"

fun alloc_abs :: "int \<Rightarrow> chunks \<Rightarrow> int \<times> chunks" where
  "alloc_abs n [] = (0, [])"
| "alloc_abs n ((a, s) # r) =
     (if s \<ge> n then (if s = n then (a, r) else (a + (s - n), (a, s - n) # r))
      else (case alloc_abs n r of (p, r') \<Rightarrow> (p, (a, s) # r')))"

fun join_next :: "int \<Rightarrow> int \<Rightarrow> chunks \<Rightarrow> chunks" where
  "join_next p n [] = [(p, n)]"
| "join_next p n ((b, t) # r) = (if p + n = b then (p, n + t) # r else (p, n) # (b, t) # r)"

definition join_prev :: "int \<Rightarrow> int \<Rightarrow> int \<Rightarrow> int \<Rightarrow> chunks \<Rightarrow> chunks" where
  "join_prev a s m n r =
     (if a + s = m then join_next a (s + n) r else (a, s) # join_next m n r)"

fun free_after :: "int \<Rightarrow> int \<Rightarrow> int \<Rightarrow> int \<Rightarrow> chunks \<Rightarrow> chunks" where
  "free_after m n a s [] = join_prev a s m n []"
| "free_after m n a s ((b, t) # r) =
     (if b < m then (a, s) # free_after m n b t r else join_prev a s m n ((b, t) # r))"

fun free_abs :: "int \<Rightarrow> int \<Rightarrow> chunks \<Rightarrow> chunks" where
  "free_abs m n [] = [(m, n)]"
| "free_abs m n ((a, s) # r) =
     (if m < a then join_next m n ((a, s) # r) else free_after m n a s r)"

definition total_free :: "chunks \<Rightarrow> int" where
  "total_free fl = sum_list (map snd fl)"

subsection \<open>Shape of well-formed lists\<close>

lemma wf_chunks_mono: "wf_chunks lo fl \<Longrightarrow> lo' \<le> lo \<Longrightarrow> wf_chunks lo' fl"
  by (cases fl) auto

lemma free_bytes_lower: "wf_chunks lo fl \<Longrightarrow> x \<in> free_bytes fl \<Longrightarrow> lo \<le> x"
  by (induction lo fl rule: wf_chunks.induct) force+

lemma free_bytes_finite: "finite (free_bytes fl)"
  by (induction fl rule: free_bytes.induct) auto

text \<open>Two aligned ranges overlap as soon as they share one byte: an 8-byte cell is all or nothing.\<close>

lemma free_bytes_cell:
  assumes "wf_chunks lo fl" and "8 dvd m" and "0 \<le> i" and "i < 8"
  shows "m + i \<in> free_bytes fl \<longleftrightarrow> m \<in> free_bytes fl"
  using assms(1)
proof (induction lo fl rule: wf_chunks.induct)
  case (2 lo a s r)
  obtain k j l where "m = 8 * k" "a = 8 * j" "s = 8 * l"
    using "2.prems" assms(2) by (auto elim!: dvdE)
  then have "m + i \<in> block a s \<longleftrightarrow> m \<in> block a s"
    using assms(3,4) by (auto, presburger?)
  then show ?case using "2" by auto
qed simp

subsection \<open>Allocation\<close>

lemma alloc_abs_wf:
  "wf_chunks lo fl \<Longrightarrow> 8 dvd n \<Longrightarrow> 0 < n \<Longrightarrow> wf_chunks lo (snd (alloc_abs n fl))"
  by (induction lo fl rule: wf_chunks.induct)
     (auto split: prod.splits intro: wf_chunks_mono dvd_diff)

lemma alloc_abs_fail_iff:
  assumes "wf_chunks lo fl" and "0 < lo" and "0 < n"
  shows "fst (alloc_abs n fl) = 0 \<longleftrightarrow> (\<forall>c \<in> set fl. snd c < n)"
  using assms by (induction lo fl rule: wf_chunks.induct) (auto split: prod.splits)

lemma alloc_abs_fail_same:
  assumes "wf_chunks lo fl" and "0 < lo" and "0 < n" and "fst (alloc_abs n fl) = 0"
  shows "snd (alloc_abs n fl) = fl"
  using assms
  by (induction lo fl rule: wf_chunks.induct) (auto split: prod.splits if_splits)

lemma alloc_abs_bytes:
  assumes "wf_chunks lo fl" and "0 < lo" and "8 dvd n" and "0 < n"
    and "alloc_abs n fl = (p, fl')" and "p \<noteq> 0"
  shows "lo \<le> p \<and> 8 dvd p \<and> block p n \<subseteq> free_bytes fl \<and> free_bytes fl' = free_bytes fl - block p n"
  using assms
proof (induction lo fl arbitrary: p fl' rule: wf_chunks.induct)
  case (2 lo a s r)
  have above: "a + s + 1 \<le> x" if "x \<in> free_bytes r" for x
    using that "2.prems" by (auto dest: free_bytes_lower)
  show ?case
  proof (cases "s \<ge> n")
    case True
    show ?thesis
    proof (cases "s = n")
      case True
      then show ?thesis using "2.prems" above by fastforce
    next
      case False
      with \<open>s \<ge> n\<close> have "p = a + (s - n)" and "fl' = (a, s - n) # r"
        using "2.prems" by auto
      then show ?thesis using "2.prems" \<open>s \<ge> n\<close> above by (fastforce intro: dvd_add dvd_diff)
    qed
  next
    case False
    then obtain r' where r: "alloc_abs n r = (p, r')" and "fl' = (a, s) # r'"
      using "2.prems" by (auto split: prod.splits)
    moreover have "a + s + 1 \<le> p \<and> 8 dvd p \<and> block p n \<subseteq> free_bytes r \<and>
        free_bytes r' = free_bytes r - block p n"
      using "2.IH"[of p r'] "2.prems" r by auto
    ultimately show ?thesis using "2.prems" by auto
  qed
qed simp

subsection \<open>Release\<close>

lemma join_next_bytes:
  "wf_chunks (p + n) r \<Longrightarrow> 0 < n \<Longrightarrow> free_bytes (join_next p n r) = block p n \<union> free_bytes r"
  by (cases r) (auto split: if_splits)

lemma join_next_wf:
  "wf_chunks (p + n) r \<Longrightarrow> 0 < n \<Longrightarrow> 8 dvd p \<Longrightarrow> 8 dvd n \<Longrightarrow> lo \<le> p \<Longrightarrow>
   wf_chunks lo (join_next p n r)"
  by (cases r) (auto simp: add.assoc)

lemma wf_chunks_after_block:
  assumes "wf_chunks lo ((b, t) # r)" and "m \<le> b" and "block m n \<inter> free_bytes ((b, t) # r) = {}"
    and "0 < n"
  shows "wf_chunks (m + n) ((b, t) # r)"
proof -
  have "b \<in> free_bytes ((b, t) # r)" using assms(1) by auto
  then have "b \<notin> block m n" using assms(3) by blast
  then show ?thesis using assms by auto
qed

lemma join_prev_correct:
  assumes "wf_chunks lo ((a, s) # r)" and "a \<le> m" and "wf_chunks (m + n) r"
    and "block m n \<inter> block a s = {}" and "0 < n" and "8 dvd m" and "8 dvd n"
  shows "wf_chunks lo (join_prev a s m n r) \<and>
    free_bytes (join_prev a s m n r) = block a s \<union> block m n \<union> free_bytes r"
proof -
  have "m \<notin> block a s" using assms(4,5) by auto
  then have le: "a + s \<le> m" using assms(1,2) by auto
  show ?thesis
  proof (cases "a + s = m")
    case True
    have "wf_chunks (a + (s + n)) r" using assms(3) True by (simp add: add.assoc [symmetric])
    then show ?thesis
      using assms True unfolding join_prev_def
      by (simp add: join_next_wf join_next_bytes) auto
  next
    case False
    then show ?thesis
      using assms le unfolding join_prev_def
      by (simp add: join_next_wf join_next_bytes) auto
  qed
qed

lemma free_after_correct:
  assumes "wf_chunks lo ((a, s) # r)" and "a \<le> m"
    and "block m n \<inter> free_bytes ((a, s) # r) = {}" and "0 < n" and "8 dvd m" and "8 dvd n"
  shows "wf_chunks lo (free_after m n a s r) \<and>
    free_bytes (free_after m n a s r) = block m n \<union> free_bytes ((a, s) # r)"
  using assms
proof (induction m n a s r arbitrary: lo rule: free_after.induct)
  case (1 m n a s)
  then show ?case using join_prev_correct [of lo a s "[]" m n] by auto
next
  case (2 m n a s b t r)
  show ?case
  proof (cases "b < m")
    case True
    have "wf_chunks (a + s + 1) ((b, t) # r)" using "2.prems" by simp
    then have "wf_chunks (a + s + 1) (free_after m n b t r) \<and>
        free_bytes (free_after m n b t r) = block m n \<union> free_bytes ((b, t) # r)"
      using "2.IH" [OF True] "2.prems" True by auto
    then show ?thesis using True "2.prems" by auto
  next
    case False
    have "wf_chunks (a + s + 1) ((b, t) # r)" using "2.prems" by simp
    then have "wf_chunks (m + n) ((b, t) # r)"
      using wf_chunks_after_block [of _ b t r m n] False "2.prems" by auto
    moreover have "block m n \<inter> block a s = {}"
      using "2.prems"(3) unfolding free_bytes.simps by blast
    ultimately have "wf_chunks lo (join_prev a s m n ((b, t) # r)) \<and>
        free_bytes (join_prev a s m n ((b, t) # r)) =
          block a s \<union> block m n \<union> free_bytes ((b, t) # r)"
      using join_prev_correct "2.prems"(1,2,4,5,6) by blast
    then show ?thesis using False by auto
  qed
qed

lemma free_abs_correct:
  assumes "wf_chunks lo fl" and "lo \<le> m" and "block m n \<inter> free_bytes fl = {}"
    and "0 < n" and "8 dvd m" and "8 dvd n"
  shows "wf_chunks lo (free_abs m n fl) \<and> free_bytes (free_abs m n fl) = free_bytes fl \<union> block m n"
proof (cases fl)
  case (Cons c r)
  obtain a s where c: "c = (a, s)" by (cases c)
  show ?thesis
  proof (cases "m < a")
    case True
    then have "wf_chunks (m + n) ((a, s) # r)"
      using wf_chunks_after_block [of lo a s r m n] assms Cons c by auto
    then show ?thesis
      using assms Cons c True join_next_wf [of m n "(a, s) # r" lo]
        join_next_bytes [of m n "(a, s) # r"] by auto
  next
    case False
    then show ?thesis using free_after_correct [of lo a s r m n] assms Cons c by auto
  qed
qed (use assms in auto)

subsection \<open>The free bytes determine the list\<close>

lemma total_free_card: "wf_chunks lo fl \<Longrightarrow> total_free fl = int (card (free_bytes fl))"
proof (induction lo fl rule: wf_chunks.induct)
  case (2 lo a s r)
  have "block a s \<inter> free_bytes r = {}" using "2.prems" by (auto dest: free_bytes_lower)
  then have "card (free_bytes ((a, s) # r)) = card (block a s) + card (free_bytes r)"
    by (simp add: card_Un_disjoint free_bytes_finite)
  then show ?case using "2" by (auto simp: total_free_def)
qed (simp add: total_free_def)

lemma free_bytes_inject:
  "wf_chunks lo fl \<Longrightarrow> wf_chunks lo fl' \<Longrightarrow> free_bytes fl = free_bytes fl' \<Longrightarrow> fl = fl'"
proof (induction lo fl arbitrary: fl' rule: wf_chunks.induct)
  case (1 lo)
  then show ?case by (cases fl') auto
next
  case (2 lo a s r)
  then obtain b t r' where fl': "fl' = (b, t) # r'"
    by (cases fl') (use "2.prems" in force)+
  have ra: "x \<ge> a + s + 1" if "x \<in> free_bytes r" for x
    using that "2.prems"(1) by (auto dest: free_bytes_lower)
  have rb: "x \<ge> b + t + 1" if "x \<in> free_bytes r'" for x
    using that "2.prems"(2) fl' by (auto dest: free_bytes_lower)
  have eq: "block a s \<union> free_bytes r = block b t \<union> free_bytes r'"
    using "2.prems"(3) fl' by simp
  have pos: "0 < s" "0 < t" using "2.prems"(1,2) fl' by auto
  have "a \<in> block b t \<union> free_bytes r'" "b \<in> block a s \<union> free_bytes r"
    using eq pos by auto
  then have ab: "a = b" using ra rb pos by force
  have "a + s \<notin> block a s \<union> free_bytes r" using ra by force
  moreover have "b + t \<notin> block b t \<union> free_bytes r'" using rb by force
  ultimately have "a + s \<notin> block b t" and "b + t \<notin> block a s" using eq by auto
  then have st: "s = t" using ab pos by auto
  have "free_bytes r = (block a s \<union> free_bytes r) - block a s" using ra by force
  also have "\<dots> = (block b t \<union> free_bytes r') - block b t" using eq ab st by simp
  also have "\<dots> = free_bytes r'" using rb by force
  finally have "free_bytes r = free_bytes r'" .
  then have "r = r'" using "2.IH" [of r'] "2.prems"(1,2) fl' ab st by auto
  then show ?case using ab st fl' by simp
qed

end
