(* ===== verification/Tcm_Heap.thy ===== *)
theory Tcm_Heap
  imports Tcm_Free_List
begin

text \<open>
  The allocator of the tightly coupled memory, \<^verbatim>\<open>component/os/os_dep/tcm_heap.c\<close>.
  The free list lives inside the memory it manages, so the state holds the memory as a store
  of 32-bit words; a \<open>MemChunk\<close> at address \<open>p\<close> is the two words \<open>next\<close> at \<open>p\<close> and \<open>size\<close> at
  \<open>p + 4\<close>. Addresses and \<open>int\<close> values are \<open>int\<close>, \<open>NULL\<close> is 0, and the loops over the list are
  \<open>partial_function\<close>s, so that a cyclic list shows as \<open>None\<close>.
\<close>

section \<open>State and operations\<close>

record tcm =
  FreeList :: int
  mem_word :: "int \<Rightarrow> int"
  g_heap_inited :: bool

definition TCM_HEAP_SIZE :: int where
  "TCM_HEAP_SIZE = 40 * 1024"

definition sizeof_MemChunk :: int where
  "sizeof_MemChunk = 8"

text \<open>\<open>sizeof(tcm_heap)\<close>: the buffer that \<open>HEAP_DEFINE_BUF\<close> declares, an array of chunks.\<close>

definition sizeof_tcm_heap :: int where
  "sizeof_tcm_heap =
     (TCM_HEAP_SIZE + sizeof_MemChunk - 1) div sizeof_MemChunk * sizeof_MemChunk"

text \<open>
  \<open>ROUND_UP2(size, sizeof(MemChunk))\<close>: \<open>sizeof\<close> is unsigned, so the sum and the mask are
  unsigned and the assignment converts back to \<open>int\<close>.
\<close>

definition ROUND_UP2 :: "int \<Rightarrow> int" where
  "ROUND_UP2 sz =
     (let u = uint32 (sz + (sizeof_MemChunk - 1)) in sint32 (u - u mod sizeof_MemChunk))"

text \<open>The rounding and the zero case that open both \<open>allocmem\<close> and \<open>freemem\<close>.\<close>

definition alloc_size :: "int \<Rightarrow> int" where
  "alloc_size sz = (let s = ROUND_UP2 sz in if s = 0 then sizeof_MemChunk else s)"

definition chunk_next :: "tcm \<Rightarrow> int \<Rightarrow> int" where
  "chunk_next h p = mem_word h p"

definition chunk_size :: "tcm \<Rightarrow> int \<Rightarrow> int" where
  "chunk_size h p = mem_word h (p + 4)"

definition set_word :: "int \<Rightarrow> int \<Rightarrow> tcm \<Rightarrow> tcm" where
  "set_word a v h = h\<lparr>mem_word := (mem_word h)(a := v)\<rparr>"

text \<open>
  \<open>prev->next = v\<close>. The walk starts with \<open>prev\<close> at \<open>&h->FreeList\<close> read as a chunk, whose
  \<open>next\<close> is the list head itself: that is \<open>None\<close>.
\<close>

definition set_next :: "int option \<Rightarrow> int \<Rightarrow> tcm \<Rightarrow> tcm" where
  "set_next prev v h = (case prev of None \<Rightarrow> h\<lparr>FreeList := v\<rparr> | Some p \<Rightarrow> set_word p v h)"

definition set_size :: "int \<Rightarrow> int \<Rightarrow> tcm \<Rightarrow> tcm" where
  "set_size p v h = set_word (p + 4) v h"

text \<open>The address of the buffer is chosen by the linker: a parameter.\<close>

definition tcm_heap_init :: "int \<Rightarrow> tcm \<Rightarrow> tcm" where
  "tcm_heap_init tcm_heap h =
     (set_size tcm_heap sizeof_tcm_heap
       (set_next (Some tcm_heap) 0 (h\<lparr>FreeList := tcm_heap\<rparr>)))\<lparr>g_heap_inited := True\<rparr>"

definition ensure_init :: "int \<Rightarrow> tcm \<Rightarrow> tcm" where
  "ensure_init tcm_heap h = (if \<not> g_heap_inited h then tcm_heap_init tcm_heap h else h)"

partial_function (option) alloc_walk ::
  "int \<Rightarrow> int option \<Rightarrow> int \<Rightarrow> tcm \<Rightarrow> (int \<times> tcm) option" where
  "alloc_walk sz prev chunk h =
     (if chunk = 0 then Some (0, h)
      else if chunk_size h chunk \<ge> sz then
        (if chunk_size h chunk = sz
         then Some (chunk, set_next prev (chunk_next h chunk) h)
         else (let h' = set_size chunk (sint32 (chunk_size h chunk - sz)) h
               in Some (chunk + chunk_size h' chunk, h')))
      else alloc_walk sz (Some chunk) (chunk_next h chunk) h)"

definition tcm_heap_allocmem :: "int \<Rightarrow> int \<Rightarrow> tcm \<Rightarrow> (int \<times> tcm) option" where
  "tcm_heap_allocmem tcm_heap sz h =
     (let h = ensure_init tcm_heap h
      in alloc_walk (alloc_size sz) None (FreeList h) h)"

partial_function (option) free_walk :: "int \<Rightarrow> int \<Rightarrow> tcm \<Rightarrow> int option" where
  "free_walk mem prev h =
     (if chunk_next h prev < mem \<and> chunk_next h prev \<noteq> 0
      then free_walk mem (chunk_next h prev) h
      else Some prev)"

definition merge_next :: "int \<Rightarrow> tcm \<Rightarrow> tcm" where
  "merge_next prev h =
     (if prev + chunk_size h prev = chunk_next h prev
      then let h = set_size prev (sint32 (chunk_size h prev + chunk_size h (chunk_next h prev))) h
           in set_next (Some prev) (chunk_next h (chunk_next h prev)) h
      else h)"

definition tcm_heap_freemem :: "int \<Rightarrow> int \<Rightarrow> int \<Rightarrow> tcm \<Rightarrow> tcm option" where
  "tcm_heap_freemem tcm_heap mem sz h =
     (let h = ensure_init tcm_heap h;
          sz = alloc_size sz
      in if mem < FreeList h \<or> FreeList h = 0
         then Some (merge_next mem
                (set_size mem sz (set_next (Some mem) (FreeList h) h)\<lparr>FreeList := mem\<rparr>))
         else (case free_walk mem (FreeList h) h of
                 None \<Rightarrow> None
               | Some prev \<Rightarrow>
                   (if prev + chunk_size h prev = mem
                    then Some (merge_next prev (set_size prev (sint32 (chunk_size h prev + sz)) h))
                    else Some (merge_next mem
                           (set_next (Some prev) mem
                             (set_size mem sz
                               (set_next (Some mem) (chunk_next h prev) h)))))))"

partial_function (option) free_space_walk :: "int \<Rightarrow> int \<Rightarrow> tcm \<Rightarrow> int option" where
  "free_space_walk chunk free_mem h =
     (if chunk = 0 then Some free_mem
      else free_space_walk (chunk_next h chunk) (sint32 (free_mem + chunk_size h chunk)) h)"

definition tcm_heap_freeSpace :: "int \<Rightarrow> tcm \<Rightarrow> (int \<times> tcm) option" where
  "tcm_heap_freeSpace tcm_heap h =
     (let h = ensure_init tcm_heap h
      in map_option (\<lambda>n. (n, h)) (free_space_walk (FreeList h) 0 h))"

text \<open>\<open>malloc\<close> keeps the size in the word before the block it returns.\<close>

definition tcm_heap_malloc :: "int \<Rightarrow> int \<Rightarrow> tcm \<Rightarrow> (int \<times> tcm) option" where
  "tcm_heap_malloc tcm_heap sz h =
     (let sz = sint32 (sz + 4)
      in case tcm_heap_allocmem tcm_heap sz h of
           None \<Rightarrow> None
         | Some (mem, h) \<Rightarrow>
             (if mem \<noteq> 0 then Some (mem + 4, set_word mem sz h) else Some (0, h)))"

text \<open>
  \<open>memset(mem, 0, n)\<close> on the word store: the words that lie wholly inside the range become 0
  and the first \<open>n mod 4\<close> bytes of the word after them are cleared (little endian).
\<close>

definition memset_zero :: "int \<Rightarrow> int \<Rightarrow> tcm \<Rightarrow> tcm" where
  "memset_zero mem n h = h\<lparr>mem_word := (\<lambda>a.
     if mem \<le> a \<and> a + 4 \<le> mem + n \<and> (a - mem) mod 4 = 0 then 0
     else if a = mem + n - n mod 4 \<and> 0 < n then mem_word h a - mem_word h a mod 2 ^ nat (8 * (n mod 4))
     else mem_word h a)\<rparr>"

definition tcm_heap_calloc :: "int \<Rightarrow> int \<Rightarrow> tcm \<Rightarrow> (int \<times> tcm) option" where
  "tcm_heap_calloc tcm_heap sz h =
     (case tcm_heap_malloc tcm_heap sz h of
        None \<Rightarrow> None
      | Some (mem, h) \<Rightarrow> (if mem \<noteq> 0 then Some (mem, memset_zero mem sz h) else Some (0, h)))"

definition tcm_heap_free :: "int \<Rightarrow> int \<Rightarrow> tcm \<Rightarrow> tcm option" where
  "tcm_heap_free tcm_heap mem h =
     (if mem \<noteq> 0 then tcm_heap_freemem tcm_heap (mem - 4) (mem_word h (mem - 4)) h
      else Some h)"

section \<open>The free list in memory\<close>

text \<open>
  \<open>chain W p fl\<close>: following \<open>next\<close> from \<open>p\<close> meets exactly the chunks of \<open>fl\<close>, each with its
  size in its header.
\<close>

fun chain :: "(int \<Rightarrow> int) \<Rightarrow> int \<Rightarrow> chunks \<Rightarrow> bool" where
  "chain W p [] \<longleftrightarrow> p = 0"
| "chain W p ((a, s) # r) \<longleftrightarrow> p = a \<and> a \<noteq> 0 \<and> W (a + 4) = s \<and> chain W (W a) r"

definition small_chunks :: "chunks \<Rightarrow> bool" where
  "small_chunks fl \<longleftrightarrow> (\<forall>c \<in> set fl. snd c < 2 ^ 31)"

lemmas heap_access = chunk_next_def chunk_size_def set_next_def set_size_def set_word_def

lemma chain_unique: "chain W p fl \<Longrightarrow> chain W p fl' \<Longrightarrow> fl = fl'"
proof (induction W p fl arbitrary: fl' rule: chain.induct)
  case (1 W p)
  then show ?case by (cases fl') auto
next
  case (2 W p a s r)
  then obtain b t r' where fl': "fl' = (b, t) # r'" by (cases fl') auto
  then have "b = a" and "t = s" using "2.prems" by auto
  moreover have "r = r'" using "2.IH" [of r'] "2.prems" fl' by auto
  ultimately show ?case using fl' by simp
qed

text \<open>A chunk of a well-formed list has at least eight bytes, so its header is free memory.\<close>

lemma chunk_ge_8: "8 dvd (s::int) \<Longrightarrow> 0 < s \<Longrightarrow> 8 \<le> s"
  by (auto elim!: dvdE)

lemma chain_frame:
  assumes "wf_chunks lo fl" and "\<And>x. x \<in> free_bytes fl \<Longrightarrow> W' x = W x"
  shows "chain W' p fl \<longleftrightarrow> chain W p fl"
  using assms
proof (induction lo fl arbitrary: p rule: wf_chunks.induct)
  case (2 lo a s r)
  have "8 \<le> s" using "2.prems"(1) chunk_ge_8 by auto
  then have "W' a = W a" and "W' (a + 4) = W (a + 4)" using "2.prems"(2) by auto
  then show ?case using "2.IH" "2.prems" by auto
qed simp

lemma chain_upd:
  "wf_chunks lo fl \<Longrightarrow> x \<notin> free_bytes fl \<Longrightarrow> chain (W(x := v)) p fl \<longleftrightarrow> chain W p fl"
  by (rule chain_frame) auto

lemma chain_upd_below:
  "wf_chunks lo fl \<Longrightarrow> x < lo \<Longrightarrow> chain (W(x := v)) p fl \<longleftrightarrow> chain W p fl"
  by (rule chain_upd) (auto dest: free_bytes_lower)

section \<open>Refinement of the abstract operations\<close>

text \<open>The place where the walk keeps the link to the current chunk.\<close>

definition link :: "int option \<Rightarrow> tcm \<Rightarrow> int" where
  "link prev h = (case prev of None \<Rightarrow> FreeList h | Some q \<Rightarrow> mem_word h q)"

lemma alloc_walk_refine:
  assumes "chain (mem_word h) (link prev h) fl" and "wf_chunks lo fl" and "small_chunks fl"
    and "\<And>q. prev = Some q \<Longrightarrow> q < lo" and "0 < n"
  shows "\<exists>h'. alloc_walk n prev (link prev h) h = Some (fst (alloc_abs n fl), h') \<and>
    chain (mem_word h') (link prev h') (snd (alloc_abs n fl)) \<and>
    g_heap_inited h' = g_heap_inited h \<and> (prev \<noteq> None \<longrightarrow> FreeList h' = FreeList h) \<and>
    (\<forall>x. x \<notin> free_bytes fl \<longrightarrow> prev \<noteq> Some x \<longrightarrow> mem_word h' x = mem_word h x)"
  using assms
proof (induction lo fl arbitrary: prev rule: wf_chunks.induct)
  case (1 lo)
  then show ?case by (subst alloc_walk.simps) auto
next
  case (2 lo a s r)
  have s8: "8 \<le> s" using "2.prems"(2) chunk_ge_8 by auto
  have hd: "link prev h = a" "a \<noteq> 0" "mem_word h (a + 4) = s" "chain (mem_word h) (mem_word h a) r"
    using "2.prems"(1) by auto
  have wr: "wf_chunks (a + s + 1) r" and lo: "lo \<le> a" using "2.prems"(2) by auto
  consider (exact) "s = n" | (part) "n < s" | (small) "s < n" by linarith
  then show ?case
  proof cases
    case exact
    have "chain (mem_word (set_next prev (mem_word h a) h)) (mem_word h a) r"
      using hd(4) wr lo "2.prems"(4) s8
      by (auto simp: heap_access chain_upd_below split: option.split)
    then show ?thesis
      using exact hd by (subst alloc_walk.simps) (auto simp: heap_access link_def split: option.splits)
  next
    case part
    have "sint32 (s - n) = s - n"
      using part "2.prems"(3,5) by (auto simp: small_chunks_def wrap_simps)
    moreover have "chain ((mem_word h)(a + 4 := s - n)) (mem_word h a) r"
      using hd(4) wr s8 by (simp add: chain_upd_below)
    moreover have "link prev (h\<lparr>mem_word := (mem_word h)(a + 4 := s - n)\<rparr>) = a"
      using hd(1) "2.prems"(4) lo by (force simp: link_def split: option.splits)
    ultimately show ?thesis
      using part hd s8 by (subst alloc_walk.simps) (auto simp: heap_access Let_def)
  next
    case small
    have "link (Some a) h = mem_word h a" by (simp add: link_def)
    then obtain h' where h': "alloc_walk n (Some a) (mem_word h a) h = Some (fst (alloc_abs n r), h')"
      "chain (mem_word h') (mem_word h' a) (snd (alloc_abs n r))"
      "g_heap_inited h' = g_heap_inited h" "FreeList h' = FreeList h"
      "\<And>x. x \<notin> free_bytes r \<Longrightarrow> x \<noteq> a \<Longrightarrow> mem_word h' x = mem_word h x"
      using "2.IH" [of "Some a"] hd(4) wr s8 "2.prems"(3,5)
      by (auto simp: link_def small_chunks_def)
    have below: "mem_word h' x = mem_word h x" if "x < a + s + 1" "x \<noteq> a" for x
      using h'(5) [of x] free_bytes_lower [OF wr, of x] that by auto
    have "mem_word h' (a + 4) = s" using below [of "a + 4"] hd(3) s8 by auto
    moreover have "link prev h' = a"
      using hd(1) h'(4) below "2.prems"(4) lo s8 by (force simp: link_def split: option.splits)
    moreover have "alloc_walk n prev a h = alloc_walk n (Some a) (mem_word h a) h"
      using small hd by (subst alloc_walk.simps) (auto simp: heap_access)
    moreover have "mem_word h' x = mem_word h x" if "x \<notin> free_bytes ((a, s) # r)" for x
      using h'(5) [of x] that s8 by auto
    ultimately show ?thesis
      using small h'(1-4) hd by (auto split: prod.splits)
  qed
qed

lemma small_join_next: "wf_chunks lo r \<Longrightarrow> small_chunks (join_next p n r) \<Longrightarrow> n < 2 ^ 31"
  by (cases r) (auto simp: small_chunks_def split: if_splits)

lemma merge_next_refine:
  assumes "chain (mem_word h) p ((p, n) # r)" and "wf_chunks (p + n) r" and "8 \<le> n"
    and "small_chunks (join_next p n r)" and "0 < p"
  shows "chain (mem_word (merge_next p h)) p (join_next p n r) \<and>
    FreeList (merge_next p h) = FreeList h \<and>
    g_heap_inited (merge_next p h) = g_heap_inited h \<and>
    (\<forall>x. x \<noteq> p \<longrightarrow> x \<noteq> p + 4 \<longrightarrow> mem_word (merge_next p h) x = mem_word h x)"
proof (cases r)
  case Nil
  then have "mem_word h p = 0" using assms(1) by simp
  then show ?thesis using Nil assms(1,3,5) by (simp add: merge_next_def heap_access)
next
  case (Cons c q)
  obtain b t where c: "c = (b, t)" by (cases c)
  have b: "mem_word h p = b" "mem_word h (b + 4) = t" "chain (mem_word h) (mem_word h b) q"
    "p + n \<le> b" "wf_chunks (b + t + 1) q" "8 \<le> t" "p \<noteq> 0" "mem_word h (p + 4) = n"
    using assms(1,2) Cons c chunk_ge_8 by auto
  show ?thesis
  proof (cases "p + n = b")
    case True
    have "0 \<le> n + t \<and> n + t < 2 ^ 31"
      using assms(3,4) Cons c True b(6) by (simp add: small_chunks_def)
    then have "sint32 (n + t) = n + t" by (simp add: wrap_simps)
    moreover have "chain ((mem_word h)(p + 4 := n + t, p := mem_word h b)) (mem_word h b) q"
      using b True assms(3) by (simp add: chain_upd_below)
    moreover have "b \<noteq> p" "b \<noteq> p + 4" using True assms(3) by auto
    ultimately show ?thesis
      using True b Cons c by (simp add: merge_next_def heap_access Let_def)
  next
    case False
    then show ?thesis using assms(1) Cons c b by (simp add: merge_next_def heap_access)
  qed
qed

lemma free_walk_refine:
  assumes "chain (mem_word h) a ((a, s) # r)"
  shows "\<exists>pre b t post. (a, s) # r = pre @ (b, t) # post \<and> free_walk m a h = Some b \<and>
    free_after m n a s r = pre @ join_prev b t m n post \<and>
    (\<forall>c u q. post = (c, u) # q \<longrightarrow> m \<le> c) \<and> (a < m \<longrightarrow> b < m)"
  using assms
proof (induction m n a s r rule: free_after.induct)
  case (1 m n a s)
  then have "free_walk m a h = Some a" by (subst free_walk.simps) (auto simp: chunk_next_def)
  moreover have "[(a, s)] = [] @ (a, s) # []"
    "free_after m n a s [] = [] @ join_prev a s m n []" by auto
  ultimately show ?case by blast
next
  case (2 m n a s b t r)
  have link: "mem_word h a = b" "b \<noteq> 0" "chain (mem_word h) b ((b, t) # r)"
    using "2.prems" by auto
  show ?case
  proof (cases "b < m")
    case True
    then obtain pre c u post where w: "(b, t) # r = pre @ (c, u) # post" "free_walk m b h = Some c"
      "free_after m n b t r = pre @ join_prev c u m n post"
      "\<forall>c u q. post = (c, u) # q \<longrightarrow> m \<le> c" "c < m"
      using "2.IH" link by blast
    have "free_walk m a h = Some c"
      using w(2) True link by (subst free_walk.simps) (simp add: chunk_next_def)
    moreover have "(a, s) # (b, t) # r = ((a, s) # pre) @ (c, u) # post"
      using w(1) by simp
    moreover have "free_after m n a s ((b, t) # r) = ((a, s) # pre) @ join_prev c u m n post"
      using w(3) True by simp
    ultimately show ?thesis using w(4,5) by blast
  next
    case False
    then have "free_walk m a h = Some a"
      using link by (subst free_walk.simps) (simp add: chunk_next_def)
    moreover have "(a, s) # (b, t) # r = [] @ (a, s) # (b, t) # r"
      "free_after m n a s ((b, t) # r) = [] @ join_prev a s m n ((b, t) # r)"
      "\<forall>c u q. (b, t) # r = (c, u) # q \<longrightarrow> m \<le> c"
      using False by auto
    ultimately show ?thesis by blast
  qed
qed

lemma wf_chunks_append:
  "wf_chunks lo (pre @ (b, t) # post) \<Longrightarrow>
   wf_chunks lo ((b, t) # post) \<and> (\<forall>x \<in> free_bytes pre. x < b)"
proof (induction lo pre rule: wf_chunks.induct)
  case (2 lo a s r)
  then have "wf_chunks (a + s + 1) ((b, t) # post) \<and> (\<forall>x \<in> free_bytes r. x < b)" by auto
  then show ?case using "2.prems" wf_chunks_mono [of "a + s + 1" "(b, t) # post" lo] by auto
qed simp

lemma free_bytes_append: "free_bytes (xs @ ys) = free_bytes xs \<union> free_bytes ys"
  by (induction xs rule: free_bytes.induct) auto

lemma chain_replace_tail:
  assumes "chain W p (pre @ (b, t) # post)" and "wf_chunks lo (pre @ (b, t) # post)"
    and "\<And>x. x \<in> free_bytes pre \<Longrightarrow> W' x = W x" and "chain W' b tl'"
  shows "chain W' p (pre @ tl')"
  using assms
proof (induction lo pre arbitrary: p rule: wf_chunks.induct)
  case (2 lo a s r)
  have "8 \<le> s" using "2.prems"(2) chunk_ge_8 by auto
  then have "W' a = W a" and "W' (a + 4) = W (a + 4)" using "2.prems"(3) by auto
  then show ?case using "2" by auto
qed simp

lemma chain_tail: "chain W p (pre @ (b, t) # post) \<Longrightarrow> chain W b ((b, t) # post)"
  by (induction pre arbitrary: p) auto

lemma small_chunks_append: "small_chunks (xs @ ys) \<longleftrightarrow> small_chunks xs \<and> small_chunks ys"
  by (auto simp: small_chunks_def)

text \<open>The update after the walk has stopped at the chunk \<open>(b, t)\<close> before the released block.\<close>

definition free_at :: "int \<Rightarrow> int \<Rightarrow> int \<Rightarrow> tcm \<Rightarrow> tcm" where
  "free_at mem sz prev h =
     (if prev + chunk_size h prev = mem
      then merge_next prev (set_size prev (sint32 (chunk_size h prev + sz)) h)
      else merge_next mem (set_next (Some prev) mem (set_size mem sz
             (set_next (Some mem) (chunk_next h prev) h))))"

lemma free_at_refine:
  assumes "chain (mem_word h) b ((b, t) # post)" and "wf_chunks lo ((b, t) # post)" and "0 < lo"
    and "b \<le> m" and "wf_chunks (m + n) post" and "block m n \<inter> block b t = {}" and "8 \<le> n"
    and "small_chunks (join_prev b t m n post)"
  shows "chain (mem_word (free_at m n b h)) b (join_prev b t m n post) \<and>
    FreeList (free_at m n b h) = FreeList h \<and>
    g_heap_inited (free_at m n b h) = g_heap_inited h \<and>
    (\<forall>x. x \<notin> block b t \<longrightarrow> x \<notin> block m n \<longrightarrow> mem_word (free_at m n b h) x = mem_word h x)"
proof -
  have t8: "8 \<le> t" using assms(2) chunk_ge_8 by auto
  have "m \<notin> block b t" using assms(6,7) by auto
  then have le: "b + t \<le> m" using assms(4) by auto
  have w: "mem_word h (b + 4) = t" "chain (mem_word h) (mem_word h b) post" "0 < b"
    using assms(1-3) by auto
  show ?thesis
  proof (cases "b + t = m")
    case True
    define h1 where "h1 = set_size b (sint32 (t + n)) h"
    have "t + n < 2 ^ 31"
      using small_join_next [OF assms(5), of b "t + n"] assms(8) True by (simp add: join_prev_def)
    then have sm: "sint32 (t + n) = t + n" using t8 assms(7) by (simp add: wrap_simps)
    have "chain (mem_word h1) b ((b, t + n) # post)"
      using w assms(5) True sm t8 assms(7) by (simp add: h1_def heap_access chain_upd_below)
    then have "chain (mem_word (merge_next b h1)) b (join_next b (t + n) post) \<and>
        FreeList (merge_next b h1) = FreeList h1 \<and>
        g_heap_inited (merge_next b h1) = g_heap_inited h1 \<and>
        (\<forall>x. x \<noteq> b \<longrightarrow> x \<noteq> b + 4 \<longrightarrow> mem_word (merge_next b h1) x = mem_word h1 x)"
      using merge_next_refine [of h1 b "t + n" post] w(3) assms True t8
      by (simp add: join_prev_def add.assoc [symmetric])
    moreover have "free_at m n b h = merge_next b h1"
      using True w(1) by (simp add: free_at_def h1_def chunk_size_def)
    ultimately show ?thesis
      using True t8 by (auto simp: join_prev_def h1_def heap_access)
  next
    case False
    define h1 where "h1 = set_next (Some b) m (set_size m n (set_next (Some m) (mem_word h b) h))"
    have lt: "b + t < m" using False le by simp
    have "chain (mem_word h1) m ((m, n) # post)"
      using w assms(5,7) lt t8 by (simp add: h1_def heap_access chain_upd_below)
    then have mg: "chain (mem_word (merge_next m h1)) m (join_next m n post) \<and>
        FreeList (merge_next m h1) = FreeList h1 \<and>
        g_heap_inited (merge_next m h1) = g_heap_inited h1 \<and>
        (\<forall>x. x \<noteq> m \<longrightarrow> x \<noteq> m + 4 \<longrightarrow> mem_word (merge_next m h1) x = mem_word h1 x)"
      using merge_next_refine [of h1 m n post] assms False w(3)
      by (simp add: join_prev_def small_chunks_def)
    moreover have "mem_word (merge_next m h1) b = m" "mem_word (merge_next m h1) (b + 4) = t"
      using mg lt t8 w(1) by (auto simp: h1_def heap_access)
    moreover have "free_at m n b h = merge_next m h1"
      using False w(1) by (simp add: free_at_def h1_def chunk_size_def chunk_next_def)
    ultimately show ?thesis
      using False w(3) assms(7) t8 by (auto simp: join_prev_def h1_def heap_access)
  qed
qed

section \<open>The heap invariant and the refinement of the whole operations\<close>

definition arena_ok :: "int \<Rightarrow> bool" where
  "arena_ok tcm_heap \<longleftrightarrow> 0 < tcm_heap \<and> 8 dvd tcm_heap"

definition tcm_inv :: "int \<Rightarrow> tcm \<Rightarrow> chunks \<Rightarrow> bool" where
  "tcm_inv tcm_heap h fl \<longleftrightarrow> g_heap_inited h \<and> chain (mem_word h) (FreeList h) fl \<and>
     wf_chunks tcm_heap fl \<and> free_bytes fl \<subseteq> block tcm_heap sizeof_tcm_heap"

lemma sizeof_tcm_heap_eq: "sizeof_tcm_heap = 40960"
  by (simp add: sizeof_tcm_heap_def TCM_HEAP_SIZE_def sizeof_MemChunk_def)

lemma alloc_size_eq:
  assumes "0 \<le> n" and "n < 2 ^ 31 - 8"
  shows "alloc_size n = (if n = 0 then 8 else n + 7 - (n + 7) mod 8)"
proof -
  have "0 \<le> (n + 7) mod 8" "(n + 7) mod 8 \<le> n + 7" using assms by (simp_all add: zmod_le_nonneg_dividend)
  then have "sint32 (n + 7 - (n + 7) mod 8) = n + 7 - (n + 7) mod 8"
    using assms by (intro sint32_id) simp_all
  moreover have "uint32 (n + 7) = n + 7" using assms by (simp add: wrap_simps)
  moreover have "n + 7 - (n + 7) mod 8 = 0 \<longleftrightarrow> n = 0" using assms by presburger
  ultimately show ?thesis by (auto simp: alloc_size_def ROUND_UP2_def sizeof_MemChunk_def Let_def)
qed

lemma alloc_size_bounds:
  assumes "0 \<le> n" and "n < 2 ^ 31 - 8"
  shows "8 dvd alloc_size n \<and> 8 \<le> alloc_size n \<and> n \<le> alloc_size n \<and> alloc_size n < n + 8 + (if n = 0 then 1 else 0)"
  unfolding alloc_size_eq [OF assms] using assms(1) by (auto, presburger+)

lemma arena_small_chunks:
  "wf_chunks lo fl \<Longrightarrow> free_bytes fl \<subseteq> block q sizeof_tcm_heap \<Longrightarrow> small_chunks fl"
proof (induction lo fl rule: wf_chunks.induct)
  case (2 lo a s r)
  have "a \<in> block q sizeof_tcm_heap" "a + s - 1 \<in> block q sizeof_tcm_heap"
    using "2.prems" by auto
  then have "s < 2 ^ 31" by (simp add: sizeof_tcm_heap_eq)
  then show ?case using "2" by (auto simp: small_chunks_def)
qed (simp add: small_chunks_def)

lemma ensure_init_id: "g_heap_inited h \<Longrightarrow> ensure_init q h = h"
  by (simp add: ensure_init_def)

lemma tcm_heap_init_inv:
  "arena_ok q \<Longrightarrow> tcm_inv q (tcm_heap_init q h) [(q, sizeof_tcm_heap)]"
  by (simp add: tcm_inv_def tcm_heap_init_def heap_access arena_ok_def sizeof_tcm_heap_eq)

lemma allocmem_refine:
  assumes "tcm_inv q h fl" and "arena_ok q" and "0 \<le> n" and "n < 2 ^ 31 - 8"
  shows "\<exists>h'. tcm_heap_allocmem q n h = Some (fst (alloc_abs (alloc_size n) fl), h') \<and>
    tcm_inv q h' (snd (alloc_abs (alloc_size n) fl)) \<and>
    (\<forall>x. x \<notin> free_bytes fl \<longrightarrow> mem_word h' x = mem_word h x)"
proof -
  let ?n = "alloc_size n" and ?r = "alloc_abs (alloc_size n) fl"
  have n: "8 dvd ?n" "0 < ?n" using alloc_size_bounds [OF assms(3,4)] by auto
  have inv: "chain (mem_word h) (FreeList h) fl" "wf_chunks q fl" "g_heap_inited h" "small_chunks fl"
    "free_bytes fl \<subseteq> block q sizeof_tcm_heap"
    using assms(1) arena_small_chunks unfolding tcm_inv_def by auto
  obtain h' where h': "alloc_walk ?n None (FreeList h) h = Some (fst ?r, h')"
    "chain (mem_word h') (FreeList h') (snd ?r)" "g_heap_inited h' = g_heap_inited h"
    "\<forall>x. x \<notin> free_bytes fl \<longrightarrow> mem_word h' x = mem_word h x"
    using alloc_walk_refine [of h None fl q ?n] inv n by (auto simp: link_def)
  have "free_bytes (snd ?r) \<subseteq> free_bytes fl"
  proof (cases "fst ?r = 0")
    case True
    then show ?thesis using alloc_abs_fail_same [OF inv(2)] assms(2) n by (simp add: arena_ok_def)
  next
    case False
    then show ?thesis
      using alloc_abs_bytes [OF inv(2) _ n(1) n(2), of "fst ?r" "snd ?r"] assms(2)
      by (auto simp: arena_ok_def)
  qed
  then have "tcm_inv q h' (snd ?r)"
    using h' inv alloc_abs_wf [OF inv(2) n] by (auto simp: tcm_inv_def)
  then show ?thesis using h' inv(3) by (auto simp: tcm_heap_allocmem_def ensure_init_id)
qed

lemma freemem_eq:
  "tcm_heap_freemem q m n h =
     (let h = ensure_init q h
      in if m < FreeList h \<or> FreeList h = 0
         then Some (merge_next m (set_size m (alloc_size n)
                (set_next (Some m) (FreeList h) h)\<lparr>FreeList := m\<rparr>))
         else map_option (\<lambda>prev. free_at m (alloc_size n) prev h) (free_walk m (FreeList h) h))"
  by (simp add: tcm_heap_freemem_def free_at_def Let_def map_option_case cong: option.case_cong
      split: option.splits)

text \<open>
  What a caller of the release owes: the block was rounded as the allocation rounds it and lies in the
  arena, disjoint from the free list.
\<close>

definition freeable :: "int \<Rightarrow> int \<Rightarrow> int \<Rightarrow> tcm \<Rightarrow> chunks \<Rightarrow> bool" where
  "freeable q m n h fl \<longleftrightarrow> tcm_inv q h fl \<and> arena_ok q \<and> 0 \<le> n \<and> n < 2 ^ 31 - 8 \<and> 8 dvd m \<and>
     block m (alloc_size n) \<inter> free_bytes fl = {} \<and> block m (alloc_size n) \<subseteq> block q sizeof_tcm_heap"

lemma freeable_abs:
  assumes "freeable q m n h fl"
  shows "8 \<le> alloc_size n" "q \<le> m" "0 < q" "wf_chunks q (free_abs m (alloc_size n) fl)"
    "free_bytes (free_abs m (alloc_size n) fl) = free_bytes fl \<union> block m (alloc_size n)"
    "small_chunks (free_abs m (alloc_size n) fl)"
proof -
  have f: "arena_ok q" "8 dvd m" "block m (alloc_size n) \<inter> free_bytes fl = {}"
    "block m (alloc_size n) \<subseteq> block q sizeof_tcm_heap" "wf_chunks q fl" "free_bytes fl \<subseteq> block q sizeof_tcm_heap"
    using assms by (auto simp: freeable_def tcm_inv_def)
  have n8: "8 dvd alloc_size n" "8 \<le> alloc_size n"
    using assms alloc_size_bounds [of n] by (auto simp: freeable_def)
  show "8 \<le> alloc_size n" by (rule n8(2))
  show "0 < q" using f(1) by (simp add: arena_ok_def)
  have "m \<in> block m (alloc_size n)" using n8 by auto
  then show qm: "q \<le> m" using f(4) by auto
  show res: "wf_chunks q (free_abs m (alloc_size n) fl)"
    "free_bytes (free_abs m (alloc_size n) fl) = free_bytes fl \<union> block m (alloc_size n)"
    using free_abs_correct [OF f(5) qm f(3) _ f(2) n8(1)] n8(2) by auto
  show "small_chunks (free_abs m (alloc_size n) fl)" using arena_small_chunks [OF res(1)] res(2) f(4,6) by blast
qed

lemma freeable_above:
  assumes "wf_chunks p fl" and "block m n \<inter> free_bytes fl = {}" and "8 \<le> n" and "\<forall>c u r. fl = (c, u) # r \<longrightarrow> m \<le> c"
  shows "wf_chunks (m + n) fl"
proof (cases fl)
  case (Cons c r)
  then obtain a s where c: "fl = (a, s) # r" by (cases c) auto
  then show ?thesis using wf_chunks_after_block [of p a s r m n] assms by simp
qed simp

lemma freemem_head:
  assumes free: "freeable q m n h fl" and head: "m < FreeList h \<or> FreeList h = 0"
  shows "\<exists>h'. tcm_heap_freemem q m n h = Some h' \<and> tcm_inv q h' (free_abs m (alloc_size n) fl) \<and>
    (\<forall>x. x \<notin> free_bytes fl \<longrightarrow> x \<notin> block m (alloc_size n) \<longrightarrow> mem_word h' x = mem_word h x)"
proof -
  let ?n = "alloc_size n" and ?fl = "free_abs m (alloc_size n) fl"
  let ?h1 = "set_size m ?n (set_next (Some m) (FreeList h) h)\<lparr>FreeList := m\<rparr>"
  note abs = freeable_abs [OF free]
  have i: "chain (mem_word h) (FreeList h) fl" "wf_chunks q fl" "g_heap_inited h" "block m ?n \<inter> free_bytes fl = {}"
    "free_bytes fl \<subseteq> block q sizeof_tcm_heap" "block m ?n \<subseteq> block q sizeof_tcm_heap"
    using free unfolding freeable_def tcm_inv_def by auto
  have fl: "?fl = join_next m ?n fl" using head i(1,2) abs(3) by (cases fl) auto
  have above: "wf_chunks (m + ?n) fl"
    using head i(1) abs(1) by (intro freeable_above [OF i(2,4)]) auto
  have "chain (mem_word ?h1) m ((m, ?n) # fl)"
    using i(1) above abs(1-3) by (simp add: heap_access chain_upd_below)
  then have "chain (mem_word (merge_next m ?h1)) m (join_next m ?n fl) \<and>
      FreeList (merge_next m ?h1) = FreeList ?h1 \<and> g_heap_inited (merge_next m ?h1) = g_heap_inited ?h1 \<and>
      (\<forall>x. x \<noteq> m \<longrightarrow> x \<noteq> m + 4 \<longrightarrow> mem_word (merge_next m ?h1) x = mem_word ?h1 x)"
    using merge_next_refine [of ?h1 m ?n fl] above abs fl by simp
  moreover have "tcm_heap_freemem q m n h = Some (merge_next m ?h1)"
    using head i(3) by (simp add: freemem_eq ensure_init_id Let_def)
  ultimately show ?thesis
    using fl abs i by (auto simp: tcm_inv_def heap_access)
qed

lemma freemem_walk:
  assumes free: "freeable q m n h fl" and walk: "\<not> (m < FreeList h \<or> FreeList h = 0)"
  shows "\<exists>h'. tcm_heap_freemem q m n h = Some h' \<and> tcm_inv q h' (free_abs m (alloc_size n) fl) \<and>
    (\<forall>x. x \<notin> free_bytes fl \<longrightarrow> x \<notin> block m (alloc_size n) \<longrightarrow> mem_word h' x = mem_word h x)"
proof -
  let ?n = "alloc_size n" and ?fl = "free_abs m (alloc_size n) fl"
  note abs = freeable_abs [OF free]
  have i: "chain (mem_word h) (FreeList h) fl" "wf_chunks q fl" "g_heap_inited h" "block m ?n \<inter> free_bytes fl = {}"
    "free_bytes fl \<subseteq> block q sizeof_tcm_heap" "block m ?n \<subseteq> block q sizeof_tcm_heap"
    using free unfolding freeable_def tcm_inv_def by auto
  obtain a s r where fl: "fl = (a, s) # r" and a: "FreeList h = a" "a \<le> m"
    using walk i(1) by (cases fl) auto
  have "?fl = free_after m ?n a s r" using fl a(2) by simp
  then obtain pre b t post where w: "fl = pre @ (b, t) # post" "free_walk m a h = Some b"
    "?fl = pre @ join_prev b t m ?n post" "\<forall>c u q. post = (c, u) # q \<longrightarrow> m \<le> c" "a < m \<longrightarrow> b < m"
    using free_walk_refine [of h a s r m ?n] i(1) unfolding fl a(1) by metis
  have "a \<in> free_bytes fl" using fl i(2) by auto
  then have bm: "b < m" using w(5) a(2) i(4) abs(1) by fastforce
  have wb: "wf_chunks q ((b, t) # post)" "\<forall>x \<in> free_bytes pre. x < b"
    using wf_chunks_append i(2) w(1) by blast+
  have dj: "block m ?n \<inter> block b t = {}" "block m ?n \<inter> free_bytes post = {}" "block m ?n \<inter> free_bytes pre = {}"
    using i(4) unfolding w(1) free_bytes_append free_bytes.simps by blast+
  have above: "wf_chunks (m + ?n) post"
    using wb(1) by (intro freeable_above [OF _ dj(2) abs(1) w(4), of "b + t + 1"]) simp
  have "chain (mem_word h) b ((b, t) # post)" using chain_tail i(1) w(1) by blast
  then have at: "chain (mem_word (free_at m ?n b h)) b (join_prev b t m ?n post)"
    "FreeList (free_at m ?n b h) = FreeList h" "g_heap_inited (free_at m ?n b h) = g_heap_inited h"
    "\<And>x. x \<notin> block b t \<Longrightarrow> x \<notin> block m ?n \<Longrightarrow> mem_word (free_at m ?n b h) x = mem_word h x"
    using free_at_refine [OF _ wb(1) abs(3) _ above dj(1) abs(1)] bm abs(6) unfolding w(3) small_chunks_append by auto
  have "mem_word (free_at m ?n b h) x = mem_word h x" if "x \<in> free_bytes pre" for x
    using at(4) [of x] bspec [OF wb(2) that] dj(3) that by fastforce
  then have "chain (mem_word (free_at m ?n b h)) (FreeList h) ?fl"
    using chain_replace_tail [OF _ _ _ at(1)] i(1,2) w(1,3) by metis
  moreover have "tcm_heap_freemem q m n h = Some (free_at m ?n b h)"
    using walk w(2) a i(3) by (simp add: freemem_eq ensure_init_id Let_def)
  moreover have "mem_word (free_at m ?n b h) x = mem_word h x" if "x \<notin> free_bytes fl" "x \<notin> block m ?n" for x
    using at(4) [of x] that unfolding w(1) free_bytes_append free_bytes.simps by blast
  ultimately show ?thesis using at(2,3) abs(4,5) i(3,5,6) by (auto simp: tcm_inv_def)
qed

lemma freemem_refine:
  assumes "tcm_inv q h fl" and "arena_ok q" and "0 \<le> n" "n < 2 ^ 31 - 8"
    and "8 dvd m" and "block m (alloc_size n) \<inter> free_bytes fl = {}"
    and "block m (alloc_size n) \<subseteq> block q sizeof_tcm_heap"
  shows "\<exists>h'. tcm_heap_freemem q m n h = Some h' \<and>
    tcm_inv q h' (free_abs m (alloc_size n) fl) \<and>
    (\<forall>x. x \<notin> free_bytes fl \<longrightarrow> x \<notin> block m (alloc_size n) \<longrightarrow> mem_word h' x = mem_word h x)"
proof -
  have "freeable q m n h fl" using assms by (simp add: freeable_def)
  then show ?thesis using freemem_head freemem_walk by metis
qed

end
