(* ===== verification/Tcm_Client.thy ===== *)
theory Tcm_Client
  imports Tcm_Heap
begin

text \<open>
  What the clients of the allocator rely on. The locale \<open>block_allocator\<close> is the contract of
  \<open>allocmem\<close>/\<open>freemem\<close> in terms of the set of available bytes; \<open>tcm_heap_at\<close> is the heap at an
  aligned buffer address and is shown to meet the contract. The standard interface
  (\<open>malloc\<close>, \<open>free\<close>) and every sequence of client steps are then reasoned about through it.
\<close>

section \<open>The contract\<close>

text \<open>The blocks \<open>L\<close> (address and size) and the available bytes tile the arena.\<close>

definition tiles :: "int set \<Rightarrow> int set \<Rightarrow> (int \<times> int) set \<Rightarrow> bool" where
  "tiles arena av L \<longleftrightarrow>
     arena = av \<union> (\<Union>(p, n) \<in> L. block p n) \<and>
     (\<forall>(p, n) \<in> L. 0 < n \<and> block p n \<inter> av = {}) \<and>
     (\<forall>(p, n) \<in> L. \<forall>(q, m) \<in> L. (p, n) = (q, m) \<or> block p n \<inter> block q m = {})"

lemma tilesD:
  assumes "tiles A av L"
  shows "A = av \<union> (\<Union>(p, n) \<in> L. block p n)"
    and "(p, n) \<in> L \<Longrightarrow> 0 < n" and "(p, n) \<in> L \<Longrightarrow> block p n \<inter> av = {}"
    and "(p, n) \<in> L \<Longrightarrow> block p n \<subseteq> A"
    and "(p, n) \<in> L \<Longrightarrow> (q, m) \<in> L \<Longrightarrow> (p, n) \<noteq> (q, m) \<Longrightarrow> block p n \<inter> block q m = {}"
  using assms unfolding tiles_def by blast+

lemma tilesI:
  assumes "A = av \<union> (\<Union>(p, n) \<in> L. block p n)"
    and "\<And>p n. (p, n) \<in> L \<Longrightarrow> 0 < n" and "\<And>p n. (p, n) \<in> L \<Longrightarrow> block p n \<inter> av = {}"
    and "\<And>p n q m. (p, n) \<in> L \<Longrightarrow> (q, m) \<in> L \<Longrightarrow> (p, n) \<noteq> (q, m) \<Longrightarrow> block p n \<inter> block q m = {}"
  shows "tiles A av L"
  using assms unfolding tiles_def by blast

lemma tiles_alloc:
  assumes t: "tiles A av L" and b: "block p n \<subseteq> av" and "0 < n"
  shows "tiles A (av - block p n) (insert (p, n) L)"
proof (rule tilesI)
  have "av - block p n \<union> block p n = av" using b by blast
  then show "A = av - block p n \<union> (\<Union>(p, n) \<in> insert (p, n) L. block p n)"
    using tilesD(1) [OF t] by (simp add: Un_assoc [symmetric])
  show "0 < m" if "(r, m) \<in> insert (p, n) L" for r m
    using that assms(3) tilesD(2) [OF t] by blast
  show "block r m \<inter> (av - block p n) = {}" if "(r, m) \<in> insert (p, n) L" for r m
    using that tilesD(3) [OF t, of r m] by blast
  have sep: "block p n \<inter> block r m = {}" if "(r, m) \<in> L" for r m
    using tilesD(3) [OF t that] b by blast
  show "block r m \<inter> block r' m' = {}"
    if "(r, m) \<in> insert (p, n) L" "(r', m') \<in> insert (p, n) L" "(r, m) \<noteq> (r', m')" for r m r' m'
    using that tilesD(5) [OF t, of r m r' m'] sep [of r m] sep [of r' m'] by blast
qed

lemma tiles_release:
  assumes t: "tiles A av L" and e: "(p, n) \<in> L"
  shows "tiles A (av \<union> block p n) (L - {(p, n)})"
proof (rule tilesI)
  have "(\<Union>(p, n) \<in> L. block p n) = block p n \<union> (\<Union>(p, n) \<in> L - {(p, n)}. block p n)"
    using e by blast
  then show "A = av \<union> block p n \<union> (\<Union>(p, n) \<in> L - {(p, n)}. block p n)"
    using tilesD(1) [OF t] by (simp add: Un_assoc)
  show "0 < m" if "(r, m) \<in> L - {(p, n)}" for r m
    using that tilesD(2) [OF t] by blast
  show "block r m \<inter> (av \<union> block p n) = {}" if "(r, m) \<in> L - {(p, n)}" for r m
    using that tilesD(3) [OF t, of r m] tilesD(5) [OF t _ e, of r m] by blast
  show "block r m \<inter> block r' m' = {}"
    if "(r, m) \<in> L - {(p, n)}" "(r', m') \<in> L - {(p, n)}" "(r, m) \<noteq> (r', m')" for r m r' m'
    using that tilesD(5) [OF t, of r m r' m'] by blast
qed

locale block_allocator =
  fixes alloc :: "int \<Rightarrow> 's \<Rightarrow> (int \<times> 's) option"
    and release :: "int \<Rightarrow> int \<Rightarrow> 's \<Rightarrow> 's option"
    and word_at :: "'s \<Rightarrow> int \<Rightarrow> int"
    and inv :: "'s \<Rightarrow> bool"
    and avail :: "'s \<Rightarrow> int set"
    and arena :: "int set"
    and cell :: "int \<Rightarrow> int"
    and ok_size :: "int \<Rightarrow> bool"
  assumes cell_ge: "ok_size n \<Longrightarrow> n \<le> cell n \<and> 0 < cell n"
    and avail_arena: "inv s \<Longrightarrow> avail s \<subseteq> arena"
    and alloc_returns: "inv s \<Longrightarrow> ok_size n \<Longrightarrow>
      \<exists>p s'. alloc n s = Some (p, s') \<and> inv s' \<and>
        (p = 0 \<and> avail s' = avail s \<or>
         p \<noteq> 0 \<and> 8 dvd p \<and> block p (cell n) \<subseteq> avail s \<and> avail s' = avail s - block p (cell n)) \<and>
        (\<forall>x. x \<notin> avail s \<longrightarrow> word_at s' x = word_at s x)"
    and release_returns: "inv s \<Longrightarrow> ok_size n \<Longrightarrow> 8 dvd p \<Longrightarrow> block p (cell n) \<inter> avail s = {} \<Longrightarrow>
      block p (cell n) \<subseteq> arena \<Longrightarrow>
      \<exists>s'. release p n s = Some s' \<and> inv s' \<and> avail s' = avail s \<union> block p (cell n) \<and>
        (\<forall>x. x \<notin> avail s \<union> block p (cell n) \<longrightarrow> word_at s' x = word_at s x)"
begin

lemma alloc_tiles:
  assumes "inv s" and "ok_size n" and "tiles arena (avail s) L" and "alloc n s = Some (p, s')"
  shows "inv s' \<and> (p = 0 \<longrightarrow> tiles arena (avail s') L) \<and>
    (p \<noteq> 0 \<longrightarrow> 8 dvd p \<and> tiles arena (avail s') (insert (p, cell n) L))"
  using alloc_returns [OF assms(1,2)] assms(3,4) cell_ge [OF assms(2)] tiles_alloc by auto

lemma release_tiles:
  assumes "inv s" and "ok_size n" and "8 dvd p" and "tiles arena (avail s) L"
    and "(p, cell n) \<in> L"
  shows "\<exists>s'. release p n s = Some s' \<and> inv s' \<and>
    tiles arena (avail s') (L - {(p, cell n)}) \<and>
    (\<forall>x. x \<notin> avail s \<union> block p (cell n) \<longrightarrow> word_at s' x = word_at s x)"
proof -
  have "block p (cell n) \<inter> avail s = {}" "block p (cell n) \<subseteq> arena"
    using tilesD(3,4) [OF assms(4,5)] by blast+
  from release_returns [OF assms(1-3) this] show ?thesis
    using tiles_release [OF assms(4,5)] by metis
qed

text \<open>Giving back what was just allocated restores the available bytes.\<close>

lemma alloc_release:
  assumes "inv s" and "ok_size n" and "alloc n s = Some (p, s')" and "p \<noteq> 0"
  shows "\<exists>s''. release p n s' = Some s'' \<and> inv s'' \<and> avail s'' = avail s"
proof -
  have a: "inv s'" "8 dvd p" "block p (cell n) \<subseteq> avail s" "avail s' = avail s - block p (cell n)"
    using alloc_returns [OF assms(1,2)] assms(3,4) by auto
  then show ?thesis
    using release_returns [OF a(1) assms(2) a(2)] avail_arena [OF assms(1)] by fastforce
qed

end

section \<open>The heap meets the contract\<close>

definition ready :: "int \<Rightarrow> tcm \<Rightarrow> bool" where
  "ready q h \<longleftrightarrow> (\<exists>fl. tcm_inv q (ensure_init q h) fl)"

definition avail_bytes :: "int \<Rightarrow> tcm \<Rightarrow> int set" where
  "avail_bytes q h = (\<Union>fl \<in> {fl. tcm_inv q (ensure_init q h) fl}. free_bytes fl)"

definition valid_size :: "int \<Rightarrow> bool" where
  "valid_size n \<longleftrightarrow> 0 \<le> n \<and> n < 2 ^ 31 - 8"

lemma tcm_inv_unique: "tcm_inv q h fl \<Longrightarrow> tcm_inv q h fl' \<Longrightarrow> fl = fl'"
  unfolding tcm_inv_def using chain_unique by blast

lemma avail_bytes_eq: "tcm_inv q (ensure_init q h) fl \<Longrightarrow> avail_bytes q h = free_bytes fl"
  unfolding avail_bytes_def using tcm_inv_unique by blast

lemma inv_ensure_init: "tcm_inv q h fl \<Longrightarrow> ensure_init q h = h"
  by (simp add: tcm_inv_def ensure_init_id)

lemma ensure_init_idem: "ensure_init q (ensure_init q h) = ensure_init q h"
  by (simp add: ensure_init_def tcm_heap_init_def)

lemma allocmem_ensure: "tcm_heap_allocmem q n (ensure_init q h) = tcm_heap_allocmem q n h"
  by (simp add: tcm_heap_allocmem_def ensure_init_idem)

lemma freemem_ensure: "tcm_heap_freemem q p n (ensure_init q h) = tcm_heap_freemem q p n h"
  by (simp add: tcm_heap_freemem_def ensure_init_idem)

lemma fresh_ready:
  assumes "arena_ok q" and "\<not> g_heap_inited h"
  shows "tcm_inv q (ensure_init q h) [(q, sizeof_tcm_heap)]"
  using assms tcm_heap_init_inv by (simp add: ensure_init_def)

lemma ensure_init_frame:
  assumes "arena_ok q" and "x \<notin> avail_bytes q h"
  shows "mem_word (ensure_init q h) x = mem_word h x"
proof (cases "g_heap_inited h")
  case False
  have "avail_bytes q h = block q sizeof_tcm_heap"
    using avail_bytes_eq [OF fresh_ready [OF assms(1) False]] by simp
  then have "x \<noteq> q" "x \<noteq> q + 4" using assms(2) by (auto simp: sizeof_tcm_heap_eq)
  then show ?thesis using False by (simp add: ensure_init_def tcm_heap_init_def heap_access)
qed (simp add: ensure_init_def)

locale tcm_heap_at =
  fixes q :: int
  assumes arena: "arena_ok q"

sublocale tcm_heap_at \<subseteq> block_allocator "tcm_heap_allocmem q" "tcm_heap_freemem q" mem_word
  "ready q" "avail_bytes q" "block q sizeof_tcm_heap" alloc_size valid_size
proof (unfold_locales, goal_cases)
  case (1 n)
  then show ?case using alloc_size_bounds [of n] by (auto simp: valid_size_def)
next
  case (2 s)
  then show ?case by (auto simp: ready_def avail_bytes_def tcm_inv_def)
next
  case (3 s n)
  then obtain fl where fl: "tcm_inv q (ensure_init q s) fl" by (auto simp: ready_def)
  have n: "0 \<le> n" "n < 2 ^ 31 - 8" using "3" by (auto simp: valid_size_def)
  let ?r = "alloc_abs (alloc_size n) fl"
  have an: "8 dvd alloc_size n" "0 < alloc_size n" using alloc_size_bounds [OF n] by auto
  have wf: "wf_chunks q fl" "0 < q" using fl arena by (auto simp: tcm_inv_def arena_ok_def)
  obtain h' where h': "tcm_heap_allocmem q n s = Some (fst ?r, h')" "tcm_inv q h' (snd ?r)"
    "\<forall>x. x \<notin> free_bytes fl \<longrightarrow> mem_word h' x = mem_word (ensure_init q s) x"
    using allocmem_refine [OF fl arena n] by (auto simp: allocmem_ensure)
  have rdy: "ready q h'" and av: "avail_bytes q h' = free_bytes (snd ?r)"
    using h'(2) inv_ensure_init avail_bytes_eq by (auto simp: ready_def)
  have "fst ?r = 0 \<and> free_bytes (snd ?r) = free_bytes fl \<or>
    fst ?r \<noteq> 0 \<and> 8 dvd fst ?r \<and> block (fst ?r) (alloc_size n) \<subseteq> free_bytes fl \<and>
    free_bytes (snd ?r) = free_bytes fl - block (fst ?r) (alloc_size n)"
    using alloc_abs_fail_same [OF wf an(2)] alloc_abs_bytes [OF wf an, of "fst ?r" "snd ?r"]
    by (cases "fst ?r = 0") simp_all
  then show ?case
    using h'(1,3) rdy av avail_bytes_eq [OF fl] ensure_init_frame [OF arena, of _ s] by auto
next
  case (4 s n p)
  then obtain fl where fl: "tcm_inv q (ensure_init q s) fl" by (auto simp: ready_def)
  have n: "0 \<le> n" "n < 2 ^ 31 - 8" using "4"(2) by (auto simp: valid_size_def)
  have an: "8 dvd alloc_size n" "0 < alloc_size n" using alloc_size_bounds [OF n] by auto
  have wf: "wf_chunks q fl" using fl by (simp add: tcm_inv_def)
  have d: "block p (alloc_size n) \<inter> free_bytes fl = {}" using "4"(4) avail_bytes_eq [OF fl] by simp
  have "p \<in> block p (alloc_size n)" using an by simp
  then have "q \<le> p" using "4"(5) by auto
  then have fb: "free_bytes (free_abs p (alloc_size n) fl) = free_bytes fl \<union> block p (alloc_size n)"
    using free_abs_correct [OF wf _ d an(2) "4"(3) an(1)] by simp
  obtain h' where h': "tcm_heap_freemem q p n s = Some h'"
    "tcm_inv q h' (free_abs p (alloc_size n) fl)"
    "\<forall>x. x \<notin> free_bytes fl \<longrightarrow> x \<notin> block p (alloc_size n) \<longrightarrow> mem_word h' x = mem_word (ensure_init q s) x"
    using freemem_refine [OF fl arena n "4"(3) d "4"(5)] by (auto simp: freemem_ensure)
  have "ready q h'" "avail_bytes q h' = free_bytes (free_abs p (alloc_size n) fl)"
    using h'(2) inv_ensure_init avail_bytes_eq by (auto simp: ready_def)
  then show ?case
    using h'(1,3) fb avail_bytes_eq [OF fl] ensure_init_frame [OF arena, of _ s] by auto
qed

text \<open>
  The linker section \<open>.tcm.heap\<close> lies in the window \<open>0x1FFF0000 .. 0x20000000\<close> that
  \<open>tcm_heap_init\<close> hands to \<open>vPortSetExtFree\<close>.
\<close>

interpretation tcm: tcm_heap_at "0x1FFF0000"
  by unfold_locales (simp add: arena_ok_def)

section \<open>Clients of the standard interface\<close>

text \<open>
  The pointers \<open>malloc\<close> handed out and that were not freed yet, with the requested sizes; the
  block behind a pointer starts at the size word before it.
\<close>

definition live_blocks :: "(int \<times> int) set \<Rightarrow> (int \<times> int) set" where
  "live_blocks L = (\<lambda>(p, n). (p - 4, alloc_size (n + 4))) ` L"

text \<open>
  The sizes a client may ask for. The argument of \<open>malloc\<close> is an \<open>int\<close> that the code does not check: with four bytes for the
  size word added and rounded up to a multiple of eight it must stay a positive \<open>int\<close>. A negative size is smaller than
  every chunk and succeeds with a block outside the buffer (\<open>tcm_negative_size_outside\<close>).
\<close>

definition malloc_size :: "int \<Rightarrow> bool" where
  "malloc_size n \<longleftrightarrow> 0 \<le> n \<and> n < 2 ^ 31 - 12"

text \<open>
  The steps of the clients, in any order: \<open>malloc\<close> of an admissible size that succeeds or fails, \<open>free\<close> of a
  pointer that is live, and a write of a word inside the requested bytes of a live block. Clients that ask for a
  negative or an overflowing size, free a pointer twice or write outside their blocks have no step here.
\<close>

inductive tcm_step :: "int \<Rightarrow> tcm \<times> (int \<times> int) set \<Rightarrow> tcm \<times> (int \<times> int) set \<Rightarrow> bool" for q where
  malloc_ok: "malloc_size n \<Longrightarrow> tcm_heap_malloc q n h = Some (p, h') \<Longrightarrow> p \<noteq> 0 \<Longrightarrow>
    tcm_step q (h, L) (h', insert (p, n) L)"
| malloc_null: "malloc_size n \<Longrightarrow> tcm_heap_malloc q n h = Some (0, h') \<Longrightarrow>
    tcm_step q (h, L) (h', L)"
| free_live: "(p, n) \<in> L \<Longrightarrow> tcm_heap_free q p h = Some h' \<Longrightarrow>
    tcm_step q (h, L) (h', L - {(p, n)})"
| client_write: "(p, n) \<in> L \<Longrightarrow> p \<le> x \<Longrightarrow> x + 4 \<le> p + n \<Longrightarrow>
    tcm_step q (h, L) (set_word x v h, L)"

inductive tcm_reachable :: "int \<Rightarrow> tcm \<times> (int \<times> int) set \<Rightarrow> bool" for q where
  boot: "\<not> g_heap_inited h \<Longrightarrow> tcm_reachable q (h, {})"
| step: "tcm_reachable q c \<Longrightarrow> tcm_step q c c' \<Longrightarrow> tcm_reachable q c'"

text \<open>The sizes kept before the blocks are those that were requested.\<close>

definition client_inv :: "int \<Rightarrow> tcm \<times> (int \<times> int) set \<Rightarrow> bool" where
  "client_inv q = (\<lambda>(h, L). ready q h \<and>
     tiles (block q sizeof_tcm_heap) (avail_bytes q h) (live_blocks L) \<and>
     (\<forall>(p, n) \<in> L. malloc_size n \<and> 8 dvd (p - 4) \<and> p \<noteq> 0 \<and> mem_word h (p - 4) = n + 4))"

lemma malloc_valid: "malloc_size n \<Longrightarrow> valid_size (n + 4) \<and> sint32 (n + 4) = n + 4"
  by (simp add: malloc_size_def valid_size_def wrap_simps)

lemma malloc_cell: "malloc_size n \<Longrightarrow> n + 4 \<le> alloc_size (n + 4) \<and> 8 \<le> alloc_size (n + 4)"
  using alloc_size_bounds [of "n + 4"] by (simp add: malloc_size_def)

lemma live_blocks_iff: "(a, m) \<in> live_blocks L \<longleftrightarrow> (\<exists>n. (a + 4, n) \<in> L \<and> m = alloc_size (n + 4))"
  by (force simp: live_blocks_def)

lemma client_invD:
  assumes "client_inv q (h, L)"
  shows "ready q h" and "tiles (block q sizeof_tcm_heap) (avail_bytes q h) (live_blocks L)"
    and "(p, n) \<in> L \<Longrightarrow> malloc_size n \<and> 8 dvd (p - 4) \<and> p \<noteq> 0 \<and> mem_word h (p - 4) = n + 4"
  using assms by (auto simp: client_inv_def)

lemma live_blocks_remove:
  assumes "client_inv q (h, L)" and "(p, n) \<in> L"
  shows "live_blocks (L - {(p, n)}) = live_blocks L - {(p - 4, alloc_size (n + 4))}"
proof -
  have uniq: "n' = n" if "(p, n') \<in> L" for n'
    using client_invD(3) [OF assms(1) assms(2)] client_invD(3) [OF assms(1) that] by simp
  have "(a, m) \<in> live_blocks (L - {(p, n)}) \<longleftrightarrow>
      (a, m) \<in> live_blocks L - {(p - 4, alloc_size (n + 4))}" for a m
  proof (cases "a + 4 = p")
    case True
    then have "(a, m) \<notin> live_blocks (L - {(p, n)})" using uniq by (simp add: live_blocks_iff)
    moreover have "(a, m) \<in> live_blocks L \<Longrightarrow> m = alloc_size (n + 4)"
      using True uniq by (auto simp only: live_blocks_iff)
    moreover have "a = p - 4" using True by simp
    ultimately show ?thesis by blast
  next
    case False
    then have "a \<noteq> p - 4" by auto
    then show ?thesis using False by (simp add: live_blocks_iff)
  qed
  then show ?thesis by (simp add: set_eq_iff split_paired_all)
qed

lemma client_invI:
  assumes "ready q h" and "tiles (block q sizeof_tcm_heap) (avail_bytes q h) (live_blocks L)"
    and "\<And>p n. (p, n) \<in> L \<Longrightarrow>
      malloc_size n \<and> 8 dvd (p - 4) \<and> p \<noteq> 0 \<and> mem_word h (p - 4) = n + 4"
  shows "client_inv q (h, L)"
  unfolding client_inv_def using assms by blast

context tcm_heap_at
begin

lemma poke:
  assumes "ready q h" and "x \<notin> avail_bytes q h"
  shows "ready q (set_word x v h) \<and> avail_bytes q (set_word x v h) = avail_bytes q h"
proof -
  obtain fl where fl: "tcm_inv q (ensure_init q h) fl" using assms(1) by (auto simp: ready_def)
  have "ensure_init q (set_word x v h) = set_word x v (ensure_init q h)"
  proof (cases "g_heap_inited h")
    case False
    have "avail_bytes q h = block q sizeof_tcm_heap"
      using avail_bytes_eq [OF fresh_ready [OF arena False]] by simp
    then have "x \<noteq> q" "x \<noteq> q + 4" using assms(2) by (auto simp: sizeof_tcm_heap_eq)
    then show ?thesis
      using False by (simp add: ensure_init_def tcm_heap_init_def heap_access fun_upd_twist)
  qed (simp add: ensure_init_def set_word_def)
  moreover have "tcm_inv q (set_word x v (ensure_init q h)) fl"
    using fl assms(2) avail_bytes_eq [OF fl] chain_upd by (auto simp: tcm_inv_def set_word_def)
  ultimately have "tcm_inv q (ensure_init q (set_word x v h)) fl" by simp
  then show ?thesis using avail_bytes_eq fl by (auto simp: ready_def)
qed

lemma boot_inv: "\<not> g_heap_inited h \<Longrightarrow> client_inv q (h, {})"
  using fresh_ready [OF arena, of h] avail_bytes_eq [of q h "[(q, sizeof_tcm_heap)]"]
  by (auto simp: client_inv_def live_blocks_def tiles_def ready_def)

lemma malloc_returns:
  assumes inv: "client_inv q (h, L)" and n: "malloc_size n"
  shows "\<exists>p h'. tcm_heap_malloc q n h = Some (p, h') \<and>
    client_inv q (h', if p = 0 then L else insert (p, n) L)"
proof -
  note v = malloc_valid [OF n]
  note r = client_invD(1) [OF inv] and t = client_invD(2) [OF inv] and live = client_invD(3) [OF inv]
  have hdr: "a - 4 \<in> block (a - 4) (alloc_size (m + 4))" "(a - 4, alloc_size (m + 4)) \<in> live_blocks L"
    if "(a, m) \<in> L" for a m
    using that live [OF that] malloc_cell [of m] by (auto simp: live_blocks_def)
  obtain b s where al: "tcm_heap_allocmem q (n + 4) h = Some (b, s)" "ready q s"
    "\<forall>x. x \<notin> avail_bytes q h \<longrightarrow> mem_word s x = mem_word h x"
    "b \<noteq> 0 \<longrightarrow> 8 dvd b \<and> block b (alloc_size (n + 4)) \<subseteq> avail_bytes q h \<and>
       avail_bytes q s = avail_bytes q h - block b (alloc_size (n + 4))"
    using alloc_returns [OF r, of "n + 4"] v by auto
  have at: "b = 0 \<longrightarrow> tiles (block q sizeof_tcm_heap) (avail_bytes q s) (live_blocks L)"
    "b \<noteq> 0 \<longrightarrow> tiles (block q sizeof_tcm_heap) (avail_bytes q s)
       (insert (b, alloc_size (n + 4)) (live_blocks L))"
    using alloc_tiles [OF r _ t al(1)] v by auto
  have keep: "mem_word s (a - 4) = m + 4" if "(a, m) \<in> L" for a m
  proof -
    have "a - 4 \<notin> avail_bytes q h" using tilesD(3) [OF t hdr(2) [OF that]] hdr(1) [OF that] by blast
    then show ?thesis using al(3) live [OF that] by auto
  qed
  show ?thesis
  proof (cases "b = 0")
    case True
    then have "tcm_heap_malloc q n h = Some (0, s)"
      using al(1) v by (simp add: tcm_heap_malloc_def)
    moreover have "client_inv q (s, L)"
      using al(2) at(1) True live keep by (auto simp: client_inv_def)
    ultimately show ?thesis by auto
  next
    case False
    let ?s = "set_word b (n + 4) s"
    have mb: "tcm_heap_malloc q n h = Some (b + 4, ?s)"
      using False al(1) v by (simp add: tcm_heap_malloc_def Let_def)
    have "b \<in> block b (alloc_size (n + 4))" using malloc_cell [OF n] by auto
    then have nb: "b \<notin> avail_bytes q s" "b \<in> avail_bytes q h" using al(4) False by blast+
    have pk: "ready q ?s" "avail_bytes q ?s = avail_bytes q s" using poke [OF al(2) nb(1)] by auto
    have "a - 4 \<noteq> b" if "(a, m) \<in> L" for a m
      using tilesD(3) [OF t hdr(2) [OF that]] hdr(1) [OF that] nb(2) by blast
    then have old: "mem_word ?s (a - 4) = m + 4" if "(a, m) \<in> L" for a m
      using keep [OF that] that by (auto simp: set_word_def)
    have qb: "q \<le> b" using nb(2) avail_arena [OF r] by auto
    have "malloc_size m \<and> 8 dvd (a - 4) \<and> a \<noteq> 0 \<and> mem_word ?s (a - 4) = m + 4"
      if "(a, m) \<in> insert (b + 4, n) L" for a m
    proof (cases "(a, m) \<in> L")
      case True
      then show ?thesis using old [OF True] live [OF True] by simp
    next
      case False
      then have "a = b + 4" "m = n" using that by auto
      then show ?thesis using qb n al(4) \<open>b \<noteq> 0\<close> arena by (simp add: set_word_def arena_ok_def)
    qed
    moreover have "live_blocks (insert (b + 4, n) L) = insert (b, alloc_size (n + 4)) (live_blocks L)"
      by (simp add: live_blocks_def)
    ultimately have "client_inv q (?s, insert (b + 4, n) L)"
      using pk at(2) False by (intro client_invI) simp_all
    moreover have "b + 4 \<noteq> 0" using qb arena by (auto simp: arena_ok_def)
    ultimately show ?thesis using mb by auto
  qed
qed

lemma free_returns:
  assumes inv: "client_inv q (h, L)" and p: "(p, n) \<in> L"
  shows "\<exists>h'. tcm_heap_free q p h = Some h' \<and> client_inv q (h', L - {(p, n)})"
proof -
  note r = client_invD(1) [OF inv] and t = client_invD(2) [OF inv] and live = client_invD(3) [OF inv]
  have blk: "(a - 4, alloc_size (m + 4)) \<in> live_blocks L" if "(a, m) \<in> L" for a m
    using that by (force simp: live_blocks_def)
  have v: "valid_size (n + 4)" using live [OF p] malloc_valid by auto
  obtain h' where h': "tcm_heap_freemem q (p - 4) (n + 4) h = Some h'" "ready q h'"
    "tiles (block q sizeof_tcm_heap) (avail_bytes q h') (live_blocks L - {(p - 4, alloc_size (n + 4))})"
    "\<forall>x. x \<notin> avail_bytes q h \<union> block (p - 4) (alloc_size (n + 4)) \<longrightarrow> mem_word h' x = mem_word h x"
    using release_tiles [OF r v _ t blk [OF p]] live [OF p] by auto
  have "mem_word h' (a - 4) = m + 4" if am: "(a, m) \<in> L - {(p, n)}" for a m
  proof -
    have ne: "(a - 4, alloc_size (m + 4)) \<noteq> (p - 4, alloc_size (n + 4))"
      using am live [of a m] live [OF p] by auto
    have "a - 4 \<in> block (a - 4) (alloc_size (m + 4))" using am live malloc_cell [of m] by auto
    then have "a - 4 \<notin> avail_bytes q h \<union> block (p - 4) (alloc_size (n + 4))"
      using tilesD(3) [OF t blk, of a m] tilesD(5) [OF t blk blk [OF p] ne] am by blast
    then show ?thesis using h'(4) live [of a m] am by auto
  qed
  then have "client_inv q (h', L - {(p, n)})"
    using h'(2,3) live live_blocks_remove [OF inv p] by (auto simp: client_inv_def)
  moreover have "tcm_heap_free q p h = Some h'"
    using h'(1) live [OF p] by (simp add: tcm_heap_free_def)
  ultimately show ?thesis by blast
qed

lemma write_inv:
  assumes inv: "client_inv q (h, L)" and p: "(p, n) \<in> L" and x: "p \<le> x" "x + 4 \<le> p + n"
  shows "client_inv q (set_word x v h, L)"
proof -
  note r = client_invD(1) [OF inv] and t = client_invD(2) [OF inv] and live = client_invD(3) [OF inv]
  have blk: "(a - 4, alloc_size (m + 4)) \<in> live_blocks L" if "(a, m) \<in> L" for a m
    using that by (force simp: live_blocks_def)
  have xin: "x \<in> block (p - 4) (alloc_size (n + 4))" using x live [OF p] malloc_cell [of n] by auto
  then have "x \<notin> avail_bytes q h" using tilesD(3) [OF t blk [OF p]] by blast
  then have pk: "ready q (set_word x v h)" "avail_bytes q (set_word x v h) = avail_bytes q h"
    using poke [OF r] by auto
  have "a - 4 \<noteq> x" if am: "(a, m) \<in> L" for a m
  proof (cases "a = p")
    case False
    have "a - 4 \<in> block (a - 4) (alloc_size (m + 4))" using am live malloc_cell [of m] by auto
    moreover have "(a - 4, alloc_size (m + 4)) \<noteq> (p - 4, alloc_size (n + 4))" using False by simp
    ultimately show ?thesis using tilesD(5) [OF t blk [OF am] blk [OF p]] xin by blast
  qed (use x in auto)
  then have "mem_word (set_word x v h) (a - 4) = mem_word h (a - 4)" if "(a, m) \<in> L" for a m
    using that by (simp add: set_word_def)
  then show ?thesis using pk t live by (intro client_invI) simp_all
qed

lemma reachable_inv: "tcm_reachable q c \<Longrightarrow> client_inv q c"
proof (induction rule: tcm_reachable.induct)
  case (boot h)
  then show ?case by (rule boot_inv)
next
  case (step c c')
  from step(2,3) show ?case
  proof (induction rule: tcm_step.induct)
    case (malloc_ok n h p h' L)
    then show ?case using malloc_returns [of h L n] by auto
  next
    case (malloc_null n h h' L)
    then show ?case using malloc_returns [of h L n] by auto
  next
    case (free_live p n L h h')
    then show ?case using free_returns [of h L p n] by auto
  next
    case (client_write p n L x h v)
    then show ?case using write_inv by blast
  qed
qed

end

end
