(* ===== verification/Tcm_Props.thy ===== *)
theory Tcm_Props
  imports Tcm_Client
begin

text \<open>
  The properties of the TCM heap, stated over the operations of
  \<^verbatim>\<open>component/os/os_dep/tcm_heap.c\<close> and over every sequence of client steps.
\<close>

lemma free_space_walk_refine:
  assumes "chain (mem_word h) p fl" and "wf_chunks lo fl" and "0 \<le> n" and "n + total_free fl < 2 ^ 31"
  shows "free_space_walk p n h = Some (n + total_free fl)"
  using assms
proof (induction lo fl arbitrary: p n rule: wf_chunks.induct)
  case (1 lo)
  then show ?case by (subst free_space_walk.simps) (simp add: total_free_def)
next
  case (2 lo a s r)
  have pos: "0 \<le> total_free r" using total_free_card "2.prems"(2) by auto
  have eq: "total_free ((a, s) # r) = s + total_free r" by (simp add: total_free_def)
  have s: "0 < s" "p = a" "mem_word h (a + 4) = s" using "2.prems" by auto
  have "sint32 (n + s) = n + s" using "2.prems"(3,4) pos eq s by (simp add: wrap_simps)
  moreover have "free_space_walk (mem_word h a) (n + s) h = Some (n + s + total_free r)"
    using "2.IH" "2.prems" eq by auto
  ultimately show ?case
    using "2.prems" s eq by (subst free_space_walk.simps) (simp add: heap_access)
qed

lemma freeSpace_refine:
  assumes "tcm_inv q (ensure_init q h) fl"
  shows "tcm_heap_freeSpace q h = Some (total_free fl, ensure_init q h)"
proof -
  have fl: "chain (mem_word (ensure_init q h)) (FreeList (ensure_init q h)) fl" "wf_chunks q fl"
    "free_bytes fl \<subseteq> block q sizeof_tcm_heap"
    using assms by (auto simp: tcm_inv_def)
  have "total_free fl \<le> int (card (block q sizeof_tcm_heap))"
    unfolding total_free_card [OF fl(2)] using card_mono [OF _ fl(3)] by (simp add: sizeof_tcm_heap_eq)
  then have "total_free fl < 2 ^ 31" by (simp add: sizeof_tcm_heap_eq)
  then show ?thesis using free_space_walk_refine [OF fl(1,2), of 0] by (simp add: tcm_heap_freeSpace_def)
qed

text \<open>A concrete boot state and the first allocation in it, used by the witnesses.\<close>

definition tcm_boot :: tcm where
  "tcm_boot = \<lparr>FreeList = 0, mem_word = (\<lambda>_. 0), g_heap_inited = False\<rparr>"

definition tcm_after_malloc :: tcm where
  "tcm_after_malloc = \<lparr>FreeList = 0x1FFF0000,
     mem_word = (\<lambda>_. 0)(0x1FFF0000 := 0, 0x1FFF0004 := 40856, 0x1FFF9F98 := 104),
     g_heap_inited = True\<rparr>"

lemma arena_ok_tcm: "arena_ok 0x1FFF0000"
  by (simp add: arena_ok_def)

lemma tcm_boot_malloc: "tcm_heap_malloc 0x1FFF0000 100 tcm_boot = Some (0x1FFF9F9C, tcm_after_malloc)"
  by (simp add: tcm_heap_malloc_def tcm_heap_allocmem_def ensure_init_def tcm_heap_init_def tcm_boot_def
      tcm_after_malloc_def heap_access sizeof_tcm_heap_eq alloc_walk.simps alloc_size_def ROUND_UP2_def
      uint32_def sint32_def sizeof_MemChunk_def Let_def fun_eq_iff)

lemma tcm_boot_reachable: "tcm_reachable 0x1FFF0000 (tcm_boot, {})"
  by (rule tcm_reachable.boot) (simp add: tcm_boot_def)

lemma tcm_malloc_reachable: "tcm_reachable 0x1FFF0000 (tcm_after_malloc, {(0x1FFF9F9C, 100)})"
  by (rule tcm_reachable.step [OF tcm_boot_reachable], rule malloc_ok [OF _ tcm_boot_malloc])
     (simp_all add: malloc_size_def)

lemma tcm_boot_inv: "tcm_inv 0x1FFF0000 (tcm_heap_init 0x1FFF0000 tcm_boot) [(0x1FFF0000, 40960)]"
  using tcm_heap_init_inv [OF arena_ok_tcm, of tcm_boot] by (simp add: sizeof_tcm_heap_eq)

text \<open>
  C1: live blocks are disjoint, for a heap buffer aligned to eight bytes. After any sequence of client steps, which are \<open>malloc\<close> of a size from 0 up to
  \<open>2 ^ 31 - 13\<close>, \<open>free\<close> of a live pointer and writes of words inside the requested bytes of live blocks, two live blocks
  never overlap, every live block lies inside the heap buffer, and none of its bytes is on the free list. Other
  sizes are excluded: the code does not check its argument, and \<open>malloc\<close> of a negative size returns a block
  outside the buffer (\<open>tcm_negative_size_outside\<close>).
\<close>

theorem tcm_live_blocks_disjoint:
  assumes "arena_ok q" and "tcm_reachable q (h, L)" and "(p, n) \<in> L"
  shows "block p n \<subseteq> block q sizeof_tcm_heap \<and> block p n \<inter> avail_bytes q h = {} \<and>
    (\<forall>(p', n') \<in> L - {(p, n)}. block p n \<inter> block p' n' = {})"
proof -
  have inv: "client_inv q (h, L)"
    using tcm_heap_at.reachable_inv [OF tcm_heap_at.intro [OF assms(1)] assms(2)] .
  have blk: "(a - 4, alloc_size (m + 4)) \<in> live_blocks L" if "(a, m) \<in> L" for a m
    using that by (force simp: live_blocks_def)
  have sub: "block a m \<subseteq> block (a - 4) (alloc_size (m + 4))" if "(a, m) \<in> L" for a m
    using client_invD(3) [OF inv that] malloc_cell [of m] by auto
  note t = client_invD(2) [OF inv]
  have "block p n \<inter> block a m = {}" if am: "(a, m) \<in> L - {(p, n)}" for a m
  proof -
    have "(p - 4, alloc_size (n + 4)) \<noteq> (a - 4, alloc_size (m + 4))"
      using am client_invD(3) [OF inv assms(3)] client_invD(3) [OF inv, of a m] by auto
    then show ?thesis
      using tilesD(5) [OF t blk [OF assms(3)] blk, of a m] sub [OF assms(3)] sub [of a m] am by blast
  qed
  then show ?thesis
    using tilesD(3,4) [OF t blk [OF assms(3)]] sub [OF assms(3)] by blast
qed

theorem tcm_live_blocks_disjoint_witness:
  "block 0x1FFF9F9C 100 \<subseteq> block 0x1FFF0000 sizeof_tcm_heap \<and>
   block 0x1FFF9F9C 100 \<inter> avail_bytes 0x1FFF0000 tcm_after_malloc = {}"
  using tcm_live_blocks_disjoint [OF arena_ok_tcm tcm_malloc_reachable, of "0x1FFF9F9C" 100] by simp

text \<open>
  The size is not checked: the first \<open>malloc(-100)\<close> succeeds, and the block it returns begins behind the end of the
  heap buffer, whose last byte is at \<open>0x1FFF9FFF\<close>.
\<close>

theorem tcm_negative_size_outside:
  "map_option fst (tcm_heap_malloc 0x1FFF0000 (-100) tcm_boot) = Some 0x1FFFA064"
  by (simp add: tcm_heap_malloc_def tcm_heap_allocmem_def ensure_init_def tcm_heap_init_def tcm_boot_def
      heap_access sizeof_tcm_heap_eq alloc_walk.simps alloc_size_def ROUND_UP2_def
      uint32_def sint32_def sizeof_MemChunk_def Let_def)

text \<open>
  C23: in every reachable state \<open>malloc\<close> of a non-negative size below \<open>2 ^ 31 - 12\<close> returns (a block or \<open>NULL\<close>) and
  \<open>free\<close> of a live pointer returns: no walk over the free list runs forever.
\<close>

theorem tcm_operations_return:
  assumes "arena_ok q" and "tcm_reachable q (h, L)"
  shows "(\<forall>n. malloc_size n \<longrightarrow> (\<exists>p h'. tcm_heap_malloc q n h = Some (p, h'))) \<and>
    (\<forall>(p, n) \<in> L. \<exists>h'. tcm_heap_free q p h = Some h')"
proof -
  have at: "tcm_heap_at q" using assms(1) by (rule tcm_heap_at.intro)
  have inv: "client_inv q (h, L)" using tcm_heap_at.reachable_inv [OF at assms(2)] .
  show ?thesis
    using tcm_heap_at.malloc_returns [OF at inv] tcm_heap_at.free_returns [OF at inv] by blast
qed

theorem tcm_operations_return_witness:
  "malloc_size 12 \<and> (\<exists>p h'. tcm_heap_malloc 0x1FFF0000 12 tcm_after_malloc = Some (p, h')) \<and>
   (\<exists>h'. tcm_heap_free 0x1FFF0000 0x1FFF9F9C tcm_after_malloc = Some h')"
  using tcm_operations_return [OF arena_ok_tcm tcm_malloc_reachable] by (simp add: malloc_size_def)

text \<open>
  C24: once every live block has been freed the heap is whole again: the free list is the single
  chunk the heap started with, and \<open>tcm_heap_freeSpace\<close> reports the whole buffer.
\<close>

theorem tcm_all_freed_is_whole:
  assumes "arena_ok q" and "tcm_reachable q (h, {})"
  shows "tcm_inv q (ensure_init q h) [(q, sizeof_tcm_heap)] \<and>
    tcm_heap_freeSpace q h = Some (sizeof_tcm_heap, ensure_init q h)"
proof -
  have inv: "client_inv q (h, {})"
    using tcm_heap_at.reachable_inv [OF tcm_heap_at.intro [OF assms(1)] assms(2)] .
  obtain fl where fl: "tcm_inv q (ensure_init q h) fl"
    using client_invD(1) [OF inv] by (auto simp: ready_def)
  have "free_bytes fl = block q sizeof_tcm_heap"
    using tilesD(1) [OF client_invD(2) [OF inv]] avail_bytes_eq [OF fl] by (simp add: live_blocks_def)
  then have "fl = [(q, sizeof_tcm_heap)]"
    using fl assms(1) free_bytes_inject [of q fl "[(q, sizeof_tcm_heap)]"]
    by (simp add: tcm_inv_def arena_ok_def sizeof_tcm_heap_eq)
  then show ?thesis using fl freeSpace_refine [OF fl] by (simp add: total_free_def)
qed

theorem tcm_all_freed_is_whole_witness:
  "tcm_heap_freeSpace 0x1FFF0000 tcm_boot = Some (sizeof_tcm_heap, ensure_init 0x1FFF0000 tcm_boot)"
  using tcm_all_freed_is_whole [OF arena_ok_tcm tcm_boot_reachable] by simp

text \<open>
  \<open>tcm_heap_allocmem\<close> refines first-fit allocation on the abstract free list: it returns the
  abstract result, keeps the heap invariant, answers \<open>NULL\<close> exactly when no free chunk is large
  enough, and leaves every word outside the free list alone.
\<close>

theorem tcm_allocmem_first_fit:
  assumes "arena_ok q" and "tcm_inv q h fl" and "0 \<le> n" and "n < 2 ^ 31 - 8"
  shows "\<exists>p h'. tcm_heap_allocmem q n h = Some (p, h') \<and> p = fst (alloc_abs (alloc_size n) fl) \<and>
    tcm_inv q h' (snd (alloc_abs (alloc_size n) fl)) \<and>
    (p = 0 \<longleftrightarrow> (\<forall>c \<in> set fl. snd c < alloc_size n)) \<and>
    (\<forall>x. x \<notin> free_bytes fl \<longrightarrow> mem_word h' x = mem_word h x)"
proof -
  have "wf_chunks q fl" "0 < q" "0 < alloc_size n"
    using assms alloc_size_bounds [OF assms(3,4)] by (auto simp: tcm_inv_def arena_ok_def)
  then show ?thesis
    using allocmem_refine [OF assms(2,1,3,4)] alloc_abs_fail_iff [of q fl "alloc_size n"] by auto
qed

theorem tcm_allocmem_first_fit_witness:
  "\<exists>p h'. tcm_heap_allocmem 0x1FFF0000 16 (tcm_heap_init 0x1FFF0000 tcm_boot) = Some (p, h') \<and>
    tcm_inv 0x1FFF0000 h' [(0x1FFF0000, 40944)]"
  using tcm_allocmem_first_fit [OF arena_ok_tcm tcm_boot_inv, of 16] by (auto simp: alloc_size_eq)

text \<open>
  Freeing a block that was just allocated brings the free list back to what it was, chunk by
  chunk: the coalescing in \<open>tcm_heap_freemem\<close> undoes the split in \<open>tcm_heap_allocmem\<close>.
\<close>

theorem tcm_alloc_free_roundtrip:
  assumes "arena_ok q" and "tcm_inv q h fl" and "valid_size n"
    and "tcm_heap_allocmem q n h = Some (p, h')" and "p \<noteq> 0"
  shows "\<exists>h''. tcm_heap_freemem q p n h' = Some h'' \<and> tcm_inv q h'' fl"
proof -
  let ?n = "alloc_size n" and ?fl = "snd (alloc_abs (alloc_size n) fl)"
  have n: "0 \<le> n" "n < 2 ^ 31 - 8" using assms(3) by (auto simp: valid_size_def)
  have an: "8 dvd ?n" "0 < ?n" using alloc_size_bounds [OF n] by auto
  have wf: "wf_chunks q fl" "0 < q" using assms(1,2) by (auto simp: tcm_inv_def arena_ok_def)
  have a: "tcm_inv q h' ?fl" "fst (alloc_abs ?n fl) = p"
    using allocmem_refine [OF assms(2,1) n] assms(4) by auto
  have b: "q \<le> p" "8 dvd p" "block p ?n \<subseteq> free_bytes fl"
    "free_bytes ?fl = free_bytes fl - block p ?n"
    using alloc_abs_bytes [OF wf an, of p ?fl] a(2) assms(5) by (metis prod.collapse)+
  have sub: "block p ?n \<subseteq> block q sizeof_tcm_heap" and disj: "block p ?n \<inter> free_bytes ?fl = {}"
    using b(3,4) assms(2) unfolding tcm_inv_def by blast+
  obtain h'' where h'': "tcm_heap_freemem q p n h' = Some h''" "tcm_inv q h'' (free_abs p ?n ?fl)"
    using freemem_refine [OF a(1) assms(1) n b(2) disj sub] by blast
  have "wf_chunks q ?fl" using a(1) by (simp add: tcm_inv_def)
  then have "wf_chunks q (free_abs p ?n ?fl)" "free_bytes (free_abs p ?n ?fl) = free_bytes fl"
    using free_abs_correct [OF _ b(1) disj an(2) b(2) an(1)] b(3,4) by auto
  then have "free_abs p ?n ?fl = fl" using free_bytes_inject wf(1) by blast
  then show ?thesis using h'' by simp
qed

theorem tcm_alloc_free_roundtrip_witness:
  "\<exists>h' h''. tcm_heap_allocmem 0x1FFF0000 16 (tcm_heap_init 0x1FFF0000 tcm_boot) = Some (0x1FFF9FF0, h') \<and>
     tcm_heap_freemem 0x1FFF0000 0x1FFF9FF0 16 h' = Some h'' \<and>
     tcm_inv 0x1FFF0000 h'' [(0x1FFF0000, 40960)]"
proof -
  obtain h' where "tcm_heap_allocmem 0x1FFF0000 16 (tcm_heap_init 0x1FFF0000 tcm_boot) = Some (0x1FFF9FF0, h')"
    using allocmem_refine [OF tcm_boot_inv arena_ok_tcm, of 16] by (auto simp: alloc_size_eq)
  moreover from this have "\<exists>h''. tcm_heap_freemem 0x1FFF0000 0x1FFF9FF0 16 h' = Some h'' \<and>
     tcm_inv 0x1FFF0000 h'' [(0x1FFF0000, 40960)]"
    by (intro tcm_alloc_free_roundtrip [OF arena_ok_tcm tcm_boot_inv]) (simp_all add: valid_size_def)
  ultimately show ?thesis by blast
qed

end
