(* ===== verification/Dhcps_Table.thy ===== *)
theory Dhcps_Table
  imports RTL_Prelude
begin

text \<open>
  The lease table of the DHCP server, \<^verbatim>\<open>component/common/network/dhcp/dhcps.c\<close>: a bit per host
  number in eight 32-bit words and the hardware address last seen on each host number.

  Shift counts come from registers on this target (Cortex-M4): the instructions use the low
  byte of the count and give 0 from 32 on. The source leaves that range to the hardware (it is
  undefined in C), and two places of the code reach it, so the count is explicit in the model.
\<close>

section \<open>Shifts by a register\<close>

definition arm_lsl :: "u32 \<Rightarrow> int \<Rightarrow> u32" where
  "arm_lsl w n = (if n mod 256 < 32 then push_bit (nat (n mod 256)) w else 0)"

definition arm_lsr :: "u32 \<Rightarrow> int \<Rightarrow> u32" where
  "arm_lsr w n = (if n mod 256 < 32 then drop_bit (nat (n mod 256)) w else 0)"

lemma arm_lsl_in: "0 \<le> n \<Longrightarrow> n < 32 \<Longrightarrow> arm_lsl w n = push_bit (nat n) w"
  by (simp add: arm_lsl_def)

lemma arm_lsr_in: "0 \<le> n \<Longrightarrow> n < 32 \<Longrightarrow> arm_lsr w n = drop_bit (nat n) w"
  by (simp add: arm_lsr_def)

section \<open>The table and its operations\<close>

definition DHCP_POOL_START :: nat where "DHCP_POOL_START = 100"

definition DHCP_POOL_END :: nat where "DHCP_POOL_END = 200"

record table =
  ip_range :: "u32 list"
  client_mac :: "bytes list"

definition zero_table :: table where
  "zero_table = \<lparr>ip_range = replicate 8 0, client_mac = replicate 256 (replicate 6 0)\<rparr>"

text \<open>\<open>MARK_RANGEk_IP_BIT\<close>: the word \<open>k - 1\<close> with the bit \<open>ip - 1\<close> set.\<close>

definition MARK_RANGE_IP_BIT :: "nat \<Rightarrow> table \<Rightarrow> int \<Rightarrow> table" where
  "MARK_RANGE_IP_BIT k t ip =
     t\<lparr>ip_range := (ip_range t)[k := (ip_range t ! k) OR arm_lsl 1 (ip - 1)]\<rparr>"

definition mark_ip_in_table :: "u8 \<Rightarrow> table \<Rightarrow> table" where
  "mark_ip_in_table d8 t =
     (let d = uint d8 in
      if 0 < d \<and> d \<le> 32 then MARK_RANGE_IP_BIT 0 t d
      else if 32 < d \<and> d \<le> 64 then MARK_RANGE_IP_BIT 1 t (d - 32)
      else if 64 < d \<and> d \<le> 96 then MARK_RANGE_IP_BIT 2 t (d - 64)
      else if 96 < d \<and> d \<le> 128 then MARK_RANGE_IP_BIT 3 t (d - 96)
      else if 128 < d \<and> d \<le> 160 then MARK_RANGE_IP_BIT 4 t d
      else if 160 < d \<and> d \<le> 192 then MARK_RANGE_IP_BIT 5 t (d - 160)
      else if 192 < d \<and> d \<le> 224 then MARK_RANGE_IP_BIT 6 t (d - 192)
      else if 224 < d then MARK_RANGE_IP_BIT 7 t (d - 224)
      else t)"

text \<open>\<open>save_client_addr\<close>: \<open>d\<close> is the last byte of the address.\<close>

definition save_client_addr :: "u8 \<Rightarrow> bytes \<Rightarrow> table \<Rightarrow> table" where
  "save_client_addr d hwaddr t =
     t\<lparr>client_mac := (client_mac t)[unat d := take 6 hwaddr]\<rparr>"

text \<open>The test in the loop of \<open>check_client_request_ip\<close>.\<close>

definition client_holds :: "table \<Rightarrow> bytes \<Rightarrow> nat \<Rightarrow> bool" where
  "client_holds t hwaddr i \<longleftrightarrow> client_mac t ! i = take 6 hwaddr \<and>
     arm_lsr (ip_range t ! (i div 32)) (int (i mod 32) - 1) AND 1 \<noteq> 0"

definition check_client_request_ip :: "table \<Rightarrow> bytes \<Rightarrow> u8" where
  "check_client_request_ip t hwaddr =
     (case find (client_holds t hwaddr) [DHCP_POOL_START..<Suc DHCP_POOL_END] of
        Some i \<Rightarrow> of_nat i
      | None \<Rightarrow> 0)"

text \<open>
  \<open>search_next_ip\<close>: the two nested loops visit the bits in the order of the host numbers; the
  first free one between \<open>start\<close> and \<open>end\<close> is returned.
\<close>

definition host_order :: "(nat \<times> nat) list" where
  "host_order = concat (map (\<lambda>r. map (\<lambda>i. (r, i)) [0..<32]) [0..<8])"

definition search_next_ip :: "u8 \<Rightarrow> u8 \<Rightarrow> table \<Rightarrow> u8" where
  "search_next_ip start end t =
     (case find (\<lambda>(range_count, offset_count).
              drop_bit offset_count (ip_range t ! range_count) AND 1 = 0 \<and>
              int (range_count * 32 + (offset_count + 1)) \<ge> uint start \<and>
              int (range_count * 32 + (offset_count + 1)) \<le> uint end) host_order of
        Some (range_count, offset_count) \<Rightarrow> of_nat (range_count * 32 + (offset_count + 1))
      | None \<Rightarrow> 0)"

section \<open>The bit of a host number\<close>

definition table_ok :: "table \<Rightarrow> bool" where
  "table_ok t \<longleftrightarrow> length (ip_range t) = 8 \<and> length (client_mac t) = 256"

definition marked :: "table \<Rightarrow> nat \<Rightarrow> bool" where
  "marked t d \<longleftrightarrow> 0 < d \<and> d \<le> 256 \<and> bit (ip_range t ! ((d - 1) div 32)) ((d - 1) mod 32)"

text \<open>The host numbers whose bit \<open>mark_ip_in_table\<close> really sets.\<close>

definition markable :: "nat \<Rightarrow> bool" where
  "markable d \<longleftrightarrow> 0 < d \<and> d \<le> 255 \<and> \<not> (128 < d \<and> d \<le> 160)"

lemma table_ok_mark: "table_ok t \<Longrightarrow> table_ok (MARK_RANGE_IP_BIT k t ip)"
  by (simp add: table_ok_def MARK_RANGE_IP_BIT_def)

lemma table_ok_ops [simp]:
  "table_ok t \<Longrightarrow> table_ok (mark_ip_in_table d t)"
  "table_ok t \<Longrightarrow> table_ok (save_client_addr d a t)"
  "table_ok zero_table"
  by (simp_all add: mark_ip_in_table_def Let_def table_ok_mark, simp_all add: table_ok_def save_client_addr_def zero_table_def)

lemma marked_zero_table [simp]: "\<not> marked zero_table d"
proof (cases "0 < d \<and> d \<le> 256")
  case True
  then have "(d - 1) div 32 < 8" by auto
  then show ?thesis by (simp add: marked_def zero_table_def)
qed (auto simp: marked_def)

lemma marked_save [simp]: "marked (save_client_addr d a t) e \<longleftrightarrow> marked t e"
  by (simp add: marked_def save_client_addr_def)

lemma bit_or_lsl:
  assumes "0 < ip" and "ip \<le> 32" and "m < 32"
  shows "bit (w OR arm_lsl 1 (ip - 1)) m \<longleftrightarrow> bit w m \<or> int m = ip - 1"
  using assms by (auto simp: arm_lsl_in bit_or_iff bit_push_bit_iff bit_1_iff bit_exp_iff)

lemma marked_MARK:
  assumes "table_ok t" and "k < 8" and "0 < ip" and "ip \<le> 32"
  shows "marked (MARK_RANGE_IP_BIT k t ip) e \<longleftrightarrow> marked t e \<or> int e = 32 * int k + ip"
proof (cases "0 < e \<and> e \<le> 256")
  case True
  have "(e - 1) div 32 < 8" "(e - 1) mod 32 < 32" using True by auto
  moreover have "int e = 32 * int k + ip \<longleftrightarrow> (e - 1) div 32 = k \<and> int ((e - 1) mod 32) = ip - 1"
  proof -
    obtain i where i: "ip = int i + 1" "i < 32"
      using assms(3,4) that [of "nat (ip - 1)"] by auto
    obtain j where j: "e = Suc j" using True by (cases e) auto
    have "j = 32 * k + i \<longleftrightarrow> j div 32 = k \<and> j mod 32 = i" using i(2) by auto
    then show ?thesis using i j by auto
  qed
  ultimately show ?thesis
    using assms True
    by (auto simp: marked_def MARK_RANGE_IP_BIT_def table_ok_def nth_list_update bit_or_lsl)
qed (use assms in \<open>auto simp: marked_def\<close>)

lemma MARK_out_of_range:
  assumes "128 < ip" and "ip \<le> 160"
  shows "MARK_RANGE_IP_BIT k t ip = t"
  using assms by (simp add: MARK_RANGE_IP_BIT_def arm_lsl_def)

lemma marked_mark_ip:
  assumes "table_ok t"
  shows "marked (mark_ip_in_table d t) e \<longleftrightarrow> marked t e \<or> markable (unat d) \<and> e = unat d"
proof -
  obtain n where n: "unat d = n" "uint d = int n" "n < 256" by (rule byte_cases)
  show ?thesis
    using assms n(3) unfolding mark_ip_in_table_def n(1) n(2) Let_def
    by (auto simp: marked_MARK MARK_out_of_range markable_def)
qed

lemma mark_ip_unmarkable:
  "\<not> markable (unat d) \<Longrightarrow> mark_ip_in_table d t = t"
proof -
  assume a: "\<not> markable (unat d)"
  obtain n where n: "unat d = n" "uint d = int n" "n < 256" by (rule byte_cases)
  show ?thesis
    using a n(3) unfolding mark_ip_in_table_def n(1) n(2) Let_def markable_def
    by (auto simp: MARK_out_of_range)
qed

subsection \<open>Searching a free host number\<close>

lemma host_order_eq: "host_order = map (\<lambda>n. (n div 32, n mod 32)) [0..<256]"
  unfolding host_order_def by code_simp

lemma and_1_bit: "(drop_bit n (w :: u32) AND 1 = 0) \<longleftrightarrow> \<not> bit w n"
  by (simp add: bit_iff_odd_drop_bit and_one_eq even_iff_mod_2_eq_zero)

lemma search_next_ip_find:
  "search_next_ip start end t =
     (case find (\<lambda>d. \<not> marked t d \<and> unat start \<le> d \<and> d \<le> unat end) [1..<257] of
        Some d \<Rightarrow> of_nat d | None \<Rightarrow> 0)"
proof -
  obtain a where a: "unat start = a" "uint start = int a" by (rule byte_cases)
  obtain b where b: "unat end = b" "uint end = int b" by (rule byte_cases)
  have upt: "[1..<257] = map Suc [0..<256]" by (simp add: map_Suc_upt)
  have "(drop_bit (n mod 32) (ip_range t ! (n div 32)) AND 1 = 0) \<longleftrightarrow> \<not> marked t (Suc n)"
    if "n < 256" for n
    using that by (simp add: and_1_bit marked_def)
  moreover have "n div 32 * 32 + (n mod 32 + 1) = Suc n" for n :: nat
    by simp
  ultimately have "find ((\<lambda>(r, i). drop_bit i (ip_range t ! r) AND 1 = 0 \<and>
        int (r * 32 + (i + 1)) \<ge> int a \<and> int (r * 32 + (i + 1)) \<le> int b) \<circ> (\<lambda>n. (n div 32, n mod 32))) [0..<256]
      = find ((\<lambda>d. \<not> marked t d \<and> a \<le> d \<and> d \<le> b) \<circ> Suc) [0..<256]"
    by (intro find_cong refl) (simp only: comp_def case_prod_conv of_nat_le_iff set_upt atLeastLessThan_iff)
  moreover have "(of_nat (n div 32 * 32 + (n mod 32 + 1)) :: u8) = of_nat (Suc n)" for n :: nat
    by (simp only: add.assoc [symmetric] div_mult_mod_eq) simp
  ultimately show ?thesis
    unfolding search_next_ip_def host_order_eq upt find_map a b
    by (cases "find ((\<lambda>d. \<not> marked t d \<and> a \<le> d \<and> d \<le> b) \<circ> Suc) [0..<256]")
       (simp_all only: option.map option.case case_prod_conv)
qed

lemma search_next_ip_Some:
  assumes "search_next_ip start end t = d" and "d \<noteq> 0"
  shows "unat start \<le> unat d \<and> unat d \<le> unat end \<and> \<not> marked t (unat d) \<and>
    (\<forall>e. 0 < e \<longrightarrow> unat start \<le> e \<longrightarrow> e < unat d \<longrightarrow> marked t e)"
proof -
  obtain i where i: "find (\<lambda>d. \<not> marked t d \<and> unat start \<le> d \<and> d \<le> unat end) [1..<257] = Some i"
    "d = of_nat i"
    using assms unfolding search_next_ip_find by (auto split: option.splits)
  obtain b where b: "unat end = b" "b < 256" by (rule byte_cases)
  have p: "\<not> marked t i" "unat start \<le> i" "i \<le> b"
    "\<forall>j. 1 \<le> j \<longrightarrow> j < i \<longrightarrow> \<not> (\<not> marked t j \<and> unat start \<le> j \<and> j \<le> b)"
    using i(1) unfolding find_upt_Some b by auto
  have "unat d = i" using i(2) p(3) b(2) by (simp add: unat_of_nat take_bit_nat_eq_self)
  then show ?thesis using p b by (auto simp: Suc_le_eq)
qed

lemma search_next_ip_None:
  "search_next_ip start end t = 0 \<longleftrightarrow>
     (\<forall>e. 0 < e \<longrightarrow> unat start \<le> e \<longrightarrow> e \<le> unat end \<longrightarrow> marked t e)"
proof
  obtain b where b: "unat end = b" "b < 256" by (rule byte_cases)
  {
    assume "search_next_ip start end t = 0"
    have "find (\<lambda>d. \<not> marked t d \<and> unat start \<le> d \<and> d \<le> unat end) [1..<257] = None"
    proof (rule ccontr)
      assume "find (\<lambda>d. \<not> marked t d \<and> unat start \<le> d \<and> d \<le> unat end) [1..<257] \<noteq> None"
      then obtain i where i: "find (\<lambda>d. \<not> marked t d \<and> unat start \<le> d \<and> d \<le> unat end) [1..<257] = Some i"
        by auto
      then have "1 \<le> i" "i < 256" using b unfolding find_upt_Some by auto
      moreover have "(of_nat i :: u8) = 0"
        using i \<open>search_next_ip start end t = 0\<close> by (simp add: search_next_ip_find)
      ultimately show False
        using unat_of_nat [of i, where ?'a = 8] by (simp add: take_bit_nat_eq_self)
    qed
    then have "marked t e" if "0 < e" "unat start \<le> e" "e \<le> unat end" for e
      using that b unfolding find_upt_None by (auto dest: spec [of _ e])
    then show "\<forall>e. 0 < e \<longrightarrow> unat start \<le> e \<longrightarrow> e \<le> unat end \<longrightarrow> marked t e" by blast
  }
  assume "\<forall>e. 0 < e \<longrightarrow> unat start \<le> e \<longrightarrow> e \<le> unat end \<longrightarrow> marked t e"
  then have "find (\<lambda>d. \<not> marked t d \<and> unat start \<le> d \<and> d \<le> unat end) [1..<257] = None"
    unfolding find_upt_None by auto
  then show "search_next_ip start end t = 0" by (simp add: search_next_ip_find)
qed

subsection \<open>Recognising a client\<close>

text \<open>
  For host numbers divisible by 32 the shift count is negative and the test never succeeds;
  for the others it reads the bit that \<open>mark_ip_in_table\<close> sets.
\<close>

lemma client_holds_iff:
  assumes "0 < i" and "i \<le> 255"
  shows "client_holds t a i \<longleftrightarrow> client_mac t ! i = take 6 a \<and> i mod 32 \<noteq> 0 \<and> marked t i"
proof (cases "i mod 32 = 0")
  case True
  then show ?thesis by (simp add: client_holds_def arm_lsr_def)
next
  case False
  obtain q r where "i = 32 * q + Suc r" "Suc r < 32"
    using False that [of "i div 32" "i mod 32 - 1"] by auto
  then have "(i - 1) div 32 = i div 32" "(i - 1) mod 32 = i mod 32 - 1" by auto
  then show ?thesis
    using False assms by (simp add: client_holds_def arm_lsr_in and_1_bit marked_def nat_diff_distrib)
qed

lemma check_client_Some:
  assumes "check_client_request_ip t a = d" and "d \<noteq> 0"
  shows "client_mac t ! unat d = take 6 a \<and> marked t (unat d) \<and> unat d mod 32 \<noteq> 0 \<and>
    100 \<le> unat d \<and> unat d \<le> 200"
proof -
  obtain i where i: "find (client_holds t a) [DHCP_POOL_START..<Suc DHCP_POOL_END] = Some i"
    "d = of_nat i"
    using assms unfolding check_client_request_ip_def by (auto split: option.splits)
  then have "100 \<le> i" "i \<le> 200" "client_holds t a i"
    unfolding find_upt_Some by (auto simp: DHCP_POOL_START_def DHCP_POOL_END_def)
  moreover have "unat d = i"
    using i(2) \<open>i \<le> 200\<close> by (simp add: unat_of_nat take_bit_nat_eq_self)
  ultimately show ?thesis using client_holds_iff [of i t a] by auto
qed

section \<open>The contract of a host table\<close>

text \<open>What the server relies on: marking adds one host number at most and forgets none.\<close>

locale host_table =
  fixes mark :: "'k \<Rightarrow> 't \<Rightarrow> 't"
    and is_marked :: "'t \<Rightarrow> 'k \<Rightarrow> bool"
    and ok :: "'t \<Rightarrow> bool"
    and settable :: "'k \<Rightarrow> bool"
  assumes ok_mark: "ok t \<Longrightarrow> ok (mark d t)"
    and marked_mark: "ok t \<Longrightarrow> is_marked (mark d t) e \<longleftrightarrow> is_marked t e \<or> settable d \<and> e = d"
begin

lemma ok_fold: "ok t \<Longrightarrow> ok (fold mark ds t)"
  by (induction ds arbitrary: t) (auto simp: ok_mark)

lemma marked_fold:
  "ok t \<Longrightarrow> is_marked (fold mark ds t) e \<longleftrightarrow> is_marked t e \<or> settable e \<and> e \<in> set ds"
  by (induction ds arbitrary: t) (auto simp: ok_mark marked_mark)

lemma mark_mono: "ok t \<Longrightarrow> is_marked t e \<Longrightarrow> is_marked (mark d t) e"
  by (simp add: marked_mark)

end

interpretation dhcps_table: host_table mark_ip_in_table "\<lambda>t d. marked t (unat d)" table_ok
  "\<lambda>d. markable (unat d)"
  by unfold_locales (auto simp: marked_mark_ip word_unat_eq_iff)

end
