(* ===== verification/Dhcps.thy ===== *)
theory Dhcps
  imports Dhcps_Table
begin

text \<open>
  The DHCP server proper, \<^verbatim>\<open>component/common/network/dhcp/dhcps.c\<close>: option parsing, the
  request state machine, the replies and the receive handler, over a record of the file's
  static variables.

  A packet buffer is the memory from its payload pointer on, indexed by the offset, together
  with the length the stack knows; reads and writes past the length are therefore visible. The
  network stack's own functions appear as events (send, free, disconnect) or as parameters.
\<close>

section \<open>Addresses, buffers and the server state\<close>

datatype ip_addr = IP (ip4_addr1: u8) (ip4_addr2: u8) (ip4_addr3: u8) (ip4_addr4: u8)

definition ip_bytes :: "ip_addr \<Rightarrow> bytes" where
  "ip_bytes a = [ip4_addr1 a, ip4_addr2 a, ip4_addr3 a, ip4_addr4 a]"

definition ip_zero :: ip_addr where "ip_zero = IP 0 0 0 0"

text \<open>Bitwise operations on the 32-bit \<open>addr\<close> field act byte by byte.\<close>

definition ip_and :: "ip_addr \<Rightarrow> ip_addr \<Rightarrow> ip_addr" where
  "ip_and a b = IP (ip4_addr1 a AND ip4_addr1 b) (ip4_addr2 a AND ip4_addr2 b)
     (ip4_addr3 a AND ip4_addr3 b) (ip4_addr4 a AND ip4_addr4 b)"

definition ip_or_not :: "ip_addr \<Rightarrow> ip_addr \<Rightarrow> ip_addr" where
  "ip_or_not a b = IP (ip4_addr1 a OR NOT (ip4_addr1 b)) (ip4_addr2 a OR NOT (ip4_addr2 b))
     (ip4_addr3 a OR NOT (ip4_addr3 b)) (ip4_addr4 a OR NOT (ip4_addr4 b))"

definition ntohl_ip :: "ip_addr \<Rightarrow> u32" where
  "ntohl_ip a = push_bit 24 (ucast (ip4_addr1 a)) OR push_bit 16 (ucast (ip4_addr2 a)) OR
     push_bit 8 (ucast (ip4_addr3 a)) OR ucast (ip4_addr4 a)"

definition htonl_ip :: "u32 \<Rightarrow> ip_addr" where
  "htonl_ip w = IP (ucast (drop_bit 24 w)) (ucast (drop_bit 16 w)) (ucast (drop_bit 8 w)) (ucast w)"

type_synonym mem = "int \<Rightarrow> u8"

definition put :: "int \<Rightarrow> bytes \<Rightarrow> mem \<Rightarrow> mem" where
  "put off bs m = (\<lambda>i. if off \<le> i \<and> i < off + int (length bs) then bs ! nat (i - off) else m i)"

definition get :: "mem \<Rightarrow> int \<Rightarrow> nat \<Rightarrow> bytes" where
  "get m off n = map (\<lambda>k. m (off + int k)) [0..<n]"

record pbuf =
  pb_id :: nat
  len :: int
  tot_len :: int
  has_next :: bool
  payload :: mem

record netif =
  nif_ip :: ip_addr
  nif_netmask :: ip_addr
  nif_gw :: ip_addr

record dhcps =
  dhcp_server_state_machine :: u8
  dhcp_recorded_xid :: bytes
  dhcps_pcb :: bool
  dhcps_local_address :: ip_addr
  dhcps_local_mask :: ip_addr
  dhcps_local_gateway :: ip_addr
  dhcps_network_id :: ip_addr
  dhcps_subnet_broadcast :: ip_addr
  dhcps_allocated_client_address :: ip_addr
  dhcps_addr_pool_set :: bool
  dhcps_addr_pool_start :: ip_addr
  dhcps_addr_pool_end :: ip_addr
  dhcps_owned_first_ip :: ip_addr
  dhcps_owned_last_ip :: ip_addr
  dhcps_num_of_available_ips :: u8
  dhcp_message_total_options_lenth :: int
  ip_table :: table
  client_request_ip :: ip_addr
  client_addr :: bytes
  dhcps_ip_table_semaphore :: bool

datatype dhcps_event = Touched nat | Sent bytes | Disconnected | Freed nat

abbreviation (input) DHCP_SERVER_STATE_OFFER :: u8 where "DHCP_SERVER_STATE_OFFER \<equiv> 1"
abbreviation (input) DHCP_SERVER_STATE_ACK :: u8 where "DHCP_SERVER_STATE_ACK \<equiv> 3"
abbreviation (input) DHCP_SERVER_STATE_NAK :: u8 where "DHCP_SERVER_STATE_NAK \<equiv> 4"
abbreviation (input) DHCP_SERVER_STATE_IDLE :: u8 where "DHCP_SERVER_STATE_IDLE \<equiv> 5"
abbreviation (input) DHCP_MESSAGE_TYPE_DISCOVER :: u8 where "DHCP_MESSAGE_TYPE_DISCOVER \<equiv> 1"
abbreviation (input) DHCP_MESSAGE_TYPE_OFFER :: u8 where "DHCP_MESSAGE_TYPE_OFFER \<equiv> 2"
abbreviation (input) DHCP_MESSAGE_TYPE_REQUEST :: u8 where "DHCP_MESSAGE_TYPE_REQUEST \<equiv> 3"
abbreviation (input) DHCP_MESSAGE_TYPE_DECLINE :: u8 where "DHCP_MESSAGE_TYPE_DECLINE \<equiv> 4"
abbreviation (input) DHCP_MESSAGE_TYPE_ACK :: u8 where "DHCP_MESSAGE_TYPE_ACK \<equiv> 5"
abbreviation (input) DHCP_MESSAGE_TYPE_NAK :: u8 where "DHCP_MESSAGE_TYPE_NAK \<equiv> 6"
abbreviation (input) DHCP_MESSAGE_TYPE_RELEASE :: u8 where "DHCP_MESSAGE_TYPE_RELEASE \<equiv> 7"
abbreviation (input) DHCP_OPTION_CODE_REQUEST_IP_ADDRESS :: u8 where "DHCP_OPTION_CODE_REQUEST_IP_ADDRESS \<equiv> 50"
abbreviation (input) DHCP_OPTION_CODE_MSG_TYPE :: u8 where "DHCP_OPTION_CODE_MSG_TYPE \<equiv> 53"
abbreviation (input) DHCP_OPTION_CODE_END :: u8 where "DHCP_OPTION_CODE_END \<equiv> 255"
abbreviation (input) DHCP_CLIENT_PORT :: u16 where "DHCP_CLIENT_PORT \<equiv> 68"

definition dhcp_magic_cookie :: bytes where "dhcp_magic_cookie = [99, 130, 83, 99]"

definition dhcp_option_lease_time :: bytes where "dhcp_option_lease_time = [0x00, 0x00, 0x1c, 0x20]"

definition dhcp_option_interface_mtu :: bytes where "dhcp_option_interface_mtu = [0x05, 0xDC]"

text \<open>Offsets of the fields of \<open>struct dhcps_msg\<close>, which has no padding.\<close>

definition off_xid :: int where "off_xid = 4"
definition off_secs :: int where "off_secs = 8"
definition off_flags :: int where "off_flags = 10"
definition off_ciaddr :: int where "off_ciaddr = 12"
definition off_yiaddr :: int where "off_yiaddr = 16"
definition off_siaddr :: int where "off_siaddr = 20"
definition off_giaddr :: int where "off_giaddr = 24"
definition off_chaddr :: int where "off_chaddr = 28"
definition off_sname :: int where "off_sname = 44"
definition off_file :: int where "off_file = 108"
definition off_options :: int where "off_options = 236"

lemmas off_defs = off_xid_def off_secs_def off_flags_def off_ciaddr_def off_yiaddr_def
  off_siaddr_def off_giaddr_def off_chaddr_def off_sname_def off_file_def off_options_def

section \<open>Building replies\<close>

definition add_msg_type :: "int \<Rightarrow> u8 \<Rightarrow> mem \<Rightarrow> int \<times> mem" where
  "add_msg_type base message_type m =
     (let m = put base [DHCP_OPTION_CODE_MSG_TYPE, 1, message_type] m;
          option_start = base + 3
      in if DHCP_MESSAGE_TYPE_NAK = message_type
         then (option_start + 1, put option_start [DHCP_OPTION_CODE_END] m)
         else (option_start, m))"

text \<open>The next write position is \<open>NULL\<close> (here \<open>None\<close>) for a length the switch does not list.\<close>

definition fill_one_option_content :: "int \<Rightarrow> u8 \<Rightarrow> u8 \<Rightarrow> bytes \<Rightarrow> mem \<Rightarrow> int option \<times> mem" where
  "fill_one_option_content base option_code option_length copy_info m =
     (let m = put base [option_code, option_length] m
      in if option_length = 4 then (Some (base + 2 + 4), put (base + 2) (take 4 copy_info) m)
         else if option_length = 2 then (Some (base + 2 + 2), put (base + 2) (take 2 copy_info) m)
         else if option_length = 1 then (Some (base + 2 + 1), put (base + 2) (take 1 copy_info) m)
         else (None, m))"

text \<open>
  The options of an offer or an acknowledgement. The router discovery option is filled with
  \<open>memcpy\<close> from \<open>NULL\<close>: the byte stored is whatever address 0 holds, the parameter
  \<open>byte_at_null\<close>. All lengths are listed ones, so the position after each option exists.
\<close>

definition offer_options :: "u8 \<Rightarrow> dhcps \<Rightarrow> (u8 \<times> u8 \<times> bytes) list" where
  "offer_options byte_at_null s =
     [(1, 4, ip_bytes (dhcps_local_mask s)),
      (3, 4, ip_bytes (dhcps_local_address s)),
      (6, 4, ip_bytes (dhcps_local_address s)),
      (51, 4, dhcp_option_lease_time),
      (54, 4, ip_bytes (dhcps_local_address s)),
      (28, 4, ip_bytes (dhcps_subnet_broadcast s)),
      (26, 2, dhcp_option_interface_mtu),
      (31, 1, [byte_at_null])]"

fun fill_options :: "int option \<Rightarrow> (u8 \<times> u8 \<times> bytes) list \<Rightarrow> mem \<Rightarrow> int option \<times> mem" where
  "fill_options base [] m = (base, m)"
| "fill_options None (x # xs) m = (None, m)"
| "fill_options (Some base) ((code, ln, info) # xs) m =
     (case fill_one_option_content base code ln info m of (next, m) \<Rightarrow> fill_options next xs m)"

definition add_offer_options :: "u8 \<Rightarrow> int \<Rightarrow> dhcps \<Rightarrow> mem \<Rightarrow> mem" where
  "add_offer_options byte_at_null base s m =
     (case fill_options (Some base) (offer_options byte_at_null s) m of
        (Some p, m) \<Rightarrow> put p [DHCP_OPTION_CODE_END] m
      | (None, m) \<Rightarrow> m)"

text \<open>The length argument of \<open>memset\<close> is unsigned.\<close>

definition dhcps_initialize_message :: "dhcps \<Rightarrow> mem \<Rightarrow> dhcps \<times> mem" where
  "dhcps_initialize_message s m =
     (let s = s\<lparr>dhcp_recorded_xid := get m off_xid 4\<rparr>;
          m = put 0 [2, 1, 6, 0] m;
          m = put off_secs [0, 0] m;
          m = put off_flags [0x80, 0x00] m;
          m = put off_yiaddr (ip_bytes (dhcps_allocated_client_address s)) m;
          m = put off_ciaddr (replicate 4 0) m;
          m = put off_siaddr (replicate 4 0) m;
          m = put off_giaddr (replicate 4 0) m;
          m = put off_sname (replicate 64 0) m;
          m = put off_file (replicate 128 0) m;
          m = (\<lambda>i. if off_options \<le> i \<and> i < off_options + uint32 (dhcp_message_total_options_lenth s)
                   then 0 else m i);
          m = put off_options dhcp_magic_cookie m
      in (s, m))"

definition datagram :: "pbuf \<Rightarrow> bytes" where
  "datagram p = get (payload p) 0 (nat (len p))"

definition pool_bounds :: "dhcps \<Rightarrow> u8 \<times> u8" where
  "pool_bounds s =
     (if dhcps_addr_pool_set s
      then (ip4_addr4 (dhcps_addr_pool_start s), ip4_addr4 (dhcps_addr_pool_end s))
      else (0, 255))"

text \<open>\<open>IP4_ADDR(&dhcps_allocated_client_address, network id bytes, d)\<close>.\<close>

definition in_network :: "dhcps \<Rightarrow> u8 \<Rightarrow> ip_addr" where
  "in_network s d = IP (ip4_addr1 (dhcps_network_id s)) (ip4_addr2 (dhcps_network_id s))
     (ip4_addr3 (dhcps_network_id s)) d"

definition offer_host :: "dhcps \<Rightarrow> u8" where
  "offer_host s =
     (let temp_ip = check_client_request_ip (ip_table s) (client_addr s)
      in if temp_ip = 0 then search_next_ip (fst (pool_bounds s)) (snd (pool_bounds s)) (ip_table s)
         else temp_ip)"

definition dhcps_send_offer :: "u8 \<Rightarrow> pbuf \<Rightarrow> dhcps \<Rightarrow> dhcps \<times> pbuf \<times> dhcps_event list" where
  "dhcps_send_offer byte_at_null p s =
     (let s = s\<lparr>dhcps_allocated_client_address := in_network s (offer_host s)\<rparr>;
          (s, m) = dhcps_initialize_message s (payload p);
          (opt, m) = add_msg_type (off_options + 4) DHCP_MESSAGE_TYPE_OFFER m;
          p = p\<lparr>payload := add_offer_options byte_at_null opt s m\<rparr>
      in (s, p, [Touched (pb_id p), Sent (datagram p)]))"

definition dhcps_send_nak :: "pbuf \<Rightarrow> dhcps \<Rightarrow> dhcps \<times> pbuf \<times> dhcps_event list" where
  "dhcps_send_nak p s =
     (let (s, m) = dhcps_initialize_message s (payload p);
          (opt, m) = add_msg_type (off_options + 4) DHCP_MESSAGE_TYPE_NAK m;
          p = p\<lparr>payload := m\<rparr>
      in (s, p, [Touched (pb_id p), Sent (datagram p)]))"

definition dhcps_send_ack :: "u8 \<Rightarrow> pbuf \<Rightarrow> dhcps \<Rightarrow> dhcps \<times> pbuf \<times> dhcps_event list" where
  "dhcps_send_ack byte_at_null p s =
     (let (s, m) = dhcps_initialize_message s (payload p);
          (opt, m) = add_msg_type (off_options + 4) DHCP_MESSAGE_TYPE_ACK m;
          p = p\<lparr>payload := add_offer_options byte_at_null opt s m\<rparr>
      in (s, p, [Touched (pb_id p), Sent (datagram p)]))"

section \<open>Reading requests\<close>

definition dhcps_handle_state_machine_change :: "u8 \<Rightarrow> dhcps \<Rightarrow> u8 \<times> dhcps" where
  "dhcps_handle_state_machine_change option_message_type s =
     (let s' =
        (if option_message_type = DHCP_MESSAGE_TYPE_DECLINE
         then s\<lparr>dhcp_server_state_machine := DHCP_SERVER_STATE_IDLE\<rparr>
         else if option_message_type = DHCP_MESSAGE_TYPE_DISCOVER
         then (if dhcp_server_state_machine s = DHCP_SERVER_STATE_IDLE
               then s\<lparr>dhcp_server_state_machine := DHCP_SERVER_STATE_OFFER\<rparr> else s)
         else if option_message_type = DHCP_MESSAGE_TYPE_REQUEST
         then (if dhcp_server_state_machine s = DHCP_SERVER_STATE_OFFER
               then (if ip4_addr4 (dhcps_allocated_client_address s) \<noteq> 0
                     then (if dhcps_allocated_client_address s = client_request_ip s
                           then s\<lparr>dhcp_server_state_machine := DHCP_SERVER_STATE_ACK\<rparr>
                           else s\<lparr>dhcp_server_state_machine := DHCP_SERVER_STATE_NAK\<rparr>)
                     else s\<lparr>dhcp_server_state_machine := DHCP_SERVER_STATE_NAK\<rparr>)
               else if dhcp_server_state_machine s = DHCP_SERVER_STATE_IDLE
               then (let ip_addr4 = check_client_request_ip (ip_table s) (client_addr s)
                     in if ip_addr4 > 0
                        then s\<lparr>dhcps_allocated_client_address := in_network s ip_addr4,
                               dhcp_server_state_machine := DHCP_SERVER_STATE_ACK\<rparr>
                        else s\<lparr>dhcp_server_state_machine := DHCP_SERVER_STATE_NAK\<rparr>)
               else s\<lparr>dhcp_server_state_machine := DHCP_SERVER_STATE_NAK\<rparr>)
         else if option_message_type = DHCP_MESSAGE_TYPE_RELEASE
         then s\<lparr>dhcp_server_state_machine := DHCP_SERVER_STATE_IDLE\<rparr>
         else s)
      in (dhcp_server_state_machine s', s'))"

text \<open>
  The loop over the options: each step skips the code, the length and as many bytes as the
  length says; the padding and end codes are not special. It advances by at least two bytes.
\<close>

function parse_options :: "mem \<Rightarrow> int \<Rightarrow> int \<Rightarrow> u8 \<Rightarrow> ip_addr \<Rightarrow> u8 \<times> ip_addr" where
  "parse_options m option_start option_end message_type request_ip =
     (if option_start < option_end
      then (let code = m option_start;
                message_type = (if code = DHCP_OPTION_CODE_MSG_TYPE then m (option_start + 2)
                                else message_type);
                request_ip = (if code = DHCP_OPTION_CODE_REQUEST_IP_ADDRESS
                              then IP (m (option_start + 2)) (m (option_start + 3))
                                     (m (option_start + 4)) (m (option_start + 5))
                              else request_ip)
            in parse_options m (option_start + (uint (m (option_start + 1)) + 2)) option_end
                 message_type request_ip)
      else (message_type, request_ip))"
  by pat_completeness auto
termination
  by (relation "measure (\<lambda>(m, a, b, _). nat (b - a))")
     (auto intro: le_less_trans [of _ 0])

declare parse_options.simps [simp del]

definition sint16 :: "int \<Rightarrow> int" where
  "sint16 x = (x + 2 ^ 15) mod 2 ^ 16 - 2 ^ 15"

definition dhcps_handle_msg_options :: "mem \<Rightarrow> int \<Rightarrow> int \<Rightarrow> dhcps \<Rightarrow> u8 \<times> dhcps" where
  "dhcps_handle_msg_options m option_start total_option_length s =
     (case parse_options m option_start (option_start + sint16 total_option_length) 0
             (client_request_ip s) of
        (message_type, req) \<Rightarrow>
          dhcps_handle_state_machine_change message_type (s\<lparr>client_request_ip := req\<rparr>))"

definition dhcps_check_msg_and_handle_options :: "pbuf \<Rightarrow> dhcps \<Rightarrow> u8 \<times> dhcps" where
  "dhcps_check_msg_and_handle_options p s =
     (let s = s\<lparr>dhcp_message_total_options_lenth := len p - off_options,
                client_addr := get (payload p) off_chaddr 6\<rparr>
      in if get (payload p) off_options 4 = dhcp_magic_cookie
         then dhcps_handle_msg_options (payload p) (off_options + 4)
                (dhcp_message_total_options_lenth s - 4) s
         else (0, s))"

section \<open>The receive handler\<close>

text \<open>What the handler does after a request was read, by the state it returned.\<close>

definition dhcps_respond :: "u8 \<Rightarrow> u8 \<Rightarrow> pbuf \<Rightarrow> dhcps \<Rightarrow> dhcps \<times> dhcps_event list" where
  "dhcps_respond byte_at_null st p s =
     (if st = DHCP_SERVER_STATE_OFFER
      then (case dhcps_send_offer byte_at_null p s of (s, p, ev) \<Rightarrow> (s, ev))
      else if st = DHCP_SERVER_STATE_ACK
      then (case dhcps_send_ack byte_at_null p s of (s, p, ev) \<Rightarrow>
              (let d = ip4_addr4 (dhcps_allocated_client_address s);
                   t = save_client_addr d (client_addr s) (mark_ip_in_table d (ip_table s))
               in (s\<lparr>ip_table := t, client_request_ip := ip_zero, client_addr := replicate 6 0,
                     dhcps_allocated_client_address := ip_zero,
                     dhcp_server_state_machine := DHCP_SERVER_STATE_IDLE\<rparr>, ev)))
      else if st = DHCP_SERVER_STATE_NAK
      then (case dhcps_send_nak p s of (s, p, ev) \<Rightarrow>
              (s\<lparr>dhcp_server_state_machine := DHCP_SERVER_STATE_IDLE\<rparr>, ev))
      else (s, []))"

text \<open>
  The handler. A chained packet goes through the stack's \<open>pbuf_coalesce\<close>, a parameter that gives
  the buffer it returns and whether it released the original one. As in the source, the rest
  of the handler goes on with the original buffer; the merged one is only freed at the end.
  The total length is kept in an \<open>int16_t\<close> before the comparison.
\<close>

definition dhcps_receive_udp_packet_handler ::
  "u8 \<Rightarrow> (pbuf \<Rightarrow> pbuf \<times> bool) \<Rightarrow> pbuf \<Rightarrow> u16 \<Rightarrow> dhcps \<Rightarrow> dhcps \<times> dhcps_event list" where
  "dhcps_receive_udp_packet_handler byte_at_null pbuf_coalesce p sender_port s =
     (if sender_port = DHCP_CLIENT_PORT
      then (let (merged, freed) = (if has_next p then (let (q, f) = pbuf_coalesce p in (Some q, f))
                                   else (None, False));
                pre = (if freed then [Freed (pb_id p)] else [])
            in case merged of
                 Some q \<Rightarrow>
                   (if tot_len q \<noteq> sint16 (tot_len p) then (s, pre @ [Freed (pb_id p)])
                    else (let (st, s) = dhcps_check_msg_and_handle_options p s;
                              (s, ev) = dhcps_respond byte_at_null st p s
                          in (s, pre @ [Touched (pb_id p)] @ ev @ [Disconnected, Freed (pb_id q)])))
               | None \<Rightarrow>
                   (let (st, s) = dhcps_check_msg_and_handle_options p s;
                        (s, ev) = dhcps_respond byte_at_null st p s
                    in (s, [Touched (pb_id p)] @ ev @ [Disconnected, Freed (pb_id p)])))
      else (s, [Disconnected, Freed (pb_id p)]))"

section \<open>Configuration and start\<close>

definition dhcps_set_addr_pool :: "bool \<Rightarrow> ip_addr \<Rightarrow> ip_addr \<Rightarrow> dhcps \<Rightarrow> dhcps" where
  "dhcps_set_addr_pool addr_pool_set addr_pool_start addr_pool_end s =
     (if addr_pool_set
      then s\<lparr>dhcps_addr_pool_set := True, dhcps_addr_pool_start := addr_pool_start,
             dhcps_addr_pool_end := addr_pool_end\<rparr>
      else s\<lparr>dhcps_addr_pool_set := False\<rparr>)"

text \<open>\<open>udp_new_ok\<close>: whether the stack's \<open>udp_new\<close> found a free control block.\<close>

definition dhcps_init :: "bool \<Rightarrow> netif \<Rightarrow> dhcps \<Rightarrow> dhcps" where
  "dhcps_init udp_new_ok nif s =
     (let s = s\<lparr>ip_table := zero_table, dhcps_pcb := udp_new_ok\<rparr>
      in if \<not> udp_new_ok then s
         else
          (let net = ip_and (nif_ip nif) (nif_netmask nif);
               bcast = ip_or_not net (nif_netmask nif);
               first = htonl_ip (ntohl_ip net + 1);
               last = htonl_ip (ntohl_ip bcast - 1);
               s = s\<lparr>dhcps_local_address := nif_ip nif, dhcps_local_mask := nif_netmask nif,
                     dhcps_local_gateway := nif_gw nif, dhcps_network_id := net,
                     dhcps_subnet_broadcast := bcast, dhcps_owned_first_ip := first,
                     dhcps_owned_last_ip := last,
                     dhcps_num_of_available_ips := ucast (ntohl_ip last - ntohl_ip first + 1),
                     dhcps_ip_table_semaphore := True,
                     ip_table := mark_ip_in_table (ip4_addr4 (nif_gw nif))
                       (mark_ip_in_table (ip4_addr4 (nif_ip nif)) zero_table)\<rparr>
           in if dhcps_addr_pool_start s = ip_zero \<and> dhcps_addr_pool_end s = ip_zero
              then (let a = nif_ip nif
                    in dhcps_set_addr_pool True
                         (IP (ip4_addr1 a) (ip4_addr2 a) (ip4_addr3 a) (of_nat DHCP_POOL_START))
                         (IP (ip4_addr1 a) (ip4_addr2 a) (ip4_addr3 a) (of_nat DHCP_POOL_END)) s)
              else s))"

definition dhcps_deinit :: "dhcps \<Rightarrow> dhcps" where
  "dhcps_deinit s = s\<lparr>dhcps_pcb := False, dhcps_ip_table_semaphore := False\<rparr>"

end
