(* ===== verification/Dhcps_Server.thy ===== *)
theory Dhcps_Server
  imports Dhcps
begin

text \<open>
  Facts about the DHCP server of \<^verbatim>\<open>component/common/network/dhcp/dhcps.c\<close>: the layout of its
  replies, the reading of options, and the invariants of the lease table and of the request
  state machine over every sequence of received packets.
\<close>

section \<open>Reading what was written\<close>

lemma length_get [simp]: "length (get m off n) = n"
  by (simp add: get_def)

lemma nth_get [simp]: "j < n \<Longrightarrow> get m off n ! j = m (off + int j)"
  by (simp add: get_def)

lemma get_0 [simp]: "get m off 0 = []"
  by (simp add: get_def)

lemma get_add: "get m off (a + b) = get m off a @ get m (off + int a) b"
  by (rule nth_equalityI) (auto simp: nth_append algebra_simps)

fun get_pieces :: "mem \<Rightarrow> int \<Rightarrow> nat list \<Rightarrow> bytes" where
  "get_pieces m off [] = []"
| "get_pieces m off (k # ks) = get m off k @ get_pieces m (off + int k) ks"

lemma get_sum_list: "get m off (sum_list ks) = get_pieces m off ks"
  by (induction ks arbitrary: off) (auto simp: get_add)

lemma get_put_same: "length bs = n \<Longrightarrow> get (put off bs m) off n = bs"
  by (rule nth_equalityI) (auto simp: put_def)

lemma get_put_other:
  "off + int n \<le> p \<or> p + int (length bs) \<le> off \<Longrightarrow> get (put p bs m) off n = get m off n"
  by (auto simp: get_def put_def)

lemma put_outside: "i < p \<or> p + int (length bs) \<le> i \<Longrightarrow> put p bs m i = m i"
  by (auto simp: put_def)

lemma put_put':
  assumes "q = p + int (length as)"
  shows "put q bs (put p as m) = put p (as @ bs) m"
proof
  fix i
  have "nat (i - q) = nat (i - p) - length as" using assms by simp
  then show "put q bs (put p as m) i = put p (as @ bs) m i"
    using assms by (auto simp: put_def nth_append)
qed

lemma put_Nil [simp]: "put p [] m = m"
  by (auto simp: put_def fun_eq_iff)

section \<open>Options\<close>

definition tlv :: "u8 \<times> u8 \<times> bytes \<Rightarrow> bytes" where
  "tlv x = (case x of (c, n, bs) \<Rightarrow> c # n # bs)"

lemma fill_one_put:
  assumes "(n = 4 \<or> n = 2 \<or> n = 1) \<and> length bs = unat n"
  shows "fill_one_option_content base c n bs m =
    (Some (base + int (length (tlv (c, n, bs)))), put base (tlv (c, n, bs)) m)"
  using assms by (auto simp: fill_one_option_content_def tlv_def put_put' Let_def)

lemma fill_options_put:
  assumes "\<forall>(c, n, bs) \<in> set xs. (n = 4 \<or> n = 2 \<or> n = 1) \<and> length bs = unat n"
  shows "fill_options (Some base) xs m =
    (Some (base + int (length (concat (map tlv xs)))), put base (concat (map tlv xs)) m)"
  using assms
proof (induction xs arbitrary: base m)
  case Nil
  then show ?case by simp
next
  case (Cons x xs)
  obtain c n bs where x: "x = (c, n, bs)" by (cases x)
  show ?case
    using Cons.prems fill_one_put [of n bs base c m]
    by (simp add: x Cons.IH put_put' algebra_simps)
qed

text \<open>The options of an offer or an acknowledgement, as bytes: 44 of them with the end code.\<close>

definition option_bytes :: "u8 \<Rightarrow> dhcps \<Rightarrow> bytes" where
  "option_bytes nul s = concat (map tlv (offer_options nul s)) @ [DHCP_OPTION_CODE_END]"

lemma length_ip_bytes [simp]: "length (ip_bytes a) = 4"
  by (simp add: ip_bytes_def)

lemma length_option_bytes [simp]: "length (option_bytes nul s) = 44"
  by (simp add: option_bytes_def offer_options_def tlv_def dhcp_option_lease_time_def
      dhcp_option_interface_mtu_def)

lemma add_offer_options_put:
  "add_offer_options nul base s m = put base (option_bytes nul s) m"
proof -
  have "\<forall>(c, n, bs) \<in> set (offer_options nul s). (n = 4 \<or> n = 2 \<or> n = 1) \<and> length bs = unat n"
    by (simp add: offer_options_def dhcp_option_lease_time_def dhcp_option_interface_mtu_def)
  then show ?thesis
    unfolding add_offer_options_def by (simp add: fill_options_put put_put' option_bytes_def)
qed


section \<open>The layout of a reply\<close>

text \<open>A reply to the request \<open>m\<close> of \<open>n\<close> bytes that gives the address \<open>a\<close>, with the options \<open>opts\<close>.\<close>

definition reply_bytes :: "mem \<Rightarrow> nat \<Rightarrow> ip_addr \<Rightarrow> bytes \<Rightarrow> bytes" where
  "reply_bytes m n a opts =
     [2, 1, 6, 0] @ get m off_xid 4 @ [0, 0, 0x80, 0] @ replicate 4 0 @ ip_bytes a @ replicate 8 0 @
     get m off_chaddr 16 @ replicate 192 0 @ dhcp_magic_cookie @ opts @ replicate (n - 240 - length opts) 0"

definition header_done :: "dhcps \<Rightarrow> int \<Rightarrow> mem \<Rightarrow> mem" where
  "header_done s n m i =
     (if i < 0 then m i
      else if i < 4 then [2, 1, 6, 0] ! nat i
      else if i < 8 then m i
      else if i < 10 then 0
      else if i < 12 then [0x80, 0] ! nat (i - 10)
      else if i < 16 then 0
      else if i < 20 then ip_bytes (dhcps_allocated_client_address s) ! nat (i - 16)
      else if i < 28 then 0
      else if i < 44 then m i
      else if i < 236 then 0
      else if i < 240 then dhcp_magic_cookie ! nat (i - 236)
      else if i < n then 0 else m i)"

lemma initialize_message_mem:
  assumes "dhcp_message_total_options_lenth s = n - off_options" and "240 \<le> n" and "n < 2 ^ 16"
  shows "snd (dhcps_initialize_message s m) = header_done s n m"
proof -
  have "uint32 (n - off_options) = n - off_options"
    using assms by (simp add: wrap_simps off_defs)
  then show ?thesis
    using assms
    by (auto simp: dhcps_initialize_message_def header_done_def put_def fun_eq_iff off_defs Let_def
        nth_replicate nth_Cons' dhcp_magic_cookie_def)
qed

lemma get_eqI: "length xs = k \<Longrightarrow> (\<And>j. j < k \<Longrightarrow> m (off + int j) = xs ! j) \<Longrightarrow> get m off k = xs"
  by (rule nth_equalityI) (auto simp: get_def)

lemma header_done_get:
  assumes "240 \<le> n"
  shows "get (header_done s (int n) m) 0 4 = [2, 1, 6, 0]"
    and "get (header_done s (int n) m) 4 4 = get m off_xid 4"
    and "get (header_done s (int n) m) 8 4 = [0, 0, 0x80, 0]"
    and "get (header_done s (int n) m) 12 4 = replicate 4 0"
    and "get (header_done s (int n) m) 16 4 = ip_bytes (dhcps_allocated_client_address s)"
    and "get (header_done s (int n) m) 20 8 = replicate 8 0"
    and "get (header_done s (int n) m) 28 16 = get m off_chaddr 16"
    and "get (header_done s (int n) m) 44 192 = replicate 192 0"
    and "get (header_done s (int n) m) 236 4 = dhcp_magic_cookie"
    and "240 \<le> off \<Longrightarrow> off + int k \<le> int n \<Longrightarrow> get (header_done s (int n) m) off k = replicate k 0"
  using assms
  by (auto intro!: get_eqI simp: header_done_def nth_Cons' dhcp_magic_cookie_def off_defs)

lemma header_done_reply:
  assumes "240 + length opts \<le> n"
  shows "get (put 240 opts (header_done s (int n) m)) 0 n =
    reply_bytes m n (dhcps_allocated_client_address s) opts"
proof -
  let ?m = "put 240 opts (header_done s (int n) m)"
  have n: "240 \<le> n" using assms by simp
  have low: "get ?m off k = get (header_done s (int n) m) off k" if "off + int k \<le> 240" for off k
    using that by (auto intro: get_put_other)
  have "get ?m 0 n = get_pieces ?m 0 [4, 4, 4, 4, 4, 8, 16, 192, 4, length opts, n - 240 - length opts]"
    unfolding get_sum_list [symmetric] using assms by simp
  also have "\<dots> = reply_bytes m n (dhcps_allocated_client_address s) opts"
    using assms header_done_get [OF n]
    by (simp add: low get_put_same get_put_other reply_bytes_def)
  finally show ?thesis .
qed

text \<open>The reply written by each of the three senders, seen from the buffer and from the wire.\<close>

lemmas send_defs = dhcps_send_offer_def dhcps_send_ack_def dhcps_send_nak_def

lemma initialize_message_state:
  "fst (dhcps_initialize_message s m) = s\<lparr>dhcp_recorded_xid := get m off_xid 4\<rparr>"
  by (simp add: dhcps_initialize_message_def Let_def)

lemma option_bytes_state [simp]:
  "option_bytes nul (s\<lparr>dhcp_recorded_xid := x\<rparr>) = option_bytes nul s"
  "option_bytes nul (s\<lparr>dhcps_allocated_client_address := a\<rparr>) = option_bytes nul s"
  by (simp_all add: option_bytes_def offer_options_def)

lemma message_options_put:
  "add_offer_options nul (fst (add_msg_type b t m)) s (snd (add_msg_type b t m)) =
     put b ([53, 1, t] @ option_bytes nul s) m" if "t \<noteq> 6"
  using that by (simp add: add_msg_type_def Let_def add_offer_options_put put_put')

lemma nak_options_put: "snd (add_msg_type b 6 m) = put b [53, 1, 6, 255] m"
  by (simp add: add_msg_type_def Let_def put_put')

lemma reply_datagram:
  assumes "dhcp_message_total_options_lenth s = len p - off_options"
    and "240 + int (length opts) \<le> len p" and "len p < 2 ^ 16"
  shows "get (put (off_options + 4) opts (snd (dhcps_initialize_message s (payload p)))) 0 (nat (len p)) =
    reply_bytes (payload p) (nat (len p)) (dhcps_allocated_client_address s) opts"
proof -
  have "snd (dhcps_initialize_message s (payload p)) = header_done s (len p) (payload p)"
    using assms by (intro initialize_message_mem) auto
  then show ?thesis
    using header_done_reply [of opts "nat (len p)" s "payload p"] assms by (simp add: off_defs)
qed

definition reply_host :: "u8 \<Rightarrow> dhcps \<Rightarrow> ip_addr" where
  "reply_host st s =
     (if st = DHCP_SERVER_STATE_OFFER then in_network s (offer_host s) else dhcps_allocated_client_address s)"

definition reply_options :: "u8 \<Rightarrow> u8 \<Rightarrow> dhcps \<Rightarrow> bytes" where
  "reply_options nul st s =
     (if st = DHCP_SERVER_STATE_NAK then [53, 1, 6, 255]
      else [53, 1, if st = DHCP_SERVER_STATE_OFFER then 2 else 5] @ option_bytes nul s)"

definition replies :: "u8 \<Rightarrow> bool" where
  "replies st \<longleftrightarrow> st = DHCP_SERVER_STATE_OFFER \<or> st = DHCP_SERVER_STATE_ACK \<or> st = DHCP_SERVER_STATE_NAK"

lemma respond_sent:
  "snd (dhcps_respond nul st p s) =
     (if replies st
      then [Touched (pb_id p), Sent (get (put (off_options + 4) (reply_options nul st s)
              (snd (dhcps_initialize_message (s\<lparr>dhcps_allocated_client_address := reply_host st s\<rparr>) (payload p))))
              0 (nat (len p)))]
      else [])"
proof -
  consider "st = DHCP_SERVER_STATE_OFFER" | "st = DHCP_SERVER_STATE_ACK" | "st = DHCP_SERVER_STATE_NAK" | "\<not> replies st"
    by (auto simp: replies_def)
  then show ?thesis
  proof cases
    case 1
    then show ?thesis using message_options_put [of 2 nul "off_options + 4"]
      by (simp add: dhcps_respond_def dhcps_send_offer_def datagram_def initialize_message_state replies_def
          reply_host_def reply_options_def split_beta Let_def)
  next
    case 2
    then show ?thesis using message_options_put [of 5 nul "off_options + 4"]
      by (simp add: dhcps_respond_def dhcps_send_ack_def datagram_def initialize_message_state replies_def
          reply_host_def reply_options_def split_beta Let_def)
  next
    case 3
    then show ?thesis using nak_options_put [of "off_options + 4"]
      by (simp add: dhcps_respond_def dhcps_send_nak_def datagram_def replies_def
          reply_host_def reply_options_def split_beta Let_def)
  qed (simp add: dhcps_respond_def replies_def)
qed

lemma length_reply_options: "length (reply_options nul st s) \<le> 47"
  by (simp add: reply_options_def)

lemma respond_events:
  assumes "dhcp_message_total_options_lenth s = len p - off_options"
    and "287 \<le> len p" and "len p < 2 ^ 16" and "replies st"
  shows "snd (dhcps_respond nul st p s) =
    [Touched (pb_id p), Sent (reply_bytes (payload p) (nat (len p)) (reply_host st s) (reply_options nul st s))]"
  using assms length_reply_options [of nul st s] by (simp add: respond_sent reply_datagram)

text \<open>The last byte of the address a reply carries.\<close>

lemma respond_yiaddr:
  assumes "Sent bs \<in> set (snd (dhcps_respond nul st p s))" and "20 \<le> length bs"
  shows "bs ! 19 = ip4_addr4 (reply_host st s)"
proof -
  let ?i = "dhcps_initialize_message (s\<lparr>dhcps_allocated_client_address := reply_host st s\<rparr>) (payload p)"
  have bs: "bs = get (put (off_options + 4) (reply_options nul st s) (snd ?i)) 0 (nat (len p))"
    using assms(1) unfolding respond_sent by (simp split: if_splits)
  then have "bs ! 19 = snd ?i 19" using assms(2) by (simp add: put_outside off_defs)
  then show ?thesis
    by (simp add: dhcps_initialize_message_def Let_def put_def off_defs ip_bytes_def dhcp_magic_cookie_def)
qed

section \<open>Reading a well-formed option field\<close>

definition encode_options :: "(u8 \<times> bytes) list \<Rightarrow> bytes" where
  "encode_options xs = concat (map (\<lambda>(c, d). c # of_nat (length d) # d) xs)"

fun read_options :: "(u8 \<times> bytes) list \<Rightarrow> u8 \<Rightarrow> ip_addr \<Rightarrow> u8 \<times> ip_addr" where
  "read_options [] t a = (t, a)"
| "read_options ((c, d) # xs) t a =
     read_options xs (if c = DHCP_OPTION_CODE_MSG_TYPE then d ! 0 else t)
       (if c = DHCP_OPTION_CODE_REQUEST_IP_ADDRESS then IP (d ! 0) (d ! 1) (d ! 2) (d ! 3) else a)"

fun option_wf :: "u8 \<times> bytes \<Rightarrow> bool" where
  "option_wf (c, d) \<longleftrightarrow> length d < 256 \<and> (c = DHCP_OPTION_CODE_MSG_TYPE \<longrightarrow> 1 \<le> length d) \<and>
     (c = DHCP_OPTION_CODE_REQUEST_IP_ADDRESS \<longrightarrow> 4 \<le> length d)"

lemma get_append_nth:
  assumes "get m off n = as @ bs" and "j < length as"
  shows "m (off + int j) = as ! j"
proof -
  have "length as + length bs = n" using assms(1) by (metis length_get length_append)
  then have "get m off n ! j = m (off + int j)" using assms(2) by simp
  then show ?thesis using assms by (simp add: nth_append)
qed

lemma get_append_tail:
  assumes "get m off n = as @ bs"
  shows "get m (off + int (length as)) (length bs) = bs"
proof -
  have "length as + length bs = n" using assms by (metis length_get length_append)
  then have "get m off (length as) @ get m (off + int (length as)) (length bs) = as @ bs"
    using assms get_add [of m off "length as" "length bs"] by simp
  then show ?thesis by (simp add: append_eq_append_conv)
qed

lemma parse_options_stop: "e \<le> off \<Longrightarrow> parse_options m off e t a = (t, a)"
  by (subst parse_options.simps) simp

lemma parse_options_one:
  assumes "m off \<noteq> 53" and "m off \<noteq> 50"
  shows "parse_options m off (off + 1) t a = (t, a)"
proof -
  have "0 \<le> uint (m (off + 1))" by simp
  then have "off + 1 \<le> off + (uint (m (off + 1)) + 2)" by linarith
  then show ?thesis
    using assms by (subst parse_options.simps) (simp add: Let_def parse_options_stop)
qed

lemma parse_options_skip:
  assumes "m off \<noteq> 53" and "m off \<noteq> 50" and "m (off + 1) = 0" and "off < e"
  shows "parse_options m off e t a = parse_options m (off + 2) e t a"
  using assms by (subst parse_options.simps) (simp add: Let_def)

text \<open>The padding after the end code is read as empty options.\<close>

lemma parse_options_zeros:
  "(\<And>j. j < n \<Longrightarrow> m (off + int j) = 0) \<Longrightarrow> parse_options m off (off + int n) t a = (t, a)"
proof (induction n arbitrary: off rule: less_induct)
  case (less n)
  consider "n = 0" | "n = 1" | k where "n = k + 2" by (metis One_nat_def add_2_eq_Suc' not0_implies_Suc)
  then show ?case
  proof cases
    case 2
    then show ?thesis using less.prems [of 0] by (simp add: parse_options_one)
  next
    case 3
    have z: "m off = 0" "m (off + 1) = 0" using less.prems [of 0] less.prems [of 1] 3 by auto
    have "m (off + 2 + int j) = 0" if "j < k" for j
      using less.prems [of "j + 2"] 3 that by (simp add: add.assoc add.commute [of 2])
    then have "parse_options m (off + 2) (off + 2 + int k) t a = (t, a)"
      using 3 by (intro less.IH) auto
    moreover have "off + int n = off + 2 + int k" using 3 by simp
    ultimately show ?thesis using parse_options_skip [of m off "off + int n"] z 3 by (simp add: add.assoc)
  qed (simp add: parse_options_stop)
qed

lemma parse_options_end:
  assumes "get m off n = 255 # replicate k 0"
  shows "parse_options m off (off + int n) t a = (t, a)"
proof -
  have n: "n = Suc k" using assms by (metis length_Cons length_get length_replicate)
  have at: "m off = 255" "\<And>j. j < k \<Longrightarrow> m (off + int (Suc j)) = 0"
  proof -
    show "m off = 255" using assms n nth_get [of 0 n m off] by simp
    show "m (off + int (Suc j)) = 0" if "j < k" for j
      using assms n that nth_get [of "Suc j" n m off] by simp
  qed
  show ?thesis
  proof (cases k)
    case 0
    then show ?thesis using parse_options_one [of m off t a] at n by simp
  next
    case (Suc l)
    have "m (off + 1) = 0" using at(2) [of 0] Suc by simp
    moreover have "m (off + 2 + int j) = 0" if "j < l" for j
      using at(2) [of "Suc j"] Suc that by (simp add: add.assoc)
    then have "parse_options m (off + 2) (off + 2 + int l) t a = (t, a)"
      by (rule parse_options_zeros)
    moreover have "off + int n = off + 2 + int l" using n Suc by simp
    ultimately show ?thesis using at(1) n parse_options_skip [of m off "off + int n"] by (simp add: add.assoc)
  qed
qed

lemma parse_options_encoded:
  assumes "get m off n = encode_options xs @ DHCP_OPTION_CODE_END # replicate k 0" and "\<forall>x \<in> set xs. option_wf x"
  shows "parse_options m off (off + int n) t a = read_options xs t a"
  using assms
proof (induction xs arbitrary: off n t a)
  case Nil
  then show ?case using parse_options_end [of m off n k t a] by (simp add: encode_options_def)
next
  case (Cons x xs)
  obtain c d where x: "x = (c, d)" by (cases x)
  let ?e = "c # of_nat (length d) # d"
  have g: "get m off n = ?e @ (encode_options xs @ 255 # replicate k 0)"
    using Cons.prems(1) by (simp add: encode_options_def x)
  have n: "n = length ?e + length (encode_options xs @ 255 # replicate k 0)"
    using g by (metis length_get length_append)
  have d: "length d < 256" using Cons.prems(2) by (simp add: x)
  have at: "m off = c" "m (off + 1) = of_nat (length d)"
    using get_append_nth [OF g, of 0] get_append_nth [OF g, of 1] by auto
  have dt: "m (off + (2 + int j)) = d ! j" if "j < length d" for j
    using get_append_nth [OF g, of "Suc (Suc j)"] that by simp
  have "m (off + 2) = d ! 0" if "1 \<le> length d" using dt [of 0] that by (cases d) simp_all
  moreover have "m (off + 3) = d ! 1" "m (off + 4) = d ! 2" "m (off + 5) = d ! 3" if "4 \<le> length d"
    using dt [of 1] dt [of 2] dt [of 3] that by simp_all
  ultimately have data: "c = 53 \<Longrightarrow> m (off + 2) = d ! 0"
      "c = 50 \<Longrightarrow> IP (m (off + 2)) (m (off + 3)) (m (off + 4)) (m (off + 5)) = IP (d ! 0) (d ! 1) (d ! 2) (d ! 3)"
    using Cons.prems(2) by (simp_all add: x)
  have len: "uint (m (off + 1)) = int (length d)"
    using d at by (simp add: uint_nat unat_of_nat take_bit_nat_eq_self)
  have tail: "get m (off + (int (length d) + 2)) (length (encode_options xs @ 255 # replicate k 0)) = encode_options xs @ 255 # replicate k 0"
    using get_append_tail [OF g] by (simp add: algebra_simps)
  have "parse_options m (off + (int (length d) + 2))
      (off + (int (length d) + 2) + int (length (encode_options xs @ 255 # replicate k 0))) t' a' = read_options xs t' a'" for t' a'
    using Cons.IH [OF tail] Cons.prems(2) by simp
  moreover have "off + int n = off + (int (length d) + 2) + int (length (encode_options xs @ 255 # replicate k 0))"
    using n by simp
  ultimately have rest: "parse_options m (off + (int (length d) + 2)) (off + int n) t' a' = read_options xs t' a'"
    for t' a' by (simp only:)
  have "off < off + int n" using n by simp
  then show ?case
    using data by (subst parse_options.simps) (simp add: at(1) len x Let_def rest)
qed

lemma read_wellformed:
  assumes "get (payload p) off_options (nat (len p - off_options)) =
      dhcp_magic_cookie @ encode_options xs @ DHCP_OPTION_CODE_END # replicate k 0"
    and "\<forall>x \<in> set xs. option_wf x" and "len p < 2 ^ 15"
    and "read_options xs 0 (client_request_ip s) = (ty, req)"
  shows "dhcps_check_msg_and_handle_options p s =
    dhcps_handle_state_machine_change ty
      (s\<lparr>dhcp_message_total_options_lenth := len p - off_options,
         client_addr := get (payload p) off_chaddr 6, client_request_ip := req\<rparr>)"
proof -
  let ?n = "length (encode_options xs @ 255 # replicate k 0)"
  have n: "nat (len p - off_options) = 4 + ?n"
    using arg_cong [OF assms(1), of length] by (simp add: dhcp_magic_cookie_def)
  have l: "len p = off_options + 4 + int ?n" using n by simp
  have "get (payload p) off_options 4 @ get (payload p) (off_options + 4) ?n =
      dhcp_magic_cookie @ encode_options xs @ 255 # replicate k 0"
    using assms(1) get_add [of "payload p" off_options 4 ?n] unfolding n by simp
  then have c: "get (payload p) off_options 4 = dhcp_magic_cookie"
    "get (payload p) (off_options + 4) ?n = encode_options xs @ 255 # replicate k 0"
    using append_eq_append_conv [of "get (payload p) off_options 4" dhcp_magic_cookie]
    by (simp_all add: dhcp_magic_cookie_def)
  have "0 \<le> int ?n" "int ?n < 2 ^ 15" using l assms(3) by (simp_all add: off_defs)
  then have "sint16 (len p - off_options - 4) = int ?n" using l by (simp add: sint16_def)
  then show ?thesis
    using parse_options_encoded [OF c(2) assms(2)] assms(4) c(1)
    by (simp add: dhcps_check_msg_and_handle_options_def dhcps_handle_msg_options_def Let_def)
qed

section \<open>Runs of the server\<close>

text \<open>The packets received one after the other, with the port each came from.\<close>

fun dhcps_run :: "u8 \<Rightarrow> (pbuf \<Rightarrow> pbuf \<times> bool) \<Rightarrow> (pbuf \<times> u16) list \<Rightarrow> dhcps \<Rightarrow> dhcps \<times> dhcps_event list" where
  "dhcps_run nul co [] s = (s, [])"
| "dhcps_run nul co ((p, port) # ps) s =
     (case dhcps_receive_udp_packet_handler nul co p port s of (s, ev) \<Rightarrow>
        (case dhcps_run nul co ps s of (s, ev') \<Rightarrow> (s, ev @ ev')))"

text \<open>
  What reading and answering a packet keep is kept by every run, and what holds of all the
  answers holds of all the messages sent.
\<close>

lemma run_invariant:
  assumes step: "\<And>p s st s1. ok p \<Longrightarrow> I s \<Longrightarrow> dhcps_check_msg_and_handle_options p s = (st, s1) \<Longrightarrow>
      I (fst (dhcps_respond nul st p s1)) \<and> (\<forall>bs. Sent bs \<in> set (snd (dhcps_respond nul st p s1)) \<longrightarrow> E bs)"
  assumes "\<forall>(p, port) \<in> set ps. ok p" and "I s"
  shows "I (fst (dhcps_run nul co ps s)) \<and> (\<forall>bs. Sent bs \<in> set (snd (dhcps_run nul co ps s)) \<longrightarrow> E bs)"
  using assms(2,3)
proof (induction ps arbitrary: s)
  case (Cons x ps)
  obtain p port where x: "x = (p, port)" by (cases x)
  obtain st s1 where rd: "dhcps_check_msg_and_handle_options p s = (st, s1)" by fastforce
  obtain s2 ev where rs: "dhcps_respond nul st p s1 = (s2, ev)" by fastforce
  let ?h = "dhcps_receive_udp_packet_handler nul co p port s"
  have "I (fst ?h) \<and> (\<forall>bs. Sent bs \<in> set (snd ?h) \<longrightarrow> E bs)"
    using step [OF _ _ rd] Cons.prems
    by (auto simp: x dhcps_receive_udp_packet_handler_def split_beta Let_def rd rs split: option.splits)
  then show ?case using Cons.IH [of "fst ?h"] Cons.prems by (auto simp: x split_beta)
qed simp

text \<open>What reading a packet does to the state.\<close>

lemmas read_defs = dhcps_check_msg_and_handle_options_def dhcps_handle_msg_options_def
  dhcps_handle_state_machine_change_def

lemma state_machine_frame:
  "s\<lparr>dhcps_allocated_client_address := dhcps_allocated_client_address (snd (dhcps_handle_state_machine_change t s)),
     dhcp_server_state_machine := dhcp_server_state_machine (snd (dhcps_handle_state_machine_change t s))\<rparr>
   = snd (dhcps_handle_state_machine_change t s)"
  by (simp add: dhcps_handle_state_machine_change_def Let_def)

lemma read_eq:
  assumes "dhcps_check_msg_and_handle_options p s = (st, s1)"
  shows "\<exists>r a x. s1 = s\<lparr>dhcp_message_total_options_lenth := len p - off_options,
    client_addr := get (payload p) off_chaddr 6, client_request_ip := r,
    dhcps_allocated_client_address := a, dhcp_server_state_machine := x\<rparr>"
proof -
  let ?s = "s\<lparr>dhcp_message_total_options_lenth := len p - off_options,
    client_addr := get (payload p) off_chaddr 6\<rparr>"
  have "\<exists>r. s1 = ?s\<lparr>client_request_ip := r\<rparr> \<or>
      (\<exists>t. s1 = snd (dhcps_handle_state_machine_change t (?s\<lparr>client_request_ip := r\<rparr>)))"
  proof (cases "get (payload p) off_options 4 = dhcp_magic_cookie")
    case True
    then show ?thesis using assms
      by (simp add: dhcps_check_msg_and_handle_options_def dhcps_handle_msg_options_def Let_def split_beta)
         (metis snd_conv)
  next
    case False
    then have "s1 = ?s\<lparr>client_request_ip := client_request_ip ?s\<rparr>"
      using assms by (simp add: dhcps_check_msg_and_handle_options_def Let_def)
    then show ?thesis by blast
  qed
  then show ?thesis
  proof (elim exE disjE)
    fix r assume "s1 = ?s\<lparr>client_request_ip := r\<rparr>"
    then have "s1 = ?s\<lparr>client_request_ip := r, dhcps_allocated_client_address := dhcps_allocated_client_address s,
        dhcp_server_state_machine := dhcp_server_state_machine s\<rparr>" by simp
    then show ?thesis by blast
  next
    fix r t assume "s1 = snd (dhcps_handle_state_machine_change t (?s\<lparr>client_request_ip := r\<rparr>))"
    then show ?thesis using state_machine_frame [where s = "?s\<lparr>client_request_ip := r\<rparr>" and t = t] by metis
  qed
qed

lemma read_frame:
  assumes "dhcps_check_msg_and_handle_options p s = (st, s1)"
  shows "ip_table s1 = ip_table s" "dhcps_network_id s1 = dhcps_network_id s"
    "pool_bounds s1 = pool_bounds s" "client_addr s1 = get (payload p) off_chaddr 6"
    "dhcp_message_total_options_lenth s1 = len p - off_options"
    "dhcps_local_address s1 = dhcps_local_address s"
  using read_eq [OF assms] by (auto simp: pool_bounds_def)

lemma read_allocated:
  assumes "dhcps_check_msg_and_handle_options p s = (st, s1)"
  shows "dhcps_allocated_client_address s1 = dhcps_allocated_client_address s \<or>
    check_client_request_ip (ip_table s) (get (payload p) off_chaddr 6) \<noteq> 0 \<and>
    dhcps_allocated_client_address s1 =
      in_network s (check_client_request_ip (ip_table s) (get (payload p) off_chaddr 6))"
  using assms
  by (auto simp: read_defs Let_def in_network_def split_beta word_gt_0 split: if_splits)

text \<open>The request state between two packets is idle or offering.\<close>

definition state_ok :: "dhcps \<Rightarrow> bool" where
  "state_ok s \<longleftrightarrow> dhcp_server_state_machine s = DHCP_SERVER_STATE_IDLE \<or>
     dhcp_server_state_machine s = DHCP_SERVER_STATE_OFFER"

lemma read_ack:
  assumes "dhcps_check_msg_and_handle_options p s = (DHCP_SERVER_STATE_ACK, s1)" and "state_ok s"
  shows "dhcp_server_state_machine s = DHCP_SERVER_STATE_OFFER \<and>
      ip4_addr4 (dhcps_allocated_client_address s) \<noteq> 0 \<and>
      dhcps_allocated_client_address s1 = dhcps_allocated_client_address s \<and>
      client_request_ip s1 = dhcps_allocated_client_address s
    \<or> dhcp_server_state_machine s = DHCP_SERVER_STATE_IDLE \<and>
      check_client_request_ip (ip_table s) (get (payload p) off_chaddr 6) \<noteq> 0 \<and>
      dhcps_allocated_client_address s1 =
        in_network s (check_client_request_ip (ip_table s) (get (payload p) off_chaddr 6))"
  using assms
  by (auto simp: read_defs state_ok_def Let_def in_network_def split_beta word_gt_0 split: if_splits)

lemma respond_state:
  assumes "dhcps_check_msg_and_handle_options p s = (st, s1)" and "state_ok s"
  shows "state_ok (fst (dhcps_respond nul st p s1))"
  using assms
  by (auto simp: read_defs state_ok_def Let_def split_beta dhcps_respond_def send_defs
      initialize_message_state split: if_splits)

lemma respond_table:
  "ip_table (fst (dhcps_respond nul st p s)) =
     (if st = DHCP_SERVER_STATE_ACK
      then save_client_addr (ip4_addr4 (dhcps_allocated_client_address s)) (client_addr s)
             (mark_ip_in_table (ip4_addr4 (dhcps_allocated_client_address s)) (ip_table s))
      else ip_table s)"
  by (simp add: dhcps_respond_def send_defs initialize_message_state split_beta Let_def)

lemma respond_allocated:
  "dhcps_allocated_client_address (fst (dhcps_respond nul st p s)) =
     (if st = DHCP_SERVER_STATE_OFFER then in_network s (offer_host s)
      else if st = DHCP_SERVER_STATE_ACK then ip_zero
      else dhcps_allocated_client_address s)"
  by (simp add: dhcps_respond_def send_defs initialize_message_state split_beta Let_def)

lemma respond_frame:
  "dhcps_network_id (fst (dhcps_respond nul st p s)) = dhcps_network_id s"
  "pool_bounds (fst (dhcps_respond nul st p s)) = pool_bounds s"
  by (simp_all add: dhcps_respond_def send_defs initialize_message_state split_beta Let_def pool_bounds_def)

lemma mark_client_mac [simp]: "client_mac (mark_ip_in_table d t) = client_mac t"
  by (simp add: mark_ip_in_table_def MARK_RANGE_IP_BIT_def Let_def)

lemma save_client_mac [simp]: "client_mac (save_client_addr d a t) = (client_mac t)[unat d := take 6 a]"
  by (simp add: save_client_addr_def)

subsection \<open>Host numbers the server keeps for itself\<close>

text \<open>
  A reserved host number has its bit set, no hardware address, and is not the one on offer; what
  is reserved once stays so as long as no client presents the hardware address 0.
\<close>

definition keeps :: "u8 \<Rightarrow> dhcps \<Rightarrow> bool" where
  "keeps d s \<longleftrightarrow> table_ok (ip_table s) \<and> d \<noteq> 0 \<and> marked (ip_table s) (unat d) \<and>
     client_mac (ip_table s) ! unat d = replicate 6 0 \<and>
     ip4_addr4 (dhcps_allocated_client_address s) \<noteq> d"

definition has_mac :: "pbuf \<Rightarrow> bool" where
  "has_mac p \<longleftrightarrow> get (payload p) off_chaddr 6 \<noteq> replicate 6 0"

lemma check_client_not_kept:
  assumes "keeps d s" and "a \<noteq> replicate 6 0" and "length a = 6"
  shows "check_client_request_ip (ip_table s) a \<noteq> d"
  using assms check_client_Some [of "ip_table s" a d] by (auto simp: keeps_def)

lemma offer_host_not_kept:
  assumes "keeps d s" and "client_addr s \<noteq> replicate 6 0" and "length (client_addr s) = 6"
  shows "offer_host s \<noteq> d"
proof
  assume "offer_host s = d"
  then have "search_next_ip (fst (pool_bounds s)) (snd (pool_bounds s)) (ip_table s) = d"
    using check_client_not_kept [OF assms] by (auto simp: offer_host_def Let_def split: if_splits)
  then show False using assms(1) search_next_ip_Some unfolding keeps_def by blast
qed

lemma read_keeps:
  assumes "dhcps_check_msg_and_handle_options p s = (st, s1)" and "keeps d s" and "has_mac p"
  shows "keeps d s1"
  using assms read_frame(1) [OF assms(1)] read_allocated [OF assms(1)]
    check_client_not_kept [OF assms(2), of "get (payload p) off_chaddr 6"]
  by (auto simp: keeps_def has_mac_def in_network_def)

lemma respond_keeps:
  assumes "keeps d s" and "client_addr s \<noteq> replicate 6 0" and "length (client_addr s) = 6"
  shows "keeps d (fst (dhcps_respond nul st p s))"
proof -
  have ne: "unat (ip4_addr4 (dhcps_allocated_client_address s)) \<noteq> unat d"
    using assms(1) by (auto simp: keeps_def word_unat_eq_iff)
  have "d \<noteq> 0" using assms(1) by (simp add: keeps_def)
  then have "ip4_addr4 (dhcps_allocated_client_address (fst (dhcps_respond nul st p s))) \<noteq> d"
    using assms(1) offer_host_not_kept [OF assms] by (auto simp: respond_allocated in_network_def ip_zero_def keeps_def)
  then show ?thesis
    using assms(1) ne by (auto simp: keeps_def respond_table marked_mark_ip)
qed

lemma run_keeps:
  assumes "\<forall>(p, port) \<in> set ps. has_mac p" and "keeps d s"
  shows "keeps d (fst (dhcps_run nul co ps s)) \<and>
    (\<forall>bs. Sent bs \<in> set (snd (dhcps_run nul co ps s)) \<longrightarrow> 20 \<le> length bs \<longrightarrow> bs ! 19 \<noteq> d)"
proof (rule run_invariant [where ok = has_mac and I = "keeps d"])
  fix p s st s1
  assume a: "has_mac p" "keeps d s" "dhcps_check_msg_and_handle_options p s = (st, s1)"
  have k: "keeps d s1" by (rule read_keeps [OF a(3,2,1)])
  have m: "client_addr s1 \<noteq> replicate 6 0" "length (client_addr s1) = 6"
    using a read_frame(4) by (auto simp: has_mac_def)
  have "ip4_addr4 (reply_host st s1) \<noteq> d"
    using k offer_host_not_kept [OF k m] by (auto simp: reply_host_def in_network_def keeps_def)
  then show "keeps d (fst (dhcps_respond nul st p s1)) \<and>
      (\<forall>bs. Sent bs \<in> set (snd (dhcps_respond nul st p s1)) \<longrightarrow> 20 \<le> length bs \<longrightarrow> bs ! 19 \<noteq> d)"
    using respond_keeps [OF k m] respond_yiaddr by metis
qed (use assms in auto)

text \<open>Marks stay, and an idle or offering server stays one.\<close>

lemma run_marks:
  assumes "table_ok (ip_table s)" and "marked (ip_table s) d"
  shows "table_ok (ip_table (fst (dhcps_run nul co ps s))) \<and> marked (ip_table (fst (dhcps_run nul co ps s))) d"
  using run_invariant [where ok = "\<lambda>_. True" and E = "\<lambda>_. True" and nul = nul and co = co and ps = ps and
      I = "\<lambda>s. table_ok (ip_table s) \<and> marked (ip_table s) d" and s = s] assms
  by (auto simp: respond_table marked_mark_ip read_frame(1))

lemma run_table:
  assumes "table_ok (ip_table s)"
  shows "table_ok (ip_table (fst (dhcps_run nul co ps s)))"
  using run_invariant [where ok = "\<lambda>_. True" and E = "\<lambda>_. True" and nul = nul and co = co and ps = ps and
      I = "\<lambda>s. table_ok (ip_table s)" and s = s] assms
  by (auto simp: respond_table read_frame(1))

lemma run_state:
  assumes "state_ok s"
  shows "state_ok (fst (dhcps_run nul co ps s))"
  using run_invariant [where ok = "\<lambda>_. True" and E = "\<lambda>_. True" and nul = nul and co = co and ps = ps and
      I = state_ok and s = s] assms respond_state
  by auto

end
