(* ===== verification/Dhcps_Props.thy ===== *)
theory Dhcps_Props
  imports Dhcps_Server
begin

text \<open>
  The properties of the DHCP server, stated over the handlers of
  \<^verbatim>\<open>component/common/network/dhcp/dhcps.c\<close> and over every sequence of received packets.
\<close>

section \<open>A concrete server and its packets\<close>

definition dhcps_boot :: dhcps where
  "dhcps_boot = \<lparr>dhcp_server_state_machine = DHCP_SERVER_STATE_IDLE, dhcp_recorded_xid = replicate 4 255,
     dhcps_pcb = False, dhcps_local_address = ip_zero, dhcps_local_mask = ip_zero,
     dhcps_local_gateway = ip_zero, dhcps_network_id = ip_zero, dhcps_subnet_broadcast = ip_zero,
     dhcps_allocated_client_address = ip_zero, dhcps_addr_pool_set = False,
     dhcps_addr_pool_start = ip_zero, dhcps_addr_pool_end = ip_zero, dhcps_owned_first_ip = ip_zero,
     dhcps_owned_last_ip = ip_zero, dhcps_num_of_available_ips = 0,
     dhcp_message_total_options_lenth = 0, ip_table = zero_table, client_request_ip = ip_zero,
     client_addr = replicate 6 0, dhcps_ip_table_semaphore = False\<rparr>"

definition home_netif :: netif where
  "home_netif = \<lparr>nif_ip = IP 192 168 1 1, nif_netmask = IP 255 255 255 0, nif_gw = IP 192 168 1 1\<rparr>"

definition request_packet :: "u8 \<Rightarrow> bytes \<Rightarrow> pbuf" where
  "request_packet mac opts = \<lparr>pb_id = 1, len = 300, tot_len = 300, has_next = False,
     payload = put off_options (dhcp_magic_cookie @ opts)
       (put off_chaddr [2, 0, 0, 0, 0, mac] (\<lambda>_. 0))\<rparr>"

lemma request_packet_simps [simp]:
  "len (request_packet mac opts) = 300" "\<not> has_next (request_packet mac opts)"
  "get (payload (request_packet mac opts)) off_chaddr 6 = [2, 0, 0, 0, 0, mac]"
  "get (payload (request_packet mac opts)) off_options 4 = dhcp_magic_cookie"
proof -
  show "get (payload (request_packet mac opts)) off_chaddr 6 = [2, 0, 0, 0, 0, mac]"
    unfolding request_packet_def pbuf.simps
    by (subst get_put_other) (simp_all add: off_defs get_put_same)
  show "get (payload (request_packet mac opts)) off_options 4 = dhcp_magic_cookie"
    by (rule get_eqI) (auto simp: request_packet_def put_def off_defs dhcp_magic_cookie_def nth_append nth_Cons')
qed (simp_all add: request_packet_def)

lemma request_packet_mac [simp]: "has_mac (request_packet mac opts)"
  unfolding has_mac_def request_packet_simps by (simp add: numeral_eq_Suc)

section \<open>Requests\<close>

text \<open>
  A request whose option field is the magic cookie, a list of options, the end code and zero
  padding is read as that list says: the state machine gets the type of the last message type
  option, the requested address is the last one requested (or stays), and the hardware address
  is recorded, whatever memory follows the packet.
\<close>

theorem dhcps_options_read:
  assumes "get (payload p) off_options (nat (len p - off_options)) =
      dhcp_magic_cookie @ encode_options xs @ DHCP_OPTION_CODE_END # replicate k 0"
    and "\<forall>x \<in> set xs. option_wf x" and "len p < 2 ^ 15"
    and "read_options xs 0 (client_request_ip s) = (ty, req)"
  shows "dhcps_check_msg_and_handle_options p s =
    dhcps_handle_state_machine_change ty
      (s\<lparr>dhcp_message_total_options_lenth := len p - off_options,
         client_addr := get (payload p) off_chaddr 6, client_request_ip := req\<rparr>)"
  using assms by (rule read_wellformed)

lemma request_packet_options:
  assumes "length opts \<le> 60"
  shows "get (payload (request_packet mac opts)) off_options 64 = dhcp_magic_cookie @ opts @ replicate (60 - length opts) 0"
  using assms
  by (intro get_eqI) (auto simp: request_packet_def put_def off_defs dhcp_magic_cookie_def nth_append nth_Cons')

definition discover_packet :: "u8 \<Rightarrow> pbuf" where
  "discover_packet mac = request_packet mac (encode_options [(53, [1])] @ [255])"

definition select_packet :: "u8 \<Rightarrow> ip_addr \<Rightarrow> pbuf" where
  "select_packet mac a = request_packet mac (encode_options [(53, [3]), (50, ip_bytes a)] @ [255])"

lemma read_discover:
  "dhcps_check_msg_and_handle_options (discover_packet mac) s =
     dhcps_handle_state_machine_change 1
      (s\<lparr>dhcp_message_total_options_lenth := 64, client_addr := [2, 0, 0, 0, 0, mac]\<rparr>)"
  using read_wellformed [of "discover_packet mac" "[(53, [1])]" 56 s 1 "client_request_ip s"]
    request_packet_options [of "encode_options [(53, [1])] @ [255]" mac]
  by (simp add: discover_packet_def encode_options_def off_options_def)

lemma read_select:
  "dhcps_check_msg_and_handle_options (select_packet mac a) s =
     dhcps_handle_state_machine_change 3
      (s\<lparr>dhcp_message_total_options_lenth := 64, client_addr := [2, 0, 0, 0, 0, mac], client_request_ip := a\<rparr>)"
  using read_wellformed [of "select_packet mac a" "[(53, [3]), (50, ip_bytes a)]" 50 s 3 a]
    request_packet_options [of "encode_options [(53, [3]), (50, ip_bytes a)] @ [255]" mac]
  by (cases a) (simp add: select_packet_def encode_options_def off_options_def ip_bytes_def)

theorem dhcps_options_read_witness:
  "dhcps_check_msg_and_handle_options (select_packet 7 (IP 10 0 0 9)) dhcps_boot =
     dhcps_handle_state_machine_change 3
      (dhcps_boot\<lparr>dhcp_message_total_options_lenth := 64, client_addr := [2, 0, 0, 0, 0, 7],
         client_request_ip := IP 10 0 0 9\<rparr>)"
  using dhcps_options_read [of "select_packet 7 (IP 10 0 0 9)" "[(53, [3]), (50, ip_bytes (IP 10 0 0 9))]" 50 dhcps_boot
      3 "IP 10 0 0 9"] request_packet_options [of "encode_options [(53, [3]), (50, ip_bytes (IP 10 0 0 9))] @ [255]" 7]
  by (simp add: select_packet_def encode_options_def ip_bytes_def off_options_def)

section \<open>The server's own addresses\<close>

lemma init_keeps:
  assumes "d = ip4_addr4 (nif_ip nif) \<or> d = ip4_addr4 (nif_gw nif)" and "markable (unat d)"
    and "ip4_addr4 (dhcps_allocated_client_address s) \<noteq> d"
  shows "keeps d (dhcps_init True nif s)"
proof -
  have "unat d < 256" by (rule byte_cases [of d]) simp
  then have "client_mac zero_table ! unat d = replicate 6 0" by (simp add: zero_table_def)
  moreover have "d \<noteq> 0" using assms(2) by (auto simp: markable_def)
  moreover have "marked (mark_ip_in_table (ip4_addr4 (nif_gw nif))
      (mark_ip_in_table (ip4_addr4 (nif_ip nif)) zero_table)) (unat d)"
    using assms(1,2) by (auto simp: marked_mark_ip)
  ultimately show ?thesis
    using assms(3) by (auto simp: keeps_def dhcps_init_def dhcps_set_addr_pool_def Let_def)
qed

text \<open>
  C8: after the server starts on an interface, whatever packets it receives (each with a
  hardware address other than 0), no reply it sends gives out the interface's own host number
  or the gateway's, and the lease table never records a client on it. The host number 0 and the numbers 129 to
  160, whose bit is never set, are excluded; and when the server starts, the address it allocated last must not have this
  host number. The start clears neither that address nor the state machine: a server that is started again
  with an open offer of what is now its own address acknowledges it (\<open>dhcps_restart_leases_own_address\<close>).
\<close>

theorem dhcps_own_address_never_leased:
  assumes "d = ip4_addr4 (nif_ip nif) \<or> d = ip4_addr4 (nif_gw nif)" and "markable (unat d)"
    and "ip4_addr4 (dhcps_allocated_client_address s) \<noteq> d"
    and "\<forall>(p, port) \<in> set ps. has_mac p"
    and "dhcps_run nul co ps (dhcps_init True nif s) = (s', ev)"
  shows "(\<forall>bs. Sent bs \<in> set ev \<longrightarrow> 20 \<le> length bs \<longrightarrow> bs ! 19 \<noteq> d) \<and>
    client_mac (ip_table s') ! unat d = replicate 6 0 \<and> marked (ip_table s') (unat d)"
  using run_keeps [OF assms(4) init_keeps [OF assms(1-3)], of nul co] assms(5)
  by (simp add: keeps_def)

theorem dhcps_own_address_never_leased_witness:
  "\<exists>s' ev. dhcps_run 0 (\<lambda>p. (p, False)) [(request_packet 1 [53, 1, 1, 255], 68)]
      (dhcps_init True home_netif dhcps_boot) = (s', ev) \<and> marked (ip_table s') 1"
proof -
  obtain s' ev where r: "dhcps_run 0 (\<lambda>p. (p, False)) [(request_packet 1 [53, 1, 1, 255], 68)]
      (dhcps_init True home_netif dhcps_boot) = (s', ev)" by fastforce
  have "marked (ip_table s') (unat (1 :: u8))"
    using dhcps_own_address_never_leased [OF _ _ _ _ r, of 1]
    by (simp add: home_netif_def dhcps_boot_def ip_zero_def markable_def)
  then show ?thesis using r by auto
qed

section \<open>Offers\<close>

lemma offer_host_cases:
  assumes "offer_host s = d"
  shows "d = 0 \<and> (\<forall>e. 0 < e \<longrightarrow> unat (fst (pool_bounds s)) \<le> e \<longrightarrow> e \<le> unat (snd (pool_bounds s)) \<longrightarrow>
        marked (ip_table s) e)
    \<or> \<not> marked (ip_table s) (unat d) \<and> unat (fst (pool_bounds s)) \<le> unat d \<and>
        unat d \<le> unat (snd (pool_bounds s)) \<and>
        (\<forall>e. 0 < e \<longrightarrow> unat (fst (pool_bounds s)) \<le> e \<longrightarrow> e < unat d \<longrightarrow> marked (ip_table s) e)
    \<or> marked (ip_table s) (unat d) \<and> client_mac (ip_table s) ! unat d = take 6 (client_addr s)"
proof (cases "check_client_request_ip (ip_table s) (client_addr s) = 0")
  case False
  then show ?thesis using assms check_client_Some [of "ip_table s" "client_addr s" d]
    by (auto simp: offer_host_def Let_def)
next
  case True
  then have d: "search_next_ip (fst (pool_bounds s)) (snd (pool_bounds s)) (ip_table s) = d"
    using assms by (simp add: offer_host_def)
  show ?thesis
  proof (cases "d = 0")
    case True
    then show ?thesis using d search_next_ip_None by blast
  next
    case False
    then show ?thesis using search_next_ip_Some [OF d] by blast
  qed
qed

definition home_server :: dhcps where
  "home_server = dhcps_init True home_netif dhcps_boot"

lemma home_server_simps:
  "dhcp_server_state_machine home_server = 5"
  "ip_table home_server = mark_ip_in_table 1 (mark_ip_in_table 1 zero_table)"
  "pool_bounds home_server = (100, 200)"
  by (simp_all add: home_server_def dhcps_init_def home_netif_def dhcps_boot_def dhcps_set_addr_pool_def
      pool_bounds_def ip_zero_def DHCP_POOL_START_def DHCP_POOL_END_def Let_def)

lemma home_server_marked: "marked (ip_table home_server) e \<longleftrightarrow> e = 1"
  by (auto simp: home_server_simps marked_mark_ip markable_def)

lemma home_server_mac: "client_mac (ip_table home_server) ! Suc 0 \<noteq> get (payload (discover_packet mac)) off_chaddr 6"
  unfolding discover_packet_def request_packet_simps home_server_simps
  by (simp add: zero_table_def numeral_eq_Suc)

lemma home_discover:
  "dhcps_check_msg_and_handle_options (discover_packet 7) home_server =
     (DHCP_SERVER_STATE_OFFER, home_server\<lparr>dhcp_message_total_options_lenth := 64,
        client_addr := [2, 0, 0, 0, 0, 7], dhcp_server_state_machine := DHCP_SERVER_STATE_OFFER\<rparr>)"
  by (simp add: read_discover dhcps_handle_state_machine_change_def home_server_simps)

text \<open>
  C30: an offer never takes a marked address away. Whatever packets came before, the offered
  host number is a marked one recorded for this hardware address, or the lowest unmarked one
  of the pool, or 0 when every number of the pool is marked; a host number that was marked at
  any earlier time is offered to the hardware address recorded for it only. Marked means that its bit in the lease table is
  set, which every acknowledgement does for the number it gives out, except for 0 and 129 to 160: numbers of that
  range, part of the default pool of 100 to 200, stay unmarked while they are leased and are offered again
  (\<open>dhcps_double_lease\<close>), so that for them the property does not protect a lease.
\<close>

theorem dhcps_offer_safe:
  assumes "table_ok (ip_table s)" and "dhcps_run nul co ps s = (s', ev)"
    and "dhcps_check_msg_and_handle_options p s' = (DHCP_SERVER_STATE_OFFER, s1)"
    and "ip4_addr4 (reply_host DHCP_SERVER_STATE_OFFER s1) = d"
  shows "(d = 0 \<and> (\<forall>e. 0 < e \<longrightarrow> unat (fst (pool_bounds s')) \<le> e \<longrightarrow> e \<le> unat (snd (pool_bounds s')) \<longrightarrow>
            marked (ip_table s') e)
        \<or> \<not> marked (ip_table s') (unat d) \<and> unat (fst (pool_bounds s')) \<le> unat d \<and>
            unat d \<le> unat (snd (pool_bounds s')) \<and>
            (\<forall>e. 0 < e \<longrightarrow> unat (fst (pool_bounds s')) \<le> e \<longrightarrow> e < unat d \<longrightarrow> marked (ip_table s') e)
        \<or> marked (ip_table s') (unat d) \<and>
            client_mac (ip_table s') ! unat d = get (payload p) off_chaddr 6)
    \<and> (marked (ip_table s) (unat d) \<longrightarrow> client_mac (ip_table s') ! unat d = get (payload p) off_chaddr 6)
    \<and> (\<forall>p2 s2. dhcps_check_msg_and_handle_options p2 s' = (DHCP_SERVER_STATE_ACK, s2) \<longrightarrow>
         markable (unat (ip4_addr4 (dhcps_allocated_client_address s2))) \<longrightarrow>
         marked (ip_table (fst (dhcps_respond nul DHCP_SERVER_STATE_ACK p2 s2)))
           (unat (ip4_addr4 (dhcps_allocated_client_address s2))))"
proof -
  have ok: "table_ok (ip_table s')" using run_table [OF assms(1), of nul co ps] assms(2) by simp
  have ack: "marked (ip_table (fst (dhcps_respond nul DHCP_SERVER_STATE_ACK p2 s2))) (unat (ip4_addr4 (dhcps_allocated_client_address s2)))"
    if "dhcps_check_msg_and_handle_options p2 s' = (DHCP_SERVER_STATE_ACK, s2)"
      "markable (unat (ip4_addr4 (dhcps_allocated_client_address s2)))" for p2 s2
    using that read_frame(1) [OF that(1)] ok by (simp add: respond_table marked_mark_ip)
  have d: "offer_host s1 = d" using assms(4) by (simp add: reply_host_def in_network_def)
  have "d \<noteq> 0" if "marked (ip_table s) (unat d)" using that by (auto simp: marked_def)
  moreover have "marked (ip_table s') (unat d)" if "marked (ip_table s) (unat d)"
    using run_marks [OF assms(1) that, of nul co ps] assms(2) by simp
  ultimately have "(d = 0 \<and> (\<forall>e. 0 < e \<longrightarrow> unat (fst (pool_bounds s')) \<le> e \<longrightarrow> e \<le> unat (snd (pool_bounds s')) \<longrightarrow>
            marked (ip_table s') e)
        \<or> \<not> marked (ip_table s') (unat d) \<and> unat (fst (pool_bounds s')) \<le> unat d \<and>
            unat d \<le> unat (snd (pool_bounds s')) \<and>
            (\<forall>e. 0 < e \<longrightarrow> unat (fst (pool_bounds s')) \<le> e \<longrightarrow> e < unat d \<longrightarrow> marked (ip_table s') e)
        \<or> marked (ip_table s') (unat d) \<and>
            client_mac (ip_table s') ! unat d = get (payload p) off_chaddr 6)
    \<and> (marked (ip_table s) (unat d) \<longrightarrow> client_mac (ip_table s') ! unat d = get (payload p) off_chaddr 6)"
    using offer_host_cases [OF d] read_frame [OF assms(3)] by auto
  then show ?thesis using ack by blast
qed

theorem dhcps_offer_safe_witness:
  "offer_host (snd (dhcps_check_msg_and_handle_options (discover_packet 7) home_server)) = 100"
proof -
  let ?d = "offer_host (snd (dhcps_check_msg_and_handle_options (discover_packet 7) home_server))"
  have "table_ok (ip_table home_server)" by (simp add: home_server_simps)
  from dhcps_offer_safe [OF this _ home_discover refl, of 0 "\<lambda>p. (p, False)" "[]"]
  have "unat ?d = 100"
    by (auto simp: home_server_marked home_server_simps(3) reply_host_def in_network_def home_discover home_server_mac
        dest: spec [of _ 100])
  then show ?thesis by (simp add: word_unat_eq_iff)
qed

section \<open>Replies\<close>

text \<open>
  C32: the reply to a single-buffer packet of at least 287 bytes has exactly the request's length
  and is laid out as RFC 2131 asks: reply code, the request's transaction id and hardware
  address, the broadcast flag, the assigned address, cleared fields, the magic cookie, the
  message type and the options closed by the end code, then zeros. The buffer is released
  exactly once, after the reply is sent, and not used afterwards.
\<close>

theorem dhcps_reply_layout:
  assumes "\<not> has_next p" and "287 \<le> len p" and "len p < 2 ^ 16"
    and "dhcps_check_msg_and_handle_options p s = (st, s1)" and "replies st"
  shows "snd (dhcps_receive_udp_packet_handler nul co p DHCP_CLIENT_PORT s) =
    [Touched (pb_id p), Touched (pb_id p),
     Sent (reply_bytes (payload p) (nat (len p)) (reply_host st s1) (reply_options nul st s1)),
     Disconnected, Freed (pb_id p)]"
  using assms respond_events [OF read_frame(5) [OF assms(4)] assms(2,3,5), of nul]
  by (simp add: dhcps_receive_udp_packet_handler_def split_beta)

theorem dhcps_reply_layout_witness:
  "\<exists>a opts. snd (dhcps_receive_udp_packet_handler 0 (\<lambda>p. (p, False)) (discover_packet 7) 68 home_server) =
     [Touched 1, Touched 1, Sent (reply_bytes (payload (discover_packet 7)) 300 a opts), Disconnected, Freed 1]"
  using dhcps_reply_layout [OF _ _ _ home_discover, of 0 "\<lambda>p. (p, False)"]
  by (auto simp: replies_def discover_packet_def request_packet_def)

section \<open>Acknowledgements\<close>

text \<open>
  C33: whatever packets a server that was idle or offering received before, a request is acknowledged only when the server has an offer
  open and the address asked for last is the offered one, or when it has none and the hardware
  address is on record for a marked host number; in the second case the recorded address is the one acknowledged. Between
  packets the server is always idle or offering. The address asked for last is the content of the server's variable
  \<open>client_request_ip\<close>: it comes from the requested-address option of this packet or, when the packet has none, of
  an earlier one, of whichever client, as the variable is cleared after an acknowledgement only
  (\<open>dhcps_earlier_request_acknowledged\<close>).
\<close>

theorem dhcps_ack_only_offered_or_known:
  assumes "state_ok s" and "dhcps_run nul co ps s = (s', ev)"
    and "dhcps_check_msg_and_handle_options p s' = (DHCP_SERVER_STATE_ACK, s1)"
  shows "state_ok s' \<and>
    (dhcp_server_state_machine s' = DHCP_SERVER_STATE_OFFER \<and>
       reply_host DHCP_SERVER_STATE_ACK s1 = dhcps_allocated_client_address s' \<and>
       client_request_ip s1 = dhcps_allocated_client_address s' \<and>
       ip4_addr4 (dhcps_allocated_client_address s') \<noteq> 0
     \<or> dhcp_server_state_machine s' = DHCP_SERVER_STATE_IDLE \<and>
       (\<exists>d. reply_host DHCP_SERVER_STATE_ACK s1 = in_network s' d \<and> marked (ip_table s') (unat d) \<and>
            client_mac (ip_table s') ! unat d = get (payload p) off_chaddr 6))"
proof -
  have ok: "state_ok s'" using run_state [OF assms(1), of nul co ps] assms(2) by simp
  then show ?thesis
    using read_ack [OF assms(3) ok]
      check_client_Some [of "ip_table s'" "get (payload p) off_chaddr 6", OF refl]
    by (auto simp: reply_host_def)
qed

text \<open>A server that has offered host number 100.\<close>

definition offering_server :: dhcps where
  "offering_server = home_server
     \<lparr>dhcp_server_state_machine := DHCP_SERVER_STATE_OFFER, dhcps_allocated_client_address := IP 192 168 1 100\<rparr>"

lemma select_offered:
  "dhcps_check_msg_and_handle_options (select_packet 7 (IP 192 168 1 100)) offering_server =
     (DHCP_SERVER_STATE_ACK, offering_server\<lparr>dhcp_message_total_options_lenth := 64,
        client_addr := [2, 0, 0, 0, 0, 7], client_request_ip := IP 192 168 1 100,
        dhcp_server_state_machine := DHCP_SERVER_STATE_ACK\<rparr>)"
  by (simp add: read_select dhcps_handle_state_machine_change_def offering_server_def)

theorem dhcps_ack_only_offered_or_known_witness:
  "client_request_ip (snd (dhcps_check_msg_and_handle_options (select_packet 7 (IP 192 168 1 100)) offering_server)) =
     IP 192 168 1 100 \<and> state_ok offering_server"
  unfolding select_offered
  using dhcps_ack_only_offered_or_known [of offering_server 0 "\<lambda>p. (p, False)" "[]" offering_server "[]",
      OF _ _ select_offered]
  by (simp add: offering_server_def state_ok_def)

text \<open>
  A request without the option for the requested address is judged by the address that an earlier packet asked for: another
  client's request, which names no address, is acknowledged with the offered one.
\<close>

theorem dhcps_earlier_request_acknowledged:
  "fst (dhcps_check_msg_and_handle_options (request_packet 9 (encode_options [(53, [3])] @ [255]))
     (offering_server\<lparr>client_request_ip := IP 192 168 1 100\<rparr>)) = DHCP_SERVER_STATE_ACK"
  using read_wellformed [of "request_packet 9 (encode_options [(53, [3])] @ [255])" "[(53, [3])]" 56
      "offering_server\<lparr>client_request_ip := IP 192 168 1 100\<rparr>" 3 "IP 192 168 1 100"]
    request_packet_options [of "encode_options [(53, [3])] @ [255]" 9]
  by (simp add: encode_options_def off_options_def dhcps_handle_state_machine_change_def offering_server_def)

text \<open>
  The start keeps an open offer. A server that offered the address 192.168.1.1 on another interface and is started again on
  the interface with this address acknowledges it to the client that asks for it.
\<close>

theorem dhcps_restart_leases_own_address:
  "fst (dhcps_check_msg_and_handle_options (select_packet 7 (IP 192 168 1 1))
     (dhcps_init True home_netif (dhcps_boot\<lparr>dhcp_server_state_machine := DHCP_SERVER_STATE_OFFER,
        dhcps_allocated_client_address := IP 192 168 1 1\<rparr>))) = DHCP_SERVER_STATE_ACK"
  by (simp add: read_select dhcps_handle_state_machine_change_def dhcps_init_def home_netif_def dhcps_boot_def
      dhcps_set_addr_pool_def Let_def)

lemma lease_lookup:
  assumes "table_ok t" and "100 \<le> unat d" and "unat d \<le> 200" and "markable (unat d)" and "unat d mod 32 \<noteq> 0"
    and "check_client_request_ip t a = 0" and "length a = 6"
  shows "check_client_request_ip (save_client_addr d a (mark_ip_in_table d t)) a = d"
proof -
  let ?t = "save_client_addr d a (mark_ip_in_table d t)"
  have none: "\<not> client_holds t a j" if j: "100 \<le> j" "j < 201" for j
  proof
    assume "client_holds t a j"
    then obtain i where i: "find (client_holds t a) [DHCP_POOL_START..<Suc DHCP_POOL_END] = Some i"
      using j find_upt_None [of "client_holds t a" DHCP_POOL_START "Suc DHCP_POOL_END"]
      by (cases "find (client_holds t a) [DHCP_POOL_START..<Suc DHCP_POOL_END]")
         (auto simp: DHCP_POOL_START_def DHCP_POOL_END_def)
    then have "(of_nat i :: u8) = 0" using assms(6) by (simp add: check_client_request_ip_def)
    moreover have "0 < i" "i < 256"
      using i unfolding find_upt_Some by (auto simp: DHCP_POOL_START_def DHCP_POOL_END_def)
    ultimately show False using unat_of_nat [of i, where ?'a = 8] by (simp add: take_bit_nat_eq_self)
  qed
  have len: "length (client_mac t) = 256" using assms(1) by (simp add: table_ok_def)
  have at: "client_holds ?t a (unat d)"
    using assms len by (simp add: client_holds_iff marked_mark_ip)
  have "\<not> client_holds ?t a j" if "100 \<le> j" "j < unat d" for j
    using none [of j] assms(1,3) that by (simp add: client_holds_iff marked_mark_ip)
  then have "find (client_holds ?t a) [DHCP_POOL_START..<Suc DHCP_POOL_END] = Some (unat d)"
    using assms(2,3) at unfolding find_upt_Some by (simp add: DHCP_POOL_START_def DHCP_POOL_END_def)
  then show ?thesis by (simp add: check_client_request_ip_def)
qed

text \<open>
  An acknowledged lease is remembered. After the server acknowledges host number \<open>d\<close> of its
  default pool to a client without a recorded address, the number is taken, the hardware address
  is on record, no other number changes, the server is idle, and a later lookup of the hardware
  address finds \<open>d\<close>, so that a later discover is offered \<open>d\<close> again. Host numbers 129 to 160 (whose
  bit is never set) and the multiples of 32 (which the lookup cannot test) are excluded.
\<close>

theorem dhcps_lease_remembered:
  assumes "dhcps_check_msg_and_handle_options p s = (DHCP_SERVER_STATE_ACK, s1)"
    and "ip4_addr4 (reply_host DHCP_SERVER_STATE_ACK s1) = d"
    and "table_ok (ip_table s)" and "100 \<le> unat d" and "unat d \<le> 200" and "markable (unat d)"
    and "unat d mod 32 \<noteq> 0"
    and "check_client_request_ip (ip_table s) (get (payload p) off_chaddr 6) = 0"
    and "\<not> has_next p"
    and "fst (dhcps_receive_udp_packet_handler nul co p DHCP_CLIENT_PORT s) = s'"
  shows "dhcp_server_state_machine s' = DHCP_SERVER_STATE_IDLE \<and>
    (\<forall>e. marked (ip_table s') e \<longleftrightarrow> marked (ip_table s) e \<or> e = unat d) \<and>
    client_mac (ip_table s') = (client_mac (ip_table s))[unat d := get (payload p) off_chaddr 6] \<and>
    check_client_request_ip (ip_table s') (get (payload p) off_chaddr 6) = d"
proof -
  have fr: "ip_table s1 = ip_table s" "client_addr s1 = get (payload p) off_chaddr 6"
    using read_frame [OF assms(1)] by auto
  have s': "s' = fst (dhcps_respond nul DHCP_SERVER_STATE_ACK p s1)"
    using assms(1,9,10) by (simp add: dhcps_receive_udp_packet_handler_def split_beta)
  have t: "ip_table s' = save_client_addr d (get (payload p) off_chaddr 6) (mark_ip_in_table d (ip_table s))"
    using assms(2) by (simp add: s' respond_table fr reply_host_def)
  have "dhcp_server_state_machine s' = 5"
    by (simp add: s' dhcps_respond_def split_beta Let_def)
  then show ?thesis
    using assms(3-8) lease_lookup [of "ip_table s" d "get (payload p) off_chaddr 6"]
    by (simp add: t marked_mark_ip)
qed

theorem dhcps_lease_remembered_witness:
  "check_client_request_ip (ip_table (fst (dhcps_receive_udp_packet_handler 0 (\<lambda>p. (p, False))
     (select_packet 7 (IP 192 168 1 100)) DHCP_CLIENT_PORT offering_server))) [2, 0, 0, 0, 0, 7] = 100"
proof -
  have mac: "get (payload (select_packet 7 (IP 192 168 1 100))) off_chaddr 6 = [2, 0, 0, 0, 0, 7]"
    by (simp add: select_packet_def)
  have t: "ip_table offering_server = ip_table home_server" by (simp add: offering_server_def)
  have "check_client_request_ip (ip_table home_server) [2, 0, 0, 0, 0, 7] = 0"
    using check_client_Some [of "ip_table home_server" "[2, 0, 0, 0, 0, 7]", OF refl]
    unfolding home_server_marked by linarith
  then show ?thesis
    using dhcps_lease_remembered [OF select_offered refl, of 0 "\<lambda>p. (p, False)"]
    by (simp add: reply_host_def offering_server_def mac t home_server_simps(2) markable_def select_packet_def)
qed

section \<open>Where the lease table fails\<close>

text \<open>
  The host numbers 129 to 160 are never taken. When the search for a free number returns
  one of them, acknowledging it to a client and recording the client leaves the search result
  as it was: the next client is offered the same address while the first lease runs.
\<close>

theorem dhcps_double_lease:
  assumes "search_next_ip start end t = d" and "129 \<le> unat d" and "unat d \<le> 160"
  shows "search_next_ip start end (save_client_addr d a (mark_ip_in_table d t)) = d"
proof -
  have "mark_ip_in_table d t = t"
    using assms(2,3) by (intro mark_ip_unmarkable) (simp add: markable_def)
  then show ?thesis using assms(1) by (simp add: search_next_ip_def save_client_addr_def)
qed

theorem dhcps_double_lease_witness:
  "search_next_ip 130 200 (save_client_addr 130 [2, 0, 0, 0, 0, 7] (mark_ip_in_table 130 zero_table)) = 130"
proof -
  have "search_next_ip 130 200 zero_table \<noteq> 0"
    using search_next_ip_None [of 130 200 zero_table] by (auto dest: spec [of _ 130])
  then have "unat (search_next_ip 130 200 zero_table) = 130"
    using search_next_ip_Some [OF refl, of 130 200 zero_table] by (auto dest: spec [of _ 130])
  then have "search_next_ip 130 200 zero_table = 130" by (simp add: word_unat_eq_iff)
  then show ?thesis by (rule dhcps_double_lease) simp_all
qed

text \<open>
  A packet that arrives in several buffers is used after it is released. When the stack's
  \<open>pbuf_coalesce\<close> copies the chain into one buffer and releases the chain, as it does on success,
  the handler goes on reading and answering in the released buffer.
\<close>

theorem dhcps_chained_use_after_free:
  assumes "has_next p" and "co p = (q, True)" and "tot_len q = tot_len p"
    and "0 \<le> tot_len p" and "tot_len p < 2 ^ 15"
  shows "\<exists>ev. snd (dhcps_receive_udp_packet_handler nul co p DHCP_CLIENT_PORT s) =
    Freed (pb_id p) # Touched (pb_id p) # ev"
proof -
  have "sint16 (tot_len p) = tot_len p" using assms(4,5) by (simp add: sint16_def)
  then show ?thesis
    using assms by (simp add: dhcps_receive_udp_packet_handler_def split_beta)
qed

theorem dhcps_chained_use_after_free_witness:
  "\<exists>ev. snd (dhcps_receive_udp_packet_handler 0 (\<lambda>p. (p\<lparr>pb_id := 2\<rparr>, True))
     ((discover_packet 7)\<lparr>has_next := True\<rparr>) DHCP_CLIENT_PORT home_server) = Freed 1 # Touched 1 # ev"
  using dhcps_chained_use_after_free [of "(discover_packet 7)\<lparr>has_next := True\<rparr>" "\<lambda>p. (p\<lparr>pb_id := 2\<rparr>, True)"]
  by (simp add: discover_packet_def request_packet_def)

end
