(* ===== verification/Byte_Words.thy ===== *)
theory Byte_Words
  imports RTL_Prelude
begin

text \<open>
  Little-endian 32-bit words: the four bytes a word occupies in memory, the word four bytes
  hold, and what the shift and mask idioms of the drivers do to the bytes.
\<close>

definition word_bytes :: "u32 \<Rightarrow> bytes" where
  "word_bytes w = [ucast w, ucast (drop_bit 8 w), ucast (drop_bit 16 w), ucast (drop_bit 24 w)]"

definition bytes_word :: "bytes \<Rightarrow> u32" where
  "bytes_word bs = ucast (bs ! 0) OR push_bit 8 (ucast (bs ! 1)) OR push_bit 16 (ucast (bs ! 2)) OR
     push_bit 24 (ucast (bs ! 3))"

text \<open>Replacing the byte \<open>i\<close> of a word by mask and shift.\<close>

definition set_byte :: "u32 \<Rightarrow> nat \<Rightarrow> u8 \<Rightarrow> u32" where
  "set_byte w i b = (w AND NOT (push_bit (8 * i) 0xff)) OR push_bit (8 * i) (ucast b)"

lemma length_word_bytes [simp]: "length (word_bytes w) = 4"
  by (simp add: word_bytes_def)

lemma byte_index: "k < 4 \<Longrightarrow> k = 0 \<or> k = 1 \<or> k = 2 \<or> k = (3 :: nat)"
  by linarith

lemma nth_word_bytes: "k < 4 \<Longrightarrow> word_bytes w ! k = ucast (drop_bit (8 * k) w)"
  by (drule byte_index) (auto simp: word_bytes_def)

lemma bit_word_bytes:
  "k < 4 \<Longrightarrow> n < 8 \<Longrightarrow> bit (word_bytes w ! k) n \<longleftrightarrow> bit w (8 * k + n)"
  by (simp add: nth_word_bytes bit_simps)

lemma word_bytes_eqI:
  assumes "length bs = 4"
    and "\<And>k n. k < 4 \<Longrightarrow> n < 8 \<Longrightarrow> bit w (8 * k + n) \<longleftrightarrow> bit (bs ! k) n"
  shows "word_bytes w = bs"
proof (rule nth_equalityI)
  fix k assume "k < length (word_bytes w)"
  then have k: "k < 4" by simp
  show "word_bytes w ! k = bs ! k"
    by (rule bit_word_eqI) (use k assms in \<open>simp add: bit_word_bytes\<close>)
qed (use assms in simp)

lemma bit_bytes_word:
  assumes "k < 4" and "n < 8"
  shows "bit (bytes_word bs) (8 * k + n) \<longleftrightarrow> bit (bs ! k) n"
proof -
  have out: "\<not> bit (b :: u8) m" if "8 \<le> m" for b m using that bit_imp_le_length [of b m] by auto
  show ?thesis
    using byte_index [OF assms(1)] assms(2)
    by (elim disjE) (auto simp: bytes_word_def bit_simps out)
qed

lemma word_bytes_bytes_word [byte_simps]: "length bs = 4 \<Longrightarrow> word_bytes (bytes_word bs) = bs"
  by (rule word_bytes_eqI) (simp_all add: bit_bytes_word)

lemma bit_255: "bit (0xff :: u32) n \<longleftrightarrow> n < 8"
proof -
  have "(0xff :: u32) = mask 8" by (simp add: mask_eq_exp_minus_1)
  then show ?thesis by (simp only: bit_mask_iff) auto
qed

lemma bit_255_int: "bit (0xff :: int) n \<longleftrightarrow> n < 8"
proof -
  have "(0xff :: int) = mask 8" by (simp add: mask_eq_exp_minus_1)
  then show ?thesis by (simp only: bit_mask_iff) auto
qed

lemma word_bytes_set_byte [byte_simps]:
  assumes "i < 4"
  shows "word_bytes (set_byte w i b) = (word_bytes w)[i := b]"
proof (rule word_bytes_eqI)
  fix k n :: nat assume kn: "k < 4" "n < 8"
  have out: "\<not> bit (b :: u8) m" if "8 \<le> m" for b m using that bit_imp_le_length [of b m] by auto
  show "bit (set_byte w i b) (8 * k + n) \<longleftrightarrow> bit ((word_bytes w)[i := b] ! k) n"
  proof (cases "k = i")
    case True
    then show ?thesis using kn assms by (simp add: set_byte_def bit_simps bit_255 bit_255_int)
  next
    case False
    have "8 * i \<le> 8 * k + n \<Longrightarrow> 8 \<le> 8 * k + n - 8 * i"
      using False kn by (cases "i < k") auto
    then show ?thesis using kn False by (auto simp: set_byte_def bit_simps bit_255 bit_255_int out bit_word_bytes)
  qed
qed simp

end
