(* ===== verification/Flash_Api.thy ===== *)
theory Flash_Api
  imports Byte_Words
begin

text \<open>
  The flash driver, \<^verbatim>\<open>component/common/mbed/targets/hal/rtl8711b/flash_api.c\<close>.

  The functions it calls in the chip's ROM, the memory-mapped read of the flash window and the
  cache are not part of the sources: they are the fields of a record \<open>rom\<close>, over an abstract type
  of chip states, and an argument of every operation. Addresses and sizes are the driver's \<open>u32\<close>
  values, kept as \<open>int\<close> with the wrap-around written out (\<open>uint32\<close>). A data pointer is the memory
  from the pointer on, indexed by the distance, so that reads past the intended end are visible.
\<close>

section \<open>What the driver builds on\<close>

datatype erase_type = EraseChip | EraseBlock | EraseSector

record 'c rom =
  FLASH_TxData12B :: "int \<Rightarrow> bytes \<Rightarrow> 'c \<Rightarrow> 'c"
  FLASH_Erase :: "erase_type \<Rightarrow> int \<Rightarrow> 'c \<Rightarrow> 'c"
  Cache_Flush :: "'c \<Rightarrow> 'c"
  HAL_READ32 :: "'c \<Rightarrow> int \<Rightarrow> u32"
  FLASH_SetStatusBits :: "u32 \<Rightarrow> u32 \<Rightarrow> 'c \<Rightarrow> 'c"
  FLASH_SetStatus :: "u8 \<Rightarrow> bytes \<Rightarrow> 'c \<Rightarrow> 'c"
  FLASH_RxCmd :: "u8 \<Rightarrow> nat \<Rightarrow> 'c \<Rightarrow> bytes"

record flash_init =
  FLASH_Status2_exist :: bool
  FLASH_cmd_rd_id :: u8
  FLASH_cmd_rd_status :: u8
  FLASH_cmd_rd_status2 :: u8
  FLASH_cmd_wr_status :: u8
  FLASH_cmd_wr_status2 :: u8

text \<open>
  The interrupt controller (the enable and pending bits), the tick timer, the driver's two static
  variables and the chip.
\<close>

record 'c board =
  nvic_enabled :: "u32 list"
  nvic_pending :: "u32 list"
  SysTick_CTRL :: u32
  ISER :: "u32 list"
  systick_ctrl :: u32
  chip :: 'c

section \<open>Masking interrupts\<close>

text \<open>Writing ones to \<open>ICER\<close> and \<open>ICPR\<close> clears bits, writing ones to \<open>ISER\<close> sets them.\<close>

definition lock_bank :: "nat \<Rightarrow> 'c board \<Rightarrow> 'c board" where
  "lock_bank i b =
     (let b = b\<lparr>ISER := (ISER b)[i := nvic_enabled b ! i]\<rparr>;
          b = b\<lparr>nvic_enabled := (nvic_enabled b)[i := nvic_enabled b ! i AND NOT 0xffffffff]\<rparr>
      in b\<lparr>nvic_pending := (nvic_pending b)[i := nvic_pending b ! i AND NOT 0xffffffff]\<rparr>)"

definition flash_write_lock :: "'c board \<Rightarrow> 'c board" where
  "flash_write_lock b =
     (let b = fold lock_bank [0..<8] b
      in b\<lparr>systick_ctrl := SysTick_CTRL b, SysTick_CTRL := 0\<rparr>)"

definition unlock_bank :: "nat \<Rightarrow> 'c board \<Rightarrow> 'c board" where
  "unlock_bank i b = b\<lparr>nvic_enabled := (nvic_enabled b)[i := nvic_enabled b ! i OR ISER b ! i]\<rparr>"

definition flash_write_unlock :: "'c board \<Rightarrow> 'c board" where
  "flash_write_unlock b =
     (let b = fold unlock_bank [0..<8] b
      in b\<lparr>SysTick_CTRL := systick_ctrl b\<rparr>)"

definition on_chip :: "('c \<Rightarrow> 'c) \<Rightarrow> 'c board \<Rightarrow> 'c board" where
  "on_chip f b = b\<lparr>chip := f (chip b)\<rparr>"

section \<open>Status register, identification and erasing\<close>

definition flash_write_protect :: "'c rom \<Rightarrow> u32 \<Rightarrow> 'c board \<Rightarrow> 'c board" where
  "flash_write_protect r protect b =
     flash_write_unlock (on_chip (FLASH_SetStatusBits r 0x1c protect) (flash_write_lock b))"

text \<open>\<open>stale\<close> is the byte the uninitialised \<open>status[1]\<close> holds.\<close>

definition flash_set_status :: "'c rom \<Rightarrow> flash_init \<Rightarrow> u8 \<Rightarrow> u32 \<Rightarrow> 'c board \<Rightarrow> int \<times> 'c board" where
  "flash_set_status r para stale data b =
     (let status0 = ucast data;
          b = flash_write_lock b;
          (status1, StatusLen) =
            (if FLASH_Status2_exist para
             then (FLASH_RxCmd r (FLASH_cmd_rd_status2 para) 1 (chip b) ! 0, 2 :: nat)
             else (stale, 1));
          b = (if FLASH_cmd_wr_status2 para = 0
               then on_chip (FLASH_SetStatus r (FLASH_cmd_wr_status para) (take StatusLen [status0, status1])) b
               else on_chip (FLASH_SetStatus r (FLASH_cmd_wr_status2 para) [status1])
                      (on_chip (FLASH_SetStatus r (FLASH_cmd_wr_status para) [status0]) b))
      in (1, flash_write_unlock b))"

definition flash_reset_status :: "'c rom \<Rightarrow> flash_init \<Rightarrow> u8 \<Rightarrow> 'c board \<Rightarrow> 'c board" where
  "flash_reset_status r para stale b = snd (flash_set_status r para stale 0 b)"

text \<open>Only the low byte of the uninitialised \<open>int data\<close> (here \<open>stale\<close>) is filled in.\<close>

definition flash_get_status :: "'c rom \<Rightarrow> flash_init \<Rightarrow> u32 \<Rightarrow> 'c board \<Rightarrow> u32 \<times> 'c board" where
  "flash_get_status r para stale b =
     (let b = flash_write_lock b;
          data = set_byte stale 0 (FLASH_RxCmd r (FLASH_cmd_rd_status para) 1 (chip b) ! 0)
      in (data, flash_write_unlock b))"

definition flash_erase_sector :: "'c rom \<Rightarrow> int \<Rightarrow> 'c board \<Rightarrow> 'c board" where
  "flash_erase_sector r address b =
     flash_write_unlock (on_chip (Cache_Flush r) (on_chip (FLASH_Erase r EraseSector address) (flash_write_lock b)))"

definition flash_erase_block :: "'c rom \<Rightarrow> int \<Rightarrow> 'c board \<Rightarrow> 'c board" where
  "flash_erase_block r address b =
     flash_write_unlock (on_chip (Cache_Flush r) (on_chip (FLASH_Erase r EraseBlock address) (flash_write_lock b)))"

definition flash_erase_chip :: "'c rom \<Rightarrow> 'c board \<Rightarrow> 'c board" where
  "flash_erase_chip r b =
     flash_write_unlock (on_chip (Cache_Flush r) (on_chip (FLASH_Erase r EraseChip 0) (flash_write_lock b)))"

definition flash_set_extend_addr :: "'c rom \<Rightarrow> u32 \<Rightarrow> 'c board \<Rightarrow> int \<times> 'c board" where
  "flash_set_extend_addr r data b =
     (let segnum = ucast (data AND 0x07)
      in (1, flash_write_unlock (on_chip (FLASH_SetStatus r 0xC5 [segnum]) (flash_write_lock b))))"

definition flash_get_extend_addr :: "'c rom \<Rightarrow> 'c board \<Rightarrow> u8 \<times> 'c board" where
  "flash_get_extend_addr r b =
     (let b = flash_write_lock b in (FLASH_RxCmd r 0xC8 1 (chip b) ! 0, flash_write_unlock b))"

definition flash_read_id :: "'c rom \<Rightarrow> flash_init \<Rightarrow> nat \<Rightarrow> 'c board \<Rightarrow> nat \<times> bytes \<times> 'c board" where
  "flash_read_id r para len b =
     (let b = flash_write_lock b
      in (len, FLASH_RxCmd r (FLASH_cmd_rd_id para) len (chip b), flash_write_unlock b))"

section \<open>Words\<close>

definition flash_read_word :: "'c rom \<Rightarrow> int \<Rightarrow> 'c \<Rightarrow> int \<times> u32" where
  "flash_read_word r address c =
     (let offset_to_align = nat (address AND 0x03);
          i = 4 - offset_to_align
      in if offset_to_align \<noteq> 0
         then (let address = uint32 (address - int offset_to_align);
                   read_data = drop_bit (offset_to_align * 8) (HAL_READ32 r c address);
                   address = uint32 (address + 4)
               in (1, read_data OR push_bit (i * 8) (HAL_READ32 r c address)))
         else (1, HAL_READ32 r c address))"

definition flash_write_word :: "'c rom \<Rightarrow> int \<Rightarrow> u32 \<Rightarrow> 'c board \<Rightarrow> int \<times> 'c board" where
  "flash_write_word r address data b =
     (let offset_to_align = nat (address AND 0x03);
          i = 4 - offset_to_align;
          b = flash_write_lock b;
          b = (if offset_to_align \<noteq> 0
               then (let address = uint32 (address - int offset_to_align);
                         temp = HAL_READ32 r (chip b) address;
                         temp = drop_bit (8 * i) (push_bit (i * 8) temp) OR push_bit (8 * offset_to_align) data;
                         b = on_chip (FLASH_TxData12B r address (word_bytes temp)) b;
                         address = uint32 (address + 4);
                         temp = HAL_READ32 r (chip b) address;
                         temp = push_bit (offset_to_align * 8) (drop_bit (offset_to_align * 8) temp) OR
                           drop_bit (8 * i) data
                     in on_chip (FLASH_TxData12B r address (word_bytes temp)) b)
               else on_chip (FLASH_TxData12B r address (word_bytes data)) b)
      in (1, flash_write_unlock (on_chip (Cache_Flush r) b)))"

section \<open>Reading a stream\<close>

definition next_aligned :: "int \<Rightarrow> int" where
  "next_aligned address = uint32 (push_bit 2 (uint32 (drop_bit 2 (uint32 (address - 1)) + 1)))"

function read_head :: "bytes \<Rightarrow> nat \<Rightarrow> nat \<Rightarrow> int \<Rightarrow> bytes \<Rightarrow> int \<times> bytes" where
  "read_head ptr i n len out =
     (if i < n
      then (let out = out @ [ptr ! i]; len = uint32 (len - 1)
            in if len = 0 then (len, out) else read_head ptr (i + 1) n len out)
      else (len, out))"
  by pat_completeness auto
termination
  by (relation "measure (\<lambda>(ptr, i, n, _). n - i)") auto

text \<open>
  The two word loops: byte by byte when the destination is not aligned, one store per word when
  it is.
\<close>

definition store_word :: "bool \<Rightarrow> u32 \<Rightarrow> bytes" where
  "store_word aligned w = (if aligned then word_bytes w else map (\<lambda>i. word_bytes w ! i) [0..<4])"

function read_words :: "'c rom \<Rightarrow> 'c \<Rightarrow> bool \<Rightarrow> int \<Rightarrow> int \<Rightarrow> bytes \<Rightarrow> int \<times> int \<times> bytes" where
  "read_words r c aligned address len out =
     (if 4 \<le> len
      then read_words r c aligned (uint32 (address + 4)) (len - 4)
             (out @ store_word aligned (HAL_READ32 r c address))
      else (address, len, out))"
  by pat_completeness auto
termination
  by (relation "measure (\<lambda>(r, c, al, a, len, _). nat len)") auto

text \<open>The result is the bytes stored from \<open>data\<close> on; \<open>data\<close> itself matters for its alignment only.\<close>

definition flash_stream_read :: "'c rom \<Rightarrow> int \<Rightarrow> int \<Rightarrow> int \<Rightarrow> 'c \<Rightarrow> int \<times> bytes" where
  "flash_stream_read r address len data c =
     (let offset_to_align = nat (address AND 0x03);
          (len, out) =
            (if offset_to_align \<noteq> 0
             then read_head (drop offset_to_align (word_bytes (HAL_READ32 r c (uint32 (address - int offset_to_align)))))
                    0 (4 - offset_to_align) len []
             else (len, []));
          address = next_aligned address;
          (address, len, out) =
            read_words r c ((data + int (length out)) AND 0x03 = 0) address len out;
          out = (if len > 0
                 then out @ map (\<lambda>i. word_bytes (HAL_READ32 r c address) ! i) [0..<nat len]
                 else out)
      in (1, out))"

definition flash_burst_read :: "'c rom \<Rightarrow> int \<Rightarrow> int \<Rightarrow> int \<Rightarrow> 'c \<Rightarrow> int \<times> bytes" where
  "flash_burst_read r address len data c = (1, snd (flash_stream_read r address len data c))"

section \<open>Writing a stream\<close>

function write_head :: "(nat \<Rightarrow> u8) \<Rightarrow> nat \<Rightarrow> u32 \<Rightarrow> int \<Rightarrow> nat \<Rightarrow> u32 \<times> int \<times> nat" where
  "write_head data i read_word size_left buffer =
     (if i < 4
      then (let read_word = set_byte read_word i (data buffer);
                size_left = uint32 (size_left - 1);
                buffer = buffer + 1
            in if size_left = 0 then (read_word, size_left, buffer)
               else write_head data (i + 1) read_word size_left buffer)
      else (read_word, size_left, buffer))"
  by pat_completeness auto
termination
  by (relation "measure (\<lambda>(d, i, _). 4 - i)") auto

text \<open>The loop \<open>for (; size >= n; size -= n)\<close>, which the source has for 12 and for 4 bytes.\<close>

function write_chunks :: "'c rom \<Rightarrow> nat \<Rightarrow> (nat \<Rightarrow> u8) \<Rightarrow> int \<Rightarrow> int \<Rightarrow> nat \<Rightarrow> 'c \<Rightarrow> int \<times> int \<times> nat \<times> 'c" where
  "write_chunks r n data addr_begin size_left buffer c =
     (if 0 < n \<and> int n \<le> size_left
      then write_chunks r n data (uint32 (addr_begin + int n)) (size_left - int n) (buffer + n)
             (FLASH_TxData12B r addr_begin (map data [buffer..<buffer + n]) c)
      else (addr_begin, size_left, buffer, c))"
  by pat_completeness auto
termination
  by (relation "measure (\<lambda>(r, n, d, a, s, _). nat s)") auto

text \<open>
  The body of the page loop: the first partial word, then from the next aligned address on
  chunks of 12, words, and the last partial word.
\<close>

definition write_aligned :: "'c rom \<Rightarrow> (nat \<Rightarrow> u8) \<Rightarrow> int \<Rightarrow> int \<Rightarrow> nat \<Rightarrow> 'c \<Rightarrow> nat \<times> 'c" where
  "write_aligned r data addr_begin size_left buffer c =
     (let (addr_begin, size_left, buffer, c) = write_chunks r 12 data addr_begin size_left buffer c;
          (addr_begin, size_left, buffer, c) = write_chunks r 4 data addr_begin size_left buffer c
      in if size_left > 0
         then (let read_word = fold (\<lambda>i w. set_byte w i (data (buffer + i))) [0..<nat size_left]
                     (HAL_READ32 r c addr_begin)
               in (buffer + nat size_left, FLASH_TxData12B r addr_begin (word_bytes read_word) c))
         else (buffer, c))"

definition write_page :: "'c rom \<Rightarrow> (nat \<Rightarrow> u8) \<Rightarrow> int \<Rightarrow> int \<Rightarrow> nat \<Rightarrow> 'c \<Rightarrow> nat \<times> 'c" where
  "write_page r data addr_begin size_left buffer c =
     (let offset_to_align = nat (addr_begin AND 0x3);
          (size_left, buffer, c) =
            (if offset_to_align \<noteq> 0
             then (let word_addr = uint32 (addr_begin - int offset_to_align);
                       (read_word, size_left, buffer) =
                         write_head data offset_to_align (HAL_READ32 r c word_addr) size_left buffer
                   in (size_left, buffer, FLASH_TxData12B r word_addr (word_bytes read_word) c))
             else (size_left, buffer, c))
      in write_aligned r data (next_aligned addr_begin) size_left buffer c)"

function write_pages :: "'c rom \<Rightarrow> (nat \<Rightarrow> u8) \<Rightarrow> int \<Rightarrow> int \<Rightarrow> int \<Rightarrow> int \<Rightarrow> int \<Rightarrow> nat \<Rightarrow> 'c \<Rightarrow> 'c" where
  "write_pages r data stop page_cnt addr_begin addr_end size_left buffer c =
     (if 0 < page_cnt
      then (let (buffer, c) = write_page r data addr_begin size_left buffer c;
                page_cnt = page_cnt - 1;
                addr_begin = addr_end;
                addr_end = (if page_cnt = 1 then stop
                            else uint32 (push_bit 8 (uint32 (drop_bit 8 addr_begin + 1))))
            in write_pages r data stop page_cnt addr_begin addr_end (uint32 (addr_end - addr_begin)) buffer c)
      else c)"
  by pat_completeness auto
termination
  by (relation "measure (\<lambda>(r, d, stop, n, _). nat n)") auto

definition flash_stream_write :: "'c rom \<Rightarrow> int \<Rightarrow> int \<Rightarrow> (nat \<Rightarrow> u8) \<Rightarrow> 'c board \<Rightarrow> int \<times> 'c board" where
  "flash_stream_write r address len data b =
     (let page_begin = address AND NOT 0xff;
          page_end = uint32 (address + len) AND NOT 0xff;
          page_cnt = uint32 (drop_bit 8 (uint32 (page_end - page_begin)) + 1);
          addr_begin = address;
          addr_end = (if page_cnt = 1 then uint32 (address + len) else uint32 (page_begin + 0x100));
          size_left = uint32 (addr_end - addr_begin);
          b = flash_write_lock b;
          b = on_chip (write_pages r data (uint32 (address + len)) page_cnt addr_begin addr_end size_left 0) b
      in (1, flash_write_unlock (on_chip (Cache_Flush r) b)))"

definition flash_burst_write :: "'c rom \<Rightarrow> int \<Rightarrow> int \<Rightarrow> (nat \<Rightarrow> u8) \<Rightarrow> 'c board \<Rightarrow> int \<times> 'c board" where
  "flash_burst_write r address len data b = (1, snd (flash_stream_write r address len data b))"

declare read_head.simps [simp del] read_words.simps [simp del] write_head.simps [simp del]
  write_chunks.simps [simp del] write_pages.simps [simp del]

end
