(* ===== verification/Nor_Flash.thy ===== *)
theory Nor_Flash
  imports Flash_Api
begin

text \<open>
  The flash driver over a NOR chip. The locale \<open>nor_flash\<close> states what the driver relies on: a
  program command of at most 12 bytes inside one 256-byte page ANDs the data into the cells, an
  erase sets whole sectors or blocks to ones, and a read through the window is right for cells
  not programmed since the cache was last flushed. The lemmas in it say what the driver's
  operations do to the cells. A concrete chip, which wraps around inside a page and serves
  stale bytes from its cache, interprets the locale.
\<close>

section \<open>Programming cells\<close>

definition prog :: "(int \<Rightarrow> u8) \<Rightarrow> int \<Rightarrow> bytes \<Rightarrow> int \<Rightarrow> u8" where
  "prog m a bs x = (if a \<le> x \<and> x < a + int (length bs) then m x AND bs ! nat (x - a) else m x)"

lemma prog_Nil [simp]: "prog m a [] = m"
  by (auto simp: prog_def fun_eq_iff)

lemma prog_append:
  assumes "b = a + int (length xs)"
  shows "prog (prog m a xs) b ys = prog m a (xs @ ys)"
proof
  fix x
  have "nat (x - b) = nat (x - a) - length xs" using assms by simp
  then show "prog (prog m a xs) b ys x = prog m a (xs @ ys) x"
    using assms by (auto simp: prog_def nth_append)
qed

lemma prog_upt:
  assumes "b = a + int n"
  shows "prog (prog m a (map data [i..<i + n])) b (map data [i + n..<i + (n + k)]) = prog m a (map data [i..<i + (n + k)])"
  using assms upt_add_eq_append [of i "i + n" k] by (simp add: prog_append add.assoc)

lemma prog_outside: "x < a \<or> a + int (length bs) \<le> x \<Longrightarrow> prog m a bs x = m x"
  by (auto simp: prog_def)

text \<open>Bytes read back from the cells around the new data do not change them.\<close>

lemma prog_cells: "prog m a (map (\<lambda>k. m (a + int k)) [0..<n]) = m"
  by (auto simp: prog_def fun_eq_iff)

lemma prog_merge:
  assumes "old = map (\<lambda>k. m (a + int k)) [0..<n]" and "i + length new \<le> n"
  shows "prog m a (take i old @ new @ drop (i + length new) old) = prog m (a + int i) new"
proof
  fix x
  have len: "length (take i old @ new @ drop (i + length new) old) = n" using assms by simp
  show "prog m a (take i old @ new @ drop (i + length new) old) x = prog m (a + int i) new x"
  proof (cases "a \<le> x \<and> x < a + int n")
    case False
    then show ?thesis using assms(2) len by (auto simp: prog_def)
  next
    case True
    then obtain k where k: "x = a + int k" "k < n" by (metis zero_le_imp_eq_int zle_iff_zadd add_less_cancel_left of_nat_less_iff)
    then have "prog m a (take i old @ new @ drop (i + length new) old) x =
        m x AND (if k < i \<or> i + length new \<le> k then m x else new ! (k - i))"
      using assms len by (auto simp: prog_def nth_append)
    then show ?thesis using k by (auto simp: prog_def nat_diff_distrib)
  qed
qed

section \<open>Alignment\<close>

lemma and_3: "a AND 3 = a mod (4 :: int)"
proof -
  have "(3 :: int) = mask 2" by (simp add: mask_eq_exp_minus_1)
  then show ?thesis by (simp only: take_bit_eq_mask [symmetric] take_bit_eq_mod) simp
qed

lemma and_255: "a AND 255 = a mod (256 :: int)"
proof -
  have "(255 :: int) = mask 8" by (simp add: mask_eq_exp_minus_1)
  then show ?thesis by (simp only: take_bit_eq_mask [symmetric] take_bit_eq_mod) simp
qed

lemma and_not_255: "a AND NOT 255 = a - a mod (256 :: int)"
proof -
  have "a - (a AND 255) = a AND NOT (a AND 255)"
    by (rule disjunctive_diff) (simp add: bit_and_iff)
  also have "\<dots> = a AND NOT 255" by (rule bit_eqI) (auto simp: bit_simps)
  finally show ?thesis by (simp add: and_255)
qed

lemma next_aligned_eq:
  assumes "0 \<le> a" and "a + 3 < 2 ^ 32"
  shows "next_aligned a = (a + 3) div 4 * 4"
proof (cases "a = 0")
  case True
  then show ?thesis by (simp add: next_aligned_def uint32_def drop_bit_eq_div push_bit_eq_mult)
next
  case False
  have e: "(a - 1) div 4 + 1 = (a + 3) div 4" by simp
  have "0 \<le> (a + 3) div 4" "(a + 3) div 4 * 4 < 2 ^ 32" using assms by auto
  then show ?thesis using False assms e
    by (simp add: next_aligned_def wrap_simps drop_bit_eq_div push_bit_eq_mult)
qed

lemma page_range:
  assumes "0 < n" and "256 * pg \<le> a" and "a + n \<le> 256 * pg + (256 :: int)"
  shows "a div 256 = (a + n - 1) div 256"
proof -
  have "a div 256 = pg" "(a + n - 1) div 256 = pg" using assms by auto
  then show ?thesis by simp
qed

lemma aligned_room:
  assumes "(x :: int) mod 4 = 0" and "x < 256 * pg + 256"
  shows "x + 4 \<le> 256 * pg + 256"
proof -
  have "4 dvd (4 * (64 * pg + 64) - x)" using assms(1) by (intro dvd_diff dvd_triv_left) auto
  then have "4 \<le> 4 * (64 * pg + 64) - x" using assms(2) by (intro zdvd_imp_le) auto
  then show ?thesis by simp
qed

section \<open>The bytes of the partial words\<close>

lemma write_head_bytes:
  assumes "i < 4" and "0 < n" and "n < 2 ^ 32" and "k = min (4 - i) (nat n)"
  shows "\<exists>w'. write_head data i w n buf = (w', n - int k, buf + k) \<and>
    word_bytes w' = take i (word_bytes w) @ map data [buf..<buf + k] @ drop (i + k) (word_bytes w)"
  using assms
proof (induction data i w n buf arbitrary: k rule: write_head.induct)
  case (1 data i w n buf)
  have n: "uint32 (n - 1) = n - 1" using "1.prems" by (simp add: wrap_simps)
  have upd: "word_bytes (set_byte w i (data buf)) = take i (word_bytes w) @ data buf # drop (Suc i) (word_bytes w)"
    using "1.prems"(1) by (simp add: byte_simps upd_conv_take_nth_drop)
  show ?case
  proof (cases "n = 1 \<or> i = 3")
    case True
    then show ?thesis
    proof
      assume "n = 1"
      then show ?thesis using "1.prems" upd n by (subst write_head.simps) (simp add: Let_def)
    next
      assume "i = 3"
      then show ?thesis using "1.prems" upd n
        by (subst write_head.simps, subst write_head.simps) (simp add: Let_def)
    qed
  next
    case False
    let ?k = "min (4 - (i + 1)) (nat (n - 1))"
    obtain j where j: "?k = j" by blast
    have k: "k = Suc j" using "1.prems" False j by auto
    have "\<exists>w'. write_head data (i + 1) (set_byte w i (data buf)) (n - 1) (buf + 1) =
        (w', n - 1 - int j, buf + 1 + j) \<and>
      word_bytes w' = take (i + 1) (word_bytes (set_byte w i (data buf))) @
        map data [buf + 1..<buf + 1 + j] @ drop (i + 1 + j) (word_bytes (set_byte w i (data buf)))"
      by (rule "1.IH" [OF "1.prems"(1) refl n [symmetric] refl])
         (use "1.prems"(1,2,3) False j in simp_all)
    then obtain w' where w': "write_head data (i + 1) (set_byte w i (data buf)) (n - 1) (buf + 1) =
        (w', n - 1 - int j, buf + 1 + j)"
      "word_bytes w' = take (i + 1) (word_bytes (set_byte w i (data buf))) @
        map data [buf + 1..<buf + 1 + j] @ drop (i + 1 + j) (word_bytes (set_byte w i (data buf)))"
      by blast
    have "write_head data i w n buf = (w', n - int k, buf + k)"
      using "1.prems"(1) False n w'(1) k by (subst write_head.simps) (simp add: Let_def)
    moreover have "[buf..<buf + k] = buf # [buf + 1..<buf + 1 + j]"
      by (simp add: k upt_conv_Cons del: upt_Suc)
    then have "word_bytes w' = take i (word_bytes w) @ map data [buf..<buf + k] @ drop (i + k) (word_bytes w)"
      using "1.prems"(1) w'(2) by (simp add: upd k add.commute del: upt_Suc)
    ultimately show ?thesis by blast
  qed
qed

lemma fold_set_byte:
  assumes "n \<le> 4"
  shows "word_bytes (fold (\<lambda>i w. set_byte w i (data (buf + i))) [0..<n] w) =
    map data [buf..<buf + n] @ drop n (word_bytes w)"
  using assms
proof (induction n)
  case (Suc n)
  then have "word_bytes (fold (\<lambda>i w. set_byte w i (data (buf + i))) [0..<Suc n] w) =
      (map data [buf..<buf + n] @ drop n (word_bytes w))[n := data (buf + n)]"
    by (simp add: byte_simps)
  also have "drop n (word_bytes w) = word_bytes w ! n # drop (Suc n) (word_bytes w)"
    using Suc.prems by (simp add: Cons_nth_drop_Suc)
  finally show ?case by (simp add: list_update_append)
qed simp

section \<open>Masking interrupts leaves the chip alone and is undone\<close>

lemma lock_bank_chip [simp]: "chip (fold lock_bank is b) = chip b"
  by (induction "is" arbitrary: b) (simp_all add: lock_bank_def Let_def)

lemma unlock_bank_chip [simp]: "chip (fold unlock_bank is b) = chip b"
  by (induction "is" arbitrary: b) (simp_all add: unlock_bank_def)

lemma lock_chip [simp]: "chip (flash_write_lock b) = chip b"
  by (simp add: flash_write_lock_def Let_def)

lemma unlock_chip [simp]: "chip (flash_write_unlock b) = chip b"
  by (simp add: flash_write_unlock_def Let_def)

lemma on_chip_chip [simp]: "chip (on_chip f b) = f (chip b)"
  by (simp add: on_chip_def)

text \<open>
  With interrupts masked around a change of the chip, the enable bits and the tick timer are as
  before; the pending bits are gone.
\<close>

lemma eight: "length xs = 8 \<Longrightarrow> \<exists>a b c d e f g h. xs = [a, b, c, d, e, f, g, h]"
  by (auto simp: length_Suc_conv numeral_eq_Suc)

lemma lock_on_chip_unlock:
  assumes "length (nvic_enabled b) = 8" and "length (nvic_pending b) = 8" and "length (ISER b) = 8"
  shows "flash_write_unlock (on_chip f (flash_write_lock b)) =
    b\<lparr>nvic_pending := replicate 8 0, ISER := nvic_enabled b, systick_ctrl := SysTick_CTRL b,
      chip := f (chip b)\<rparr>"
proof -
  obtain e0 e1 e2 e3 e4 e5 e6 e7 where e: "nvic_enabled b = [e0, e1, e2, e3, e4, e5, e6, e7]"
    using eight [OF assms(1)] by blast
  obtain p0 p1 p2 p3 p4 p5 p6 p7 where p: "nvic_pending b = [p0, p1, p2, p3, p4, p5, p6, p7]"
    using eight [OF assms(2)] by blast
  obtain i0 i1 i2 i3 i4 i5 i6 i7 where i: "ISER b = [i0, i1, i2, i3, i4, i5, i6, i7]"
    using eight [OF assms(3)] by blast
  have "(0xffffffff :: u32) = - 1" by simp
  then have "NOT (0xffffffff :: u32) = 0" by (simp only: bit.compl_one)
  then have ones: "w AND NOT 0xffffffff = 0" for w :: u32 by (simp only: and_zero_eq)
  have "fold lock_bank [0..<8] b = b\<lparr>nvic_pending := replicate 8 0, ISER := nvic_enabled b,
      nvic_enabled := replicate 8 0\<rparr>"
    unfolding lock_bank_def ones by (simp add: upt_rec Let_def e p i numeral_eq_Suc)
  then show ?thesis
    by (simp add: flash_write_lock_def flash_write_unlock_def on_chip_def Let_def upt_rec unlock_bank_def e
        numeral_eq_Suc)
qed

section \<open>What the driver relies on, and what it then does\<close>

locale nor_flash =
  fixes r :: "'c rom"
    and cell :: "'c \<Rightarrow> int \<Rightarrow> u8"
    and clean :: "'c \<Rightarrow> int \<Rightarrow> bool"
  assumes program_cell:
      "0 < length bs \<Longrightarrow> length bs \<le> 12 \<Longrightarrow> a div 256 = (a + int (length bs) - 1) div 256 \<Longrightarrow>
       cell (FLASH_TxData12B r a bs c) = prog (cell c) a bs"
    and program_clean:
      "0 < length bs \<Longrightarrow> length bs \<le> 12 \<Longrightarrow> a div 256 = (a + int (length bs) - 1) div 256 \<Longrightarrow>
       clean c x \<Longrightarrow> x < a \<or> a + int (length bs) \<le> x \<Longrightarrow> clean (FLASH_TxData12B r a bs c) x"
    and erase_cell:
      "cell (FLASH_Erase r EraseSector a c) x = (if x div 4096 = a div 4096 then 0xFF else cell c x)"
      "cell (FLASH_Erase r EraseBlock a c) x = (if x div 65536 = a div 65536 then 0xFF else cell c x)"
      "cell (FLASH_Erase r EraseChip a c) x = 0xFF"
    and flush_cell: "cell (Cache_Flush r c) = cell c"
    and flush_clean: "clean (Cache_Flush r c) x"
    and read_cell: "a mod 4 = 0 \<Longrightarrow> (\<And>k. k < 4 \<Longrightarrow> clean c (a + int k)) \<Longrightarrow>
       word_bytes (HAL_READ32 r c a) = map (\<lambda>k. cell c (a + int k)) [0..<4]"
begin

text \<open>One program command, for a range inside the page \<open>pg\<close>.\<close>

lemma program_in_page:
  assumes "0 < length bs" and "length bs \<le> 12" and "256 * pg \<le> a" and "a + int (length bs) \<le> 256 * pg + 256"
  shows "cell (FLASH_TxData12B r a bs c) = prog (cell c) a bs"
    and "clean c x \<Longrightarrow> x < a \<or> a + int (length bs) \<le> x \<Longrightarrow> clean (FLASH_TxData12B r a bs c) x"
  using program_cell [of bs a c] program_clean [of bs a c x] page_range [of "int (length bs)" pg a] assms by auto

text \<open>The chunk loop writes as many whole chunks as fit.\<close>

lemma write_chunks_cells:
  assumes "0 < n" and "n \<le> 12" and "256 * pg \<le> a" and "0 \<le> a" and "0 \<le> sz" and "a + sz < 2 ^ 32"
    and "a + sz \<le> 256 * pg + 256" and "nat sz div n = q"
  shows "\<exists>c'. write_chunks r n data a sz buf c = (a + int (n * q), sz - int (n * q), buf + n * q, c') \<and>
    cell c' = prog (cell c) a (map data [buf..<buf + n * q]) \<and>
    (\<forall>x. clean c x \<longrightarrow> x < a \<or> a + int (n * q) \<le> x \<longrightarrow> clean c' x)"
  using assms
proof (induction q arbitrary: a sz buf c)
  case 0
  then have "\<not> int n \<le> sz" by (auto simp: div_eq_0_iff)
  then show ?case by (subst write_chunks.simps) simp
next
  case (Suc q)
  let ?bs = "map data [buf..<buf + n]"
  let ?c = "FLASH_TxData12B r a ?bs c"
  have "1 \<le> nat sz div n" using Suc.prems(8) by simp
  then have le: "int n \<le> sz" using Suc.prems(1) by (simp add: Suc_le_eq div_greater_zero_iff)
  have wrap: "uint32 (a + int n) = a + int n" using Suc.prems le by (simp add: wrap_simps)
  have "nat (sz - int n) div n = nat sz div n - 1"
    using Suc.prems(1) le le_div_geq [of n "nat sz"] by (simp add: nat_diff_distrib)
  then obtain c' where c': "write_chunks r n data (a + int n) (sz - int n) (buf + n) ?c =
      (a + int n + int (n * q), sz - int n - int (n * q), buf + n + n * q, c')"
    "cell c' = prog (cell ?c) (a + int n) (map data [buf + n..<buf + n + n * q])"
    "\<forall>x. clean ?c x \<longrightarrow> x < a + int n \<or> a + int n + int (n * q) \<le> x \<longrightarrow> clean c' x"
    using Suc.IH [of "a + int n" "sz - int n" "buf + n" ?c] Suc.prems le by auto
  have cell1: "cell ?c = prog (cell c) a ?bs"
    and clean1: "clean c x \<Longrightarrow> x < a \<or> a + int n \<le> x \<Longrightarrow> clean ?c x" for x
    using program_in_page [of ?bs pg a c] Suc.prems le by auto
  have "write_chunks r n data a sz buf c = (a + int (n * Suc q), sz - int (n * Suc q), buf + n * Suc q, c')"
    using c'(1) wrap le Suc.prems(1) by (subst write_chunks.simps) (simp add: algebra_simps)
  moreover have "cell c' = prog (cell c) a (map data [buf..<buf + n * Suc q])"
    unfolding c'(2) cell1 using prog_upt [of "a + int n" a n _ data buf "n * q"] by (simp add: add.assoc)
  moreover have "\<forall>x. clean c x \<longrightarrow> x < a \<or> a + int (n * Suc q) \<le> x \<longrightarrow> clean c' x"
  proof (intro allI impI)
    fix x assume x: "clean c x" "x < a \<or> a + int (n * Suc q) \<le> x"
    have "int (n * Suc q) = int n + int (n * q)" by (simp add: algebra_simps)
    then have "x < a \<or> a + int n \<le> x \<and> a + int n + int (n * q) \<le> x" using x(2) by linarith
    then show "clean c' x" using c'(3) clean1 [OF x(1)] by auto
  qed
  ultimately show ?case by blast
qed

lemma write_chunks_obtain:
  assumes "0 < n" and "n \<le> 12" and "256 * pg \<le> a" and "0 \<le> a" and "0 \<le> sz" and "a + sz < 2 ^ 32"
    and "a + sz \<le> 256 * pg + 256"
  obtains m c' where "int m \<le> sz" and "sz - int m < int n" and "n dvd m"
    and "write_chunks r n data a sz buf c = (a + int m, sz - int m, buf + m, c')"
    and "cell c' = prog (cell c) a (map data [buf..<buf + m])"
    and "\<And>x. clean c x \<Longrightarrow> x < a \<or> a + int m \<le> x \<Longrightarrow> clean c' x"
proof -
  obtain q where q: "nat sz div n = q" by blast
  have "nat sz = n * q + nat sz mod n" using q by (metis mult_div_mod_eq)
  moreover have "nat sz mod n < n" using assms(1) by simp
  ultimately have "int (n * q) \<le> sz" "sz - int (n * q) < int n" using assms(5) by linarith+
  moreover obtain c' where "write_chunks r n data a sz buf c = (a + int (n * q), sz - int (n * q), buf + n * q, c')"
    "cell c' = prog (cell c) a (map data [buf..<buf + n * q])"
    "\<And>x. clean c x \<Longrightarrow> x < a \<or> a + int (n * q) \<le> x \<Longrightarrow> clean c' x"
    using write_chunks_cells [OF assms q, of data buf c] by blast
  ultimately show ?thesis using that [of "n * q" c'] by simp
qed

text \<open>The aligned part of a page: the two chunk loops and the last partial word.\<close>

lemma write_tail_cells:
  assumes "a mod 4 = 0" and "256 * pg \<le> a" and "a + 4 \<le> 256 * pg + 256" and "n < 4" and "0 < n"
    and "\<And>x. a \<le> x \<Longrightarrow> x < 256 * pg + 256 \<Longrightarrow> clean c x"
    and "w = fold (\<lambda>i w. set_byte w i (data (buf + i))) [0..<n] (HAL_READ32 r c a)"
  shows "cell (FLASH_TxData12B r a (word_bytes w) c) = prog (cell c) a (map data [buf..<buf + n])"
    and "clean c x \<Longrightarrow> x < 256 * pg \<or> 256 * pg + 256 \<le> x \<Longrightarrow> clean (FLASH_TxData12B r a (word_bytes w) c) x"
proof -
  let ?old = "map (\<lambda>k. cell c (a + int k)) [0..<4]"
  have "clean c (a + int k)" if "k < 4" for k using that assms(3,6) by auto
  then have "word_bytes (HAL_READ32 r c a) = ?old" using assms(1) by (intro read_cell) auto
  then have w: "word_bytes w = take 0 ?old @ map data [buf..<buf + n] @ drop (0 + length (map data [buf..<buf + n])) ?old"
    using fold_set_byte [of n data buf "HAL_READ32 r c a"] assms(4,7) by simp
  have "prog (cell c) a (word_bytes w) = prog (cell c) (a + int 0) (map data [buf..<buf + n])"
    unfolding w by (rule prog_merge) (use assms(4) in auto)
  then show "cell (FLASH_TxData12B r a (word_bytes w) c) = prog (cell c) a (map data [buf..<buf + n])"
    using program_in_page(1) [of "word_bytes w" pg a c] assms by simp
  show "clean (FLASH_TxData12B r a (word_bytes w) c) x" if "clean c x" "x < 256 * pg \<or> 256 * pg + 256 \<le> x"
    using program_in_page(2) [of "word_bytes w" pg a c x] that assms by auto
qed

lemma write_aligned_cells:
  assumes "a mod 4 = 0" and "256 * pg \<le> a" and "0 \<le> a" and "0 \<le> sz" and "a + sz < 2 ^ 32"
    and "a + sz \<le> 256 * pg + 256" and "\<And>x. a \<le> x \<Longrightarrow> x < 256 * pg + 256 \<Longrightarrow> clean c x"
  shows "\<exists>c'. write_aligned r data a sz buf c = (buf + nat sz, c') \<and>
    cell c' = prog (cell c) a (map data [buf..<buf + nat sz]) \<and>
    (\<forall>x. clean c x \<longrightarrow> x < 256 * pg \<or> 256 * pg + 256 \<le> x \<longrightarrow> clean c' x)"
proof -
  obtain m1 c1 where m1: "int m1 \<le> sz" "12 dvd m1"
    and c1: "write_chunks r 12 data a sz buf c = (a + int m1, sz - int m1, buf + m1, c1)"
      "cell c1 = prog (cell c) a (map data [buf..<buf + m1])"
      "\<And>x. clean c x \<Longrightarrow> x < a \<or> a + int m1 \<le> x \<Longrightarrow> clean c1 x"
    by (rule write_chunks_obtain [of 12 pg a sz data buf c]) (use assms(2-6) in simp_all)
  obtain m2 c2 where m2: "int m2 \<le> sz - int m1" "sz - int m1 - int m2 < 4" "4 dvd m2"
    and c2: "write_chunks r 4 data (a + int m1) (sz - int m1) (buf + m1) c1 =
        (a + int m1 + int m2, sz - int m1 - int m2, buf + m1 + m2, c2)"
      "cell c2 = prog (cell c1) (a + int m1) (map data [buf + m1..<buf + m1 + m2])"
      "\<And>x. clean c1 x \<Longrightarrow> x < a + int m1 \<or> a + int m1 + int m2 \<le> x \<Longrightarrow> clean c2 x"
    by (rule write_chunks_obtain [of 4 pg "a + int m1" "sz - int m1" data "buf + m1" c1])
       (use assms(2-6) m1 in simp_all)
  let ?a2 = "a + int m1 + int m2"
  obtain k where k: "sz - int m1 - int m2 = int k" "k < 4" "nat sz = m1 + (m2 + k)"
    using m1 m2 that [of "nat (sz - int m1 - int m2)"] by auto
  have cell2: "cell c2 = prog (cell c) a (map data [buf..<buf + (m1 + m2)])"
    unfolding c2(2) c1(2) using prog_upt [of "a + int m1" a m1 _ data buf m2] by (simp add: add.assoc)
  have out: "clean c2 x" if "clean c x" "x < 256 * pg \<or> 256 * pg + 256 \<le> x" for x
    using that c1(3) [of x] c2(3) [of x] assms(2,6) m1 m2 by auto
  show ?thesis
  proof (cases "k = 0")
    case True
    then show ?thesis using k c1(1) c2(1) cell2 out by (auto simp: write_aligned_def add.assoc)
  next
    case False
    let ?w = "fold (\<lambda>i w. set_byte w i (data (buf + m1 + m2 + i))) [0..<k] (HAL_READ32 r c2 ?a2)"
    let ?c = "FLASH_TxData12B r ?a2 (word_bytes ?w) c2"
    have "4 dvd m1" using m1(2) by (rule dvd_trans [rotated]) simp
    then have "4 dvd int m1" "4 dvd int m2" using m2(3) int_dvd_int_iff [of 4 m1] int_dvd_int_iff [of 4 m2] by simp_all
    moreover have "4 dvd a" using assms(1) by (simp only: mod_0_imp_dvd)
    ultimately have al: "?a2 mod 4 = 0" by (intro dvd_imp_mod_0 dvd_add)
    have "?a2 < 256 * pg + 256" using False assms(6) k(1) by linarith
    with al have room: "?a2 + 4 \<le> 256 * pg + 256" by (rule aligned_room)
    have fresh: "clean c2 x" if "?a2 \<le> x" "x < 256 * pg + 256" for x
      using that assms(7) [of x] c1(3) [of x] c2(3) [of x] by auto
    have pg: "256 * pg \<le> ?a2" and pos: "0 < k" using assms(2) False by auto
    note tail = write_tail_cells [OF al pg room k(2) pos fresh refl, where data = data and buf = "buf + m1 + m2"]
    have "cell ?c = prog (cell c2) ?a2 (map data [buf + m1 + m2..<buf + m1 + m2 + k])"
      by (rule tail(1))
    then have "cell ?c = prog (cell c) a (map data [buf..<buf + (m1 + m2 + k)])"
      unfolding cell2 using prog_upt [of ?a2 a "m1 + m2" _ data buf k] by (simp add: add.assoc)
    then have "cell ?c = prog (cell c) a (map data [buf..<buf + nat sz])"
      using k(3) by (simp only: add.assoc)
    moreover have "write_aligned r data a sz buf c = (buf + nat sz, ?c)"
      using False c1(1) c2(1) k(3) by (simp add: write_aligned_def k(1) add.assoc)
    moreover have "clean ?c x" if "clean c x" "x < 256 * pg \<or> 256 * pg + 256 \<le> x" for x
      using tail(2) [of x] out [OF that] that(2) by simp
    ultimately show ?thesis by blast
  qed
qed

text \<open>A page: the first partial word, then the aligned part.\<close>

lemma write_first_word:
  assumes "b mod 4 = 0" and "0 < i" and "i < 4" and "0 < sz" and "sz < 2 ^ 32"
    and "256 * pg \<le> b" and "b + 4 \<le> 256 * pg + 256"
    and "\<And>x. 256 * pg \<le> x \<Longrightarrow> x < 256 * pg + 256 \<Longrightarrow> clean c x"
    and "k = min (4 - i) (nat sz)"
  obtains w where "write_head data i (HAL_READ32 r c b) sz buf = (w, sz - int k, buf + k)"
    and "cell (FLASH_TxData12B r b (word_bytes w) c) = prog (cell c) (b + int i) (map data [buf..<buf + k])"
    and "\<And>x. clean c x \<Longrightarrow> x < b \<or> b + 4 \<le> x \<Longrightarrow> clean (FLASH_TxData12B r b (word_bytes w) c) x"
proof -
  let ?old = "map (\<lambda>k. cell c (b + int k)) [0..<4]"
  let ?new = "map data [buf..<buf + k]"
  have "clean c (b + int k)" if "k < 4" for k using that assms(6,7,8) by auto
  then have old: "word_bytes (HAL_READ32 r c b) = ?old" using assms(1) by (intro read_cell) auto
  obtain w where w: "write_head data i (HAL_READ32 r c b) sz buf = (w, sz - int k, buf + k)"
    "word_bytes w = take i ?old @ ?new @ drop (i + length ?new) ?old"
    using write_head_bytes [OF assms(3,4,5,9), of data "HAL_READ32 r c b" buf] old by auto
  have "prog (cell c) b (word_bytes w) = prog (cell c) (b + int i) ?new"
    unfolding w(2) by (rule prog_merge) (use assms(3,9) in auto)
  then show ?thesis
    using that [OF w(1)] program_in_page [of "word_bytes w" pg b c] assms(6,7) by simp
qed

lemma write_page_cells:
  assumes "0 \<le> a" and "0 \<le> sz" and "a + sz + 3 < 2 ^ 32" and "256 * pg \<le> a" and "a + sz \<le> 256 * pg + 256"
    and "a mod 4 = 0 \<or> 0 < sz" and "\<And>x. 256 * pg \<le> x \<Longrightarrow> x < 256 * pg + 256 \<Longrightarrow> clean c x"
  shows "\<exists>c'. write_page r data a sz buf c = (buf + nat sz, c') \<and>
    cell c' = prog (cell c) a (map data [buf..<buf + nat sz]) \<and>
    (\<forall>x. clean c x \<longrightarrow> x < 256 * pg \<or> 256 * pg + 256 \<le> x \<longrightarrow> clean c' x)"
proof (cases "a mod 4 = 0")
  case True
  have "next_aligned a = a" using True assms(1-3) by (subst next_aligned_eq) auto
  then have "write_page r data a sz buf c = write_aligned r data a sz buf c"
    using True by (simp add: write_page_def and_3)
  then show ?thesis using write_aligned_cells [OF True assms(4,1,2) _ assms(5,7), of data buf] assms(3,4) by auto
next
  case False
  define b where "b = 4 * (a div 4)"
  define i where "i = nat (a mod 4)"
  have bi: "a = b + int i" "0 < i" "i < 4" "b mod 4 = 0" "0 \<le> b" "nat (a mod 4) = i"
    using False assms(1) pos_mod_sign [of 4 a] pos_mod_bound [of 4 a] unfolding b_def i_def by auto
  have sz: "0 < sz" using False assms(6) by simp
  have "256 * pg div 4 \<le> a div 4" using assms(4) by (rule zdiv_mono1) simp
  then have b1: "256 * pg \<le> b" unfolding b_def by simp
  have "b < 256 * pg + 256" using bi sz assms(5) by linarith
  with bi(4) have b2: "b + 4 \<le> 256 * pg + 256" by (rule aligned_room)
  define k where "k = min (4 - i) (nat sz)"
  have k: "0 < k" "int k \<le> sz" "int i + int k \<le> 4" using bi sz unfolding k_def by auto
  obtain w where w: "write_head data i (HAL_READ32 r c b) sz buf = (w, sz - int k, buf + k)"
    "cell (FLASH_TxData12B r b (word_bytes w) c) = prog (cell c) a (map data [buf..<buf + k])"
    "\<And>x. clean c x \<Longrightarrow> x < b \<or> b + 4 \<le> x \<Longrightarrow> clean (FLASH_TxData12B r b (word_bytes w) c) x"
    using write_first_word [OF bi(4,2,3) sz _ b1 b2 assms(7) k_def, of data buf] assms(1,3) bi(1) by auto
  let ?c = "FLASH_TxData12B r b (word_bytes w) c"
  have "(a + 3) div 4 = a div 4 + 1"
    using bi(1-3) unfolding b_def by auto
  then have na: "next_aligned a = b + 4" using assms(1-3) by (subst next_aligned_eq) (auto simp: b_def)
  have wp: "write_page r data a sz buf c = write_aligned r data (b + 4) (sz - int k) (buf + k) ?c"
    using bi assms(1-3) w(1) na by (simp add: write_page_def and_3 wrap_simps)
  have out: "clean ?c x" if "clean c x" "x < 256 * pg \<or> 256 * pg + 256 \<le> x" for x
    using that w(3) b1 b2 by auto
  show ?thesis
  proof (cases "sz = int k")
    case True
    have "write_aligned r data (b + 4) (sz - int k) (buf + k) ?c = (buf + k, ?c)"
      using True by (simp add: write_aligned_def write_chunks.simps)
    then show ?thesis using True w(2) out wp by auto
  next
    case False
    then have "int k < sz" using k by simp
    then have "k = 4 - i" using bi unfolding k_def by auto
    then have ak: "b + 4 = a + int k" using bi by auto
    have "(b + 4) mod 4 = 0" using bi(4) by simp
    moreover have "clean ?c x" if "b + 4 \<le> x" "x < 256 * pg + 256" for x
      using that b1 assms(7) by (intro w(3)) auto
    ultimately obtain c' where c': "write_aligned r data (b + 4) (sz - int k) (buf + k) ?c = (buf + k + nat (sz - int k), c')"
      "cell c' = prog (cell ?c) (b + 4) (map data [buf + k..<buf + k + nat (sz - int k)])"
      "\<forall>x. clean ?c x \<longrightarrow> x < 256 * pg \<or> 256 * pg + 256 \<le> x \<longrightarrow> clean c' x"
      using write_aligned_cells [of "b + 4" pg "sz - int k" ?c data "buf + k"] b1 bi(5) k ak assms(3,5) by auto
    have n: "k + nat (sz - int k) = nat sz" using k by simp
    have "cell c' = prog (cell c) a (map data [buf..<buf + (k + nat (sz - int k))])"
      unfolding c'(2) w(2) using prog_upt [OF ak, of _ data buf "nat (sz - int k)"] by (simp add: add.assoc)
    then show ?thesis using wp c'(1,3) n out by (auto simp: add.assoc)
  qed
qed

text \<open>The pages, one after the other.\<close>

lemma write_pages_cells:
  assumes "0 \<le> a" and "256 * pg \<le> a" and "a \<le> e" and "e = (if n = 0 then stop else 256 * pg + 256)"
    and "stop div 256 = pg + int n" and "stop + 3 < 2 ^ 32" and "a mod 4 = 0 \<or> a < e"
    and "\<And>x. 256 * pg \<le> x \<Longrightarrow> clean c x"
  shows "cell (write_pages r data stop (int n + 1) a e (e - a) buf c) = prog (cell c) a (map data [buf..<buf + nat (stop - a)])"
  using assms
proof (induction n arbitrary: a e pg buf c)
  case 0
  have "stop < 256 * pg + 256" using "0.prems"(5) by auto
  then obtain c' where "write_page r data a (e - a) buf c = (buf + nat (e - a), c')"
    "cell c' = prog (cell c) a (map data [buf..<buf + nat (e - a)])"
    using write_page_cells [of a "e - a" pg c data buf] "0.prems" by auto
  then show ?case using "0.prems"(4)
    by (subst write_pages.simps) (simp add: Let_def write_pages.simps [of r data stop 0])
next
  case (Suc n)
  have e: "e = 256 * pg + 256" using Suc.prems(4) by simp
  have stop: "256 * (pg + 1 + int n) \<le> stop" "stop < 256 * (pg + 1 + int n) + 256"
    using Suc.prems(5) by auto
  have es: "e \<le> stop" using stop(1) e by simp
  obtain c1 where c1: "write_page r data a (e - a) buf c = (buf + nat (e - a), c1)"
    "cell c1 = prog (cell c) a (map data [buf..<buf + nat (e - a)])"
    "\<And>x. clean c x \<Longrightarrow> x < 256 * pg \<or> 256 * pg + 256 \<le> x \<Longrightarrow> clean c1 x"
    using write_page_cells [of a "e - a" pg c data buf] Suc.prems es e by auto
  let ?e = "if n = 0 then stop else 256 * (pg + 1) + 256"
  have e': "e \<le> ?e" "?e \<le> stop" using stop e by auto
  have wrap: "uint32 (?e - e) = ?e - e" using e' Suc.prems(1,3,6) by (intro uint32_id) auto
  have eq: "(if int n + 1 = 1 then stop else uint32 (push_bit 8 (uint32 (drop_bit 8 e + 1)))) = ?e"
  proof (cases "n = 0")
    case False
    have "drop_bit 8 e + 1 = pg + 2" "0 \<le> pg + 2" "256 * (pg + 2) < 2 ^ 32"
      using e False stop(1) Suc.prems(1,3,6) by (auto simp: drop_bit_eq_div)
    then show ?thesis using False by (simp add: push_bit_eq_mult uint32_id)
  qed simp
  have "write_pages r data stop (int (Suc n) + 1) a e (e - a) buf c =
      write_pages r data stop (int n + 1) e ?e (?e - e) (buf + nat (e - a)) c1"
    using c1(1) eq wrap by (subst write_pages.simps) (simp add: Let_def add.commute [of 1])
  moreover have "cell (write_pages r data stop (int n + 1) e ?e (?e - e) (buf + nat (e - a)) c1) =
      prog (cell c1) e (map data [buf + nat (e - a)..<buf + nat (e - a) + nat (stop - e)])"
    by (rule Suc.IH [of e "pg + 1"]) (use Suc.prems e e' c1(3) in auto)
  moreover have "prog (cell c1) e (map data [buf + nat (e - a)..<buf + nat (e - a) + nat (stop - e)]) =
      prog (cell c) a (map data [buf..<buf + (nat (e - a) + nat (stop - e))])"
    unfolding c1(2) using prog_upt [of e a "nat (e - a)" _ data buf "nat (stop - e)"] Suc.prems(3) by (simp add: add.assoc)
  moreover have "nat (e - a) + nat (stop - e) = nat (stop - a)" using Suc.prems(3) es by simp
  ultimately show ?case by (simp only:)
qed

lemma stream_write_cells:
  assumes "0 \<le> a" and "0 \<le> n" and "a + n + 3 < 2 ^ 32" and "a mod 4 = 0 \<or> 0 < n"
    and "\<And>x. clean (chip b) x"
  shows "cell (chip (snd (flash_stream_write r a n data b))) = prog (cell (chip b)) a (map data [0..<nat n])"
    and "clean (chip (snd (flash_stream_write r a n data b))) x"
proof -
  define pg where "pg = a div 256"
  define k where "k = nat ((a + n) div 256 - pg)"
  have pg: "256 * pg \<le> a" "a < 256 * pg + 256" unfolding pg_def by auto
  have k: "(a + n) div 256 = pg + int k"
    using zdiv_mono1 [of a "a + n" 256] assms(2) unfolding k_def pg_def by simp
  have pg0: "0 \<le> pg" using assms(1) unfolding pg_def by simp
  have kb: "256 * (pg + int k) \<le> a + n" unfolding k [symmetric] by simp
  have e0: "uint32 (a + n) = a + n" using assms(1-3) by (simp add: uint32_id)
  have beg: "a AND NOT 255 = 256 * pg" unfolding and_not_255 pg_def by (simp add: minus_mod_eq_mult_div)
  have "(a + n) AND NOT 255 = 256 * (pg + int k)" unfolding and_not_255 k [symmetric] by (simp add: minus_mod_eq_mult_div)
  then have diff: "uint32 (((a + n) AND NOT 255) - (a AND NOT 255)) = 256 * int k"
    unfolding beg using kb pg0 assms(1,3) by (subst uint32_id) auto
  have cnt: "uint32 (drop_bit 8 (256 * int k) + 1) = int k + 1"
    using kb pg0 assms(1,3) by (subst uint32_id) (auto simp: drop_bit_eq_div)
  let ?e = "if k = 0 then a + n else 256 * pg + 256"
  have le: "a \<le> ?e" "?e \<le> a + n" using pg assms(2) k by auto
  have e: "(if int k + 1 = 1 then a + n else uint32 (256 * pg + 256)) = ?e"
    using le assms(1,3) pg by (auto simp: uint32_id)
  have sz: "uint32 (?e - a) = ?e - a" using le assms(1,3) by (intro uint32_id) auto
  have al: "a mod 4 = 0 \<or> a < ?e" using assms(4) pg by auto
  have "cell (write_pages r data (a + n) (int k + 1) a ?e (?e - a) 0 (chip b)) =
      prog (cell (chip b)) a (map data [0..<0 + nat (a + n - a)])"
    by (rule write_pages_cells) (use assms pg le k al in auto)
  moreover have "chip (snd (flash_stream_write r a n data b)) =
      Cache_Flush r (write_pages r data (a + n) (int k + 1) a ?e (?e - a) 0 (chip b))"
    unfolding flash_stream_write_def Let_def e0 diff cnt unfolding beg e sz by simp
  ultimately show "cell (chip (snd (flash_stream_write r a n data b))) = prog (cell (chip b)) a (map data [0..<nat n])"
    by (simp add: flush_cell)
  show "clean (chip (snd (flash_stream_write r a n data b))) x"
    by (simp add: flash_stream_write_def Let_def flush_clean)
qed

end

end
