(* ===== verification/Flash_Store.thy ===== *)
theory Flash_Store
  imports Nor_Flash
begin

text \<open>
  Reading streams and words, erasing, and the contract the driver offers to its clients: a byte
  store whose writes AND data into cells, whose erasures set sectors to ones and whose reads
  return the cells (\<open>flash_store\<close>). Every chip that satisfies \<open>nor_flash\<close> gives such a store.
\<close>

section \<open>Ranges of cells\<close>

definition cells :: "(int \<Rightarrow> u8) \<Rightarrow> int \<Rightarrow> nat \<Rightarrow> bytes" where
  "cells m a n = map (\<lambda>k. m (a + int k)) [0..<n]"

lemma length_cells [simp]: "length (cells m a n) = n"
  by (simp add: cells_def)

lemma nth_cells [simp]: "k < n \<Longrightarrow> cells m a n ! k = m (a + int k)"
  by (simp add: cells_def)

lemma cells_0 [simp]: "cells m a 0 = []"
  by (simp add: cells_def)

lemma cells_add: "cells m a (j + k) = cells m a j @ cells m (a + int j) k"
  by (rule nth_equalityI) (auto simp: nth_append algebra_simps)

lemma cells_cong: "(\<And>x. a \<le> x \<Longrightarrow> x < a + int n \<Longrightarrow> m x = m' x) \<Longrightarrow> cells m a n = cells m' a n"
  by (rule nth_equalityI) auto

lemma drop_cells: "drop i (cells m a n) = cells m (a + int i) (n - i)"
  by (rule nth_equalityI) (auto simp: algebra_simps)

lemma take_cells: "take i (cells m a n) = cells m a (min i n)"
  by (rule nth_equalityI) auto

lemma ones_and: "(0xFF :: u8) AND x = x"
proof -
  have "(0xFF :: u8) = - 1" by simp
  then show ?thesis by (simp only: and.left_neutral)
qed

lemma cells_prog_erased:
  "(\<And>x. a \<le> x \<Longrightarrow> x < a + int (length bs) \<Longrightarrow> m x = 0xFF) \<Longrightarrow> cells (prog m a bs) a (length bs) = bs"
proof (rule nth_equalityI)
  fix k assume h: "\<And>x. a \<le> x \<Longrightarrow> x < a + int (length bs) \<Longrightarrow> m x = 0xFF" "k < length (cells (prog m a bs) a (length bs))"
  then show "cells (prog m a bs) a (length bs) ! k = bs ! k"
    by (simp add: prog_def ones_and)
qed simp

section \<open>Reading\<close>

lemma read_head_bytes:
  assumes "i < n" and "n \<le> length ptr" and "0 < len" and "len < 2 ^ 32" and "k = min (n - i) (nat len)"
  shows "read_head ptr i n len out = (len - int k, out @ take k (drop i ptr))"
  using assms
proof (induction ptr i n len out arbitrary: k rule: read_head.induct)
  case (1 ptr i n len out)
  have l: "uint32 (len - 1) = len - 1" using "1.prems" by (simp add: uint32_id)
  have d: "drop i ptr = ptr ! i # drop (Suc i) ptr" using "1.prems"(1,2) by (simp add: Cons_nth_drop_Suc)
  consider "len = 1" | "i + 1 = n" "len \<noteq> 1" | "i + 1 < n" "len \<noteq> 1" using "1.prems"(1) by linarith
  then show ?case
  proof cases
    case 1
    then show ?thesis using "1.prems" d by (subst read_head.simps) (simp add: uint32_def)
  next
    case 2
    then have "k = 1" using "1.prems" by auto
    then show ?thesis using 2 "1.prems"(1) l d
      by (subst read_head.simps, subst read_head.simps) (simp add: Let_def)
  next
    case 3
    obtain j where j: "j = min (n - (i + 1)) (nat (len - 1))" by blast
    have "nat len = Suc (nat (len - 1))" "n - i = Suc (n - (i + 1))" using "1.prems"(1,3) by auto
    then have k: "k = Suc j" using "1.prems"(5) j by (simp only: min_Suc_Suc)
    have "read_head ptr (i + 1) n (len - 1) (out @ [ptr ! i]) =
        (len - 1 - int j, (out @ [ptr ! i]) @ take j (drop (i + 1) ptr))"
      by (rule "1.IH" [OF "1.prems"(1) refl l [symmetric]]) (use "1.prems"(2,3,4) 3 j in auto)
    then show ?thesis using "1.prems"(1) 3 l d k by (subst read_head.simps) (simp add: Let_def)
  qed
qed

lemma store_word_bytes: "store_word al w = word_bytes w"
  by (rule nth_equalityI) (auto simp: store_word_def)

context nor_flash
begin

lemma read_word_cells:
  assumes "a mod 4 = 0" and "\<And>x. clean c x"
  shows "word_bytes (HAL_READ32 r c a) = cells (cell c) a 4"
  using read_cell [OF assms(1), of c] assms(2) by (simp add: cells_def)

lemma read_words_cells:
  assumes "a mod 4 = 0" and "0 \<le> a" and "0 \<le> n" and "a + n < 2 ^ 32" and "\<And>x. clean c x" and "nat n div 4 = q"
  shows "read_words r c al a n out = (a + int (4 * q), n - int (4 * q), out @ cells (cell c) a (4 * q))"
  using assms(1-4,6)
proof (induction q arbitrary: a n out)
  case 0
  then show ?case by (subst read_words.simps) auto
next
  case (Suc q)
  have le: "4 \<le> n" using Suc.prems(5) by (cases "4 \<le> n") auto
  have "nat (n - 4) div 4 = q" using Suc.prems(5) le le_div_geq [of 4 "nat n"] by (simp add: nat_diff_distrib)
  then have "read_words r c al (a + 4) (n - 4) (out @ cells (cell c) a 4) =
      (a + 4 + int (4 * q), n - 4 - int (4 * q), (out @ cells (cell c) a 4) @ cells (cell c) (a + 4) (4 * q))"
    using Suc.IH [of "a + 4" "n - 4"] Suc.prems le by auto
  moreover have "uint32 (a + 4) = a + 4" using Suc.prems le by (simp add: uint32_id)
  moreover have "cells (cell c) a (4 * Suc q) = cells (cell c) a 4 @ cells (cell c) (a + 4) (4 * q)"
    using cells_add [of "cell c" a 4 "4 * q"] by simp
  ultimately show ?case
    using Suc.prems(1) le read_word_cells [of a c, OF _ assms(5)]
    by (subst read_words.simps) (simp add: store_word_bytes)
qed

lemma read_tail_cells:
  assumes "a mod 4 = 0" and "0 \<le> n" and "n < 4" and "\<And>x. clean c x"
  shows "map (\<lambda>i. word_bytes (HAL_READ32 r c a) ! i) [0..<nat n] = cells (cell c) a (nat n)"
proof -
  have "cells (cell c) a 4 ! i = cells (cell c) a (nat n) ! i" if "i < nat n" for i using that assms(3) by auto
  then show ?thesis using read_word_cells [OF assms(1,4)] by (intro nth_equalityI) auto
qed

lemma read_aligned_cells:
  assumes "a mod 4 = 0" and "0 \<le> a" and "0 \<le> n" and "a + n < 2 ^ 32" and "\<And>x. clean c x"
  shows "(let (a, n, out) = read_words r c al a n out
          in if n > 0 then out @ map (\<lambda>i. word_bytes (HAL_READ32 r c a) ! i) [0..<nat n] else out) =
    out @ cells (cell c) a (nat n)"
proof -
  obtain q where q: "nat n div 4 = q" by blast
  have "nat n = 4 * q + nat n mod 4" using q by (metis mult_div_mod_eq)
  moreover have "nat n mod 4 < 4" by simp
  ultimately obtain k where k: "n - int (4 * q) = int k" "k < 4" "nat n = 4 * q + k"
    using assms(3) that [of "nat n mod 4"] by linarith
  have al: "(a + int (4 * q)) mod 4 = 0" using assms(1) by (simp add: mod_simps)
  show ?thesis
    using read_words_cells [OF assms q, of al out] read_tail_cells [OF al _ _ assms(5), of "int k"] k
    by (auto simp: cells_add)
qed

lemma stream_read_cells:
  assumes "0 \<le> a" and "0 \<le> n" and "a + n + 3 < 2 ^ 32" and "a mod 4 = 0 \<or> 0 < n" and "\<And>x. clean c x"
  shows "flash_stream_read r a n data c = (1, cells (cell c) a (nat n))"
proof (cases "a mod 4 = 0")
  case True
  have "next_aligned a = a" using True assms(1-3) by (subst next_aligned_eq) auto
  then show ?thesis
    using True read_aligned_cells [OF True assms(1,2) _ assms(5), of "data AND 3 = 0" "[]"] assms(3)
    by (simp add: flash_stream_read_def and_3 Let_def split_beta split: if_splits)
next
  case False
  define b where "b = 4 * (a div 4)"
  define i where "i = nat (a mod 4)"
  have bi: "a = b + int i" "0 < i" "i < 4" "b mod 4 = 0" "0 \<le> b" "nat (a mod 4) = i"
    using False assms(1) pos_mod_sign [of 4 a] pos_mod_bound [of 4 a] unfolding b_def i_def by auto
  have n: "0 < n" using False assms(4) by simp
  define k where "k = min (4 - i) (nat n)"
  have k: "0 < k" "int k \<le> n" "int i + int k \<le> 4" using bi n unfolding k_def by auto
  have b: "uint32 (a - int i) = b" using bi assms(1,3) n by (simp add: uint32_id)
  have "read_head (drop i (word_bytes (HAL_READ32 r c b))) 0 (4 - i) n [] =
      (n - int k, take k (drop i (word_bytes (HAL_READ32 r c b))))"
  proof -
    have "0 < 4 - i" "4 - i \<le> length (drop i (word_bytes (HAL_READ32 r c b)))" "n < 2 ^ 32" using bi(3) assms(1,3) by simp_all
    from read_head_bytes [OF this(1,2) n this(3), of k "[]"] show ?thesis by (simp add: k_def)
  qed
  then have head: "read_head (drop i (word_bytes (HAL_READ32 r c b))) 0 (4 - i) n [] = (n - int k, cells (cell c) a k)"
    using k_def by (simp add: read_word_cells [OF bi(4) assms(5)] drop_cells take_cells bi(1))
  have "(a + 3) div 4 = a div 4 + 1" using bi(1-3) unfolding b_def by auto
  then have na: "next_aligned a = b + 4" using assms(1-3) by (subst next_aligned_eq) (auto simp: b_def)
  let ?al = "(data + int k) AND 3 = 0"
  have body: "flash_stream_read r a n data c =
      (1, let (a, n, out) = read_words r c ?al (b + 4) (n - int k) (cells (cell c) a k)
          in if n > 0 then out @ map (\<lambda>i. word_bytes (HAL_READ32 r c a) ! i) [0..<nat n] else out)"
    using bi(2,6) b head na by (simp add: flash_stream_read_def and_3 Let_def split_beta)
  show ?thesis
  proof (cases "n = int k")
    case True
    then show ?thesis using body by (simp add: read_words.simps)
  next
    case False
    then have "k = 4 - i" using k unfolding k_def by auto
    then have ak: "b + 4 = a + int k" using bi by auto
    have room: "b + 4 + (n - int k) < 2 ^ 32" using ak assms(3) by linarith
    have "flash_stream_read r a n data c = (1, cells (cell c) a k @ cells (cell c) (b + 4) (nat (n - int k)))"
      unfolding body using bi(4,5) k(2) room assms(5) by (subst read_aligned_cells) auto
    then have "flash_stream_read r a n data c = (1, cells (cell c) a k @ cells (cell c) (a + int k) (nat (n - int k)))"
      unfolding ak .
    moreover have "nat n = k + nat (n - int k)" using k by simp
    ultimately show ?thesis by (metis cells_add)
  qed
qed

end

section \<open>Words at any address\<close>

lemma word_out: "\<not> bit (w :: u32) m" if "32 \<le> m"
  using that bit_imp_le_length [of w m] by auto

lemma word_bytes_low:
  assumes "0 < i" and "i < 4"
  shows "word_bytes (drop_bit (8 * (4 - i)) (push_bit ((4 - i) * 8) t) OR push_bit (8 * i) d) =
    take i (word_bytes t) @ take (4 - i) (word_bytes d)"
proof (rule word_bytes_eqI)
  fix k n :: nat assume kn: "k < 4" "n < 8"
  consider "i = 1" | "i = 2" | "i = 3" using assms by linarith
  then show "bit (drop_bit (8 * (4 - i)) (push_bit ((4 - i) * 8) t) OR push_bit (8 * i) d) (8 * k + n) \<longleftrightarrow>
      bit ((take i (word_bytes t) @ take (4 - i) (word_bytes d)) ! k) n"
    using byte_index [OF kn(1)] kn(2)
    by cases (elim disjE; simp add: bit_simps nth_append bit_word_bytes word_out)+
qed (use assms in simp)

lemma word_bytes_high:
  assumes "0 < i" and "i < 4"
  shows "word_bytes (push_bit (i * 8) (drop_bit (i * 8) t) OR drop_bit (8 * (4 - i)) d) =
    drop (4 - i) (word_bytes d) @ drop i (word_bytes t)"
proof (rule word_bytes_eqI)
  fix k n :: nat assume kn: "k < 4" "n < 8"
  consider "i = 1" | "i = 2" | "i = 3" using assms by linarith
  then show "bit (push_bit (i * 8) (drop_bit (i * 8) t) OR drop_bit (8 * (4 - i)) d) (8 * k + n) \<longleftrightarrow>
      bit ((drop (4 - i) (word_bytes d) @ drop i (word_bytes t)) ! k) n"
    using byte_index [OF kn(1)] kn(2)
    by cases (elim disjE; simp add: bit_simps nth_append bit_word_bytes word_out)+
qed (use assms in simp)

lemma word_bytes_join:
  assumes "0 < i" and "i < 4"
  shows "word_bytes (drop_bit (i * 8) t OR push_bit ((4 - i) * 8) u) = drop i (word_bytes t) @ take i (word_bytes u)"
proof (rule word_bytes_eqI)
  fix k n :: nat assume kn: "k < 4" "n < 8"
  consider "i = 1" | "i = 2" | "i = 3" using assms by linarith
  then show "bit (drop_bit (i * 8) t OR push_bit ((4 - i) * 8) u) (8 * k + n) \<longleftrightarrow>
      bit ((drop i (word_bytes t) @ take i (word_bytes u)) ! k) n"
    using byte_index [OF kn(1)] kn(2)
    by cases (elim disjE; simp add: bit_simps nth_append bit_word_bytes word_out)+
qed (use assms in simp)

lemma word_bytes_inject: "word_bytes v = word_bytes w \<Longrightarrow> v = w"
proof (rule bit_word_eqI)
  fix n :: nat assume eq: "word_bytes v = word_bytes w" and "n < LENGTH(32)"
  then have "n = 8 * (n div 8) + n mod 8" "n div 8 < 4" "n mod 8 < 8" by auto
  then show "bit v n \<longleftrightarrow> bit w n" using bit_word_bytes [of "n div 8" "n mod 8"] eq by metis
qed

context nor_flash
begin

lemma word_split:
  assumes "0 \<le> a" and "a mod 4 \<noteq> 0"
  obtains b i where "a = b + int i" and "0 < i" and "i < 4" and "b mod 4 = 0" and "0 \<le> b" and "nat (a mod 4) = i"
proof -
  have "a = 4 * (a div 4) + int (nat (a mod 4))" by simp
  moreover have "0 < nat (a mod 4)" "nat (a mod 4) < 4" using assms(2) pos_mod_sign [of 4 a] by auto
  ultimately show ?thesis using that [of "4 * (a div 4)" "nat (a mod 4)"] assms(1) by auto
qed

lemma aligned_program:
  assumes "a mod 4 = 0"
  shows "cell (FLASH_TxData12B r a (word_bytes w) c) = prog (cell c) a (word_bytes w)"
    and "clean c x \<Longrightarrow> x < a \<or> a + 4 \<le> x \<Longrightarrow> clean (FLASH_TxData12B r a (word_bytes w) c) x"
proof -
  have "256 * (a div 256) \<le> a" "a < 256 * (a div 256) + 256" by auto
  moreover from this have "a + 4 \<le> 256 * (a div 256) + 256" using assms by (intro aligned_room)
  ultimately show "cell (FLASH_TxData12B r a (word_bytes w) c) = prog (cell c) a (word_bytes w)"
    "clean c x \<Longrightarrow> x < a \<or> a + 4 \<le> x \<Longrightarrow> clean (FLASH_TxData12B r a (word_bytes w) c) x"
    using program_in_page [of "word_bytes w" "a div 256" a c] by simp_all
qed

lemma read_word_any:
  assumes "0 \<le> a" and "a + 7 < 2 ^ 32" and "\<And>x. clean c x"
  shows "fst (flash_read_word r a c) = 1 \<and> word_bytes (snd (flash_read_word r a c)) = cells (cell c) a 4"
proof (cases "a mod 4 = 0")
  case True
  then show ?thesis using read_word_cells [OF True assms(3)] by (simp add: flash_read_word_def and_3)
next
  case False
  obtain b i where bi: "a = b + int i" "0 < i" "i < 4" "b mod 4 = 0" "0 \<le> b" "nat (a mod 4) = i"
    by (rule word_split [OF assms(1) False])
  have u: "uint32 (a - int i) = b" "uint32 (b + 4) = b + 4" using bi assms(2) by (auto simp: uint32_id)
  have w: "word_bytes (HAL_READ32 r c b) = cells (cell c) b 4"
    "word_bytes (HAL_READ32 r c (b + 4)) = cells (cell c) (b + 4) 4"
    using read_word_cells [OF _ assms(3)] bi(4) by auto
  have "word_bytes (snd (flash_read_word r a c)) = drop i (cells (cell c) b 4) @ take i (cells (cell c) (b + 4) 4)"
    using bi(2,6) u by (simp add: flash_read_word_def and_3 Let_def word_bytes_join [OF bi(2,3)] w)
  also have "\<dots> = cells (cell c) a (4 - i) @ cells (cell c) (b + 4) i"
    using bi(1,3) by (simp add: drop_cells take_cells)
  also have "\<dots> = cells (cell c) a (4 - i + i)"
    using bi(1,3) by (subst cells_add) (simp add: of_nat_diff)
  finally show ?thesis using bi(2,3,6) by (simp add: flash_read_word_def and_3 Let_def)
qed

lemma write_word_any:
  assumes "0 \<le> a" and "a + 7 < 2 ^ 32" and "\<And>x. clean (chip d) x"
  shows "cell (chip (snd (flash_write_word r a w d))) = prog (cell (chip d)) a (word_bytes w)"
    and "clean (chip (snd (flash_write_word r a w d))) x"
proof -
  let ?c = "chip d"
  show "clean (chip (snd (flash_write_word r a w d))) x"
    by (simp add: flash_write_word_def Let_def flush_clean)
  show "cell (chip (snd (flash_write_word r a w d))) = prog (cell ?c) a (word_bytes w)"
  proof (cases "a mod 4 = 0")
    case True
    then show ?thesis using aligned_program(1) [OF True] by (simp add: flash_write_word_def and_3 flush_cell Let_def)
  next
    case False
    obtain b i where bi: "a = b + int i" "0 < i" "i < 4" "b mod 4 = 0" "0 \<le> b" "nat (a mod 4) = i"
      by (rule word_split [OF assms(1) False])
    have b4: "(b + 4) mod 4 = 0" using bi(4) by simp
    have u: "uint32 (a - int i) = b" "uint32 (b + 4) = b + 4" using bi assms(2) by (auto simp: uint32_id)
    let ?t = "drop_bit (8 * (4 - i)) (push_bit ((4 - i) * 8) (HAL_READ32 r ?c b)) OR push_bit (8 * i) w"
    let ?c1 = "FLASH_TxData12B r b (word_bytes ?t) ?c"
    let ?t2 = "push_bit (i * 8) (drop_bit (i * 8) (HAL_READ32 r ?c1 (b + 4))) OR drop_bit (8 * (4 - i)) w"
    let ?c2 = "FLASH_TxData12B r (b + 4) (word_bytes ?t2) ?c1"
    let ?lo = "take (4 - i) (word_bytes w)" and ?hi = "drop (4 - i) (word_bytes w)"
    have "prog (cell ?c) b (word_bytes ?t) = prog (cell ?c) b
        (take i (cells (cell ?c) b 4) @ ?lo @ drop (i + length ?lo) (cells (cell ?c) b 4))"
      using bi(2,3) by (simp add: word_bytes_low read_word_cells [OF bi(4) assms(3)])
    also have "\<dots> = prog (cell ?c) (b + int i) ?lo"
      by (rule prog_merge) (use bi(3) in \<open>auto simp: cells_def\<close>)
    finally have c1: "cell ?c1 = prog (cell ?c) a ?lo" using aligned_program(1) [OF bi(4)] bi(1) by simp
    have cl: "clean ?c1 (b + 4 + int k)" for k using aligned_program(2) [OF bi(4), of ?c] assms(3) by simp
    then have "word_bytes (HAL_READ32 r ?c1 (b + 4)) = cells (cell ?c1) (b + 4) 4"
      using read_cell [OF b4, of ?c1] by (simp add: cells_def)
    then have "prog (cell ?c1) (b + 4) (word_bytes ?t2) = prog (cell ?c1) (b + 4)
        (take 0 (cells (cell ?c1) (b + 4) 4) @ ?hi @ drop (0 + length ?hi) (cells (cell ?c1) (b + 4) 4))"
      using bi(2,3) by (simp add: word_bytes_high)
    also have "\<dots> = prog (cell ?c1) (b + 4 + int 0) ?hi"
      by (rule prog_merge) (use bi(3) in \<open>auto simp: cells_def\<close>)
    finally have "cell ?c2 = prog (prog (cell ?c) a ?lo) (b + 4) ?hi"
      using aligned_program(1) [OF b4] c1 by simp
    also have "\<dots> = prog (cell ?c) a (?lo @ ?hi)"
      by (rule prog_append) (use bi(1,3) in \<open>simp add: of_nat_diff\<close>)
    finally show ?thesis using bi(2,6) u by (simp add: flash_write_word_def and_3 Let_def flush_cell)
  qed
qed

lemma erase_sector_cells:
  "cell (chip (flash_erase_sector r a d)) x = (if x div 4096 = a div 4096 then 0xFF else cell (chip d) x)"
  "clean (chip (flash_erase_sector r a d)) x"
  by (simp_all add: flash_erase_sector_def flush_cell flush_clean erase_cell)

lemma erase_block_cells:
  "cell (chip (flash_erase_block r a d)) x = (if x div 65536 = a div 65536 then 0xFF else cell (chip d) x)"
  "clean (chip (flash_erase_block r a d)) x"
  by (simp_all add: flash_erase_block_def flush_cell flush_clean erase_cell)

end

end
