(* ===== verification/Flash_Contract.thy ===== *)
theory Flash_Contract
  imports Flash_Store
begin

text \<open>
  The contract \<open>flash_store\<close> that the flash driver offers to its clients, with what a client can
  derive from it (writing a stream in pieces, erasing then writing then reading back); the
  driver over any \<open>nor_flash\<close> chip provides it. A concrete NOR chip closes the chain: programming
  wraps around inside a 256-byte page, and the window keeps showing the old bytes until the
  cache is flushed.
\<close>

section \<open>The contract\<close>

fun write_list :: "(int \<Rightarrow> bytes \<Rightarrow> 's \<Rightarrow> 's) \<Rightarrow> int \<Rightarrow> bytes list \<Rightarrow> 's \<Rightarrow> 's" where
  "write_list program a [] s = s"
| "write_list program a (bs # bss) s = write_list program (a + int (length bs)) bss (program a bs s)"

locale flash_store =
  fixes program :: "int \<Rightarrow> bytes \<Rightarrow> 's \<Rightarrow> 's"
    and erase :: "int \<Rightarrow> 's \<Rightarrow> 's"
    and read :: "int \<Rightarrow> nat \<Rightarrow> 's \<Rightarrow> bytes"
    and content :: "'s \<Rightarrow> int \<Rightarrow> u8"
    and ok :: "'s \<Rightarrow> bool"
  assumes write_content: "ok s \<Longrightarrow> 0 \<le> a \<Longrightarrow> a + int (length bs) + 3 < 2 ^ 32 \<Longrightarrow> bs \<noteq> [] \<Longrightarrow>
      content (program a bs s) = prog (content s) a bs"
    and write_ok: "ok s \<Longrightarrow> ok (program a bs s)"
    and erase_content: "content (erase a s) x = (if x div 4096 = a div 4096 then 0xFF else content s x)"
    and erase_ok: "ok (erase a s)"
    and read_content: "ok s \<Longrightarrow> 0 \<le> a \<Longrightarrow> 0 < n \<Longrightarrow> a + int n + 3 < 2 ^ 32 \<Longrightarrow>
      read a n s = cells (content s) a n"
begin

lemma write_list_ok: "ok s \<Longrightarrow> ok (write_list program a bss s)"
  by (induction bss arbitrary: a s) (auto simp: write_ok)

lemma write_list_content:
  assumes "ok s" and "0 \<le> a" and "a + int (length (concat bss)) + 3 < 2 ^ 32" and "[] \<notin> set bss"
  shows "content (write_list program a bss s) = prog (content s) a (concat bss)"
  using assms
proof (induction bss arbitrary: a s)
  case (Cons bs bss)
  then have "content (program a bs s) = prog (content s) a bs" by (intro write_content) auto
  then show ?case
    using Cons.IH [of "program a bs s" "a + int (length bs)"] Cons.prems
    by (simp add: write_ok prog_append add.assoc)
qed simp

lemma erase_list_content:
  "content (fold erase as s) x = (if \<exists>a \<in> set as. x div 4096 = a div 4096 then 0xFF else content s x)"
  by (induction as arbitrary: s) (auto simp: erase_content)

lemma write_then_read:
  assumes "ok s" and "0 \<le> a" and "a + int (length bs) + 3 < 2 ^ 32" and "bs \<noteq> []"
    and "\<And>x. a \<le> x \<Longrightarrow> x < a + int (length bs) \<Longrightarrow> content s x = 0xFF"
  shows "read a (length bs) (program a bs s) = bs"
  using assms read_content [of "program a bs s" a "length bs"]
  by (simp add: write_ok write_content cells_prog_erased)

end

section \<open>The driver provides it\<close>

definition store_write :: "'c rom \<Rightarrow> int \<Rightarrow> bytes \<Rightarrow> 'c board \<Rightarrow> 'c board" where
  "store_write r a bs b = snd (flash_stream_write r a (int (length bs)) (\<lambda>i. bs ! i) b)"

definition store_read :: "'c rom \<Rightarrow> int \<Rightarrow> nat \<Rightarrow> 'c board \<Rightarrow> bytes" where
  "store_read r a n b = snd (flash_stream_read r a (int n) 0 (chip b))"

sublocale nor_flash \<subseteq> store: flash_store "store_write r" "flash_erase_sector r" "store_read r"
  "\<lambda>b. cell (chip b)" "\<lambda>b. \<forall>x. clean (chip b) x"
proof (unfold_locales, goal_cases)
  case (1 s a bs)
  then show ?case
    using stream_write_cells(1) [of a "int (length bs)" s "\<lambda>i. bs ! i"] by (simp add: store_write_def map_nth)
next
  case (2 s a bs)
  then show ?case by (simp add: store_write_def flash_stream_write_def Let_def flush_clean)
next
  case (3 a s x)
  then show ?case by (rule erase_sector_cells)
next
  case (4 a s)
  then show ?case by (simp add: erase_sector_cells)
next
  case (5 s a n)
  then show ?case using stream_read_cells [of a "int n" "chip s" 0] by (simp add: store_read_def)
qed

section \<open>A NOR chip\<close>

record nor_chip =
  array :: "int \<Rightarrow> u8"
  window :: "int \<Rightarrow> u8"

definition in_page :: "int \<Rightarrow> nat \<Rightarrow> int" where
  "in_page a i = a - a mod 256 + (a + int i) mod 256"

definition nor_program :: "int \<Rightarrow> bytes \<Rightarrow> nor_chip \<Rightarrow> nor_chip" where
  "nor_program a bs c =
     c\<lparr>array := fold (\<lambda>i m. m(in_page a i := m (in_page a i) AND bs ! i)) [0..<length bs] (array c)\<rparr>"

fun nor_erase :: "erase_type \<Rightarrow> int \<Rightarrow> nor_chip \<Rightarrow> nor_chip" where
  "nor_erase EraseSector a c = c\<lparr>array := (\<lambda>x. if x div 4096 = a div 4096 then 0xFF else array c x)\<rparr>"
| "nor_erase EraseBlock a c = c\<lparr>array := (\<lambda>x. if x div 65536 = a div 65536 then 0xFF else array c x)\<rparr>"
| "nor_erase EraseChip a c = c\<lparr>array := (\<lambda>x. 0xFF)\<rparr>"

definition nor_rom :: "nor_chip rom" where
  "nor_rom = \<lparr>FLASH_TxData12B = nor_program, FLASH_Erase = nor_erase,
     Cache_Flush = (\<lambda>c. c\<lparr>window := array c\<rparr>),
     HAL_READ32 = (\<lambda>c a. bytes_word (cells (window c) a 4)),
     FLASH_SetStatusBits = (\<lambda>_ _ c. c), FLASH_SetStatus = (\<lambda>_ _ c. c),
     FLASH_RxCmd = (\<lambda>_ n _. replicate n 0)\<rparr>"

lemma in_page_eq:
  assumes "a div 256 = (a + int n - 1) div 256" and "i < n"
  shows "in_page a i = a + int i"
proof -
  have "a div 256 \<le> (a + int i) div 256" "(a + int i) div 256 \<le> (a + int n - 1) div 256"
    using assms(2) by (auto intro: zdiv_mono1)
  then have "(a + int i) div 256 = a div 256" using assms(1) by simp
  moreover have "(a + int i) mod 256 = a + int i - 256 * ((a + int i) div 256)" "a mod 256 = a - 256 * (a div 256)"
    by (simp_all add: minus_div_mult_eq_mod [symmetric])
  ultimately show ?thesis by (simp add: in_page_def)
qed

lemma fold_program:
  "fold (\<lambda>i m. m(a + int i := m (a + int i) AND bs ! i)) [0..<n] m x =
     (if a \<le> x \<and> x < a + int n then m x AND bs ! nat (x - a) else m x)"
  by (induction n) auto

lemma nor_program_array:
  assumes "a div 256 = (a + int (length bs) - 1) div 256"
  shows "array (nor_program a bs c) = prog (array c) a bs"
proof -
  have "fold (\<lambda>i m. m(in_page a i := m (in_page a i) AND bs ! i)) [0..<length bs] (array c) =
      fold (\<lambda>i m. m(a + int i := m (a + int i) AND bs ! i)) [0..<length bs] (array c)"
    by (intro fold_cong refl) (simp add: in_page_eq [OF assms])
  then show ?thesis by (simp add: nor_program_def fun_eq_iff fold_program prog_def)
qed

interpretation nor: nor_flash nor_rom array "\<lambda>c x. window c x = array c x"
proof (unfold_locales, goal_cases)
  case (2 bs a c x)
  then show ?case by (simp add: nor_rom_def nor_program_array prog_outside) (simp add: nor_program_def)
next
  case (8 a c)
  then have "cells (window c) a 4 = cells (array c) a 4"
    by (intro nth_equalityI) auto
  then show ?case by (simp add: nor_rom_def byte_simps cells_def)
qed (simp_all add: nor_rom_def nor_program_array)

end
