(* ===== verification/Flash_Props.thy ===== *)
theory Flash_Props
  imports Flash_Contract
begin

text \<open>
  The properties of the flash driver, stated over the operations of
  \<^verbatim>\<open>component/common/mbed/targets/hal/rtl8711b/flash_api.c\<close> and any chip that obeys \<open>nor_flash\<close>.
\<close>

section \<open>A board with an erased chip\<close>

definition blank_board :: "nor_chip board" where
  "blank_board = \<lparr>nvic_enabled = [1, 2, 3, 4, 5, 6, 7, 8], nvic_pending = replicate 8 0, SysTick_CTRL = 7,
     ISER = replicate 8 0, systick_ctrl = 0, chip = \<lparr>array = (\<lambda>_. 0xFF), window = (\<lambda>_. 0xFF)\<rparr>\<rparr>"

section \<open>Writing and reading back\<close>

text \<open>
  C2: a stream write changes exactly the addressed bytes. For any address and length (a write
  of no bytes must be aligned), every cell in the range becomes its old value ANDed with the
  datum, every other cell is as before, although the driver programs whole words and 12-byte
  chunks; no program command crosses a page, and no stale byte of the cache reaches the chip.
\<close>

theorem flash_stream_write_exact:
  assumes "nor_flash r cell clean" and "\<And>x. clean (chip b) x"
    and "0 \<le> a" and "0 \<le> n" and "a + n + 3 < 2 ^ 32" and "a mod 4 = 0 \<or> 0 < n"
  shows "fst (flash_stream_write r a n data b) = 1 \<and>
    (\<forall>x. cell (chip (snd (flash_stream_write r a n data b))) x =
       (if a \<le> x \<and> x < a + n then cell (chip b) x AND data (nat (x - a)) else cell (chip b) x)) \<and>
    (\<forall>x. clean (chip (snd (flash_stream_write r a n data b))) x)"
  using nor_flash.stream_write_cells [OF assms(1,3-6,2), of data] assms(4)
  by (auto simp: prog_def flash_stream_write_def Let_def)

theorem flash_stream_write_exact_witness:
  "array (chip (snd (flash_stream_write nor_rom 254 5 (\<lambda>i. of_nat i) blank_board))) 256 = 2 \<and>
   array (chip (snd (flash_stream_write nor_rom 254 5 (\<lambda>i. of_nat i) blank_board))) 259 = 0xFF"
  using flash_stream_write_exact [OF nor.nor_flash_axioms, of blank_board 254 5 "\<lambda>i. of_nat i"]
  by (simp add: blank_board_def ones_and)

text \<open>
  C28: what is written to erased flash is read back. After a stream write to a range whose cells
  are all ones, a stream read of the range returns the data, for every address and length and
  whatever the alignment of the destination buffer.
\<close>

theorem flash_stream_roundtrip:
  assumes "nor_flash r cell clean" and "\<And>x. clean (chip b) x"
    and "0 \<le> a" and "bs \<noteq> []" and "a + int (length bs) + 3 < 2 ^ 32"
    and "\<forall>x. a \<le> x \<longrightarrow> x < a + int (length bs) \<longrightarrow> cell (chip b) x = 0xFF"
    and "flash_stream_write r a (int (length bs)) (\<lambda>i. bs ! i) b = (st, b')"
  shows "flash_stream_read r a (int (length bs)) dest (chip b') = (1, bs)"
proof -
  have b': "b' = snd (flash_stream_write r a (int (length bs)) (\<lambda>i. bs ! i) b)" using assms(7) by simp
  have w: "cell (chip b') = prog (cell (chip b)) a bs" "\<And>x. clean (chip b') x"
    using nor_flash.stream_write_cells [OF assms(1,3) _ assms(5) _ assms(2), of "\<lambda>i. bs ! i"] assms(4)
    unfolding b' by (simp_all add: map_nth)
  show ?thesis
    using nor_flash.stream_read_cells [OF assms(1,3) _ assms(5) _ w(2), of dest] assms(4,6)
    by (simp add: w(1) cells_prog_erased)
qed

theorem flash_stream_roundtrip_witness:
  "flash_stream_read nor_rom 1021 7 2
     (chip (snd (flash_stream_write nor_rom 1021 7 (\<lambda>i. [1, 2, 3, 4, 5, 6, 7] ! i) blank_board))) =
     (1, [1, 2, 3, 4, 5, 6, 7])"
  using flash_stream_roundtrip [OF nor.nor_flash_axioms _ _ _ _ _ prod.collapse [symmetric],
      of blank_board 1021 "[1, 2, 3, 4, 5, 6, 7]" 2]
  by (simp add: blank_board_def)

text \<open>
  A word written at any address, aligned or not, to erased cells is read back as the same
  word, and a word write changes no cell outside its four bytes.
\<close>

theorem flash_word_roundtrip:
  assumes "nor_flash r cell clean" and "\<And>x. clean (chip b) x" and "0 \<le> a" and "a + 7 < 2 ^ 32"
    and "\<forall>x. a \<le> x \<longrightarrow> x < a + 4 \<longrightarrow> cell (chip b) x = 0xFF"
    and "flash_write_word r a w b = (st, b')"
  shows "flash_read_word r a (chip b') = (1, w) \<and>
    (\<forall>x. x < a \<or> a + 4 \<le> x \<longrightarrow> cell (chip b') x = cell (chip b) x)"
proof -
  have b': "b' = snd (flash_write_word r a w b)" using assms(6) by simp
  have p: "cell (chip b') = prog (cell (chip b)) a (word_bytes w)" "\<And>x. clean (chip b') x"
    using nor_flash.write_word_any [OF assms(1,3,4,2)] unfolding b' by auto
  have "cells (prog (cell (chip b)) a (word_bytes w)) a (length (word_bytes w)) = word_bytes w"
    using assms(5) by (intro cells_prog_erased) auto
  then have "word_bytes (snd (flash_read_word r a (chip b'))) = word_bytes w"
    using nor_flash.read_word_any [OF assms(1,3,4) p(2)] by (simp add: p(1))
  then show ?thesis
    using nor_flash.read_word_any [OF assms(1,3,4) p(2)]
    by (auto simp: p(1) prog_outside prod_eq_iff dest: word_bytes_inject)
qed

theorem flash_word_roundtrip_witness:
  "flash_read_word nor_rom 4093 (chip (snd (flash_write_word nor_rom 4093 0x81958711 blank_board))) = (1, 0x81958711)"
  using flash_word_roundtrip [where b = blank_board and a = 4093 and w = "0x81958711",
      OF nor.nor_flash_axioms _ _ _ _ prod.collapse [symmetric]]
  by (simp add: blank_board_def)

section \<open>Interrupts\<close>

text \<open>
  Every operation that programs or erases runs with all interrupts and the tick timer
  disabled and gives them back as they were: afterwards the enable bits and the timer control
  are the old ones. Interrupts that were pending at the start are lost.
\<close>

theorem flash_interrupts_restored:
  assumes "length (nvic_enabled b) = 8" and "length (nvic_pending b) = 8" and "length (ISER b) = 8"
    and "b' \<in> {snd (flash_stream_write r a n data b), snd (flash_write_word r a w b),
               flash_erase_sector r a b, flash_erase_block r a b, flash_erase_chip r b,
               flash_write_protect r prot b, snd (flash_set_status r para stale st b)}"
  shows "nvic_enabled b' = nvic_enabled b \<and> SysTick_CTRL b' = SysTick_CTRL b \<and> nvic_pending b' = replicate 8 0"
proof -
  have "\<exists>f. b' = flash_write_unlock (on_chip f (flash_write_lock b))"
  proof -
    have comp: "on_chip f (on_chip g d) = on_chip (f \<circ> g) d" for f g :: "'a \<Rightarrow> 'a" and d
      by (simp add: on_chip_def)
    show ?thesis using assms(4)
      by (auto simp: flash_stream_write_def flash_write_word_def flash_erase_sector_def flash_erase_block_def
          flash_erase_chip_def flash_write_protect_def flash_set_status_def Let_def comp split_beta)
  qed
  then show ?thesis using lock_on_chip_unlock [OF assms(1-3)] by auto
qed

theorem flash_interrupts_restored_witness:
  "nvic_enabled (flash_erase_sector nor_rom 4096 blank_board) = [1, 2, 3, 4, 5, 6, 7, 8]"
  using flash_interrupts_restored [of blank_board "flash_erase_sector nor_rom 4096 blank_board" nor_rom 4096]
  by (simp add: blank_board_def)

section \<open>Writing nothing at an unaligned address\<close>

lemma nor_program_zero:
  assumes "array c x = 0"
  shows "array (nor_program a bs c) x = 0"
proof -
  have one: "(m(p := m p AND d)) x = 0" if "m x = 0" for m :: "int \<Rightarrow> u8" and p d
    using that by (cases "p = x") auto
  have "fold (\<lambda>i m. m(in_page a i := m (in_page a i) AND bs ! i)) is m x = 0" if "m x = 0" for "is" m
    using that by (induction "is" arbitrary: m) (simp_all del: fun_upd_apply add: one)
  then show ?thesis using assms by (simp add: nor_program_def)
qed

lemma write_chunks_zero:
  "array c x = 0 \<Longrightarrow> array (snd (snd (snd (write_chunks nor_rom n data a sz buf c)))) x = 0"
proof (induction "nat sz" arbitrary: a sz buf c rule: less_induct)
  case less
  then show ?case
    by (subst write_chunks.simps) (auto simp: nor_rom_def [THEN arg_cong, of FLASH_TxData12B] nor_program_zero)
qed

lemma write_aligned_zero:
  assumes "array c x = 0"
  shows "array (snd (write_aligned nor_rom data a sz buf c)) x = 0"
proof -
  have tx: "FLASH_TxData12B nor_rom = nor_program" by (simp add: nor_rom_def)
  show ?thesis
    unfolding write_aligned_def tx using assms
    by (auto simp: Let_def split_beta nor_program_zero write_chunks_zero)
qed

text \<open>
  Writing nothing at an unaligned address is not harmless. The head loop counts the
  remaining size down before it tests it, so that 0 wraps to \<open>2 ^ 32 - 1\<close>: with length 0 and an
  address that is 3 modulo 4, the first byte of the buffer is programmed into the flash.
\<close>

theorem flash_stream_write_empty_unaligned:
  assumes "0 \<le> a" and "a + 256 < 2 ^ 32" and "a mod 4 = 3" and "data 0 = 0"
  shows "array (chip (snd (flash_stream_write nor_rom a 0 data b))) a = 0"
proof -
  define c where "c = chip b"
  define w where "w = set_byte (HAL_READ32 nor_rom c (a - 3)) 3 (data 0)"
  have "3 \<le> a" using zmod_le_nonneg_dividend [OF assms(1), of 4] assms(3) by simp
  then have u: "uint32 a = a" "uint32 (a - 3) = a - 3" using assms(2) by (auto simp: uint32_id)
  have al: "(a - 3) mod 4 = 0" using assms(3) by (simp add: mod_diff_left_eq [symmetric])
  have head: "write_head data 3 (HAL_READ32 nor_rom c (a - 3)) 0 0 = (w, 2 ^ 32 - 1, 1)"
    by (subst write_head.simps, subst write_head.simps) (simp add: w_def uint32_def)
  have "array (FLASH_TxData12B nor_rom (a - 3) (word_bytes w) c) a = 0"
    using nor.aligned_program(1) [OF al, of w c] assms(4) by (simp add: prog_def w_def byte_simps)
  then have "array (snd (write_page nor_rom data a 0 0 c)) a = 0"
    using assms(3) head u by (simp add: write_page_def and_3 write_aligned_zero)
  moreover have "chip (snd (flash_stream_write nor_rom a 0 data b)) =
      Cache_Flush nor_rom (snd (write_page nor_rom data a 0 0 c))"
  proof -
    have "uint32 0 = 0" "uint32 1 = 1" by (simp_all add: uint32_def)
    then show ?thesis
      using u unfolding flash_stream_write_def Let_def
      by (simp add: c_def write_pages.simps [of nor_rom data a 1] write_pages.simps [of nor_rom data a 0] split_beta)
  qed
  ultimately show ?thesis by (simp add: nor.flush_cell)
qed

theorem flash_stream_write_empty_unaligned_witness:
  "array (chip (snd (flash_stream_write nor_rom 4099 0 (\<lambda>_. 0) blank_board))) 4099 = 0"
  using flash_stream_write_empty_unaligned [of 4099 "\<lambda>_. 0" blank_board] by simp

end
