(* ===== verification/Memory.thy ===== *)
theory Memory
  imports RTL_Prelude
begin

text \<open>
  Byte memories as the components see them behind a pointer: strings of bytes written to and read from
  an address on.
\<close>

type_synonym ram = "int \<Rightarrow> u8"

definition store :: "int \<Rightarrow> bytes \<Rightarrow> ram \<Rightarrow> ram" where
  "store off bs m = (\<lambda>i. if off \<le> i \<and> i < off + int (length bs) then bs ! nat (i - off) else m i)"

definition load :: "ram \<Rightarrow> int \<Rightarrow> nat \<Rightarrow> bytes" where
  "load m off n = map (\<lambda>k. m (off + int k)) [0..<n]"

text \<open>The characters \<open>cs\<close> are in the memory from \<open>i\<close> on.\<close>

definition at :: "ram \<Rightarrow> int \<Rightarrow> bytes \<Rightarrow> bool" where
  "at m i cs \<longleftrightarrow> load m i (length cs) = cs"

lemma length_load [simp]: "length (load m off n) = n"
  by (simp add: load_def)

lemma nth_load [simp]: "k < n \<Longrightarrow> load m off n ! k = m (off + int k)"
  by (simp add: load_def)

lemma load_store_0:
  assumes "b + n \<le> length bs"
  shows "load (store 0 bs m) (int b) n = take n (drop b bs)"
  using assms by (intro nth_equalityI) (auto simp: store_def nat_add_distrib)

lemma store_extend:
  assumes "q = p + int (length as)"
  shows "store q bs (store p as m) = store p (as @ bs) m"
proof
  fix i
  have "nat (i - q) = nat (i - p) - length as" using assms by simp
  then show "store q bs (store p as m) i = store p (as @ bs) m i"
    using assms by (auto simp: store_def nth_append)
qed

lemma store_Nil [simp]: "store p [] m = m"
  by (auto simp: store_def fun_eq_iff)

lemma at_Nil [simp]: "at m i []"
  by (simp add: at_def load_def)

lemma at_Cons [simp]: "at m i (c # cs) \<longleftrightarrow> m i = c \<and> at m (i + 1) cs"
  by (auto simp: at_def load_def upt_conv_Cons map_Suc_upt [symmetric] comp_def add.assoc simp del: upt_Suc)

lemma at_append: "at m i (as @ bs) \<longleftrightarrow> at m i as \<and> at m (i + int (length as)) bs"
  by (induction as arbitrary: i) (auto simp: ac_simps)

lemma at_nth: "at m i cs \<longleftrightarrow> (\<forall>k < length cs. m (i + int k) = cs ! k)"
  by (auto simp: at_def list_eq_iff_nth_eq)

lemma at_store: "at (store i cs m) i cs"
  by (auto simp: at_nth store_def)

text \<open>Memories that agree on a range hold the same string there.\<close>

lemma at_agree: "(\<And>x. i \<le> x \<Longrightarrow> x < i + int (length cs) \<Longrightarrow> m' x = m x) \<Longrightarrow> at m i cs \<Longrightarrow> at m' i cs"
  by (auto simp: at_nth)

lemma store_outside: "x < i \<or> i + int (length cs) \<le> x \<Longrightarrow> store i cs m x = m x"
  by (auto simp: store_def)

end
