(* ===== verification/Ota.thy ===== *)
theory Ota
  imports Flash_Contract Memory
begin

text \<open>
  The over-the-air update, \<^verbatim>\<open>component/soc/realtek/8711b/misc/rtl8710b_ota.c\<close> with its configuration
  in \<^verbatim>\<open>rtl8710b_ota.h\<close> (single-image upgrade from a local server, custom signature on).

  The server's data is a byte stream that the network stack delivers in pieces of its own
  choosing: a socket is the bytes still to come and a schedule of piece sizes, where 0 stands
  for a failing read. The receive buffer is the memory around its pointer, indexed by the
  distance, so that accesses outside its 512 bytes are visible. ROM and library functions that
  are not part of the sources are the fields of \<open>ota_lib\<close>.
\<close>

section \<open>Sockets\<close>

record sock =
  incoming :: bytes
  schedule :: "nat list"

text \<open>\<open>read(socket, buf, n)\<close>: the return value, the bytes stored and the socket afterwards.\<close>

definition sock_read :: "int \<Rightarrow> sock \<Rightarrow> int \<times> bytes \<times> sock" where
  "sock_read n s =
     (if incoming s = [] then (0, [], s)
      else
       (case schedule s of
          [] \<Rightarrow> (let k = min (nat n) (length (incoming s))
                in (int k, take k (incoming s), s\<lparr>incoming := drop k (incoming s)\<rparr>))
        | m # ms \<Rightarrow>
            (if m = 0 then (-1, [], s\<lparr>schedule := ms\<rparr>)
             else (let k = min m (min (nat n) (length (incoming s)))
                   in (int k, take k (incoming s), s\<lparr>incoming := drop k (incoming s), schedule := ms\<rparr>)))))"

definition load32 :: "ram \<Rightarrow> int \<Rightarrow> int" where
  "load32 m off = uint (bytes_word (load m off 4))"

lemma sock_read_bounds:
  assumes "sock_read n s = (k, bs, s')" and "0 < n"
  shows "k \<le> n" and "0 < k \<Longrightarrow> length (incoming s') < length (incoming s)"
  using assms by (auto simp: sock_read_def Let_def split: if_splits list.splits)

section \<open>Constants and headers\<close>

definition SPI_FLASH_BASE :: int where "SPI_FLASH_BASE = 0x08000000"
definition OFFSET_DATA :: int where "OFFSET_DATA = 0x9000"
definition OTA1_ADDR :: int where "OTA1_ADDR = 0x0800B000"
definition OTA2_DEFAULT_ADDR :: int where "OTA2_DEFAULT_ADDR = 0x08080000"
definition RDP_FLASH_ADDR :: int where "RDP_FLASH_ADDR = 0x080FF000"
definition BUF_SIZE :: int where "BUF_SIZE = 512"
definition IMAGE_HEADER_LEN :: int where "IMAGE_HEADER_LEN = 0x20"

lemmas ota_consts = SPI_FLASH_BASE_def OFFSET_DATA_def OTA1_ADDR_def OTA2_DEFAULT_ADDR_def
  RDP_FLASH_ADDR_def BUF_SIZE_def IMAGE_HEADER_LEN_def

datatype ota_index = OTA_INDEX_1 | OTA_INDEX_2

datatype image_kind = OTA_IMAG | RDP_IMAG

fun OtaImgId :: "ota_index \<Rightarrow> bytes" where
  "OtaImgId OTA_INDEX_1 = [79, 84, 65, 49]"
| "OtaImgId OTA_INDEX_2 = [79, 84, 65, 50]"

definition RdpImg :: bytes where "RdpImg = [82, 68, 80, 0]"

definition cus_sig_demo :: bytes where
  "cus_sig_demo = [67, 117, 115, 116, 111, 109, 101, 114, 32, 83, 105, 103, 110, 97, 116, 117, 114, 101,
     45, 109, 111, 100, 101, 108, 120, 120, 120, 0, 0, 0, 0, 0]"

record update_file_hdr =
  FwVer :: int
  HdrNum :: int

record update_file_img_hdr =
  ImgId :: bytes
  ImgHdrLen :: int
  Checksum :: int
  ImgLen :: int
  Offset :: int
  FlashOffset :: int

record update_ota_target_hdr =
  FileHdr :: update_file_hdr
  FileImgHdr :: update_file_img_hdr
  FileRdpHdr :: update_file_img_hdr
  RdpStatus :: bool

record update_dw_info =
  dw_ImgId :: image_kind
  FlashAddr :: int
  ImgOffset :: int
  ImageLen :: int

definition zero_img_hdr :: update_file_img_hdr where
  "zero_img_hdr = \<lparr>ImgId = replicate 4 0, ImgHdrLen = 0, Checksum = 0, ImgLen = 0, Offset = 0, FlashOffset = 0\<rparr>"

definition zero_target_hdr :: update_ota_target_hdr where
  "zero_target_hdr = \<lparr>FileHdr = \<lparr>FwVer = 0, HdrNum = 0\<rparr>, FileImgHdr = zero_img_hdr,
     FileRdpHdr = zero_img_hdr, RdpStatus = False\<rparr>"

text \<open>An image header in memory: six words, the first of them the identification.\<close>

definition sizeof_img_hdr :: int where "sizeof_img_hdr = 24"

definition img_hdr_at :: "ram \<Rightarrow> int \<Rightarrow> update_file_img_hdr" where
  "img_hdr_at m p = \<lparr>ImgId = load m p 4, ImgHdrLen = load32 m (p + 4), Checksum = load32 m (p + 8),
     ImgLen = load32 m (p + 12), Offset = load32 m (p + 16), FlashOffset = load32 m (p + 20)\<rparr>"

text \<open>\<open>strncmp(a, b, n) == 0\<close> and \<open>strcmp(a, b) == 0\<close>.\<close>

fun strn_eq :: "bytes \<Rightarrow> bytes \<Rightarrow> nat \<Rightarrow> bool" where
  "strn_eq (a # as) (b # bs) (Suc n) \<longleftrightarrow> a = b \<and> (a = 0 \<or> strn_eq as bs n)"
| "strn_eq _ _ _ \<longleftrightarrow> True"

fun str_eq :: "bytes \<Rightarrow> bytes \<Rightarrow> bool" where
  "str_eq (a # as) (b # bs) \<longleftrightarrow> a = b \<and> (a = 0 \<or> str_eq as bs)"
| "str_eq _ _ \<longleftrightarrow> False"

text \<open>Library functions: their code is not in the sources.\<close>

record 'c ota_lib =
  FLASH_EreaseDwordsXIP :: "int \<Rightarrow> nat \<Rightarrow> 'c board \<Rightarrow> 'c board"
  FLASH_TxData12BXIP :: "int \<Rightarrow> bytes \<Rightarrow> 'c board \<Rightarrow> 'c board"
  OTF_Mask :: "int \<Rightarrow> int \<Rightarrow> bool \<Rightarrow> 'c board \<Rightarrow> 'c board"
  xip_bytes :: "'c board \<Rightarrow> int \<Rightarrow> nat \<Rightarrow> bytes"
  OTA_Change :: "ota_index \<Rightarrow> 'c board \<Rightarrow> 'c board"

section \<open>The running image\<close>

definition ota_write_ota2_addr :: "'c rom \<Rightarrow> 'c ota_lib \<Rightarrow> int \<Rightarrow> 'c board \<Rightarrow> int \<times> 'c board" where
  "ota_write_ota2_addr r l ota_addr b =
     (let data = uint (HAL_READ32 r (chip b) OFFSET_DATA);
          b = (if data \<noteq> 0xFFFFFFFF \<and> data \<noteq> ota_addr then FLASH_EreaseDwordsXIP l OFFSET_DATA 1 b else b)
      in (0, FLASH_TxData12BXIP l OFFSET_DATA (word_bytes (word_of_int ota_addr)) b))"

text \<open>\<open>check_addr\<close> is the address the linker gave \<open>cus_sig_demo\<close>.\<close>

definition ota_get_cur_index :: "int \<Rightarrow> ota_index" where
  "ota_get_cur_index check_addr =
     (if check_addr = OTA1_ADDR + IMAGE_HEADER_LEN then OTA_INDEX_1 else OTA_INDEX_2)"

section \<open>Receiving and parsing the file header\<close>

text \<open>The loop \<open>while (TempLen > 0)\<close> that three places share; \<open>None\<close> after a failing read.\<close>

function recv_loop :: "int \<Rightarrow> int \<Rightarrow> ram \<Rightarrow> sock \<Rightarrow> (ram \<times> sock) option" where
  "recv_loop TempLen buf m s =
     (if TempLen > 0
      then (case sock_read TempLen s of (read_bytes, bs, s) \<Rightarrow>
              (if read_bytes < 0 then None
               else if read_bytes = 0 then Some (m, s)
               else recv_loop (TempLen - read_bytes) (buf + read_bytes) (store buf bs m) s))
      else Some (m, s))"
  by pat_completeness auto
termination
  by (relation "measure (\<lambda>(n, _). nat n)") (auto dest: sock_read_bounds)

declare recv_loop.simps [simp del]

definition recv_file_info_from_server :: "ram \<Rightarrow> int \<Rightarrow> sock \<Rightarrow> (ram \<times> sock) option" where
  "recv_file_info_from_server Recvbuf len s = recv_loop len 0 Recvbuf s"

definition recv_ota_file_hdr :: "ram \<Rightarrow> update_ota_target_hdr \<Rightarrow> sock \<Rightarrow>
    (int \<times> update_ota_target_hdr \<times> ram \<times> sock) option" where
  "recv_ota_file_hdr Recvbuf hdr s =
     (case recv_loop 16 0 Recvbuf s of
        None \<Rightarrow> None
      | Some (m, s) \<Rightarrow>
          (let hdr = hdr\<lparr>FileHdr := \<lparr>FwVer = load32 m 0, HdrNum = load32 m 4\<rparr>\<rparr>;
               TempLen = uint32 (uint32 (load32 m 4 * ImgHdrLen (img_hdr_at m 8)) - 8)
           in case recv_loop TempLen 16 m s of
                None \<Rightarrow> None
              | Some (m, s) \<Rightarrow> Some (uint32 (uint32 (load32 m 4 * ImgHdrLen (img_hdr_at m 8)) + 8), hdr, m, s)))"

text \<open>The loop over the headers in \<open>get_ota_tartget_header\<close>; \<open>None\<close> is the jump to \<open>error\<close>.\<close>

function find_headers :: "ram \<Rightarrow> bytes \<Rightarrow> int \<Rightarrow> int \<Rightarrow> int \<Rightarrow> bool \<Rightarrow> update_ota_target_hdr \<Rightarrow>
    update_ota_target_hdr option" where
  "find_headers m img_id num hlen i ImageFg hdr =
     (if i < num
      then (let p = 8 + uint32 (hlen * i)
            in if strn_eq img_id (load m p 4) 4
               then find_headers m img_id num hlen (i + 1) True (hdr\<lparr>FileImgHdr := img_hdr_at m p\<rparr>)
               else if strn_eq RdpImg (load m p 4) 3
               then find_headers m img_id num hlen (i + 1) True (hdr\<lparr>RdpStatus := True, FileRdpHdr := img_hdr_at m p\<rparr>)
               else if i = num - 1 \<and> \<not> ImageFg then None
               else find_headers m img_id num hlen (i + 1) ImageFg hdr)
      else Some hdr)"
  by pat_completeness auto
termination
  by (relation "measure (\<lambda>(m, _, num, _, i, _). nat (num - i))") auto

declare find_headers.simps [simp del]

definition get_ota_tartget_header :: "ram \<Rightarrow> int \<Rightarrow> update_ota_target_hdr \<Rightarrow> bytes \<Rightarrow>
    update_ota_target_hdr option" where
  "get_ota_tartget_header buf len hdr img_id =
     (let hdr = hdr\<lparr>RdpStatus := False\<rparr>;
          num = load32 buf 4; hlen = ImgHdrLen (img_hdr_at buf 8)
      in if len < sizeof_img_hdr + 8 then None
         else if len < uint32 (uint32 (num * hlen) + 8) then None
         else find_headers buf img_id num hlen 0 False hdr)"

section \<open>Where the new image goes\<close>

text \<open>\<open>((IMAGE_HEADER *) a)->image_size\<close>, read through the flash window.\<close>

definition image_size_at :: "'c rom \<Rightarrow> 'c board \<Rightarrow> int \<Rightarrow> int" where
  "image_size_at r b a = uint (HAL_READ32 r (chip b) (uint32 (a + 8 - SPI_FLASH_BASE)))"

definition get_ota_address :: "'c rom \<Rightarrow> 'c ota_lib \<Rightarrow> ota_index \<Rightarrow> update_ota_target_hdr \<Rightarrow> 'c board \<Rightarrow>
    int option \<times> 'c board" where
  "get_ota_address r l ota_target_index hdr b =
     (let ota2_addr = uint (HAL_READ32 r (chip b) OFFSET_DATA);
          (ota2_addr, b) =
            (if ota2_addr = 0xffffffff
             then (let b = snd (ota_write_ota2_addr r l OTA2_DEFAULT_ADDR b)
                   in (uint (HAL_READ32 r (chip b) OFFSET_DATA), b))
             else (ota2_addr, b))
      in if ota2_addr mod 4096 \<noteq> 0 then (None, b)
         else
          (let new_addr =
             (case ota_target_index of
                OTA_INDEX_2 \<Rightarrow>
                  (let OTA1Len = image_size_at r b OTA1_ADDR;
                       FlashImgDataHdr = uint32 (OTA1_ADDR + OTA1Len + IMAGE_HEADER_LEN);
                       end1 = uint32 (FlashImgDataHdr + image_size_at r b FlashImgDataHdr + IMAGE_HEADER_LEN)
                   in if ota2_addr < end1 \<and> ota2_addr AND 0xfff = 0 then None else Some ota2_addr)
              | OTA_INDEX_1 \<Rightarrow>
                  (if ImgLen (FileImgHdr hdr) > uint32 (ota2_addr - OTA1_ADDR) then None else Some OTA1_ADDR))
           in case new_addr of
                None \<Rightarrow> (None, b)
              | Some a \<Rightarrow>
                  (if a \<noteq> FlashOffset (FileImgHdr hdr) then (None, b)
                   else if a = 0xFFFFFFFF then (None, b)
                   else (Some a, b))))"

section \<open>Erasing and downloading\<close>

definition erase_ota_target_flash :: "'c rom \<Rightarrow> int \<Rightarrow> int \<Rightarrow> 'c board \<Rightarrow> 'c board" where
  "erase_ota_target_flash r addr len b =
     (let NewImg2BlkSize = uint32 (uint32 (len - 1) div 4096 + 1)
      in fold (\<lambda>i b. flash_erase_sector r (uint32 (addr - SPI_FLASH_BASE + int i * 4096)) b)
           [0..<nat NewImg2BlkSize] b)"

text \<open>The download list: the flash address of the OTA image skips the signature.\<close>

definition ota_dw_info :: "int \<Rightarrow> update_ota_target_hdr \<Rightarrow> update_dw_info" where
  "ota_dw_info addr hdr = \<lparr>dw_ImgId = OTA_IMAG, FlashAddr = uint32 (addr - SPI_FLASH_BASE + 8),
     ImgOffset = Offset (FileImgHdr hdr), ImageLen = uint32 (ImgLen (FileImgHdr hdr) - 8)\<rparr>"

definition rdp_dw_info :: "update_ota_target_hdr \<Rightarrow> update_dw_info" where
  "rdp_dw_info hdr = \<lparr>dw_ImgId = RDP_IMAG, FlashAddr = RDP_FLASH_ADDR - SPI_FLASH_BASE,
     ImgOffset = Offset (FileRdpHdr hdr), ImageLen = ImgLen (FileRdpHdr hdr)\<rparr>"

definition DownloadInfo :: "int \<Rightarrow> update_ota_target_hdr \<Rightarrow> update_dw_info list" where
  "DownloadInfo addr hdr =
     (if RdpStatus hdr
      then (if Offset (FileImgHdr hdr) < Offset (FileRdpHdr hdr)
            then [ota_dw_info addr hdr, rdp_dw_info hdr]
            else [rdp_dw_info hdr, ota_dw_info addr hdr])
      else [ota_dw_info addr hdr])"

record 'c download =
  dl_sock :: sock
  dl_ram :: ram
  read_bytes_buf :: int
  TempLen :: int
  OtaFg :: bool
  IncFg :: bool
  SigCnt :: int
  dl_size :: int
  signature :: ram
  dl_board :: "'c board"

text \<open>
  One packet of \<open>read_bytes\<close> bytes for one image: skip what comes before the image, put the first
  eight bytes of an OTA image aside as the signature, and write the rest, up to the image
  length, behind what was written before. \<open>buf\<close> is the position in the receive buffer.
\<close>

definition write_packet :: "'c rom \<Rightarrow> update_dw_info \<Rightarrow> int \<Rightarrow> int \<Rightarrow> int \<Rightarrow> 'c download \<Rightarrow> int \<times> 'c download" where
  "write_packet r info buf read_bytes RemainBytes d =
     (let RemainBytes = sint32 (RemainBytes - read_bytes);
          read_bytes = (if RemainBytes < 0 then sint32 (read_bytes - sint32 (- RemainBytes)) else read_bytes);
          b = snd (flash_stream_write r (uint32 (FlashAddr info + dl_size d)) (uint32 read_bytes)
                     (\<lambda>i. dl_ram d (buf + int i)) (dl_board d))
      in (RemainBytes, d\<lparr>dl_board := b, dl_size := sint32 (dl_size d + read_bytes)\<rparr>))"

definition process_packet :: "'c rom \<Rightarrow> update_dw_info \<Rightarrow> int \<Rightarrow> int \<Rightarrow> 'c download \<Rightarrow> int \<times> 'c download" where
  "process_packet r info read_bytes RemainBytes d =
     (if TempLen d > ImgOffset info
      then
       (if \<not> OtaFg d
        then (let d = d\<lparr>OtaFg := True\<rparr>;
                  TempCnt = uint32 (TempLen d - ImgOffset info)
              in case dw_ImgId info of
                   OTA_IMAG \<Rightarrow>
                     (let d = d\<lparr>SigCnt := (if TempCnt < 8 then TempCnt else 8)\<rparr>;
                          d = d\<lparr>signature := store 0 (load (dl_ram d) (read_bytes - TempCnt) (nat (SigCnt d))) (signature d)\<rparr>
                      in if SigCnt d < 8 \<or> TempCnt - 8 = 0 then (RemainBytes, d)
                         else write_packet r info (read_bytes - TempCnt + 8) (sint32 (TempCnt - 8)) RemainBytes d)
                 | RDP_IMAG \<Rightarrow> write_packet r info (read_bytes - TempCnt) (sint32 TempCnt) RemainBytes d)
        else if dw_ImgId info = OTA_IMAG \<and> SigCnt d < 8
        then (if uint32 read_bytes < uint32 (8 - SigCnt d)
              then (RemainBytes,
                    d\<lparr>signature := store (SigCnt d) (load (dl_ram d) 0 (nat read_bytes)) (signature d),
                      SigCnt := uint32 (SigCnt d + read_bytes)\<rparr>)
              else (let n = 8 - SigCnt d;
                        d = d\<lparr>signature := store (SigCnt d) (load (dl_ram d) 0 (nat n)) (signature d), SigCnt := 8\<rparr>
                    in if read_bytes - n = 0 then (RemainBytes, d)
                       else write_packet r info n (read_bytes - n) RemainBytes d))
        else write_packet r info 0 read_bytes RemainBytes d)
      else (RemainBytes, d))"

lemma process_packet_sock [simp]:
  "dl_sock (snd (process_packet r info n rem d)) = dl_sock d"
  "IncFg (snd (process_packet r info n rem d)) = IncFg d"
  by (simp_all add: process_packet_def write_packet_def Let_def split: image_kind.split)

text \<open>
  The loop \<open>while (RemainBytes > 0)\<close> of one image; the first component is false after a failing
  read. \<open>IncFg\<close> makes the first round reuse the packet the previous image ended in.
\<close>

function download_image :: "'c rom \<Rightarrow> update_dw_info \<Rightarrow> int \<Rightarrow> 'c download \<Rightarrow> bool \<times> 'c download" where
  "download_image r info RemainBytes d =
     (if RemainBytes > 0
      then (if IncFg d
            then (let (RemainBytes, d) = process_packet r info (read_bytes_buf d) RemainBytes (d\<lparr>IncFg := False\<rparr>)
                  in download_image r info RemainBytes d)
            else (let m = (\<lambda>i. if 0 \<le> i \<and> i < BUF_SIZE then 0 else dl_ram d i);
                      (read_bytes, bs, s) = sock_read BUF_SIZE (dl_sock d);
                      d = d\<lparr>dl_ram := store 0 bs m, dl_sock := s\<rparr>
                  in if read_bytes = 0 then (True, d)
                     else if read_bytes < 0 then (False, d)
                     else (let d = d\<lparr>read_bytes_buf := read_bytes, TempLen := uint32 (TempLen d + read_bytes)\<rparr>;
                               (RemainBytes, d) = process_packet r info read_bytes RemainBytes d
                           in download_image r info RemainBytes d)))
      else (True, d))"
  by pat_completeness auto
termination
  by (relation "measure (\<lambda>(r, info, n, d). 2 * length (incoming (dl_sock d)) + (if IncFg d then 1 else 0))")
     (auto simp: split_beta BUF_SIZE_def dest: sock_read_bounds(2) [OF sym])

declare download_image.simps [simp del]

fun download_images :: "'c rom \<Rightarrow> update_dw_info list \<Rightarrow> int \<Rightarrow> 'c download \<Rightarrow> int \<times> 'c download" where
  "download_images r [] OtaImgSize d = (OtaImgSize, d)"
| "download_images r (info # infos) OtaImgSize d =
     (case download_image r info (sint32 (ImageLen info)) d of
        (False, d) \<Rightarrow> (-1, d)
      | (True, d) \<Rightarrow>
          download_images r infos (if dw_ImgId info = OTA_IMAG then dl_size d else OtaImgSize)
            (d\<lparr>dl_size := 0, OtaFg := False, IncFg := True\<rparr>))"

text \<open>\<open>m\<close> is the memory at the buffer that \<open>ota_update_malloc(BUF_SIZE)\<close> returns.\<close>

definition download_new_fw_from_server :: "'c rom \<Rightarrow> int \<Rightarrow> ram \<Rightarrow> sock \<Rightarrow> update_ota_target_hdr \<Rightarrow> ram \<Rightarrow>
    'c board \<Rightarrow> int \<times> 'c download" where
  "download_new_fw_from_server r addr m s hdr sig b =
     download_images r (DownloadInfo addr hdr) (-1)
       \<lparr>dl_sock = s, dl_ram = m, read_bytes_buf = 0,
        TempLen = uint32 (uint32 (HdrNum (FileHdr hdr) * ImgHdrLen (FileImgHdr hdr)) + 8),
        OtaFg = False, IncFg = False, SigCnt = 0, dl_size = 0, signature = sig, dl_board = b\<rparr>"

section \<open>Verifying and activating\<close>

definition sum_bytes :: "bytes \<Rightarrow> int" where
  "sum_bytes bs = (\<Sum>x \<leftarrow> bs. uint x)"

text \<open>The two read-back loops; \<open>i\<close> stays far below \<open>2 ^ 32\<close>, as \<open>len\<close> comes from a positive \<open>int\<close>.\<close>

function checksum_loop :: "'c rom \<Rightarrow> int \<Rightarrow> int \<Rightarrow> int \<Rightarrow> int \<Rightarrow> 'c board \<Rightarrow> int \<times> 'c board" where
  "checksum_loop r addr len i flash_checksum b =
     (if i < len
      then (let rlen = (if len - i > BUF_SIZE then BUF_SIZE else len - i);
                bs = snd (flash_stream_read r (uint32 (addr - SPI_FLASH_BASE + i + 8)) rlen 0 (chip b));
                b = on_chip (Cache_Flush r) b
            in checksum_loop r addr len (i + BUF_SIZE) (uint32 (flash_checksum + sum_bytes bs)) b)
      else (flash_checksum, b))"
  by pat_completeness auto
termination
  by (relation "measure (\<lambda>(r, a, len, i, _). nat (len - i))") (auto simp: BUF_SIZE_def)

declare checksum_loop.simps [simp del]

definition rdp_checksum :: "'c rom \<Rightarrow> int \<Rightarrow> 'c board \<Rightarrow> int \<times> 'c board" where
  "rdp_checksum r len b =
     fold (\<lambda>i (sum, b).
         (uint32 (sum + sum_bytes (snd (flash_stream_read r (uint32 (RDP_FLASH_ADDR - SPI_FLASH_BASE + int i)) 1 0 (chip b)))),
          on_chip (Cache_Flush r) b))
       [0..<nat len] (0, b)"

definition verify_ota_checksum :: "'c rom \<Rightarrow> 'c ota_lib \<Rightarrow> int \<Rightarrow> int \<Rightarrow> ram \<Rightarrow> update_ota_target_hdr \<Rightarrow>
    'c board \<Rightarrow> bool \<times> 'c board" where
  "verify_ota_checksum r l addr len sig hdr b =
     (let NewImg2BlkSize = uint32 (uint32 (len - 1) div 4096 + 1);
          b = OTF_Mask l (addr - SPI_FLASH_BASE) NewImg2BlkSize False b;
          read_custom_sig = xip_bytes l b (addr + IMAGE_HEADER_LEN) 32;
          b = on_chip (Cache_Flush r) b
      in if \<not> str_eq read_custom_sig cus_sig_demo then (False, b)
         else
          (let b = OTF_Mask l (addr - SPI_FLASH_BASE) NewImg2BlkSize True b;
               (flash_checksum, b) = checksum_loop r addr len 0 0 b;
               flash_checksum = uint32 (flash_checksum + sum_bytes (load sig 0 8));
               (rdp, b) = (if RdpStatus hdr then rdp_checksum r (ImgLen (FileRdpHdr hdr)) b else (0, b));
               b = OTF_Mask l (addr - SPI_FLASH_BASE) NewImg2BlkSize False b
           in if flash_checksum \<noteq> Checksum (FileImgHdr hdr) then (False, b)
              else if RdpStatus hdr \<and> rdp \<noteq> Checksum (FileRdpHdr hdr) then (False, b)
              else (True, b)))"

definition change_ota_signature :: "'c rom \<Rightarrow> 'c ota_lib \<Rightarrow> int \<Rightarrow> ram \<Rightarrow> ota_index \<Rightarrow> 'c board \<Rightarrow> bool \<times> 'c board" where
  "change_ota_signature r l addr sig ota_target_index b =
     (case flash_stream_write r (uint32 (addr - SPI_FLASH_BASE)) 8 (\<lambda>i. sig (int i)) b of
        (st, b) \<Rightarrow> if st < 0 then (False, b) else (True, OTA_Change l ota_target_index b))"

section \<open>The update task\<close>

datatype ota_event = Malloc_alloc | Free_alloc | Close_socket | Free_param | Reset

text \<open>What the environment decides: allocation, connection, the running image and the server.\<close>

record ota_env =
  malloc_ok :: bool
  socket_ok :: bool
  connect_ok :: bool
  check_addr :: int
  server :: sock
  heap_at_alloc :: ram
  heap_at_buffer :: ram

definition update_ota_exit :: "bool \<Rightarrow> bool \<Rightarrow> bool \<Rightarrow> ota_event list \<Rightarrow> ota_event list" where
  "update_ota_exit alloc socket_open ok ev =
     ev @ (if alloc then [Free_alloc] else []) @ (if socket_open then [Close_socket] else []) @ [Free_param] @
     (if ok then [Reset] else [])"

text \<open>Steps 4 to 6: erase, download, verify and activate.\<close>

definition install_image :: "'c rom \<Rightarrow> 'c ota_lib \<Rightarrow> ota_env \<Rightarrow> int \<Rightarrow> ota_index \<Rightarrow> update_ota_target_hdr \<Rightarrow> sock \<Rightarrow>
    'c board \<Rightarrow> bool \<times> 'c board" where
  "install_image r l e NewImg2Addr ota_target_index hdr s b =
     (let b = erase_ota_target_flash r NewImg2Addr (ImgLen (FileImgHdr hdr)) b;
          b = (if RdpStatus hdr then flash_erase_sector r (RDP_FLASH_ADDR - SPI_FLASH_BASE) b else b);
          (sz, d) = download_new_fw_from_server r NewImg2Addr (heap_at_buffer e) s hdr (\<lambda>_. 0) b;
          b = dl_board d
      in if sz < 0 \<or> uint32 sz \<noteq> uint32 (ImgLen (FileImgHdr hdr) - 8) then (False, b)
         else
          (case verify_ota_checksum r l NewImg2Addr sz (signature d) hdr b of
             (True, b) \<Rightarrow> change_ota_signature r l NewImg2Addr (signature d) ota_target_index b
           | (False, b) \<Rightarrow> (False, flash_erase_sector r (uint32 (NewImg2Addr - SPI_FLASH_BASE)) b)))"

text \<open>
  The task. Its buffer is freed after the header was parsed and again at the exit, because the
  pointer is not cleared.
\<close>

definition ota_update_single_img_local_task :: "'c rom \<Rightarrow> 'c ota_lib \<Rightarrow> ota_env \<Rightarrow> 'c board \<Rightarrow>
    bool \<times> ota_event list \<times> 'c board" where
  "ota_update_single_img_local_task r l e b =
     (if \<not> malloc_ok e then (False, update_ota_exit False False False [], b)
      else if \<not> socket_ok e then (False, update_ota_exit True False False [Malloc_alloc], b)
      else if \<not> connect_ok e then (False, update_ota_exit True True False [Malloc_alloc], b)
      else
       (let ota_target_index = (case ota_get_cur_index (check_addr e) of
              OTA_INDEX_1 \<Rightarrow> OTA_INDEX_2 | OTA_INDEX_2 \<Rightarrow> OTA_INDEX_1)
        in case recv_file_info_from_server (\<lambda>_. 0) 12 (server e) of
             None \<Rightarrow> (False, update_ota_exit True True False [Malloc_alloc], b)
           | Some (_, s) \<Rightarrow>
          (case recv_ota_file_hdr (heap_at_alloc e) zero_target_hdr s of
             None \<Rightarrow> (False, update_ota_exit True True False [Malloc_alloc], b)
           | Some (RevHdrLen, hdr, m, s) \<Rightarrow>
          (case get_ota_tartget_header m RevHdrLen hdr (OtaImgId ota_target_index) of
             None \<Rightarrow> (False, update_ota_exit True True False [Malloc_alloc], b)
           | Some hdr \<Rightarrow>
          (case get_ota_address r l ota_target_index hdr b of
             (None, b) \<Rightarrow> (False, update_ota_exit True True False [Malloc_alloc, Free_alloc], b)
           | (Some NewImg2Addr, b) \<Rightarrow>
               (case install_image r l e NewImg2Addr ota_target_index hdr s b of
                  (ok, b) \<Rightarrow> (ok, update_ota_exit True True ok [Malloc_alloc, Free_alloc], b)))))))"

text \<open>
  Starting the task: \<open>TaskOTA\<close> guards against a second one. The result is the return value, the new
  value of \<open>TaskOTA\<close> and whether the configuration block stays allocated for the task.
\<close>

definition update_ota_local :: "bool \<Rightarrow> bool \<Rightarrow> bool \<Rightarrow> int \<times> bool \<times> bool" where
  "update_ota_local TaskOTA cfg_malloc_ok task_create_ok =
     (if TaskOTA then (0, True, False)
      else if \<not> cfg_malloc_ok then (-1, False, False)
      else if task_create_ok then (0, True, True) else (0, False, False))"

definition cmd_update :: "nat \<Rightarrow> bool \<Rightarrow> bool \<Rightarrow> bool \<Rightarrow> (int \<times> bool \<times> bool) option" where
  "cmd_update argc TaskOTA cfg_malloc_ok task_create_ok =
     (if argc \<noteq> 3 then None else Some (update_ota_local TaskOTA cfg_malloc_ok task_create_ok))"

definition cmd_ota_image :: "'c ota_lib \<Rightarrow> bool \<Rightarrow> 'c board \<Rightarrow> 'c board" where
  "cmd_ota_image l cmd b = OTA_Change l (if cmd then OTA_INDEX_2 else OTA_INDEX_1) b"

end
