(* ===== verification/Ota_Download.thy ===== *)
theory Ota_Download
  imports Ota
begin

text \<open>
  The download loop of \<^verbatim>\<open>rtl8710b_ota.c\<close>: an invariant that ties the loop's counters to the number
  of bytes taken from the server's stream, whatever pieces the stack delivers them in, and its
  consequences for the flash and the signature.
\<close>

lemma take_drop_split: "take (a + b) (drop c xs) = take a (drop c xs) @ take b (drop (c + a) xs)"
  by (simp add: take_add add.commute)

section \<open>Pieces of a stream\<close>

lemma sock_read_cases:
  assumes "sock_read n s = (k, bs, s')" and "0 < n"
  obtains "incoming s = []" "k = 0" "bs = []" "s' = s"
    | "k < 0" "bs = []" "incoming s' = incoming s" "0 \<in> set (schedule s)"
    | j where "k = int j" "0 < j" "j \<le> nat n" "j \<le> length (incoming s)" "bs = take j (incoming s)"
      "incoming s' = drop j (incoming s)" "set (schedule s') \<subseteq> set (schedule s)"
proof (cases "incoming s = []")
  case True
  then show ?thesis using that(1) assms by (simp add: sock_read_def)
next
  case False
  then have l: "0 < length (incoming s)" by simp
  show ?thesis
  proof (cases "schedule s")
    case Nil
    obtain j where j: "min (nat n) (length (incoming s)) = j" by blast
    then have "0 < j" "j \<le> nat n" "j \<le> length (incoming s)" using l assms(2) by linarith+
    moreover have "k = int j" "bs = take j (incoming s)" "s' = s\<lparr>incoming := drop j (incoming s)\<rparr>"
      using assms(1) False Nil j by (simp_all add: sock_read_def Let_def)
    ultimately show ?thesis using that(3) [of j] by simp
  next
    case (Cons m ms)
    show ?thesis
    proof (cases "m = 0")
      case True
      then show ?thesis using that(2) assms False Cons by (auto simp: sock_read_def)
    next
      case nz: False
      obtain j where j: "min m (min (nat n) (length (incoming s))) = j" by blast
      then have "0 < j" "j \<le> nat n" "j \<le> length (incoming s)" using l assms(2) nz by linarith+
      moreover have "k = int j" "bs = take j (incoming s)" "s' = s\<lparr>incoming := drop j (incoming s), schedule := ms\<rparr>"
        using assms(1) False Cons nz j by (simp_all add: sock_read_def Let_def)
      moreover have "set ms \<subseteq> set (schedule s)" using Cons by auto
      ultimately show ?thesis using that(3) [of j] by simp
    qed
  qed
qed

section \<open>The invariant of the download\<close>

text \<open>
  \<open>full\<close> is the stream after the file header of \<open>H\<close> bytes, \<open>off\<close> the offset of the image in the file,
  \<open>L\<close> the image length without the signature, \<open>base\<close> its flash address, \<open>m0\<close> the flash before. After
  \<open>t\<close> bytes of the stream, \<open>got full H off t\<close> bytes of the image have been seen.
\<close>

definition seen :: "nat \<Rightarrow> nat \<Rightarrow> nat \<Rightarrow> nat" where
  "seen H off t = H + t - off"

definition sig_part :: "bytes \<Rightarrow> nat \<Rightarrow> nat \<Rightarrow> nat \<Rightarrow> bytes" where
  "sig_part full H off q = take (min q 8) (drop (off - H) full)"

definition img_part :: "bytes \<Rightarrow> nat \<Rightarrow> nat \<Rightarrow> nat \<Rightarrow> bytes" where
  "img_part full H off n = take n (drop (off - H + 8) full)"

record dl_view =
  v_full :: bytes
  v_H :: nat
  v_off :: nat
  v_L :: nat
  v_base :: int
  v_mem :: "int \<Rightarrow> u8"
  v_sig :: ram

definition dl_inv :: "('c \<Rightarrow> int \<Rightarrow> u8) \<Rightarrow> ('c \<Rightarrow> int \<Rightarrow> bool) \<Rightarrow> dl_view \<Rightarrow> nat \<Rightarrow> int \<Rightarrow> 'c download \<Rightarrow> bool" where
  "dl_inv cell clean v t rem d \<longleftrightarrow>
     (let q = seen (v_H v) (v_off v) t; n = min (q - 8) (v_L v) in
      t \<le> length (v_full v) \<and> incoming (dl_sock d) = drop t (v_full v) \<and>
      TempLen d = int (v_H v + t) \<and> \<not> IncFg d \<and> (OtaFg d \<longleftrightarrow> 0 < q) \<and>
      SigCnt d = int (min q 8) \<and> dl_size d = int n \<and> rem = int (v_L v) - int (q - 8) \<and>
      signature d = store 0 (sig_part (v_full v) (v_H v) (v_off v) q) (v_sig v) \<and>
      cell (chip (dl_board d)) = prog (v_mem v) (v_base v) (img_part (v_full v) (v_H v) (v_off v) n) \<and>
      (\<forall>x. clean (chip (dl_board d)) x))"

definition dl_ok :: "dl_view \<Rightarrow> update_dw_info \<Rightarrow> bool" where
  "dl_ok v info \<longleftrightarrow> v_H v \<le> v_off v \<and> v_H v + length (v_full v) < 2 ^ 31 \<and> v_off v < 2 ^ 32 \<and> v_L v < 2 ^ 31 \<and>
     0 \<le> v_base v \<and> v_base v + int (v_L v) + 3 < 2 ^ 32 \<and>
     info = \<lparr>dw_ImgId = OTA_IMAG, FlashAddr = v_base v, ImgOffset = int (v_off v), ImageLen = int (v_L v)\<rparr>"

context nor_flash
begin

text \<open>Writing \<open>n\<close> bytes of a packet behind \<open>p\<close> bytes of the image, cut off at the image length.\<close>

lemma write_packet_cells:
  assumes "p < L" and "0 < n" and "n \<le> 1024" and "L < 2 ^ 31" and "0 \<le> base" and "base + int L + 3 < 2 ^ 32"
    and "FlashAddr info = base" and "dl_size d = int p" and "\<And>x. clean (chip (dl_board d)) x"
    and "write_packet r info buf (int n) (int L - int p) d = (rem', d')"
  shows "rem' = int L - int (p + n)"
    and "dl_size d' = int (min (p + n) L)"
    and "cell (chip (dl_board d')) = prog (cell (chip (dl_board d))) (base + int p) (load (dl_ram d) buf (min n (L - p)))"
    and "clean (chip (dl_board d')) x"
    and "d' = d\<lparr>dl_board := dl_board d', dl_size := dl_size d'\<rparr>"
proof -
  let ?k = "min n (L - p)"
  have rem: "sint32 (int L - int p - int n) = int L - int (p + n)"
    using assms(1-4) by (simp add: sint32_id)
  have k: "(if int L - int (p + n) < 0 then sint32 (int n - sint32 (- (int L - int (p + n)))) else int n) = int ?k"
    using assms(1-4) by (auto simp: sint32_id)
  have u: "uint32 (base + int p) = base + int p" "uint32 (int ?k) = int ?k" "sint32 (int p + int ?k) = int (p + ?k)"
    using assms(1-6) by (auto simp: uint32_id sint32_id)
  let ?w = "snd (flash_stream_write r (base + int p) (int ?k) (\<lambda>i. dl_ram d (buf + int i)) (dl_board d))"
  have e: "rem' = int L - int (p + n)" "d' = d\<lparr>dl_board := ?w, dl_size := int (p + ?k)\<rparr>"
    using assms(10) unfolding write_packet_def Let_def assms(7,8) rem k u by simp_all
  have "map (\<lambda>i. dl_ram d (buf + int i)) [0..<nat (int ?k)] = load (dl_ram d) buf ?k" by (simp add: load_def)
  moreover have "0 < int ?k" "base + int p + int ?k + 3 < 2 ^ 32" using assms(1,2,6) by auto
  ultimately show "cell (chip (dl_board d')) = prog (cell (chip (dl_board d))) (base + int p) (load (dl_ram d) buf ?k)"
      "clean (chip (dl_board d')) x"
    using stream_write_cells [of "base + int p" "int ?k" "dl_board d" "\<lambda>i. dl_ram d (buf + int i)"] assms(5,9)
    by (simp_all add: e(2))
  show "rem' = int L - int (p + n)" by (rule e(1))
  show "dl_size d' = int (min (p + n) L)" using assms(1) by (simp add: e(2))
  show "d' = d\<lparr>dl_board := dl_board d', dl_size := dl_size d'\<rparr>" by (simp add: e(2))
qed

text \<open>
  One packet of \<open>k\<close> bytes keeps the invariant: the four cases are a packet before the image, one
  in which the image starts, one that continues the signature, and one that continues the image.
\<close>

lemma img_part_add:
  assumes "off \<le> H + t"
  shows "img_part full H off (a + b) = img_part full H off a @ take b (drop (off - H + 8 + a) full)"
  by (simp add: img_part_def take_drop_split)

lemma packet_write:
  assumes "dl_ok v info" and "v_off v \<le> v_H v + t'" and "0 < n" and "n \<le> 1024" and "p < v_L v"
    and "p + n = seen (v_H v) (v_off v) t' - 8" and "8 \<le> seen (v_H v) (v_off v) t'"
    and "t' \<le> length (v_full v)" and "incoming (dl_sock d) = drop t' (v_full v)" and "TempLen d = int (v_H v + t')"
    and "\<not> IncFg d" and "OtaFg d" and "SigCnt d = 8" and "dl_size d = int p"
    and "signature d = store 0 (sig_part (v_full v) (v_H v) (v_off v) 8) (v_sig v)"
    and "cell (chip (dl_board d)) = prog (v_mem v) (v_base v) (img_part (v_full v) (v_H v) (v_off v) p)"
    and "\<And>x. clean (chip (dl_board d)) x"
    and "load (dl_ram d) buf (min n (v_L v - p)) = take (min n (v_L v - p)) (drop (v_off v - v_H v + 8 + p) (v_full v))"
    and "write_packet r info buf (int n) (int (v_L v) - int p) d = (rem', d')"
  shows "dl_inv cell clean v t' rem' d'"
proof -
  have info: "FlashAddr info = v_base v" "v_L v < 2 ^ 31" "0 \<le> v_base v" "v_base v + int (v_L v) + 3 < 2 ^ 32"
    "v_H v \<le> v_off v"
    using assms(1) by (auto simp: dl_ok_def)
  note w = write_packet_cells [OF assms(5,3,4) info(2,3,4,1) assms(14,17,19)]
  let ?q = "seen (v_H v) (v_off v) t'"
  have len: "length (img_part (v_full v) (v_H v) (v_off v) p) = p"
    using assms(2,6,8) info(5) by (simp add: img_part_def seen_def)
  have n: "min (?q - 8) (v_L v) = p + min n (v_L v - p)" using assms(5,6) by auto
  have "cell (chip (dl_board d')) = prog (v_mem v) (v_base v) (img_part (v_full v) (v_H v) (v_off v) (p + min n (v_L v - p)))"
    unfolding w(3) assms(16,18) img_part_add [OF assms(2)] by (rule prog_append) (simp add: len)
  moreover have "sig_part (v_full v) (v_H v) (v_off v) ?q = sig_part (v_full v) (v_H v) (v_off v) 8"
    using assms(7) by (simp add: sig_part_def)
  moreover have "dl_sock d' = dl_sock d" "TempLen d' = TempLen d" "IncFg d' = IncFg d" "OtaFg d' = OtaFg d"
    "SigCnt d' = SigCnt d" "signature d' = signature d"
    by (subst w(5), simp)+
  moreover have "dl_size d' = int (p + min n (v_L v - p))" using w(2) n assms(6) by simp
  moreover have "\<forall>x. clean (chip (dl_board d')) x" using w(4) by blast
  ultimately show ?thesis
    using assms(6-13,15) w(1) unfolding dl_inv_def Let_def n by simp
qed

lemma packet_data:
  assumes "bs = take k (drop t full)" and "t + k \<le> length full" and "b + n \<le> k"
  shows "load (store 0 bs m) (int b) n = take n (drop (t + b) full)"
  using assms by (subst load_store_0) (auto simp: drop_take take_take min_def add.commute)

definition packet_is :: "(int \<Rightarrow> u8) \<Rightarrow> nat \<Rightarrow> nat \<Rightarrow> u8 list \<Rightarrow> bool" where
  "packet_is m t k full \<longleftrightarrow> (\<forall>b n. b + n \<le> k \<longrightarrow> load m (int b) n = take n (drop (t + b) full))"

text \<open>
  The state after \<open>k\<close> more bytes were read, before they are processed: \<open>q\<close> bytes of the image were
  seen before them, \<open>q'\<close> with them.
\<close>

definition dl_got :: "dl_view \<Rightarrow> update_dw_info \<Rightarrow> nat \<Rightarrow> nat \<Rightarrow> nat \<Rightarrow> nat \<Rightarrow> int \<Rightarrow> 'c download \<Rightarrow> bool" where
  "dl_got v info t k q q' rem d \<longleftrightarrow> dl_ok v info \<and>
     q = seen (v_H v) (v_off v) t \<and> q' = seen (v_H v) (v_off v) (t + k) \<and>
     0 < k \<and> k \<le> 1024 \<and> t + k \<le> length (v_full v) \<and> q - 8 < v_L v \<and>
     incoming (dl_sock d) = drop (t + k) (v_full v) \<and>
     TempLen d = int (v_H v + (t + k)) \<and> \<not> IncFg d \<and> (OtaFg d \<longleftrightarrow> 0 < q) \<and>
     SigCnt d = int (min q 8) \<and> dl_size d = int (min (q - 8) (v_L v)) \<and> rem = int (v_L v) - int (q - 8) \<and>
     signature d = store 0 (sig_part (v_full v) (v_H v) (v_off v) q) (v_sig v) \<and>
     cell (chip (dl_board d)) = prog (v_mem v) (v_base v) (img_part (v_full v) (v_H v) (v_off v) (min (q - 8) (v_L v))) \<and>
     (\<forall>x. clean (chip (dl_board d)) x) \<and>
     packet_is (dl_ram d) t k (v_full v)"

lemma got_received:
  assumes ok: "dl_ok v info" and inv: "dl_inv cell clean v t rem d" and rem: "0 < rem"
    and k: "0 < k" "k \<le> 1024" "t + k \<le> length (v_full v)"
    and d1: "d1 = d\<lparr>dl_ram := store 0 (take k (drop t (v_full v))) m, dl_sock := s,
        read_bytes_buf := int k, TempLen := uint32 (TempLen d + int k)\<rparr>"
    and s: "incoming s = drop (t + k) (v_full v)"
  shows "dl_got v info t k (seen (v_H v) (v_off v) t) (seen (v_H v) (v_off v) (t + k)) rem d1"
proof -
  have "uint32 (TempLen d + int k) = int (v_H v + (t + k))"
    using inv k ok by (simp add: dl_inv_def dl_ok_def Let_def uint32_id)
  then show ?thesis
    using inv s rem k ok packet_data [OF refl k(3)]
    by (auto simp: d1 dl_inv_def dl_got_def Let_def packet_is_def)
qed

text \<open>The image has started in the received bytes exactly when its offset lies below the position.\<close>

lemma got_started:
  assumes "dl_got v info t k q q' rem d"
  shows "ImgOffset info < TempLen d \<longleftrightarrow> 0 < q'" "uint32 (TempLen d - ImgOffset info) = int q' \<or> q' = 0"
    "dw_ImgId info = OTA_IMAG" "q \<le> q'"
  using assms by (auto simp: dl_got_def dl_ok_def seen_def uint32_id)

lemma got_load:
  "dl_got v info t k q q' rem d \<Longrightarrow> b + n \<le> k \<Longrightarrow> load (dl_ram d) (int b) n = take n (drop (t + b) (v_full v))"
  unfolding dl_got_def packet_is_def by blast

lemma got_keep:
  assumes "dl_got v info t k q q' rem d" and "q' \<le> 8"
    and "e = d\<lparr>OtaFg := 0 < q', SigCnt := int q', signature := store 0 (sig_part (v_full v) (v_H v) (v_off v) q') (v_sig v)\<rparr>"
  shows "dl_inv cell clean v (t + k) rem e"
proof -
  have "q \<le> 8" using assms(1,2) got_started(4) by fastforce
  then show ?thesis using assms unfolding dl_got_def dl_inv_def by (auto simp: Let_def)
qed

lemma got_write:
  assumes "dl_got v info t k q q' rem d" and "8 < q'" and "p = max q 8 - 8"
    and "e = d\<lparr>OtaFg := True, SigCnt := 8, signature := store 0 (sig_part (v_full v) (v_H v) (v_off v) 8) (v_sig v)\<rparr>"
    and "n = q' - 8 - p" and "b + n = k"
    and "write_packet r info (int b) (int n) rem e = (rem', d')"
  shows "dl_inv cell clean v (t + k) rem' d'"
proof -
  let ?n = "min n (v_L v - p)"
  have g: "dl_ok v info" "q = seen (v_H v) (v_off v) t" "q' = seen (v_H v) (v_off v) (t + k)" "0 < k" "k \<le> 1024"
    "q - 8 < v_L v" "v_H v \<le> v_off v" "rem = int (v_L v) - int (q - 8)"
    using assms(1) by (auto simp: dl_got_def dl_ok_def)
  have d: "t + k \<le> length (v_full v)" "incoming (dl_sock d) = drop (t + k) (v_full v)" "TempLen d = int (v_H v + (t + k))"
    "\<not> IncFg d" "dl_size d = int (min (q - 8) (v_L v))" "\<forall>x. clean (chip (dl_board d)) x"
    "cell (chip (dl_board d)) = prog (v_mem v) (v_base v) (img_part (v_full v) (v_H v) (v_off v) (min (q - 8) (v_L v)))"
    using assms(1) unfolding dl_got_def by blast+
  have p: "p = q - 8" using assms(3) by simp
  have q': "v_off v \<le> v_H v + (t + k)" "0 < n" "n \<le> 1024" "p + n = q' - 8" "v_off v - v_H v + 8 + p = t + b"
    using assms(2,5,6) g(4-7) unfolding p g(2,3) seen_def by linarith+
  have ld: "load (dl_ram d) (int b) ?n = take ?n (drop (v_off v - v_H v + 8 + p) (v_full v))"
    using got_load [OF assms(1)] assms(6) q'(5) by simp
  have p': "p < v_L v" "min (q - 8) (v_L v) = p" "rem = int (v_L v) - int p" using g(6,8) p by simp_all
  have q8: "p + n = seen (v_H v) (v_off v) (t + k) - 8" "8 \<le> seen (v_H v) (v_off v) (t + k)" using q'(4) g(3) assms(2) by simp_all
  show ?thesis
    by (rule packet_write [OF g(1) q'(1-3) p'(1) q8 d(1), of e "int b"])
      (use d(2-7) p'(2,3) ld assms(7) in \<open>simp_all add: assms(4)\<close>)
qed

text \<open>
  The cases of a packet: before the image, in which the image starts, inside the signature, inside
  the image.
\<close>

lemma packet_first:
  assumes got: "dl_got v info t k q q' rem d" and q: "q = 0" "0 < q'"
    and pp: "process_packet r info (int k) rem d = (rem', d')"
  shows "dl_inv cell clean v (t + k) rem' d'"
proof -
  note st = got_started [OF got]
  let ?sig = "sig_part (v_full v) (v_H v) (v_off v)"
  have g: "\<not> OtaFg d" "signature d = v_sig v" "q' \<le> k" "k \<le> 1024"
    using got q by (auto simp: dl_got_def dl_ok_def seen_def sig_part_def)
  have tc: "uint32 (TempLen d - ImgOffset info) = int q'" using st(2) q(2) by auto
  have at: "int k - int q' = int (k - q')" using g(3) by simp
  have "t + (k - q') = v_off v - v_H v" using got q by (auto simp: dl_got_def dl_ok_def seen_def)
  then have ld: "load (dl_ram d) (int (k - q')) (min q' 8) = ?sig q'"
    using got_load [OF got, of "k - q'" "min q' 8"] g(3) by (simp add: sig_part_def)
  show ?thesis
  proof (cases "q' \<le> 8")
    case True
    then have "q' < 8 \<or> q' = 8" by auto
    then have "process_packet r info (int k) rem d =
        (rem, d\<lparr>OtaFg := True, SigCnt := int q', signature := store 0 (load (dl_ram d) (int k - int q') q') (signature d)\<rparr>)"
      using q g(1) st(1,3) by (elim disjE) (simp_all add: process_packet_def Let_def tc)
    then show ?thesis using got_keep [OF got True] pp q ld g(2) True unfolding at by simp
  next
    case False
    let ?e = "d\<lparr>OtaFg := True, SigCnt := 8, signature := store 0 (?sig 8) (v_sig v)\<rparr>"
    have "?sig q' = ?sig 8" using False by (simp add: sig_part_def)
    moreover have "int k - int q' + 8 = int (k - q' + 8)" "sint32 (int q' - 8) = int (q' - 8)"
      using False g(3,4) by (auto simp: sint32_id)
    ultimately have "process_packet r info (int k) rem d = write_packet r info (int (k - q' + 8)) (int (q' - 8)) rem ?e"
      using False q g(1,2) st(1,3) ld by (simp add: process_packet_def Let_def tc at)
    then show ?thesis
      using pp False q g(3) got_write [OF got _ refl refl refl, where b = "k - q' + 8"] by (simp del: of_nat_add of_nat_diff)
  qed
qed

lemma signature_extend:
  assumes got: "dl_got v info t k q q' rem d" and q: "0 < q" "q < 8" and n: "n \<le> k" "n \<le> 8 - q"
  shows "store (int q) (load (dl_ram d) 0 n) (signature d) = store 0 (sig_part (v_full v) (v_H v) (v_off v) (q + n)) (v_sig v)"
proof -
  have t: "v_off v - v_H v + q = t" using got q by (auto simp: dl_got_def dl_ok_def seen_def)
  have "min (q + n) 8 = q + n" "min q 8 = q" using q n(2) by auto
  then have "sig_part (v_full v) (v_H v) (v_off v) (q + n) =
      sig_part (v_full v) (v_H v) (v_off v) q @ take n (drop t (v_full v))"
    unfolding sig_part_def t [symmetric] by (simp only: take_drop_split)
  moreover have "length (sig_part (v_full v) (v_H v) (v_off v) q) = q" "load (dl_ram d) 0 n = take n (drop t (v_full v))"
    using got got_load [OF got, of 0 n] q n(1) t by (auto simp: dl_got_def sig_part_def)
  ultimately show ?thesis using got by (simp add: dl_got_def store_extend)
qed

lemma packet_signature:
  assumes got: "dl_got v info t k q q' rem d" and q: "0 < q" "q < 8"
    and pp: "process_packet r info (int k) rem d = (rem', d')"
  shows "dl_inv cell clean v (t + k) rem' d'"
proof -
  note st = got_started [OF got]
  have g: "OtaFg d" "SigCnt d = int q" "0 < k" "k \<le> 1024" "q' = q + k"
    using got q by (auto simp: dl_got_def dl_ok_def seen_def)
  have start: "ImgOffset info < TempLen d" using st(1) g(3,5) by simp
  show ?thesis
  proof (cases "k < 8 - q")
    case True
    then have "int k < 8 - int q" by linarith
    then have "process_packet r info (int k) rem d =
        (rem, d\<lparr>signature := store (int q) (load (dl_ram d) 0 k) (signature d), SigCnt := int q'\<rparr>)"
      using q g start st(3) by (simp add: process_packet_def uint32_id)
    moreover have "d\<lparr>signature := x, SigCnt := y\<rparr> = d\<lparr>OtaFg := 0 < q', SigCnt := y, signature := x\<rparr>" for x y
      using g(1,3,5) by simp
    ultimately show ?thesis
      using got_keep [OF got _ refl] pp True g(5) signature_extend [OF got q, of k] by simp
  next
    case False
    then obtain n where n: "k = 8 - q + n" using q by (metis le_Suc_ex linorder_not_less)
    let ?e = "d\<lparr>signature := store 0 (sig_part (v_full v) (v_H v) (v_off v) 8) (v_sig v), SigCnt := 8\<rparr>"
    have sg: "store (int q) (load (dl_ram d) 0 (8 - q)) (signature d) = signature ?e"
      using signature_extend [OF got q, of "8 - q"] q n by simp
    have u: "uint32 (int k) = int k" "uint32 (8 - int q) = 8 - int q" "nat (8 - int q) = 8 - q"
      using g(4) q by (auto simp: uint32_id nat_diff_distrib)
    have "process_packet r info (int k) rem d = (if n = 0 then (rem, ?e) else write_packet r info (int (8 - q)) (int n) rem ?e)"
    proof -
      have "\<not> uint32 (int k) < uint32 (8 - int q)" "int k - (8 - int q) = int n" using u n q by auto
      then show ?thesis using q g(1,2) start st(3) sg by (simp add: process_packet_def u(3) of_nat_diff Let_def)
    qed
    moreover have "q' = 8 + n" using g(5) n q by simp
    moreover have "?e = d\<lparr>OtaFg := True, SigCnt := 8, signature := store 0 (sig_part (v_full v) (v_H v) (v_off v) 8) (v_sig v)\<rparr>"
      using g(1) by simp
    ultimately show ?thesis
      using pp got_keep [OF got _ refl] got_write [OF got _ refl refl refl, of "8 - q"] q n by (cases "n = 0") simp_all
  qed
qed

lemma packet_inv:
  assumes got: "dl_got v info t k q q' rem d" and pp: "process_packet r info (int k) rem d = (rem', d')"
  shows "dl_inv cell clean v (t + k) rem' d'"
proof -
  note st = got_started [OF got]
  consider "q' = 0" | "q = 0" "0 < q'" | "0 < q" "q < 8" | "8 \<le> q" by linarith
  then show ?thesis
  proof cases
    case 1
    then have "rem' = rem" "d' = d" "q = 0" using pp st by (auto simp: process_packet_def)
    moreover have "OtaFg d \<longleftrightarrow> 0 < q" "SigCnt d = int (min q 8)" "signature d = store 0 (sig_part (v_full v) (v_H v) (v_off v) q) (v_sig v)"
      using got unfolding dl_got_def by blast+
    ultimately have "d' = d\<lparr>OtaFg := 0 < q', SigCnt := int q', signature := store 0 (sig_part (v_full v) (v_H v) (v_off v) q') (v_sig v)\<rparr>"
      using 1 by simp
    then show ?thesis using got_keep [OF got] 1 \<open>rem' = rem\<close> by blast
  next
    case 4
    have g: "OtaFg d" "SigCnt d = 8" "q' = q + k" "0 < k" "signature d = store 0 (sig_part (v_full v) (v_H v) (v_off v) 8) (v_sig v)"
      using got 4 by (auto simp: dl_got_def dl_ok_def seen_def sig_part_def)
    have "process_packet r info (int k) rem d = write_packet r info (int 0) (int k) rem d"
      using g 4 st by (simp add: process_packet_def)
    moreover have "d\<lparr>OtaFg := True, SigCnt := 8, signature := signature d\<rparr> = d" using g(1,2) by simp
    ultimately show ?thesis
      using got_write [OF got _ refl refl refl, of 0] pp g(3-5) 4 by simp
  qed (use packet_first [OF got] packet_signature [OF got] pp in blast)+
qed

text \<open>The whole loop: it ends with the image complete, at the end of the stream, or at a failing read.\<close>

lemma process_packet_schedule: "process_packet r info n rem d = (rem', d') \<Longrightarrow> dl_sock d' = dl_sock d"
  by (metis process_packet_sock(1) snd_conv)

lemma download_image_inv:
  assumes ok: "dl_ok v info" and inv: "dl_inv cell clean v t rem d"
    and dl: "download_image r info rem d = (fine, d')"
  shows "\<exists>t' rem'. dl_inv cell clean v t' rem' d' \<and> (fine \<longrightarrow> rem' \<le> 0 \<or> t' = length (v_full v)) \<and>
    (0 \<notin> set (schedule (dl_sock d)) \<longrightarrow> fine)"
  using inv dl
proof (induction "length (v_full v) - t" arbitrary: t rem d rule: less_induct)
  case less
  have i: "t \<le> length (v_full v)" "incoming (dl_sock d) = drop t (v_full v)" "\<not> IncFg d"
    using less.prems(1) by (auto simp: dl_inv_def Let_def)
  show ?case
  proof (cases "rem > 0")
    case False
    then have "fine" "d' = d" "rem \<le> 0" using less.prems(2) by (auto simp: download_image.simps)
    then show ?thesis using less.prems(1) by blast
  next
    case True
    define m where "m = (\<lambda>i. if 0 \<le> i \<and> i < BUF_SIZE then 0 else dl_ram d i)"
    obtain n bs s where rd: "sock_read BUF_SIZE (dl_sock d) = (n, bs, s)" by (metis prod_cases3)
    define d0 where "d0 = d\<lparr>dl_ram := store 0 bs m, dl_sock := s\<rparr>"
    have body: "download_image r info rem d =
        (if n = 0 then (True, d0) else if n < 0 then (False, d0)
         else case process_packet r info n rem (d0\<lparr>read_bytes_buf := n, TempLen := uint32 (TempLen d + n)\<rparr>) of
           (rem, d) \<Rightarrow> download_image r info rem d)"
      using True i(3) rd by (subst download_image.simps) (simp add: d0_def m_def)
    have same: "dl_inv cell clean v t rem d0" if "incoming s = drop t (v_full v)"
      using less.prems(1) that by (simp add: d0_def dl_inv_def Let_def)
    have "0 < BUF_SIZE" by (simp add: BUF_SIZE_def)
    from rd this show ?thesis
    proof (cases rule: sock_read_cases)
      case 1
      then have "t = length (v_full v)" "fine" "d' = d0" using i body less.prems(2) by auto
      moreover have "dl_inv cell clean v t rem d0" using same 1 i by simp
      ultimately show ?thesis by blast
    next
      case 2
      then have "\<not> fine" "d' = d0" using body less.prems(2) by auto
      then show ?thesis using same 2 i by auto
    next
      case (3 j)
      obtain rem1 d1 where pp: "process_packet r info (int j) rem
          (d0\<lparr>read_bytes_buf := int j, TempLen := uint32 (TempLen d + int j)\<rparr>) = (rem1, d1)" by fastforce
      have tj: "t + j \<le> length (v_full v)" using 3(4) i(1,2) by simp
      have "dl_inv cell clean v (t + j) rem1 d1"
        by (rule packet_inv [OF got_received [where m = m and s = s, OF ok less.prems(1) True 3(2) _ tj] pp])
           (use 3 i(2) in \<open>simp_all add: d0_def BUF_SIZE_def add.commute\<close>)
      moreover have "download_image r info rem1 d1 = (fine, d')" using body 3 pp less.prems(2) by simp
      moreover have "length (v_full v) - (t + j) < length (v_full v) - t" using 3(2) tj by simp
      ultimately have "\<exists>t' rem'. dl_inv cell clean v t' rem' d' \<and> (fine \<longrightarrow> rem' \<le> 0 \<or> t' = length (v_full v)) \<and>
          (0 \<notin> set (schedule (dl_sock d1)) \<longrightarrow> fine)"
        using less.hyps by blast
      moreover have "dl_sock d1 = s" using process_packet_schedule [OF pp] by (simp add: d0_def)
      ultimately show ?thesis using 3(7) by blast
    qed
  qed
qed

text \<open>
  The download of a single image: the result is the number of bytes written, the flash holds
  exactly these bytes of the image, and the signature buffer the first bytes of the image.
\<close>

lemma download_single:
  assumes "\<not> RdpStatus hdr" and "H = nat (uint32 (uint32 (HdrNum (FileHdr hdr) * ImgHdrLen (FileImgHdr hdr)) + 8))"
    and "Offset (FileImgHdr hdr) = int off" and "ImgLen (FileImgHdr hdr) = int L + 8"
    and "H \<le> off" and "H + length (incoming s) < 2 ^ 31" and "off < 2 ^ 32" and "L + 8 < 2 ^ 31"
    and "SPI_FLASH_BASE \<le> addr" and "addr + int L + 11 < 2 ^ 32"
    and "\<And>x. clean (chip b) x"
    and "download_new_fw_from_server r addr m s hdr sig b = (sz, d)"
  shows "\<exists>q fine. (\<forall>x. clean (chip (dl_board d)) x) \<and> q \<le> H + length (incoming s) - off \<and>
    signature d = store 0 (sig_part (incoming s) H off q) sig \<and>
    cell (chip (dl_board d)) = prog (cell (chip b)) (addr - SPI_FLASH_BASE + 8) (img_part (incoming s) H off (min (q - 8) L)) \<and>
    sz = (if fine then int (min (q - 8) L) else -1) \<and>
    (fine \<longrightarrow> L \<le> q - 8 \<or> q = H + length (incoming s) - off) \<and> (0 \<notin> set (schedule s) \<longrightarrow> fine)"
proof -
  define v where "v = \<lparr>v_full = incoming s, v_H = H, v_off = off, v_L = L, v_base = addr - SPI_FLASH_BASE + 8,
     v_mem = cell (chip b), v_sig = sig\<rparr>"
  define d0 where "d0 = \<lparr>dl_sock = s, dl_ram = m, read_bytes_buf = 0, TempLen = int H,
     OtaFg = False, IncFg = False, SigCnt = 0, dl_size = 0, signature = sig, dl_board = b\<rparr>"
  have u: "uint32 (addr - SPI_FLASH_BASE + 8) = addr - SPI_FLASH_BASE + 8" "uint32 (int L) = int L" "sint32 (int L) = int L"
    using assms(8-10) by (auto simp: uint32_id sint32_id SPI_FLASH_BASE_def)
  have info: "ota_dw_info addr hdr = \<lparr>dw_ImgId = OTA_IMAG, FlashAddr = v_base v, ImgOffset = int off, ImageLen = int L\<rparr>"
    using assms(3,4) u by (simp add: ota_dw_info_def v_def)
  then have ok: "dl_ok v (ota_dw_info addr hdr)"
    using assms(5-10) by (simp add: dl_ok_def v_def SPI_FLASH_BASE_def)
  have "seen H off 0 = 0" using assms(5) by (simp add: seen_def)
  then have inv: "dl_inv cell clean v 0 (int L) d0"
    using assms(11) by (simp add: dl_inv_def Let_def d0_def v_def sig_part_def img_part_def)
  have tl: "uint32 (uint32 (HdrNum (FileHdr hdr) * ImgHdrLen (FileImgHdr hdr)) + 8) = int H"
    using assms(2) by (simp add: uint32_def)
  obtain fine d1 where dl: "download_image r (ota_dw_info addr hdr) (int L) d0 = (fine, d1)" by fastforce
  have res: "sz = (if fine then dl_size d1 else -1) \<and> dl_board d = dl_board d1 \<and> signature d = signature d1"
    using assms(12) dl info u(3) unfolding download_new_fw_from_server_def tl DownloadInfo_def d0_def [symmetric]
    by (auto simp: assms(1) split: bool.splits)
  obtain t' rem' where f: "dl_inv cell clean v t' rem' d1" "fine \<longrightarrow> rem' \<le> 0 \<or> t' = length (v_full v)"
    "0 \<notin> set (schedule (dl_sock d0)) \<longrightarrow> fine"
    using download_image_inv [OF ok inv dl] by blast
  have t': "t' \<le> length (incoming s)" using f(1) by (simp add: dl_inv_def Let_def v_def)
  have "rem' = int L - int (seen H off t' - 8)" using f(1) by (simp add: dl_inv_def Let_def v_def)
  then have "fine \<longrightarrow> L \<le> seen H off t' - 8 \<or> seen H off t' = H + length (incoming s) - off"
    using f(2) by (auto simp: v_def seen_def)
  moreover have "seen H off t' \<le> H + length (incoming s) - off" using t' by (auto simp: seen_def)
  moreover have "dl_size d1 = int (min (seen H off t' - 8) L)"
    "signature d1 = store 0 (sig_part (incoming s) H off (seen H off t')) sig"
    "cell (chip (dl_board d1)) = prog (cell (chip b)) (addr - SPI_FLASH_BASE + 8)
       (img_part (incoming s) H off (min (seen H off t' - 8) L))"
    "\<forall>x. clean (chip (dl_board d1)) x"
    using f(1) by (simp_all add: dl_inv_def Let_def v_def)
  moreover have "0 \<notin> set (schedule s) \<longrightarrow> fine" using f(3) by (simp add: d0_def)
  ultimately show ?thesis using res by metis
qed

end

end
