(* ===== verification/Ota_Install.thy ===== *)
theory Ota_Install
  imports Ota_Download
begin

text \<open>
  Receiving and parsing the file header, erasing, verifying and activating: the lemmas behind the
  properties of the update. The locale \<open>ota_flash\<close> adds to the NOR chip what the update relies on
  of the decryption engine: masking never changes the cells, and in a masked range reads return
  the cells themselves.
\<close>

section \<open>Receiving\<close>

lemma recv_loop_bytes:
  assumes "0 \<notin> set (schedule s)" and "n \<le> length (incoming s)"
  shows "\<exists>s'. recv_loop (int n) p m s = Some (store p (take n (incoming s)) m, s') \<and>
    incoming s' = drop n (incoming s) \<and> 0 \<notin> set (schedule s')"
  using assms
proof (induction n arbitrary: p m s rule: less_induct)
  case (less n)
  show ?case
  proof (cases "n = 0")
    case True
    then show ?thesis using less.prems by (simp add: recv_loop.simps)
  next
    case False
    obtain k bs s1 where rd: "sock_read (int n) s = (k, bs, s1)" by (metis prod_cases3)
    have "0 < int n" using False by simp
    from rd this show ?thesis
    proof (cases rule: sock_read_cases)
      case 1
      then show ?thesis using less.prems False by simp
    next
      case 2
      then show ?thesis using less.prems by simp
    next
      case (3 j)
      have j: "j \<le> n" "n - j < n" "int n - int j = int (n - j)" using 3 by auto
      have s1: "n - j \<le> length (incoming s1)" "0 \<notin> set (schedule s1)" using 3 less.prems by auto
      obtain s' where s': "recv_loop (int (n - j)) (p + int j) (store p bs m) s1 =
          Some (store (p + int j) (take (n - j) (incoming s1)) (store p bs m), s')"
        "incoming s' = drop (n - j) (incoming s1)" "0 \<notin> set (schedule s')"
        using less.IH [OF j(2) s1(2,1)] by blast
      have "take n (incoming s) = bs @ take (n - j) (incoming s1)"
        using 3 j(1) take_add [of j "n - j" "incoming s"] by simp
      moreover have "store (p + int j) cs (store p bs m) = store p (bs @ cs) m" for cs
        using 3(4,5) by (intro store_extend) simp
      moreover have "recv_loop (int n) p m s = recv_loop (int n - int j) (p + int j) (store p bs m) s1"
        using False rd 3(1,2) by (subst recv_loop.simps) simp
      ultimately have "recv_loop (int n) p m s = Some (store p (take n (incoming s)) m, s')"
        using s'(1) unfolding j(3) by simp
      then show ?thesis using s'(2,3) 3(6) j(1) by simp
    qed
  qed
qed

section \<open>Parsing\<close>

definition header_at :: "int \<Rightarrow> int \<Rightarrow> int" where
  "header_at hlen i = 8 + uint32 (hlen * i)"

definition is_ota_header :: "ram \<Rightarrow> bytes \<Rightarrow> int \<Rightarrow> int \<Rightarrow> bool" where
  "is_ota_header m img_id hlen i \<longleftrightarrow> strn_eq img_id (load m (header_at hlen i) 4) 4"

definition is_rdp_header :: "ram \<Rightarrow> bytes \<Rightarrow> int \<Rightarrow> int \<Rightarrow> bool" where
  "is_rdp_header m img_id hlen i \<longleftrightarrow>
     \<not> is_ota_header m img_id hlen i \<and> strn_eq RdpImg (load m (header_at hlen i) 4) 3"

lemmas header_defs = header_at_def is_ota_header_def is_rdp_header_def

text \<open>
  The header loop records every matching header, so that the last one stays, and fails only when
  no header matches.
\<close>

definition note_header :: "ram \<Rightarrow> bytes \<Rightarrow> int \<Rightarrow> int \<Rightarrow> update_ota_target_hdr \<Rightarrow> update_ota_target_hdr" where
  "note_header m img hlen i hdr =
     (if is_ota_header m img hlen i then hdr\<lparr>FileImgHdr := img_hdr_at m (header_at hlen i)\<rparr>
      else if is_rdp_header m img hlen i
      then hdr\<lparr>RdpStatus := True, FileRdpHdr := img_hdr_at m (header_at hlen i)\<rparr> else hdr)"

lemma find_headers_fold:
  "find_headers m img num hlen i fg hdr =
     (if fg \<or> num \<le> i \<or> (\<exists>j \<in> set [i..num - 1]. is_ota_header m img hlen j \<or> is_rdp_header m img hlen j)
      then Some (fold (note_header m img hlen) [i..num - 1] hdr) else None)"
proof (induction m img num hlen i fg hdr rule: find_headers.induct)
  case (1 m img num hlen i fg hdr)
  show ?case
  proof (cases "i < num")
    case False
    then show ?thesis by (subst find_headers.simps) simp
  next
    case True
    then have u: "[i..num - 1] = i # [i + 1..num - 1]" by (simp add: upto_rec1)
    show ?thesis
      using True "1.IH" unfolding u
      by (subst find_headers.simps) (auto simp: Let_def note_header_def is_rdp_header_def is_ota_header_def header_at_def)
  qed
qed

lemma fold_note_ota:
  "FileImgHdr (fold (note_header m img hlen) js hdr) =
     (if \<exists>j \<in> set js. is_ota_header m img hlen j
      then img_hdr_at m (header_at hlen (last (filter (is_ota_header m img hlen) js))) else FileImgHdr hdr)"
  by (induction js rule: rev_induct) (auto simp: note_header_def is_rdp_header_def)

lemma fold_note_rdp:
  "RdpStatus (fold (note_header m img hlen) js hdr) \<longleftrightarrow>
     RdpStatus hdr \<or> (\<exists>j \<in> set js. is_rdp_header m img hlen j)"
  by (induction js rule: rev_induct) (auto simp: note_header_def is_rdp_header_def)

lemma get_ota_address_aligned:
  assumes "get_ota_address r l idx hdr b = (Some a, b')"
  shows "a mod 4096 = 0" and "a = FlashOffset (FileImgHdr hdr)"
proof -
  have "OTA1_ADDR mod 4096 = 0" by (simp add: OTA1_ADDR_def)
  then show "a mod 4096 = 0" "a = FlashOffset (FileImgHdr hdr)"
    using assms unfolding get_ota_address_def Let_def by (auto split: if_splits ota_index.splits)
qed

section \<open>Erasing\<close>

lemma image_sectors:
  assumes "0 < len" and "len < 2 ^ 32"
  shows "uint32 (uint32 (len - 1) div 4096 + 1) = (len - 1) div 4096 + 1"
proof -
  have "0 \<le> (len - 1) div 4096" "(len - 1) div 4096 < 2 ^ 32 - 1" using assms by auto
  then show ?thesis using assms by (simp add: uint32_id)
qed

context nor_flash
begin

lemma erase_target_cells:
  assumes "0 < len" and "SPI_FLASH_BASE \<le> addr" and "addr mod 4096 = 0" and "addr + len + 4096 < 2 ^ 32"
    and "a = addr - SPI_FLASH_BASE"
  shows "cell (chip (erase_ota_target_flash r addr len b)) x =
      (if a \<le> x \<and> x < a + 4096 * ((len - 1) div 4096 + 1) then 0xFF else cell (chip b) x)"
    and "clean (chip (erase_ota_target_flash r addr len b)) x"
proof -
  let ?n = "nat ((len - 1) div 4096 + 1)"
  have len: "len < 2 ^ 32" using assms(2,4) by (simp add: SPI_FLASH_BASE_def)
  have a: "a mod 4096 = 0" "0 \<le> a" using assms(2,3,5) by (auto simp: SPI_FLASH_BASE_def mod_diff_eq [symmetric, of addr])
  have w: "uint32 (addr - SPI_FLASH_BASE + int i * 4096) = a + int i * 4096" if "i < ?n" for i
  proof -
    have "int i * 4096 \<le> len" using that assms(1) by auto
    then show ?thesis using assms(2,4,5) by (simp add: uint32_id SPI_FLASH_BASE_def)
  qed
  have erase: "erase_ota_target_flash r addr len b = fold (flash_erase_sector r) (map (\<lambda>i. a + int i * 4096) [0..<?n]) b"
    unfolding erase_ota_target_flash_def image_sectors [OF assms(1) len] Let_def fold_map comp_def
    by (intro fold_cong refl) (simp add: w)
  have "(\<exists>i \<in> {0..<?n}. x div 4096 = (a + int i * 4096) div 4096) \<longleftrightarrow>
      a \<le> x \<and> x < a + 4096 * ((len - 1) div 4096 + 1)"
  proof -
    obtain j where j: "a = 4096 * j" using a(1) by auto
    have "(\<exists>i \<in> {0..<?n}. x div 4096 = j + int i) \<longleftrightarrow> j \<le> x div 4096 \<and> x div 4096 < j + ((len - 1) div 4096 + 1)"
      using assms(1) by (auto simp: image_iff intro!: bexI [of _ "nat (x div 4096 - j)"])
    then show ?thesis using j by auto
  qed
  then show "cell (chip (erase_ota_target_flash r addr len b)) x =
      (if a \<le> x \<and> x < a + 4096 * ((len - 1) div 4096 + 1) then 0xFF else cell (chip b) x)"
    unfolding erase store.erase_list_content by auto
  have "clean (chip (fold (flash_erase_sector r) as b)) x" if "as \<noteq> []" for as
    using that by (cases as rule: rev_cases) (simp_all add: erase_sector_cells)
  moreover have "map (\<lambda>i. a + int i * 4096) [0..<?n] \<noteq> []" using assms(1) by auto
  ultimately show "clean (chip (erase_ota_target_flash r addr len b)) x" unfolding erase by blast
qed

end

section \<open>Verifying\<close>

lemma sum_bytes_append: "sum_bytes (as @ bs) = sum_bytes as + sum_bytes bs"
  by (simp add: sum_bytes_def)

lemma uint32_add: "uint32 (uint32 a + b) = uint32 (a + b)"
  by (simp add: uint32_def mod_add_left_eq)

locale ota_flash = nor_flash r cell clean
  for r :: "'c rom" and cell and clean +
  fixes l :: "'c ota_lib"
  assumes mask_cell: "cell (chip (OTF_Mask l a n st b)) = cell (chip b)"
    and mask_clean: "(\<And>x. clean (chip b) x) \<Longrightarrow> clean (chip (OTF_Mask l a n True b)) y"
begin

lemma checksum_loop_sum:
  assumes "\<forall>x. clean (chip b) x" and "0 \<le> i" and "0 \<le> a" and "a + len + 11 < 2 ^ 32" and "a = addr - SPI_FLASH_BASE"
    and "i \<le> len" and "checksum_loop r addr len i acc b = (res, b')" and "uint32 acc = acc"
  shows "res = uint32 (acc + sum_bytes (cells (cell (chip b)) (a + 8 + i) (nat (len - i)))) \<and>
    cell (chip b') = cell (chip b) \<and> (\<forall>x. clean (chip b') x)"
  using assms
proof (induction "nat (len - i)" arbitrary: i acc b rule: less_induct)
  case less
  show ?case
  proof (cases "i < len")
    case False
    then have "res = acc" "b' = b" using less.prems(7) by (auto simp: checksum_loop.simps)
    then show ?thesis using less.prems False by (simp add: sum_bytes_def)
  next
    case True
    define n where "n = nat (if len - i > BUF_SIZE then BUF_SIZE else len - i)"
    have n: "int n = (if len - i > BUF_SIZE then BUF_SIZE else len - i)" "0 < n" "int n \<le> len - i"
      using True by (auto simp: n_def BUF_SIZE_def)
    let ?b = "on_chip (Cache_Flush r) b"
    have u: "uint32 (addr - SPI_FLASH_BASE + i + 8) = a + 8 + i" using less.prems(2-6) True by (simp add: uint32_id)
    have rd: "snd (flash_stream_read r (a + 8 + i) (int n) 0 (chip b)) = cells (cell (chip b)) (a + 8 + i) n"
      using stream_read_cells [of "a + 8 + i" "int n" "chip b" 0] less.prems(1-4) n(2,3) by simp
    have fl: "cell (chip ?b) = cell (chip b)" "\<forall>x. clean (chip ?b) x" by (simp_all add: flush_cell flush_clean)
    let ?acc = "uint32 (acc + sum_bytes (cells (cell (chip b)) (a + 8 + i) n))"
    have step: "checksum_loop r addr len (i + BUF_SIZE) ?acc ?b = (res, b')"
      using less.prems(7) True unfolding checksum_loop.simps [of r addr len i] n(1) [symmetric] u
      by (simp add: Let_def n(1) [symmetric] rd)
    show ?thesis
    proof (cases "len - i > BUF_SIZE")
      case True
      then have nb: "int n = BUF_SIZE" using n by simp
      have "res = uint32 (?acc + sum_bytes (cells (cell (chip ?b)) (a + 8 + (i + BUF_SIZE)) (nat (len - (i + BUF_SIZE))))) \<and>
          cell (chip b') = cell (chip ?b) \<and> (\<forall>x. clean (chip b') x)"
        by (rule less.hyps [OF _ fl(2) _ _ _ _ _ step]) (use less.prems True in \<open>auto simp: BUF_SIZE_def uint32_def\<close>)
      moreover have "nat (len - i) = n + nat (len - (i + BUF_SIZE))" using True nb by auto
      ultimately show ?thesis
        using nb by (auto simp: flush_cell uint32_add cells_add sum_bytes_append add.assoc)
    next
      case False
      then have "nat (len - i) = n" "\<not> i + BUF_SIZE < len" using n by auto
      then show ?thesis using step fl by (auto simp: checksum_loop.simps)
    qed
  qed
qed

text \<open>
  Verification of a single image: it succeeds exactly when the custom signature is right and the
  bytes in flash and the signature add up to the checksum of the header; it changes no cell.
\<close>

lemma verify_single:
  assumes "\<forall>x. clean (chip b) x" and "\<not> RdpStatus hdr" and "0 \<le> len" and "0 \<le> a" and "a + len + 11 < 2 ^ 32"
    and "a = addr - SPI_FLASH_BASE" and "verify_ota_checksum r l addr len sig hdr b = (ok, b')"
  shows "cell (chip b') = cell (chip b)"
    and "ok \<longleftrightarrow> str_eq (xip_bytes l (OTF_Mask l a (uint32 (uint32 (len - 1) div 4096 + 1)) False b) (addr + IMAGE_HEADER_LEN) 32) cus_sig_demo \<and>
      uint32 (sum_bytes (load sig 0 8) + sum_bytes (cells (cell (chip b)) (a + 8) (nat len))) = Checksum (FileImgHdr hdr)"
proof -
  let ?n = "uint32 (uint32 (len - 1) div 4096 + 1)"
  let ?b1 = "on_chip (Cache_Flush r) (OTF_Mask l a ?n False b)"
  let ?b2 = "OTF_Mask l a ?n True ?b1"
  have c1: "cell (chip ?b1) = cell (chip b)" "\<And>x. clean (chip ?b1) x" by (simp_all add: flush_cell flush_clean mask_cell)
  have c2: "cell (chip ?b2) = cell (chip b)" "\<forall>x. clean (chip ?b2) x" using c1 mask_clean by (auto simp: mask_cell)
  obtain res b3 where ck: "checksum_loop r addr len 0 0 ?b2 = (res, b3)" by fastforce
  have "res = uint32 (0 + sum_bytes (cells (cell (chip ?b2)) (a + 8 + 0) (nat (len - 0)))) \<and>
      cell (chip b3) = cell (chip ?b2) \<and> (\<forall>x. clean (chip b3) x)"
    using checksum_loop_sum [OF c2(2) _ assms(4,5,6,3) ck] by (simp add: uint32_def)
  then have r3: "res = uint32 (sum_bytes (cells (cell (chip b)) (a + 8) (nat len)))" "cell (chip b3) = cell (chip b)"
    by (simp_all add: c2)
  have v: "verify_ota_checksum r l addr len sig hdr b =
      (if \<not> str_eq (xip_bytes l (OTF_Mask l a ?n False b) (addr + IMAGE_HEADER_LEN) 32) cus_sig_demo then (False, ?b1)
       else (uint32 (res + sum_bytes (load sig 0 8)) = Checksum (FileImgHdr hdr), OTF_Mask l a ?n False b3))"
    unfolding verify_ota_checksum_def assms(6) [symmetric] Let_def ck by (simp add: assms(2) split_beta ck)
  show "cell (chip b') = cell (chip b)"
    using assms(7) c1 r3(2) unfolding v by (auto simp: mask_cell split: if_splits)
  show "ok \<longleftrightarrow> str_eq (xip_bytes l (OTF_Mask l a ?n False b) (addr + IMAGE_HEADER_LEN) 32) cus_sig_demo \<and>
      uint32 (sum_bytes (load sig 0 8) + sum_bytes (cells (cell (chip b)) (a + 8) (nat len))) = Checksum (FileImgHdr hdr)"
    using assms(7) unfolding v r3(1) uint32_add by (auto simp: add.commute split: if_splits)
qed

end

section \<open>The signature\<close>

text \<open>Eight bytes at the start of a page are written without reading the flash first.\<close>

context nor_flash
begin

lemma signature_write_cells:
  assumes "a mod 256 = 0" and "0 \<le> a" and "a + 256 < 2 ^ 32"
  shows "cell (chip (snd (flash_stream_write r a 8 data b))) = prog (cell (chip b)) a (map data [0..<8])"
proof -
  have al: "a mod 4 = 0"
  proof -
    obtain j where "a = 256 * j" using assms(1) by auto
    then show ?thesis by simp
  qed
  have pg: "256 * (a div 256) = a" using assms(1) by auto
  have e0: "uint32 (a + 8) = a + 8" using assms(2,3) by (simp add: uint32_id)
  have b1: "a AND NOT 255 = a" using and_not_255 [of a] assms(1) by simp
  have "(a + 8) mod 256 = 8" using assms(1) by (auto simp: mod_add_left_eq [symmetric, of a])
  then have b2: "(a + 8) AND NOT 255 = a" using and_not_255 [of "a + 8"] by simp
  have na: "next_aligned a = a" using al assms(2,3) by (subst next_aligned_eq) auto
  have u4: "uint32 (a + 4) = a + 4" "uint32 (a + 4 + 4) = a + 8" using assms(2,3) by (simp_all add: uint32_id)
  let ?c1 = "FLASH_TxData12B r a (map data [0..<4]) (chip b)"
  let ?c2 = "FLASH_TxData12B r (a + 4) (map data [4..<8]) ?c1"
  have w0: "write_chunks r 4 data (a + 8) 0 8 ?c2 = (a + 8, 0, 8, ?c2)" by (simp add: write_chunks.simps)
  have w1: "write_chunks r 4 data (a + 4) 4 4 ?c1 = (a + 8, 0, 8, ?c2)"
    using w0 u4 by (subst write_chunks.simps) simp
  have w2: "write_chunks r 4 data a 8 0 (chip b) = (a + 8, 0, 8, ?c2)"
    using w1 u4 by (subst write_chunks.simps) simp
  have w3: "write_chunks r 12 data a 8 0 (chip b) = (a, 8, 0, chip b)" by (simp add: write_chunks.simps)
  have page: "write_page r data a 8 0 (chip b) = (8, ?c2)"
    using al na by (simp add: write_page_def and_3 write_aligned_def w2 w3)
  have "chip (snd (flash_stream_write r a 8 data b)) = Cache_Flush r ?c2"
  proof -
    have "uint32 0 = 0" "uint32 1 = 1" "uint32 8 = 8" by (simp_all add: uint32_def)
    then show ?thesis
      unfolding flash_stream_write_def Let_def e0 b1 b2
      by (simp add: write_pages.simps [of r data "a + 8" 1] write_pages.simps [of r data "a + 8" 0] page)
  qed
  moreover have "cell ?c2 = prog (prog (cell (chip b)) a (map data [0..<4])) (a + 4) (map data [4..<8])"
    using program_in_page [of "map data [0..<4]" "a div 256" a "chip b"]
      program_in_page [of "map data [4..<8]" "a div 256" "a + 4" ?c1] pg by simp
  moreover have "map data [0..<4] @ map data [4..<8] = map data [0..<8]"
    using upt_add_eq_append [of 0 4 4] by simp
  ultimately show ?thesis by (simp add: flush_cell prog_append)
qed

text \<open>Writing the signature in front of an image makes it complete.\<close>

lemma signature_completes:
  assumes "a mod 4096 = 0" and "0 \<le> a" and "a + 256 < 2 ^ 32" and "\<forall>x. a \<le> x \<longrightarrow> x < a + 8 \<longrightarrow> cell (chip b) x = 0xFF"
    and "cells (cell (chip b)) (a + 8) L = drop 8 img" and "length img = 8 + L" and "map data [0..<8] = take 8 img"
  shows "cells (cell (chip (snd (flash_stream_write r a 8 data b)))) a (8 + L) = img"
proof -
  obtain j where "a = 4096 * j" using assms(1) by auto
  then have "a mod 256 = 0" by simp
  then have c: "cell (chip (snd (flash_stream_write r a 8 data b))) = prog (cell (chip b)) a (take 8 img)"
    using signature_write_cells assms(2,3,7) by simp
  have l8: "length (take 8 img) = 8" using assms(6) by simp
  have "cells (prog (cell (chip b)) a (take 8 img)) a 8 = take 8 img"
    using cells_prog_erased [of a "take 8 img" "cell (chip b)"] assms(4) l8 by simp
  moreover have "cells (prog (cell (chip b)) a (take 8 img)) (a + 8) L = cells (cell (chip b)) (a + 8) L"
    by (rule cells_cong) (use l8 in \<open>simp add: prog_outside\<close>)
  ultimately show ?thesis using assms(5) cells_add [of "prog (cell (chip b)) a (take 8 img)" a 8 L] by (simp add: c)
qed

end

section \<open>The NOR chip without encryption\<close>

definition nor_lib :: "nor_chip ota_lib" where
  "nor_lib = \<lparr>FLASH_EreaseDwordsXIP = (\<lambda>a n b. flash_erase_sector nor_rom a b),
     FLASH_TxData12BXIP = (\<lambda>a bs b. store_write nor_rom a bs b),
     OTF_Mask = (\<lambda>a n st b. b), xip_bytes = (\<lambda>b a n. cells (window (chip b)) (a - SPI_FLASH_BASE) n),
     OTA_Change = (\<lambda>idx b. b)\<rparr>"

interpretation nor_ota: ota_flash nor_rom array "\<lambda>c x. window c x = array c x" nor_lib
  by unfold_locales (simp_all add: nor_lib_def)

end
