(* ===== verification/Ota_Sign.thy ===== *)
theory Ota_Sign
  imports Ota_Install
begin

text \<open>
  The end of an update, shared by the update from a server and the one over the serial line: the slot of a single image
  after the erasing, and what verification and signature make of it.
\<close>

section \<open>Images with the custom signature\<close>

text \<open>
  The verification compares 32 bytes of the image, read through the address space, with the signature of the running
  firmware. An image \<open>img\<close> of \<open>8 + L\<close> bytes for the slot at \<open>addr\<close> carries the signature if this comparison succeeds on
  every board whose cache agrees with its flash and whose slot holds the image behind its first eight bytes. On a chip without
  encryption these are the images with the signature at the bytes 32 to 63 (\<open>nor_custom_signed\<close>).
\<close>

definition custom_signed :: "('c \<Rightarrow> int \<Rightarrow> u8) \<Rightarrow> ('c \<Rightarrow> int \<Rightarrow> bool) \<Rightarrow> 'c ota_lib \<Rightarrow> int \<Rightarrow> nat \<Rightarrow> bytes \<Rightarrow> bool" where
  "custom_signed cell clean l addr L img \<longleftrightarrow>
     (\<forall>b. (\<forall>x. clean (chip b) x) \<longrightarrow> cells (cell (chip b)) (addr - SPI_FLASH_BASE + 8) L = drop 8 img \<longrightarrow>
        str_eq (xip_bytes l (OTF_Mask l (addr - SPI_FLASH_BASE) (uint32 (uint32 (int L - 1) div 4096 + 1)) False b)
          (addr + IMAGE_HEADER_LEN) 32) cus_sig_demo)"

lemma nor_custom_signed:
  assumes "length img = 8 + L" and "64 \<le> length img" and "str_eq (take 32 (drop 32 img)) cus_sig_demo"
  shows "custom_signed array (\<lambda>c x. window c x = array c x) nor_lib addr L img"
  unfolding custom_signed_def
proof (intro allI impI)
  fix b :: "nor_chip board"
  let ?a = "addr - SPI_FLASH_BASE"
  assume clean: "\<forall>x. window (chip b) x = array (chip b) x" and body: "cells (array (chip b)) (?a + 8) L = drop 8 img"
  have "cells (window (chip b)) (?a + IMAGE_HEADER_LEN) 32 = take 32 (drop 32 img)"
  proof (rule nth_equalityI)
    fix i assume "i < length (cells (window (chip b)) (?a + IMAGE_HEADER_LEN) 32)"
    then have i: "i < 32" by simp
    then have "array (chip b) (?a + 8 + int (24 + i)) = drop 8 img ! (24 + i)"
      using assms(1,2) by (simp flip: body add: cells_def)
    then show "cells (window (chip b)) (?a + IMAGE_HEADER_LEN) 32 ! i = take 32 (drop 32 img) ! i"
      using i assms(2) clean by (simp add: cells_def IMAGE_HEADER_LEN_def algebra_simps)
  qed (use assms(2) in simp)
  then show "str_eq (xip_bytes nor_lib (OTF_Mask nor_lib ?a (uint32 (uint32 (int L - 1) div 4096 + 1)) False b)
      (addr + IMAGE_HEADER_LEN) 32) cus_sig_demo"
    using assms(3) by (simp add: nor_lib_def add_diff_eq diff_add_eq)
qed

section \<open>The erased slot\<close>

context nor_flash
begin

lemma erase_slot:
  assumes "0 < L" and "SPI_FLASH_BASE \<le> addr" and "addr mod 4096 = 0" and "addr + int L + 4200 < 2 ^ 32"
    and "a = addr - SPI_FLASH_BASE" and "be = erase_ota_target_flash r addr (int L + 8) b"
  shows "\<forall>x. clean (chip be) x" and "a \<le> x \<Longrightarrow> x < a + 8 + int L \<Longrightarrow> cell (chip be) x = 0xFF"
    and "x < a \<or> a + int L + 8 + 4096 \<le> x \<Longrightarrow> cell (chip be) x = cell (chip b) x" and "0 \<le> a" and "a mod 4096 = 0"
proof -
  have e: "0 < int L + 8" "addr + (int L + 8) + 4096 < 2 ^ 32" using assms(4) by auto
  note er = erase_target_cells [OF e(1) assms(2,3) e(2) assms(5)]
  show "\<forall>x. clean (chip be) x" using er(2) by (simp add: assms(6))
  have span: "int L + 8 \<le> 4096 * ((int L + 8 - 1) div 4096 + 1)" "4096 * ((int L + 8 - 1) div 4096 + 1) \<le> int L + 8 + 4096"
    by auto
  then show "a \<le> x \<Longrightarrow> x < a + 8 + int L \<Longrightarrow> cell (chip be) x = 0xFF"
    using er(1) [of b x] by (simp add: assms(6))
  show "x < a \<or> a + int L + 8 + 4096 \<le> x \<Longrightarrow> cell (chip be) x = cell (chip b) x"
    using er(1) [of b x] span by (auto simp: assms(6))
  show "0 \<le> a" "a mod 4096 = 0" using assms(2,3,5) by (auto simp: SPI_FLASH_BASE_def mod_diff_eq [symmetric, of addr])
qed

lemma change_signature: "change_ota_signature r l addr sig idx b =
    (True, OTA_Change l idx (snd (flash_stream_write r (uint32 (addr - SPI_FLASH_BASE)) 8 (\<lambda>i. sig (int i)) b)))"
  by (simp add: change_ota_signature_def flash_stream_write_def Let_def)

text \<open>A received image: its body is in the erased slot, its signature in the buffer.\<close>

lemma body_in_slot:
  assumes "\<And>x. a \<le> x \<Longrightarrow> x < a + 8 + int L \<Longrightarrow> cell (chip be) x = 0xFF" and "img = take (8 + L) rest" and "length img = 8 + L"
    and "cell (chip b) = prog (cell (chip be)) (a + 8) (take L (drop 8 rest))"
  shows "cells (cell (chip b)) (a + 8) L = drop 8 img" and "\<forall>x. a \<le> x \<longrightarrow> x < a + 8 \<longrightarrow> cell (chip b) x = 0xFF"
proof -
  have d: "take L (drop 8 rest) = drop 8 img" "length (drop 8 img) = L" using assms(2,3) by (simp_all add: drop_take)
  show "cells (cell (chip b)) (a + 8) L = drop 8 img"
    using cells_prog_erased [of "a + 8" "drop 8 img" "cell (chip be)"] assms(1) d by (simp add: assms(4))
  show "\<forall>x. a \<le> x \<longrightarrow> x < a + 8 \<longrightarrow> cell (chip b) x = 0xFF" using assms(1) by (simp add: assms(4) prog_outside)
qed

end

context ota_flash
begin

lemma verify_and_sign:
  assumes "\<forall>x. clean (chip b) x" and "\<not> RdpStatus hdr" and "0 \<le> a" and "a mod 4096 = 0" and "a + int L + 300 < 2 ^ 32"
    and "a = addr - SPI_FLASH_BASE"
    and "cells (cell (chip b)) (a + 8) L = drop 8 img" and "\<forall>x. a \<le> x \<longrightarrow> x < a + 8 \<longrightarrow> cell (chip b) x = 0xFF"
    and "length img = 8 + L" and "load sig 0 8 = take 8 img"
    and "verify_ota_checksum r l addr (int L) sig hdr b = (ok, bv)"
  shows "ok \<longleftrightarrow> str_eq (xip_bytes l (OTF_Mask l a (uint32 (uint32 (int L - 1) div 4096 + 1)) False b) (addr + IMAGE_HEADER_LEN) 32) cus_sig_demo \<and>
      uint32 (sum_bytes img) = Checksum (FileImgHdr hdr)"
    and "\<exists>b1. change_ota_signature r l addr sig idx bv = (True, OTA_Change l idx b1) \<and> cells (cell (chip b1)) a (8 + L) = img"
    and "a \<le> x \<Longrightarrow> x < a + 8 \<Longrightarrow> cell (chip (flash_erase_sector r (uint32 a) bv)) x = 0xFF"
proof -
  have u: "uint32 a = a" using assms(3,5) by (simp add: uint32_id)
  have ver: "cell (chip bv) = cell (chip b)"
    "ok \<longleftrightarrow> str_eq (xip_bytes l (OTF_Mask l a (uint32 (uint32 (int L - 1) div 4096 + 1)) False b) (addr + IMAGE_HEADER_LEN) 32) cus_sig_demo \<and>
      uint32 (sum_bytes (take 8 img) + sum_bytes (drop 8 img)) = Checksum (FileImgHdr hdr)"
    using verify_single [OF assms(1,2) _ assms(3) _ assms(6,11)] assms(5,7,10) by simp_all
  then show "ok \<longleftrightarrow> str_eq (xip_bytes l (OTF_Mask l a (uint32 (uint32 (int L - 1) div 4096 + 1)) False b) (addr + IMAGE_HEADER_LEN) 32) cus_sig_demo \<and>
      uint32 (sum_bytes img) = Checksum (FileImgHdr hdr)"
    by (simp flip: sum_bytes_append)
  have sig: "map (\<lambda>i. sig (int i)) [0..<8] = take 8 img" using assms(10) by (simp add: load_def)
  have "cells (cell (chip (snd (flash_stream_write r a 8 (\<lambda>i. sig (int i)) bv)))) a (8 + L) = img"
    by (rule signature_completes) (use assms(3-5,7-9) ver(1) sig in auto)
  then show "\<exists>b1. change_ota_signature r l addr sig idx bv = (True, OTA_Change l idx b1) \<and> cells (cell (chip b1)) a (8 + L) = img"
    unfolding change_signature assms(6) [symmetric] u by blast
  assume "a \<le> x" "x < a + 8"
  then have "x div 4096 = a div 4096" using assms(4) by auto
  then show "cell (chip (flash_erase_sector r (uint32 a) bv)) x = 0xFF" by (simp add: u erase_sector_cells(1))
qed

end

end
