(* ===== verification/Ota_Props.thy ===== *)
theory Ota_Props
  imports Ota_Sign
begin

text \<open>
  The properties of the over-the-air update, stated over the functions of
  \<^verbatim>\<open>component/soc/realtek/8711b/misc/rtl8710b_ota.c\<close>.
\<close>

section \<open>A single image\<close>

text \<open>
  A file with one OTA image and no RDP image, for the flash address \<open>addr\<close>: the file header has
  \<open>H\<close> bytes, the image starts at offset \<open>off\<close> of the file and has \<open>L\<close> bytes behind its signature. The offset must not
  lie inside the file header, \<open>H \<le> off\<close>: the code does not check it, and for a smaller one it copies from in front of its
  receive buffer (\<^verbatim>\<open>rtl8710b_ota.c:475\<close>). Files with an RDP image, which the code also handles, are not single.
\<close>

definition single_image :: "update_ota_target_hdr \<Rightarrow> int \<Rightarrow> nat \<Rightarrow> nat \<Rightarrow> nat \<Rightarrow> bool" where
  "single_image hdr addr H off L \<longleftrightarrow> \<not> RdpStatus hdr \<and>
     int H = uint32 (uint32 (HdrNum (FileHdr hdr) * ImgHdrLen (FileImgHdr hdr)) + 8) \<and>
     Offset (FileImgHdr hdr) = int off \<and> ImgLen (FileImgHdr hdr) = int L + 8 \<and>
     0 < L \<and> H \<le> off \<and> off < 2 ^ 32 \<and> L + 8 < 2 ^ 31 \<and>
     SPI_FLASH_BASE \<le> addr \<and> addr mod 4096 = 0 \<and> addr + int L + 4200 < 2 ^ 32"

lemma download_single_image:
  assumes "nor_flash r cell clean" and "\<forall>x. clean (chip b) x" and "single_image hdr addr H off L"
    and "H + length (incoming s) < 2 ^ 31" and "download_new_fw_from_server r addr m s hdr sig b = (sz, d)"
  obtains q fine where "\<forall>x. clean (chip (dl_board d)) x" and "q \<le> H + length (incoming s) - off"
    and "signature d = store 0 (sig_part (incoming s) H off q) sig"
    and "cell (chip (dl_board d)) = prog (cell (chip b)) (addr - SPI_FLASH_BASE + 8) (img_part (incoming s) H off (min (q - 8) L))"
    and "sz = (if fine then int (min (q - 8) L) else -1)"
    and "fine \<longrightarrow> L \<le> q - 8 \<or> q = H + length (incoming s) - off" and "0 \<notin> set (schedule s) \<longrightarrow> fine"
proof -
  have h: "H = nat (uint32 (uint32 (HdrNum (FileHdr hdr) * ImgHdrLen (FileImgHdr hdr)) + 8))"
    using assms(3) unfolding single_image_def by (metis nat_int)
  have g: "\<not> RdpStatus hdr" "Offset (FileImgHdr hdr) = int off" "ImgLen (FileImgHdr hdr) = int L + 8" "H \<le> off"
    "off < 2 ^ 32" "L + 8 < 2 ^ 31" "SPI_FLASH_BASE \<le> addr" "addr + int L + 11 < 2 ^ 32"
    using assms(3) by (auto simp: single_image_def)
  show ?thesis
    using nor_flash.download_single [OF assms(1) g(1) h g(2-4) assms(4) g(5-8) spec [OF assms(2)] assms(5)] that by blast
qed

text \<open>
  C25: the download does not depend on how the network delivers the data. For every way the
  stack cuts the server's stream into pieces, the download of a single image returns the image
  length, puts the first eight bytes of the image aside as its signature, and writes exactly the
  rest of the image behind the signature's place in the flash, changing no other cell. The offset of the image lies
  behind the file header (\<open>single_image\<close>).
\<close>

theorem ota_download_exact:
  assumes "nor_flash r cell clean" and "\<forall>x. clean (chip b) x" and "single_image hdr addr H off L"
    and "0 \<notin> set (schedule s)" and "off - H + 8 + L \<le> length (incoming s)" and "H + length (incoming s) < 2 ^ 31"
    and "download_new_fw_from_server r addr m s hdr sig b = (sz, d)"
    and "img = drop (off - H) (incoming s)" and "base = addr - SPI_FLASH_BASE + 8"
  shows "sz = int L \<and> signature d = store 0 (take 8 img) sig \<and>
    (\<forall>x. cell (chip (dl_board d)) x =
       (if base \<le> x \<and> x < base + int L then cell (chip b) x AND img ! nat (x - base + 8) else cell (chip b) x))"
proof -
  obtain q fine where q: "signature d = store 0 (sig_part (incoming s) H off q) sig"
    "cell (chip (dl_board d)) = prog (cell (chip b)) base (img_part (incoming s) H off (min (q - 8) L))"
    "sz = (if fine then int (min (q - 8) L) else -1)"
    "fine \<longrightarrow> L \<le> q - 8 \<or> q = H + length (incoming s) - off" "0 \<notin> set (schedule s) \<longrightarrow> fine"
    using download_single_image [OF assms(1-3,6,7)] unfolding assms(9) by metis
  have L: "0 < L" "H \<le> off" using assms(3) by (auto simp: single_image_def)
  have "fine" using q(5) assms(4) by blast
  then have "L \<le> q - 8" using q(4) assms(5) L by auto
  then have m: "min (q - 8) L = L" "min q 8 = 8" using L by auto
  have len: "length (img_part (incoming s) H off L) = L" using assms(5) by (simp add: img_part_def)
  have nth: "img_part (incoming s) H off L ! j = img ! (j + 8)" if "j < L" for j
    using that assms(5) by (simp add: img_part_def assms(8) ac_simps)
  have "cell (chip (dl_board d)) x =
      (if base \<le> x \<and> x < base + int L then cell (chip b) x AND img ! nat (x - base + 8) else cell (chip b) x)" for x
    unfolding q(2) m prog_def len using nth [of "nat (x - base)"] by (auto simp: nat_add_distrib)
  then show ?thesis using q(1,3) m \<open>fine\<close> by (simp add: sig_part_def assms(8))
qed

text \<open>A file with one image of 16 bytes for the second slot, and a server that sends it in odd pieces.\<close>

definition demo_hdr :: update_ota_target_hdr where
  "demo_hdr = \<lparr>FileHdr = \<lparr>FwVer = 1, HdrNum = 1\<rparr>,
     FileImgHdr = \<lparr>ImgId = [79, 84, 65, 50], ImgHdrLen = 24, Checksum = 136, ImgLen = 16, Offset = 32, FlashOffset = 0x08080000\<rparr>,
     FileRdpHdr = zero_img_hdr, RdpStatus = False\<rparr>"

definition demo_server :: sock where
  "demo_server = \<lparr>incoming = [1, 2, 3, 4, 5, 6, 7, 8, 9, 10, 11, 12, 13, 14, 15, 16], schedule = [3, 2, 7]\<rparr>"

definition demo_board :: "nor_chip board" where
  "demo_board = \<lparr>nvic_enabled = replicate 8 0, nvic_pending = replicate 8 0, SysTick_CTRL = 0,
     ISER = replicate 8 0, systick_ctrl = 0, chip = \<lparr>array = (\<lambda>_. 0xFF), window = (\<lambda>_. 0xFF)\<rparr>\<rparr>"

lemma demo_single: "single_image demo_hdr 0x08080000 32 32 8"
  by (simp add: single_image_def demo_hdr_def uint32_def SPI_FLASH_BASE_def)

theorem ota_download_exact_witness:
  "fst (download_new_fw_from_server nor_rom 0x08080000 (\<lambda>_. 0) demo_server demo_hdr (\<lambda>_. 0) demo_board) = 8 \<and>
   array (chip (dl_board (snd (download_new_fw_from_server nor_rom 0x08080000 (\<lambda>_. 0) demo_server demo_hdr (\<lambda>_. 0) demo_board))))
     0x80009 = 10"
  using ota_download_exact [OF nor.nor_flash_axioms _ demo_single _ _ _ prod.collapse [symmetric] refl refl,
      of demo_board demo_server "\<lambda>_. 0" "\<lambda>_. 0"]
  by (simp add: demo_board_def demo_server_def SPI_FLASH_BASE_def ones_and)

section \<open>Activation\<close>

lemma erase_before_install:
  assumes "nor_flash r cell clean" and "\<forall>x. clean (chip b) x" and "single_image hdr addr H off L"
    and "a = addr - SPI_FLASH_BASE" and "be = erase_ota_target_flash r addr (ImgLen (FileImgHdr hdr)) b"
  shows "\<forall>x. clean (chip be) x" and "a \<le> x \<Longrightarrow> x < a + 8 + int L \<Longrightarrow> cell (chip be) x = 0xFF"
    and "x < a \<or> a + int L + 8 + 4096 \<le> x \<Longrightarrow> cell (chip be) x = cell (chip b) x" and "0 \<le> a" and "a mod 4096 = 0"
proof -
  have g: "0 < L" "SPI_FLASH_BASE \<le> addr" "addr mod 4096 = 0" "addr + int L + 4200 < 2 ^ 32" "ImgLen (FileImgHdr hdr) = int L + 8"
    using assms(3) by (auto simp: single_image_def)
  note er = nor_flash.erase_slot [OF assms(1) g(1-4) assms(4,5) [unfolded g(5)]]
  show "\<forall>x. clean (chip be) x" "0 \<le> a" "a mod 4096 = 0" by (rule er)+
  show "a \<le> x \<Longrightarrow> x < a + 8 + int L \<Longrightarrow> cell (chip be) x = 0xFF"
    "x < a \<or> a + int L + 8 + 4096 \<le> x \<Longrightarrow> cell (chip be) x = cell (chip b) x"
    by (rule er, assumption+)+
qed

text \<open>
  C27: an image that was not installed cannot be booted. Whatever the server sends and wherever
  the transfer breaks off, if the installation of a single image does not succeed, the eight
  signature bytes at the start of the image's slot are blank: the signature is written last, and
  a failed verification erases the sector.
\<close>

theorem ota_failure_leaves_no_signature:
  assumes "ota_flash r cell clean l" and "\<forall>x. clean (chip b) x" and "single_image hdr addr H off L"
    and "H + length (incoming s) < 2 ^ 31"
    and "install_image r l e addr idx hdr s b = (False, b')"
    and "a = addr - SPI_FLASH_BASE" and "a \<le> x" and "x < a + 8"
  shows "cell (chip b') x = 0xFF"
proof -
  have nor: "nor_flash r cell clean" using assms(1) by (simp add: ota_flash_def)
  define be where "be = erase_ota_target_flash r addr (ImgLen (FileImgHdr hdr)) b"
  note er = erase_before_install [OF nor assms(2,3,6) be_def]
  obtain sz d where dl: "download_new_fw_from_server r addr (heap_at_buffer e) s hdr (\<lambda>_. 0) be = (sz, d)" by fastforce
  obtain q where q: "cell (chip (dl_board d)) = prog (cell (chip be)) (a + 8) (img_part (incoming s) H off q)"
    using download_single_image [OF nor er(1) assms(3,4) dl] unfolding assms(6) by metis
  have blank: "cell (chip (dl_board d)) x = 0xFF"
    unfolding q using er(2) [of x] assms(7,8) by (simp add: prog_outside)
  have rdp: "\<not> RdpStatus hdr" using assms(3) by (simp add: single_image_def)
  have sect: "x div 4096 = a div 4096" using er(5) assms(7,8) by auto
  have u: "uint32 (addr - SPI_FLASH_BASE) = a"
    using er(4) assms(3,6) by (simp add: uint32_id single_image_def SPI_FLASH_BASE_def)
  obtain ok bv where v: "verify_ota_checksum r l addr sz (signature d) hdr (dl_board d) = (ok, bv)" by fastforce
  have er': "cell (chip (flash_erase_sector r a bv)) x = 0xFF"
    using nor_flash.erase_sector_cells(1) [OF nor, of a bv x] sect by simp
  have ch: "fst (change_ota_signature r l addr (signature d) idx bv) = True"
    by (simp add: nor_flash.change_signature [OF nor])
  show ?thesis
  proof (cases "sz < 0 \<or> uint32 sz \<noteq> uint32 (ImgLen (FileImgHdr hdr) - 8)")
    case True
    then have "b' = dl_board d" using assms(5) dl rdp unfolding install_image_def be_def [symmetric] by simp
    then show ?thesis using blank by simp
  next
    case False
    then have "\<not> ok \<and> b' = flash_erase_sector r a bv"
      using assms(5) dl rdp v u ch unfolding install_image_def be_def [symmetric] by (cases ok) auto
    then show ?thesis using er' by simp
  qed
qed

definition demo_env :: ota_env where
  "demo_env = \<lparr>malloc_ok = True, socket_ok = True, connect_ok = True, check_addr = 0x0800B020,
     server = demo_server, heap_at_alloc = (\<lambda>_. 0), heap_at_buffer = (\<lambda>_. 0)\<rparr>"

lemma demo_silent_server:
  "fst (install_image nor_rom nor_lib demo_env 0x08080000 OTA_INDEX_2 demo_hdr \<lparr>incoming = [], schedule = []\<rparr> demo_board) = False"
  by (simp add: install_image_def download_new_fw_from_server_def DownloadInfo_def demo_hdr_def ota_dw_info_def
      download_image.simps sock_read_def Let_def uint32_def sint32_def)

theorem ota_failure_leaves_no_signature_witness:
  "array (chip (snd (install_image nor_rom nor_lib demo_env 0x08080000 OTA_INDEX_2 demo_hdr
     \<lparr>incoming = [], schedule = []\<rparr> demo_board))) 0x80007 = 0xFF"
  using ota_failure_leaves_no_signature [OF nor_ota.ota_flash_axioms _ demo_single, of demo_board
      "\<lparr>incoming = [], schedule = []\<rparr>" demo_env OTA_INDEX_2
      "snd (install_image nor_rom nor_lib demo_env 0x08080000 OTA_INDEX_2 demo_hdr \<lparr>incoming = [], schedule = []\<rparr> demo_board)"
      "0x80000" "0x80007"] demo_silent_server
  by (simp add: demo_board_def SPI_FLASH_BASE_def prod_eq_iff)

text \<open>What a successful download and verification say about the server's data.\<close>

lemma install_image_cases:
  fixes r :: "'c rom"
  assumes "ota_flash r cell clean l" and "\<forall>x. clean (chip b) x" and "single_image hdr addr H off L"
    and "H + length (incoming s) < 2 ^ 31"
    and "install_image r l e addr idx hdr s b = (ok, b')" and "a = addr - SPI_FLASH_BASE"
    and "img = take (8 + L) (drop (off - H) (incoming s))"
  obtains "\<not> ok" and "0 \<notin> set (schedule s) \<longrightarrow> length img < 8 + L"
  | d :: "'c download" where "length img = 8 + L" and "cells (cell (chip (dl_board d))) (a + 8) L = drop 8 img"
      and "\<forall>x. clean (chip (dl_board d)) x"
      and "ok \<longleftrightarrow> str_eq (xip_bytes l (OTF_Mask l a (uint32 (uint32 (int L - 1) div 4096 + 1)) False (dl_board d))
              (addr + IMAGE_HEADER_LEN) 32) cus_sig_demo \<and> uint32 (sum_bytes img) = Checksum (FileImgHdr hdr)"
      and "ok \<longrightarrow> (\<exists>b1. b' = OTA_Change l idx b1 \<and> cells (cell (chip b1)) a (8 + L) = img)"
proof -
  have nor: "nor_flash r cell clean" using assms(1) by (simp add: ota_flash_def)
  have g: "0 < L" "H \<le> off" "\<not> RdpStatus hdr" "ImgLen (FileImgHdr hdr) = int L + 8" "L + 8 < 2 ^ 31" "a + int L + 11 < 2 ^ 32"
    using assms(3,6) by (auto simp: single_image_def SPI_FLASH_BASE_def)
  define be where "be = erase_ota_target_flash r addr (ImgLen (FileImgHdr hdr)) b"
  note er = erase_before_install [OF nor assms(2,3,6) be_def]
  obtain sz d where dl: "download_new_fw_from_server r addr (heap_at_buffer e) s hdr (\<lambda>_. 0) be = (sz, d)" by fastforce
  obtain q fine where q: "\<forall>x. clean (chip (dl_board d)) x" "q \<le> H + length (incoming s) - off"
    "signature d = store 0 (sig_part (incoming s) H off q) (\<lambda>_. 0)"
    "cell (chip (dl_board d)) = prog (cell (chip be)) (a + 8) (img_part (incoming s) H off (min (q - 8) L))"
    "sz = (if fine then int (min (q - 8) L) else -1)"
    "fine \<longrightarrow> L \<le> q - 8 \<or> q = H + length (incoming s) - off" "0 \<notin> set (schedule s) \<longrightarrow> fine"
    using download_single_image [OF nor er(1) assms(3,4) dl] unfolding assms(6) by metis
  show ?thesis
  proof (cases "sz = int L")
    case False
    then have "sz < 0 \<or> uint32 sz \<noteq> uint32 (ImgLen (FileImgHdr hdr) - 8)"
      using q(5) g(4,5) by (auto simp: uint32_id split: if_splits)
    then have "\<not> ok" using assms(5) dl g(3) unfolding install_image_def be_def [symmetric] by auto
    moreover have "length img < 8 + L" if "0 \<notin> set (schedule s)"
      using that q(5,6,7) False g(2) by (auto simp: assms(7) min_def split: if_splits)
    ultimately show ?thesis using that(1) False by blast
  next
    case True
    then have m: "min (q - 8) L = L" "min q 8 = 8" "8 + L \<le> q" using q(5) g(1) by (auto split: if_splits)
    have len: "length img = 8 + L" using m(3) q(2) g(2) by (simp add: assms(7))
    have sig: "load (signature d) 0 8 = take 8 img"
      using load_store_0 [of 0 8 "take 8 img" "\<lambda>_. 0"] len by (simp add: q(3) sig_part_def m assms(7))
    have rest: "img = take (8 + L) (drop (off - H) (incoming s))"
      "cell (chip (dl_board d)) = prog (cell (chip be)) (a + 8) (take L (drop 8 (drop (off - H) (incoming s))))"
      using q(4) by (simp_all add: assms(7) m img_part_def add.commute)
    note slot = nor_flash.body_in_slot [OF nor er(2) rest(1) len rest(2)]
    obtain okv bv where v: "verify_ota_checksum r l addr (int L) (signature d) hdr (dl_board d) = (okv, bv)" by fastforce
    have a: "a + int L + 300 < 2 ^ 32" using assms(3,6) by (simp add: single_image_def SPI_FLASH_BASE_def)
    note vs = ota_flash.verify_and_sign [OF assms(1) q(1) g(3) er(4,5) a assms(6) slot len sig v]
    have pas: "\<not> (sz < 0 \<or> uint32 sz \<noteq> uint32 (ImgLen (FileImgHdr hdr) - 8))" using True g(4) by simp
    have "ok \<longleftrightarrow> okv" "ok \<longrightarrow> (\<exists>b1. b' = OTA_Change l idx b1 \<and> cells (cell (chip b1)) a (8 + L) = img)"
      using assms(5) dl g(3) v True pas vs(2) [of idx] unfolding install_image_def be_def [symmetric] by (cases okv; auto)+
    then show ?thesis using that(2) [OF len slot(1) q(1)] vs(1) by simp
  qed
qed

lemma good_image_installed:
  assumes "ota_flash r cell clean l" and "\<forall>x. clean (chip b) x" and "single_image hdr addr H off L"
    and "H + length (incoming s) < 2 ^ 31" and "0 \<notin> set (schedule s)"
    and "a = addr - SPI_FLASH_BASE" and "img = take (8 + L) (drop (off - H) (incoming s))" and "length img = 8 + L"
    and "uint32 (sum_bytes img) = Checksum (FileImgHdr hdr)"
    and "custom_signed cell clean l addr L img"
  shows "fst (install_image r l e addr idx hdr s b)"
proof -
  obtain ok b' where i: "install_image r l e addr idx hdr s b = (ok, b')" by fastforce
  have "ok"
    using install_image_cases [OF assms(1-4) i assms(6,7)]
  proof cases
    case 1
    then show ?thesis using assms(5,8) by simp
  next
    case (2 d)
    have "str_eq (xip_bytes l (OTF_Mask l a (uint32 (uint32 (int L - 1) div 4096 + 1)) False (dl_board d))
        (addr + IMAGE_HEADER_LEN) 32) cus_sig_demo"
      using 2(2,3) assms(10) by (simp add: custom_signed_def assms(6))
    then show ?thesis using 2(4) assms(9) by simp
  qed
  then show ?thesis using i by simp
qed

text \<open>
  A file with one image of 64 bytes for the second slot: eight signature bytes, 24 others and the custom signature, behind a
  file header of 32 bytes.
\<close>

definition signed_image :: bytes where
  "signed_image = [1, 2, 3, 4, 5, 6, 7, 8] @ replicate 24 9 @ cus_sig_demo"

definition signed_hdr :: update_ota_target_hdr where
  "signed_hdr = \<lparr>FileHdr = \<lparr>FwVer = 1, HdrNum = 1\<rparr>,
     FileImgHdr = \<lparr>ImgId = [79, 84, 65, 50], ImgHdrLen = 24, Checksum = sum_bytes signed_image, ImgLen = 64, Offset = 32, FlashOffset = 0x08080000\<rparr>,
     FileRdpHdr = zero_img_hdr, RdpStatus = False\<rparr>"

definition signed_server :: sock where
  "signed_server = \<lparr>incoming = signed_image, schedule = [3, 2, 7, 40, 5]\<rparr>"

lemma signed_single: "single_image signed_hdr 0x08080000 32 32 56"
  by (simp add: single_image_def signed_hdr_def uint32_def SPI_FLASH_BASE_def)

lemma str_eq_cus_sig: "str_eq cus_sig_demo cus_sig_demo"
  by (simp add: cus_sig_demo_def)

lemma signed_good_image:
  "take (8 + 56) (drop (32 - 32) (incoming signed_server)) = signed_image" "length signed_image = 64"
  "uint32 (sum_bytes signed_image) = Checksum (FileImgHdr signed_hdr)"
  "custom_signed array (\<lambda>c x. window c x = array c x) nor_lib 0x08080000 56 signed_image"
proof -
  show l: "length signed_image = 64" by (simp add: signed_image_def cus_sig_demo_def)
  then show "take (8 + 56) (drop (32 - 32) (incoming signed_server)) = signed_image" by (simp add: signed_server_def)
  have "sum_bytes signed_image = 3014" by (simp add: sum_bytes_def signed_image_def cus_sig_demo_def sum_list_replicate)
  then show "uint32 (sum_bytes signed_image) = Checksum (FileImgHdr signed_hdr)" by (simp add: signed_hdr_def uint32_def)
  have t: "take 32 (drop 32 signed_image) = cus_sig_demo" by (simp add: signed_image_def cus_sig_demo_def)
  show "custom_signed array (\<lambda>c x. window c x = array c x) nor_lib 0x08080000 56 signed_image"
    by (rule nor_custom_signed) (use l in simp, use l in simp, subst t, rule str_eq_cus_sig)
qed

lemma demo_board_clean: "\<forall>x. window (chip demo_board) x = array (chip demo_board) x"
  by (simp add: demo_board_def)

text \<open>
  C3: only a complete image with the right checksum is activated. For a file header that announces a
  single image of more than eight bytes, no RDP image, and an offset of the image behind the file header, a slot at a sector boundary and a
  cache that agrees with the flash at the start: if the installation
  succeeds, whatever the server sent (less than \<open>2 ^ 31\<close> bytes) and however it was delivered, then all bytes of
  the image were received, they add up to the checksum in the file header, and the flash holds
  exactly the image, signature included, at the moment the boot index is changed.
\<close>

theorem ota_only_verified_image_activated:
  assumes "ota_flash r cell clean l" and "\<forall>x. clean (chip b) x" and "single_image hdr addr H off L"
    and "H + length (incoming s) < 2 ^ 31"
    and "install_image r l e addr idx hdr s b = (True, b')" and "a = addr - SPI_FLASH_BASE"
    and "img = take (8 + L) (drop (off - H) (incoming s))"
  shows "length img = 8 + L \<and> uint32 (sum_bytes img) = Checksum (FileImgHdr hdr) \<and>
    (\<exists>b1. b' = OTA_Change l idx b1 \<and> cells (cell (chip b1)) a (8 + L) = img)"
  using install_image_cases [OF assms]
by cases auto

theorem ota_only_verified_image_activated_witness:
  "cells (array (chip (snd (install_image nor_rom nor_lib demo_env 0x08080000 OTA_INDEX_2 signed_hdr signed_server demo_board))))
     0x80000 64 = signed_image"
proof -
  let ?i = "install_image nor_rom nor_lib demo_env 0x08080000 OTA_INDEX_2 signed_hdr signed_server demo_board"
  have "fst ?i"
    by (rule good_image_installed [OF nor_ota.ota_flash_axioms demo_board_clean signed_single _ _ refl refl])
       (simp_all add: signed_good_image(2-4) signed_good_image(1) [simplified], simp_all add: signed_server_def signed_good_image(2))
  then have i: "?i = (True, snd ?i)" by (simp add: prod_eq_iff)
  show ?thesis
    using ota_only_verified_image_activated [OF nor_ota.ota_flash_axioms demo_board_clean signed_single _ i refl refl]
      signed_good_image(1,2)
    by (auto simp: SPI_FLASH_BASE_def signed_server_def nor_lib_def)
qed

text \<open>
  C26: a good image is installed. For a file header that announces a single image of more than eight bytes, no RDP image, and an offset of the
  image behind the file header, a slot at a sector boundary and a cache that agrees with the flash at the start: if the server sends the whole image, however it is delivered,
  the bytes add up to the checksum in the header and the image carries the custom signature of the firmware, as the
  board shows it when its cache agrees with its flash, the installation succeeds. (Without encryption an image carries the
  signature if its bytes 32 to 63 are those of the signature, as in the witness.)
\<close>

theorem ota_good_image_installed:
  assumes "ota_flash r cell clean l" and "\<forall>x. clean (chip b) x" and "single_image hdr addr H off L"
    and "H + length (incoming s) < 2 ^ 31" and "0 \<notin> set (schedule s)"
    and "a = addr - SPI_FLASH_BASE" and "img = take (8 + L) (drop (off - H) (incoming s))" and "length img = 8 + L"
    and "uint32 (sum_bytes img) = Checksum (FileImgHdr hdr)"
    and "custom_signed cell clean l addr L img"
  shows "fst (install_image r l e addr idx hdr s b)"
  using assms by (rule good_image_installed)

theorem ota_good_image_installed_witness:
  "fst (install_image nor_rom nor_lib demo_env 0x08080000 OTA_INDEX_2 signed_hdr signed_server demo_board)"
  by (rule ota_good_image_installed [OF nor_ota.ota_flash_axioms demo_board_clean signed_single _ _ refl refl])
     (simp_all add: signed_good_image(2-4) signed_good_image(1) [simplified], simp_all add: signed_server_def signed_good_image(2))

section \<open>The file header\<close>

text \<open>The parser in terms of the fold over the header positions.\<close>

lemma target_header_selected:
  assumes "num = load32 m 4" and "hlen = load32 m 12"
  shows "(get_ota_tartget_header m len hdr img \<noteq> None \<longleftrightarrow>
      32 \<le> len \<and> uint32 (uint32 (num * hlen) + 8) \<le> len \<and>
      (num = 0 \<or> (\<exists>j \<in> set [0..num - 1]. is_ota_header m img hlen j \<or> is_rdp_header m img hlen j))) \<and>
    (\<forall>h. get_ota_tartget_header m len hdr img = Some h \<longrightarrow>
      (RdpStatus h \<longleftrightarrow> (\<exists>j \<in> set [0..num - 1]. is_rdp_header m img hlen j)) \<and>
      ((\<exists>j \<in> set [0..num - 1]. is_ota_header m img hlen j) \<longrightarrow>
         FileImgHdr h = img_hdr_at m (header_at hlen (last (filter (is_ota_header m img hlen) [0..num - 1])))))"
proof -
  have h: "ImgHdrLen (img_hdr_at m 8) = hlen" by (simp add: img_hdr_at_def assms(2))
  have nn: "0 \<le> num" by (simp add: assms(1) load32_def)
  show ?thesis
    unfolding get_ota_tartget_header_def Let_def h sizeof_img_hdr_def find_headers_fold
    using nn fold_note_ota [of m img hlen "[0..num - 1]" "hdr\<lparr>RdpStatus := False\<rparr>"]
      fold_note_rdp [of m img hlen "[0..num - 1]" "hdr\<lparr>RdpStatus := False\<rparr>"]
    by (auto simp flip: assms(1))
qed

text \<open>
  The target header is the last matching one. Parsing a file header succeeds exactly when the
  buffer is long enough and, unless the file has no header at all, some header is for the wanted
  image or for an RDP image; then the target header is the last one for the wanted image, and the
  RDP status tells whether an RDP header was found.
\<close>

theorem ota_header_selected:
  assumes "num = load32 m 4" and "hlen = load32 m 12"
  shows "(get_ota_tartget_header m len hdr img \<noteq> None \<longleftrightarrow>
      32 \<le> len \<and> uint32 (uint32 (num * hlen) + 8) \<le> len \<and>
      (num = 0 \<or> (\<exists>j \<in> set [0..num - 1]. is_ota_header m img hlen j \<or> is_rdp_header m img hlen j))) \<and>
    (\<forall>h. get_ota_tartget_header m len hdr img = Some h \<longrightarrow>
      (RdpStatus h \<longleftrightarrow> (\<exists>j \<in> set [0..num - 1]. is_rdp_header m img hlen j)) \<and>
      ((\<exists>j \<in> set [0..num - 1]. is_ota_header m img hlen j) \<longrightarrow>
         FileImgHdr h = img_hdr_at m (header_at hlen (last (filter (is_ota_header m img hlen) [0..num - 1])))))"
  using assms by (rule target_header_selected)

text \<open>A file header with one image header, for the second slot.\<close>

definition demo_file :: bytes where
  "demo_file = word_bytes 1 @ word_bytes 1 @ [79, 84, 65, 50] @ word_bytes 24 @ word_bytes 136 @ word_bytes 16 @
     word_bytes 32 @ word_bytes 0x08080000"

lemma demo_file_bytes: "demo_file = [1, 0, 0, 0, 1, 0, 0, 0, 79, 84, 65, 50, 24, 0, 0, 0, 136, 0, 0, 0, 16, 0, 0, 0,
    32, 0, 0, 0, 0, 0, 8, 8]"
  by (simp add: demo_file_def word_bytes_def)

lemma demo_file_words:
  "load32 (store 0 demo_file m) 4 = 1" "load32 (store 0 demo_file m) 12 = 24"
  "load32 (store 0 (take 16 demo_file) m) 4 = 1" "load32 (store 0 (take 16 demo_file) m) 12 = 24"
  "load (store 0 demo_file m) 8 4 = [79, 84, 65, 50]"
  by (simp_all add: load32_def load_def store_def demo_file_bytes upt_rec bytes_word_def)

lemma demo_file_ota2: "is_ota_header (store 0 demo_file m) [79, 84, 65, 50] 24 0"
proof -
  have "strn_eq [79, 84, 65, 50] [79, 84, 65, 50] (Suc (Suc (Suc (Suc 0))))" by simp
  moreover have "(4 :: nat) = Suc (Suc (Suc (Suc 0)))" by simp
  ultimately have "strn_eq [79, 84, 65, 50] [79, 84, 65, 50] 4" by metis
  then show ?thesis using demo_file_words(5) [of m]
    by (simp add: is_ota_header_def header_at_def uint32_def)
qed

theorem ota_header_selected_witness:
  "get_ota_tartget_header (store 0 demo_file (\<lambda>_. 0)) 32 zero_target_hdr [79, 84, 65, 50] \<noteq> None"
  using ota_header_selected [OF refl refl, of "store 0 demo_file (\<lambda>_. 0)" 32 zero_target_hdr "[79, 84, 65, 50]"]
    demo_file_ota2 [of "\<lambda>_. 0"]
  by (simp add: demo_file_words uint32_def)

text \<open>The two receive loops of the header, joined.\<close>

lemma file_header_received:
  assumes "0 \<notin> set (schedule s)" and "n = nat (load32 (store 0 (take 16 (incoming s)) m) 4 *
      load32 (store 0 (take 16 (incoming s)) m) 12)"
    and "8 \<le> n" and "n + 8 < 2 ^ 32" and "n + 8 \<le> length (incoming s)" and "16 \<le> length (incoming s)"
  shows "\<exists>h s'. recv_ota_file_hdr m hdr s = Some (int n + 8, h, store 0 (take (n + 8) (incoming s)) m, s') \<and>
    incoming s' = drop (n + 8) (incoming s) \<and> 0 \<notin> set (schedule s')"
proof -
  let ?m1 = "store 0 (take 16 (incoming s)) m"
  let ?m2 = "store 0 (take (n + 8) (incoming s)) m"
  obtain s1 where s1: "recv_loop 16 0 m s = Some (?m1, s1)" "incoming s1 = drop 16 (incoming s)" "0 \<notin> set (schedule s1)"
    using recv_loop_bytes [OF assms(1,6), of 0 m] by auto
  have prod: "load32 ?m1 4 * ImgHdrLen (img_hdr_at ?m1 8) = int n"
    using assms(2) by (simp add: img_hdr_at_def load32_def)
  have u: "uint32 (int n) = int n" "uint32 (int n - 8) = int (n - 8)" "uint32 (int n + 8) = int n + 8"
    using assms(3,4) by (auto simp: uint32_id)
  have "n - 8 \<le> length (incoming s1)" using assms(3,5) s1(2) by simp
  then obtain s2 where s2: "recv_loop (int (n - 8)) 16 ?m1 s1 = Some (store 16 (take (n - 8) (incoming s1)) ?m1, s2)"
    "incoming s2 = drop (n - 8) (incoming s1)" "0 \<notin> set (schedule s2)"
    using recv_loop_bytes [OF s1(3), of "n - 8" 16 ?m1] by blast
  have "store 16 (take (n - 8) (incoming s1)) ?m1 = store 0 (take 16 (incoming s) @ take (n - 8) (incoming s1)) m"
    by (rule store_extend) (use assms(6) in simp)
  also have "take 16 (incoming s) @ take (n - 8) (incoming s1) = take (n + 8) (incoming s)"
    using take_add [of 16 "n - 8" "incoming s"] assms(3) s1(2) by (simp add: add.commute)
  finally have m2: "store 16 (take (n - 8) (incoming s1)) ?m1 = ?m2" .
  have same: "load32 ?m2 p = load32 ?m1 p" if "0 \<le> p" "p + 4 \<le> 16" for p
  proof -
    have "load ?m2 p 4 = load ?m1 p 4" using that assms(3,5,6) by (intro nth_equalityI) (auto simp: store_def)
    then show ?thesis by (simp add: load32_def)
  qed
  have prod2: "load32 ?m2 4 * ImgHdrLen (img_hdr_at ?m2 8) = int n"
    using prod same [of 4] same [of 12] by (simp add: img_hdr_at_def)
  have "incoming s2 = drop (n + 8) (incoming s)" using s2(2) s1(2) assms(3) by (simp add: add.commute)
  then show ?thesis
    using s1(1) s2 unfolding recv_ota_file_hdr_def
    by (simp add: Let_def prod u(1,2)) (simp add: m2 prod2 u)
qed

text \<open>
  The file header is received completely. However the stream is cut, after the first 16 bytes
  and the rest that the header count and header length announce, the receive buffer holds exactly
  the first \<open>HdrNum * ImgHdrLen + 8\<close> bytes of the stream, and the stream goes on behind them.
\<close>

theorem ota_file_header_received:
  assumes "0 \<notin> set (schedule s)" and "n = nat (load32 (store 0 (take 16 (incoming s)) m) 4 *
      load32 (store 0 (take 16 (incoming s)) m) 12)"
    and "8 \<le> n" and "n + 8 < 2 ^ 32" and "n + 8 \<le> length (incoming s)" and "16 \<le> length (incoming s)"
  shows "\<exists>h s'. recv_ota_file_hdr m hdr s = Some (int n + 8, h, store 0 (take (n + 8) (incoming s)) m, s') \<and>
    incoming s' = drop (n + 8) (incoming s) \<and> 0 \<notin> set (schedule s')"
  using assms by (rule file_header_received)

theorem ota_file_header_received_witness:
  "\<exists>h s'. recv_ota_file_hdr (\<lambda>_. 0) zero_target_hdr \<lparr>incoming = demo_file, schedule = [5, 1, 20]\<rparr> =
     Some (32, h, store 0 demo_file (\<lambda>_. 0), s')"
  using ota_file_header_received [of "\<lparr>incoming = demo_file, schedule = [5, 1, 20]\<rparr>" 24 "\<lambda>_. 0" zero_target_hdr]
    demo_file_words(3,4) [of "\<lambda>_. 0"]
  by (simp add: demo_file_bytes) blast

text \<open>
  The file header can overrun its buffer. The buffer has 512 bytes, but the number of bytes
  received into it is taken from the stream without a bound: a server that announces more than
  504 bytes of image headers writes behind the end of the buffer.
\<close>

theorem ota_file_header_overrun:
  assumes "0 \<notin> set (schedule s)" and "n = nat (load32 (store 0 (take 16 (incoming s)) m) 4 *
      load32 (store 0 (take 16 (incoming s)) m) 12)"
    and "504 < n" and "n + 8 < 2 ^ 32" and "n + 8 \<le> length (incoming s)"
  shows "\<exists>h m' s'. recv_ota_file_hdr m hdr s = Some (int n + 8, h, m', s') \<and> m' BUF_SIZE = incoming s ! 512"
proof -
  have "16 \<le> length (incoming s)" "8 \<le> n" using assms(3,5) by auto
  from file_header_received [OF assms(1,2) this(2) assms(4,5) this(1), of hdr] obtain h s' where
    "recv_ota_file_hdr m hdr s = Some (int n + 8, h, store 0 (take (n + 8) (incoming s)) m, s')" by blast
  moreover have "store 0 (take (n + 8) (incoming s)) m BUF_SIZE = incoming s ! 512"
    using assms(3,5) by (simp add: store_def BUF_SIZE_def)
  ultimately show ?thesis by blast
qed

lemma load_overlong:
  "load32 (store 0 (take 16 (word_bytes 1 @ word_bytes 1 @ [0, 0, 0, 0] @ word_bytes 505 @ xs)) m) 4 = 1"
  "load32 (store 0 (take 16 (word_bytes 1 @ word_bytes 1 @ [0, 0, 0, 0] @ word_bytes 505 @ xs)) m) 12 = 505"
  by (simp_all add: load32_def load_def store_def word_bytes_def upt_rec bytes_word_def)

theorem ota_file_header_overrun_witness:
  "\<exists>h m' s'. recv_ota_file_hdr (\<lambda>_. 0) zero_target_hdr
       \<lparr>incoming = word_bytes 1 @ word_bytes 1 @ [0, 0, 0, 0] @ word_bytes 505 @ replicate 497 7, schedule = []\<rparr> =
     Some (513, h, m', s') \<and> m' 512 = 7"
  using ota_file_header_overrun [of "\<lparr>incoming = word_bytes 1 @ word_bytes 1 @ [0, 0, 0, 0] @ word_bytes 505 @ replicate 497 7,
      schedule = []\<rparr>" 505 "\<lambda>_. 0" zero_target_hdr]
  by (simp only: load_overlong sock.simps)
    (simp add: word_bytes_def nth_append BUF_SIZE_def nth_Cons' del: replicate.simps)

section \<open>The address of the new image\<close>

lemma and_fff: "x AND 0xFFF = x mod (4096 :: int)"
  using take_bit_eq_mask [of 12 x] by (simp add: take_bit_eq_mod mask_eq_exp_minus_1)

text \<open>
  The new image does not overlap the running one. An accepted address is the one the image was
  linked for and a multiple of the sector size; the second slot starts behind the end of the first
  image and its data, and an image for the first slot ends before the second slot, provided the
  system data zone places the second slot behind the first.
\<close>

theorem ota_address_disjoint:
  assumes "get_ota_address r l idx hdr b = (Some a, b')"
    and "ota2 = uint (HAL_READ32 r (chip b') OFFSET_DATA)"
    and "data = OTA1_ADDR + image_size_at r b' OTA1_ADDR + IMAGE_HEADER_LEN"
    and "end1 = data + image_size_at r b' data + IMAGE_HEADER_LEN" and "end1 < 2 ^ 32"
  shows "a = FlashOffset (FileImgHdr hdr) \<and> a mod 4096 = 0 \<and>
    (idx = OTA_INDEX_2 \<longrightarrow> a = ota2 \<and> end1 \<le> a) \<and>
    (idx = OTA_INDEX_1 \<longrightarrow> a = OTA1_ADDR \<and> (OTA1_ADDR \<le> ota2 \<longrightarrow> a + ImgLen (FileImgHdr hdr) \<le> ota2))"
proof -
  have nn: "0 \<le> image_size_at r b' x" for x by (simp add: image_size_at_def)
  have d: "uint32 data = data" "uint32 end1 = end1"
    using nn [of OTA1_ADDR] nn [of data] assms(3,4,5) by (auto simp: uint32_id ota_consts)
  have o: "0 \<le> ota2" "ota2 < 2 ^ 32"
    using assms(2) uint_bounded [of "HAL_READ32 r (chip b') OFFSET_DATA"] by simp_all
  have u: "uint32 (ota2 - OTA1_ADDR) = ota2 - OTA1_ADDR" if "OTA1_ADDR \<le> ota2"
    using that o by (auto simp: uint32_id ota_consts)
  have "OTA1_ADDR mod 4096 = 0" by (simp add: OTA1_ADDR_def)
  then show ?thesis
    using assms(1) d u unfolding get_ota_address_def Let_def and_fff
    by (auto simp: assms(2) split: if_splits ota_index.splits simp flip: assms(3,4))
qed

text \<open>A blank flash whose system data zone is programmed with the default address of the second slot.\<close>

definition slot_board :: "nor_chip board" where
  "slot_board = demo_board\<lparr>chip := \<lparr>array = store OFFSET_DATA (word_bytes 0x08080000) (\<lambda>_. 0),
     window = store OFFSET_DATA (word_bytes 0x08080000) (\<lambda>_. 0)\<rparr>\<rparr>"

lemma slot_board_words:
  "HAL_READ32 nor_rom (chip slot_board) OFFSET_DATA = 0x08080000"
  "image_size_at nor_rom slot_board OTA1_ADDR = 0" "image_size_at nor_rom slot_board (OTA1_ADDR + IMAGE_HEADER_LEN) = 0"
  by (simp_all add: slot_board_def nor_rom_def image_size_at_def ota_consts uint32_def word_bytes_def store_def
      cells_def upt_rec bytes_word_def)

lemma slot_board_address:
  "get_ota_address nor_rom nor_lib OTA_INDEX_2 demo_hdr slot_board = (Some 0x08080000, slot_board)"
  using slot_board_words
  by (simp add: get_ota_address_def Let_def demo_hdr_def ota_consts uint32_def)

theorem ota_address_disjoint_witness:
  "OTA1_ADDR + image_size_at nor_rom slot_board OTA1_ADDR + 2 * IMAGE_HEADER_LEN \<le> 0x08080000 \<and>
   0x08080000 = FlashOffset (FileImgHdr demo_hdr)"
  using ota_address_disjoint [OF slot_board_address refl refl refl] slot_board_words(2,3)
  by (simp add: ota_consts)

text \<open>The task got as far as a parsed file header.\<close>

definition header_parsed :: "ota_env \<Rightarrow> bool" where
  "header_parsed e \<longleftrightarrow> socket_ok e \<and> connect_ok e \<and>
     (case recv_file_info_from_server (\<lambda>_. 0) 12 (server e) of None \<Rightarrow> False | Some (_, s) \<Rightarrow>
       (case recv_ota_file_hdr (heap_at_alloc e) zero_target_hdr s of None \<Rightarrow> False | Some (n, hdr, m, _) \<Rightarrow>
         get_ota_tartget_header m n hdr (OtaImgId (if ota_get_cur_index (check_addr e) = OTA_INDEX_1
           then OTA_INDEX_2 else OTA_INDEX_1)) \<noteq> None))"

text \<open>
  The buffer of the task is freed twice. Whenever the file header was received and parsed, the
  buffer is freed behind the parser and once more at the exit label, whatever happens in between;
  on every earlier exit it is freed exactly once.
\<close>

theorem ota_buffer_freed_twice:
  "count_list (fst (snd (ota_update_single_img_local_task r l e b))) Malloc_alloc = (if malloc_ok e then 1 else 0) \<and>
   count_list (fst (snd (ota_update_single_img_local_task r l e b))) Free_alloc =
     (if \<not> malloc_ok e then 0 else if header_parsed e then 2 else 1)"
  by (auto simp: ota_update_single_img_local_task_def header_parsed_def update_ota_exit_def Let_def
      split: option.splits prod.splits ota_index.splits)

definition parsed_env :: ota_env where
  "parsed_env = demo_env\<lparr>server := \<lparr>incoming = replicate 12 0 @ demo_file, schedule = [5, 12]\<rparr>\<rparr>"

lemma parsed_env_header: "header_parsed parsed_env"
proof -
  obtain m s where s: "recv_file_info_from_server (\<lambda>_. 0) 12 (server parsed_env) = Some (m, s)"
    "incoming s = demo_file" "0 \<notin> set (schedule s)"
    using recv_loop_bytes [of "server parsed_env" 12 0 "\<lambda>_. 0"]
    by (auto simp: recv_file_info_from_server_def parsed_env_def)
  obtain h s' where "recv_ota_file_hdr (\<lambda>_. 0) zero_target_hdr s = Some (32, h, store 0 demo_file (\<lambda>_. 0), s')"
    using file_header_received [OF s(3), of 24 "\<lambda>_. 0" zero_target_hdr] demo_file_words(3,4) [of "\<lambda>_. 0"]
    by (auto simp: s(2) demo_file_bytes)
  moreover have "get_ota_tartget_header (store 0 demo_file (\<lambda>_. 0)) 32 h [79, 84, 65, 50] \<noteq> None"
    using target_header_selected [OF refl refl, of "store 0 demo_file (\<lambda>_. 0)" 32 h "[79, 84, 65, 50]"]
      demo_file_ota2 [of "\<lambda>_. 0"]
    by (simp add: demo_file_words uint32_def)
  ultimately show ?thesis
    using s(1) by (simp add: header_parsed_def parsed_env_def demo_env_def ota_get_cur_index_def ota_consts)
qed

theorem ota_buffer_freed_twice_witness:
  "count_list (fst (snd (ota_update_single_img_local_task nor_rom nor_lib parsed_env demo_board))) Free_alloc = 2"
  using ota_buffer_freed_twice [of nor_rom nor_lib parsed_env demo_board] parsed_env_header
  by (simp add: parsed_env_def demo_env_def)

end
