(* ===== verification/Xml_String.thy ===== *)
theory Xml_String
  imports RTL_Prelude "HOL-Library.Sublist"
begin

text \<open>
  The string functions under \<^verbatim>\<open>component/common/utilities/xml.c\<close>. A C string is the
  list of its characters before the terminating zero, and a pointer into it is an index; a
  search that returns a null pointer gives \<open>None\<close>. \<open>char_at\<close> reads the terminator behind the
  last character. \<open>cstr\<close> is the string that a byte buffer with a zero behind it holds.
\<close>

section \<open>Definitions\<close>

definition NUL :: char where "NUL = CHR 0x00"

definition cstr :: "string \<Rightarrow> string" where
  "cstr s = takeWhile (\<lambda>c. c \<noteq> NUL) s"

definition char_at :: "string \<Rightarrow> nat \<Rightarrow> char" where
  "char_at s i = (if i < length s then s ! i else NUL)"

fun strchr :: "string \<Rightarrow> char \<Rightarrow> nat option" where
  "strchr [] c = None"
| "strchr (x # xs) c = (if x = c then Some 0 else map_option Suc (strchr xs c))"

text \<open>The inner loop of \<open>xml_strstr\<close>: does \<open>b\<close> match from \<open>a\<close> on?\<close>

fun match_here :: "string \<Rightarrow> string \<Rightarrow> bool" where
  "match_here a [] = True"
| "match_here [] (y # ys) = False"
| "match_here (x # xs) (y # ys) = (x = y \<and> match_here xs ys)"

text \<open>The outer loop, for a pattern that is not empty.\<close>

fun strstr_scan :: "string \<Rightarrow> string \<Rightarrow> nat option" where
  "strstr_scan [] b = None"
| "strstr_scan (x # xs) b =
     (if x \<noteq> hd b then map_option Suc (strstr_scan xs b)
      else if match_here (x # xs) b then Some 0
      else map_option Suc (strstr_scan xs b))"

definition xml_strstr :: "string \<Rightarrow> string \<Rightarrow> nat option" where
  "xml_strstr str1 str2 = (if str2 = [] then Some 0 else strstr_scan str1 str2)"

text \<open>\<open>str\<close> is the \<open>str_len\<close> characters; the two loops skip blanks from the front and the rear.\<close>

definition str_strip :: "string \<Rightarrow> string option" where
  "str_strip str =
     (let front = dropWhile (\<lambda>c. c = CHR '' '') str
      in if str = [] \<or> front = [] then None
         else Some (rev (dropWhile (\<lambda>c. c = CHR '' '') (rev front))))"

section \<open>Searching for a character\<close>

lemma strchr_Some:
  "strchr s c = Some i \<longleftrightarrow> i < length s \<and> s ! i = c \<and> c \<notin> set (take i s)"
proof (induction s arbitrary: i)
  case (Cons x xs)
  then show ?case by (cases i) auto
qed simp

lemma strchr_None: "strchr s c = None \<longleftrightarrow> c \<notin> set s"
  by (induction s) auto

lemma strchr_notin [simp]: "c \<notin> set s \<Longrightarrow> strchr s c = None"
  by (simp add: strchr_None)

lemma strchr_less: "strchr s c = Some i \<Longrightarrow> i < length s"
  by (simp add: strchr_Some)

lemma strchr_append:
  "c \<notin> set a \<Longrightarrow> strchr (a @ s) c = map_option (\<lambda>i. length a + i) (strchr s c)"
  by (cases "strchr s c"; induction a) auto

lemma strchr_first [simp]: "c \<notin> set a \<Longrightarrow> strchr (a @ c # s) c = Some (length a)"
  by (simp add: strchr_append)

section \<open>Searching for a string\<close>

lemma match_here_prefix: "match_here a b \<longleftrightarrow> prefix b a"
  by (induction a b rule: match_here.induct) auto

lemma strstr_scan_Some:
  assumes "b \<noteq> []"
  shows "strstr_scan s b = Some i \<longleftrightarrow> prefix b (drop i s) \<and> (\<forall>j < i. \<not> prefix b (drop j s))"
proof (induction s arbitrary: i)
  case Nil
  then show ?case using assms by simp
next
  case (Cons x xs)
  obtain y ys where b: "b = y # ys" using assms by (cases b) auto
  show ?case
  proof (cases "prefix b (x # xs)")
    case True
    then have "strstr_scan (x # xs) b = Some 0" using b by (auto simp: match_here_prefix)
    then show ?thesis using True by (cases i) auto
  next
    case False
    then have "strstr_scan (x # xs) b = map_option Suc (strstr_scan xs b)" using b by (auto simp: match_here_prefix)
    then show ?thesis using False Cons.IH by (cases i) (auto simp: less_Suc_eq_0_disj)
  qed
qed

lemma strstr_scan_None:
  assumes "b \<noteq> []"
  shows "strstr_scan s b = None \<longleftrightarrow> \<not> sublist b s"
proof (induction s)
  case Nil
  then show ?case using assms by simp
next
  case (Cons x xs)
  then show ?case using assms by (cases b) (auto simp: match_here_prefix sublist_Cons_right)
qed

lemma xml_strstr_Some:
  "xml_strstr s b = Some i \<longleftrightarrow> prefix b (drop i s) \<and> (\<forall>j < i. \<not> prefix b (drop j s))"
  by (cases "b = []") (auto simp: xml_strstr_def strstr_scan_Some)

lemma xml_strstr_None: "xml_strstr s b = None \<longleftrightarrow> \<not> sublist b s"
  by (cases "b = []") (auto simp: xml_strstr_def strstr_scan_None)

end
