(* ===== verification/Xml.thy ===== *)
theory Xml
  imports Xml_String
begin

text \<open>
  The XML tree of \<^verbatim>\<open>component/common/utilities/xml.c\<close>: its parser, printer, searches
  and attributes. A node with its sibling chain is a tree; \<open>nd_child\<close> is the chain that starts at
  \<open>child\<close> and goes on through \<open>next\<close>. The loops \<open>while(child)\<close> are recursions over that list. The
  pointer level of the operations that change links is in \<open>Xml_Links\<close>.

  Allocation is taken to succeed: the code does not look at the result of \<open>xml_malloc\<close>. Where the
  code goes on with a null pointer that a search or \<open>str_strip\<close> returned, the result is \<open>None\<close>.
\<close>

section \<open>Nodes\<close>

datatype xml_node = Node
  (nd_name: "string option") (nd_text: "string option") (nd_prefix: "string option")
  (nd_uri: "string option") (nd_attr: "string option") (nd_child: "xml_node list")

definition xml_is_element :: "xml_node \<Rightarrow> bool" where
  "xml_is_element node \<longleftrightarrow> nd_name node \<noteq> None \<and> nd_text node = None"

definition xml_is_text :: "xml_node \<Rightarrow> bool" where
  "xml_is_text node \<longleftrightarrow> nd_name node = None \<and> nd_text node \<noteq> None"

text \<open>\<open>_xml_new_element\<close>: \<open>strlen(name)\<close> reads through the name.\<close>

definition xml_new_node_element :: "string option \<Rightarrow> string option \<Rightarrow> string option \<Rightarrow> string option \<Rightarrow> xml_node option" where
  "xml_new_node_element pfx name uri attr =
     (case name of None \<Rightarrow> None | Some n \<Rightarrow> Some (Node (Some n) None pfx uri attr []))"

definition xml_new_element :: "string option \<Rightarrow> string \<Rightarrow> string option \<Rightarrow> xml_node" where
  "xml_new_element pfx name uri =
     (let attr = (case (pfx, uri) of
            (Some p, Some u) \<Rightarrow> Some (''xmlns:'' @ p @ ''=\"'' @ u @ ''\"'')
          | (None, Some u) \<Rightarrow> Some (''xmlns=\"'' @ u @ ''\"'')
          | _ \<Rightarrow> None)
      in Node (Some name) None pfx uri attr [])"

definition xml_new_text :: "string \<Rightarrow> xml_node" where
  "xml_new_text text = Node None (Some text) None None None []"

definition xml_add_child :: "xml_node \<Rightarrow> xml_node \<Rightarrow> xml_node" where
  "xml_add_child node child =
     (if xml_is_element node
      then Node (nd_name node) (nd_text node) (nd_prefix node) (nd_uri node) (nd_attr node) (nd_child node @ [child])
      else node)"

definition xml_text_child :: "xml_node \<Rightarrow> xml_node option" where
  "xml_text_child node =
     (case nd_child node of [] \<Rightarrow> None | c # _ \<Rightarrow> if xml_is_text c then Some c else None)"

definition xml_set_text :: "xml_node \<Rightarrow> string \<Rightarrow> xml_node" where
  "xml_set_text node text =
     (if xml_is_text node
      then Node (nd_name node) (Some text) (nd_prefix node) (nd_uri node) (nd_attr node) (nd_child node)
      else node)"

section \<open>Copying\<close>

fun xml_copy_into :: "xml_node \<Rightarrow> xml_node \<Rightarrow> xml_node"
  and xml_copy_children :: "xml_node list \<Rightarrow> xml_node \<Rightarrow> xml_node" where
  "xml_copy_into (Node n t p u a cs) parent =
     (let root = Node n t p u a cs
      in if xml_is_text root then xml_add_child parent (xml_new_text (the t))
         else if xml_is_element root
         then xml_add_child parent (xml_copy_children cs (Node n None p u a []))
         else parent)"
| "xml_copy_children [] copy = copy"
| "xml_copy_children (c # cs) copy = xml_copy_children cs (xml_copy_into c copy)"

definition xml_copy_tree :: "xml_node \<Rightarrow> xml_node option" where
  "xml_copy_tree root =
     (if xml_is_text root then Some (xml_new_text (the (nd_text root)))
      else if xml_is_element root
      then Some (xml_copy_children (nd_child root)
             (Node (nd_name root) None (nd_prefix root) (nd_uri root) (nd_attr root) []))
      else None)"

section \<open>Tags\<close>

text \<open>The part of \<open>_parse_tag\<close> behind the name space attribute, from \<open>ns_front\<close> on.\<close>

definition ns_uri :: "string \<Rightarrow> string option" where
  "ns_uri s =
     (case strchr s (CHR ''='') of
        None \<Rightarrow> None
      | Some e \<Rightarrow>
          (let ns_sep = (if char_at s (e + 1) = CHR 0x27 then CHR 0x27 else CHR 0x22)
           in case strchr s ns_sep of
                None \<Rightarrow> None
              | Some f \<Rightarrow>
                  (let uri_front = drop (f + 1) s
                   in case strchr uri_front ns_sep of
                        None \<Rightarrow> None
                      | Some uri_len \<Rightarrow> Some (take uri_len uri_front))))"

type_synonym xml_tag = "string option \<times> string option \<times> string option \<times> string option"

text \<open>
  \<open>_parse_tag\<close>: prefix, name, URI and attributes of a tag. \<open>rest\<close> is the tag behind the prefix;
  the name ends at its first blank, where the attributes start. A tag with a name space attribute
  has such a blank.
\<close>

definition tag_rest :: "string option \<Rightarrow> string option \<Rightarrow> string \<Rightarrow> xml_tag" where
  "tag_rest pfx uri rest =
     (case strchr rest (CHR '' '') of
        Some tag_sep \<Rightarrow> (pfx, str_strip (take tag_sep rest), uri, str_strip (drop tag_sep rest))
      | None \<Rightarrow> (pfx, str_strip rest, uri, None))"

definition xml_parse_tag :: "string \<Rightarrow> xml_tag option" where
  "xml_parse_tag tag =
     (let prefix_char = strchr tag (CHR '':'');
          have_prefix = (case prefix_char of None \<Rightarrow> False
            | Some i \<Rightarrow> (case strchr tag (CHR '' '') of None \<Rightarrow> True | Some tag_sep \<Rightarrow> i < tag_sep))
      in if have_prefix
         then (case str_strip (take (the prefix_char) tag) of
                 None \<Rightarrow> None
               | Some p \<Rightarrow>
                   (let rest = drop (the prefix_char + 1) tag
                    in case xml_strstr tag ('' xmlns:'' @ p) of
                         Some ns_front \<Rightarrow>
                           (case ns_uri (drop ns_front tag) of
                              None \<Rightarrow> None
                            | Some uri \<Rightarrow> Some (tag_rest (Some p) (Some uri) rest))
                       | None \<Rightarrow> Some (tag_rest (Some p) None rest)))
         else (case xml_strstr tag '' xmlns'' of
                 Some ns_front \<Rightarrow>
                   (case ns_uri (drop ns_front tag) of
                      None \<Rightarrow> None
                    | Some uri \<Rightarrow> Some (tag_rest None (Some uri) tag))
               | None \<Rightarrow> Some (tag_rest None None tag)))"

text \<open>The two closing tags the parser looks for.\<close>

definition qname :: "string option \<Rightarrow> string \<Rightarrow> string" where
  "qname pfx name = (case pfx of None \<Rightarrow> name | Some p \<Rightarrow> p @ '':'' @ name)"

definition end_tag1 :: "string option \<Rightarrow> string \<Rightarrow> string" where
  "end_tag1 pfx name = ''</'' @ qname pfx name @ ''>''"

definition end_tag2 :: "string option \<Rightarrow> string \<Rightarrow> string" where
  "end_tag2 pfx name = ''</'' @ qname pfx name @ '' ''"

definition find_end :: "string \<Rightarrow> string option \<Rightarrow> string \<Rightarrow> nat option" where
  "find_end doc pfx name =
     (case xml_strstr doc (end_tag1 pfx name) of
        Some k \<Rightarrow> Some k
      | None \<Rightarrow> xml_strstr doc (end_tag2 pfx name))"

section \<open>Parsing\<close>

text \<open>
  \<open>xml_doc_name\<close>: the first element that has no content or whose closing tag follows. \<open>cur\<close> is the
  document from \<open>cur_pos\<close> on; the result \<open>Some None\<close> is the return value -1.
\<close>

function doc_name_loop :: "string \<Rightarrow> (string option \<times> string option \<times> string option) option option" where
  "doc_name_loop cur =
     (case strchr cur (CHR ''<'') of
        None \<Rightarrow> Some None
      | Some i \<Rightarrow>
     (case strchr (drop (i + 1) cur) (CHR ''>'') of
        None \<Rightarrow> Some None
      | Some j \<Rightarrow>
     (let tag_front = drop (i + 1) cur; doc_front = drop (j + 1) tag_front
      in if 0 < j \<and> tag_front ! (j - 1) = CHR ''/''
         then (case xml_parse_tag (take (j - 1) tag_front) of
                 None \<Rightarrow> None
               | Some (pfx, name, uri, _) \<Rightarrow> Some (Some (pfx, name, uri)))
         else (case xml_parse_tag (take j tag_front) of
                 None \<Rightarrow> None
               | Some (pfx, None, uri, _) \<Rightarrow> None
               | Some (pfx, Some name, uri, _) \<Rightarrow>
                   (if find_end doc_front pfx name \<noteq> None then Some (Some (pfx, Some name, uri))
                    else doc_name_loop doc_front)))))"
  by pat_completeness auto
termination
  by (relation "measure length") (auto dest!: strchr_less)

declare doc_name_loop.simps [simp del]

definition xml_doc_name :: "string \<Rightarrow> nat \<Rightarrow> (string option \<times> string option \<times> string option) option option" where
  "xml_doc_name doc_buf doc_len = doc_name_loop (cstr (take doc_len doc_buf))"

text \<open>What is left of a document without a further tag becomes the text of an empty root.\<close>

definition add_text :: "string \<Rightarrow> xml_node option \<Rightarrow> xml_node option" where
  "add_text cur root =
     (case root of
        Some r \<Rightarrow> (if nd_child r = [] \<and> cur \<noteq> [] then Some (xml_add_child r (xml_new_text cur)) else Some r)
      | None \<Rightarrow> None)"

text \<open>
  The loop of \<open>_xml_parse_doc\<close>; \<open>root\<close> is the element that takes the children, or the null pointer
  at the top, where the loop ends with the first element. A node is linked to its parent when its own
  content has been parsed, which gives the same tree as linking it before.
\<close>

function parse_loop :: "string \<Rightarrow> xml_node option \<Rightarrow> xml_node option option" where
  "parse_loop cur root =
     (case strchr cur (CHR ''<'') of
        None \<Rightarrow> Some (add_text cur root)
      | Some i \<Rightarrow>
     (case strchr (drop (i + 1) cur) (CHR ''>'') of
        None \<Rightarrow> Some (add_text cur root)
      | Some j \<Rightarrow>
     (let tag_front = drop (i + 1) cur; doc_front = drop (j + 1) tag_front
      in if 0 < j \<and> tag_front ! (j - 1) = CHR ''/''
         then (case xml_parse_tag (take (j - 1) tag_front) of
                 None \<Rightarrow> None
               | Some (pfx, name, uri, attr) \<Rightarrow>
              (case xml_new_node_element pfx name uri attr of
                 None \<Rightarrow> None
               | Some node \<Rightarrow>
              (case root of
                 Some r \<Rightarrow> parse_loop doc_front (Some (xml_add_child r node))
               | None \<Rightarrow> Some (Some node))))
         else (case xml_parse_tag (take j tag_front) of
                 None \<Rightarrow> None
               | Some (pfx, None, uri, attr) \<Rightarrow> None
               | Some (pfx, Some name, uri, attr) \<Rightarrow>
              (case find_end doc_front pfx name of
                 None \<Rightarrow> parse_loop doc_front root
               | Some k \<Rightarrow>
              (case parse_loop (take k doc_front) (Some (Node (Some name) None pfx uri attr [])) of
                 None \<Rightarrow> None
               | Some None \<Rightarrow> None
               | Some (Some node) \<Rightarrow>
              (case root of
                 None \<Rightarrow> Some (Some node)
               | Some r \<Rightarrow>
              (case strchr (drop k doc_front) (CHR ''>'') of
                 None \<Rightarrow> None
               | Some g \<Rightarrow> parse_loop (drop (k + g + 1) doc_front) (Some (xml_add_child r node))))))))))"
  by pat_completeness auto
termination
  by (relation "measure (\<lambda>(cur, _). length cur)") (auto dest!: strchr_less simp: min_def)

declare parse_loop.simps [simp del]

text \<open>\<open>_xml_parse_doc\<close> works on a copy with a zero behind it, so a zero inside ends every search.\<close>

definition xml_parse_into :: "string \<Rightarrow> xml_node option \<Rightarrow> xml_node option option" where
  "xml_parse_into doc root = parse_loop (cstr doc) root"

definition doc_start_tag :: "string option \<Rightarrow> string \<Rightarrow> string option \<Rightarrow> string" where
  "doc_start_tag pfx name uri = ''<'' @ qname pfx name @
     (case (pfx, uri) of
        (Some p, Some u) \<Rightarrow> '' xmlns:'' @ p @ ''=\"'' @ u @ ''\"''
      | (None, Some u) \<Rightarrow> '' xmlns=\"'' @ u @ ''\"''
      | _ \<Rightarrow> [])"

definition xml_parse_doc :: "string \<Rightarrow> nat \<Rightarrow> string option \<Rightarrow> string \<Rightarrow> string option \<Rightarrow> xml_node option option" where
  "xml_parse_doc doc_buf doc_len doc_prefix doc_name doc_uri =
     (let xml_buf = cstr (take doc_len doc_buf);
          start_tag = doc_start_tag doc_prefix doc_name doc_uri @ ''>'';
          empty_tag = doc_start_tag doc_prefix doc_name doc_uri @ ''/>'';
          root = xml_new_element doc_prefix doc_name doc_uri
      in case xml_strstr xml_buf start_tag of
           Some i \<Rightarrow>
             (let front = drop (i + length start_tag) xml_buf
              in case xml_strstr front (end_tag1 doc_prefix doc_name) of
                   Some xml_len \<Rightarrow> xml_parse_into (take xml_len front) (Some root)
                 | None \<Rightarrow> Some None)
         | None \<Rightarrow> (case xml_strstr xml_buf empty_tag of Some _ \<Rightarrow> Some (Some root) | None \<Rightarrow> Some None))"

text \<open>
  The two loops of \<open>xml_parse\<close> that look for the end of the prolog. They search the caller's buffer,
  not the copy, so they see the string up to its zero and not only \<open>doc_len\<close> characters of it.
\<close>

function skip_prolog :: "string \<Rightarrow> string \<Rightarrow> nat \<Rightarrow> nat \<Rightarrow> nat option \<Rightarrow> nat option option" where
  "skip_prolog pat doc doc_len pos inst =
     (if pos < doc_len
      then (case xml_strstr (drop pos doc) pat of
              None \<Rightarrow> Some (Some pos)
            | Some i \<Rightarrow>
                (case strchr (drop (pos + i) doc) (CHR ''>'') of
                   None \<Rightarrow> None
                 | Some g \<Rightarrow> skip_prolog pat doc doc_len (pos + i + g + 1) (Some (pos + i))))
      else Some inst)"
  by pat_completeness auto
termination
  by (relation "measure (\<lambda>(_, _, n, pos, _). n - pos)") auto

declare skip_prolog.simps [simp del]

definition xml_parse :: "string \<Rightarrow> nat \<Rightarrow> xml_node option option" where
  "xml_parse doc_buf doc_len =
     (let doc = cstr doc_buf
      in case (skip_prolog ''<?'' doc doc_len 0 None, skip_prolog ''<!'' doc doc_len 0 None) of
           (Some (Some proc_inst), Some (Some comment)) \<Rightarrow>
             (let prolog_end = (if proc_inst > comment then proc_inst else comment)
              in if prolog_end \<le> doc_len
                 then xml_parse_into (take (doc_len - prolog_end) (drop prolog_end doc)) None
                 else None)
         | _ \<Rightarrow> None)"

end
