(* ===== verification/Xml_Ops.thy ===== *)
theory Xml_Ops
  imports Xml
begin

text \<open>
  Searching, printing and attributes of the XML trees of
  \<^verbatim>\<open>component/common/utilities/xml.c\<close>. A node set is the list of the nodes in
  \<open>node[0 .. count - 1]\<close>.
\<close>

section \<open>Searching by name\<close>

fun element_count :: "string \<Rightarrow> xml_node \<Rightarrow> nat \<Rightarrow> nat"
  and element_count_children :: "string \<Rightarrow> xml_node list \<Rightarrow> nat \<Rightarrow> nat" where
  "element_count name (Node n t p u a cs) count =
     (if xml_is_element (Node n t p u a cs)
      then element_count_children name cs (if n = Some name then count + 1 else count)
      else count)"
| "element_count_children name [] count = count"
| "element_count_children name (c # cs) count = element_count_children name cs (element_count name c count)"

definition xml_element_count :: "xml_node \<Rightarrow> string \<Rightarrow> nat" where
  "xml_element_count root name = element_count name root 0"

fun find_element :: "string \<Rightarrow> xml_node \<Rightarrow> xml_node list \<Rightarrow> xml_node list"
  and find_element_children :: "string \<Rightarrow> xml_node list \<Rightarrow> xml_node list \<Rightarrow> xml_node list" where
  "find_element name (Node n t p u a cs) node_set =
     (if xml_is_element (Node n t p u a cs)
      then find_element_children name cs (if n = Some name then node_set @ [Node n t p u a cs] else node_set)
      else node_set)"
| "find_element_children name [] node_set = node_set"
| "find_element_children name (c # cs) node_set = find_element_children name cs (find_element name c node_set)"

text \<open>The result is the number of slots allocated and the set.\<close>

definition xml_find_element :: "xml_node \<Rightarrow> string \<Rightarrow> nat \<times> xml_node list" where
  "xml_find_element root name = (xml_element_count root name, find_element name root [])"

section \<open>Searching by path\<close>

text \<open>
  The first step of a path: its prefix, its name and, if there is one, the path behind it. \<open>front\<close>
  is the path behind its first slash. The prefix is looked for in the whole rest of the path and
  used only when it lies in the first step.
\<close>

definition path_step :: "string \<Rightarrow> string option \<times> string \<times> string option" where
  "path_step front =
     (case strchr front (CHR ''/'') of
        Some rear \<Rightarrow>
          (case strchr front (CHR '':'') of
             Some i \<Rightarrow> (if i < rear then (Some (take i front), take (rear - (i + 1)) (drop (i + 1) front), Some (drop rear front))
                        else (None, take rear front, Some (drop rear front)))
           | None \<Rightarrow> (None, take rear front, Some (drop rear front)))
      | None \<Rightarrow>
          (case strchr front (CHR '':'') of
             Some i \<Rightarrow> (Some (take i front), drop (i + 1) front, None)
           | None \<Rightarrow> (None, front, None)))"

definition step_matches :: "string option \<times> string \<times> string option \<Rightarrow> string option \<Rightarrow> string option \<Rightarrow> bool" where
  "step_matches st root_prefix root_name \<longleftrightarrow> fst st = root_prefix \<and> root_name = Some (fst (snd st))"

fun path_count :: "xml_node \<Rightarrow> string \<Rightarrow> nat \<Rightarrow> nat"
  and path_count_children :: "xml_node list \<Rightarrow> string \<Rightarrow> nat \<Rightarrow> nat" where
  "path_count (Node n t p u a cs) path count =
     (if xml_is_element (Node n t p u a cs)
      then (case strchr path (CHR ''/'') of
              None \<Rightarrow> count
            | Some i \<Rightarrow>
                (let st = path_step (drop (i + 1) path)
                 in if step_matches st p n
                    then (case snd (snd st) of
                            Some rear \<Rightarrow> path_count_children cs rear count
                          | None \<Rightarrow> count + 1)
                    else count))
      else count)"
| "path_count_children [] path count = count"
| "path_count_children (c # cs) path count = path_count_children cs path (path_count c path count)"

definition xml_path_count :: "xml_node \<Rightarrow> string \<Rightarrow> nat" where
  "xml_path_count root path = path_count root path 0"

fun find_path :: "xml_node \<Rightarrow> string \<Rightarrow> xml_node list \<Rightarrow> xml_node list"
  and find_path_children :: "xml_node list \<Rightarrow> string \<Rightarrow> xml_node list \<Rightarrow> xml_node list" where
  "find_path (Node n t p u a cs) path node_set =
     (if xml_is_element (Node n t p u a cs)
      then (case strchr path (CHR ''/'') of
              None \<Rightarrow> node_set
            | Some i \<Rightarrow>
                (let st = path_step (drop (i + 1) path)
                 in if step_matches st p n
                    then (case snd (snd st) of
                            Some rear \<Rightarrow> find_path_children cs rear node_set
                          | None \<Rightarrow> node_set @ [Node n t p u a cs])
                    else node_set))
      else node_set)"
| "find_path_children [] path node_set = node_set"
| "find_path_children (c # cs) path node_set = find_path_children cs path (find_path c path node_set)"

definition xml_find_path :: "xml_node \<Rightarrow> string \<Rightarrow> nat \<times> xml_node list" where
  "xml_find_path root path = (xml_path_count root path, find_path root path [])"

section \<open>Printing\<close>

text \<open>
  The sizes and the texts of the two tags of an element. \<open>level\<close> and \<open>space\<close> are not negative; the
  sizes of trees that fit into memory do not overflow an \<open>int\<close>.
\<close>

definition start_size :: "string option \<Rightarrow> string \<Rightarrow> string option \<Rightarrow> nat" where
  "start_size pfx name attr =
     (case (pfx, attr) of
        (Some p, Some a) \<Rightarrow> length p + length name + length a + 4
      | (Some p, None) \<Rightarrow> length p + length name + 3
      | (None, Some a) \<Rightarrow> length name + length a + 3
      | (None, None) \<Rightarrow> length name + 2)"

definition end_size :: "string option \<Rightarrow> string \<Rightarrow> nat" where
  "end_size pfx name = (case pfx of Some p \<Rightarrow> length p + length name + 4 | None \<Rightarrow> length name + 3)"

text \<open>The loop over the children returns the size and whether the last child was an element.\<close>

fun xml_tree_size :: "xml_node \<Rightarrow> nat \<Rightarrow> nat \<Rightarrow> nat"
  and tree_size_children :: "xml_node list \<Rightarrow> nat \<Rightarrow> nat \<Rightarrow> bool \<Rightarrow> nat \<times> bool" where
  "xml_tree_size (Node n t p u a cs) level space =
     (if xml_is_text (Node n t p u a cs) then length (the t)
      else if xml_is_element (Node n t p u a cs)
      then (case tree_size_children cs level space False of
              (sz, is_element_child) \<Rightarrow>
                start_size p (the n) a + sz +
                (if is_element_child \<and> level \<noteq> 0 then 1 + (level - 1) * space else 0) +
                end_size p (the n))
      else 0)"
| "tree_size_children [] level space is_element_child = (0, is_element_child)"
| "tree_size_children (c # cs) level space is_element_child =
     (case tree_size_children cs level space (xml_is_element c) of
        (sz, b) \<Rightarrow>
          ((if xml_is_element c \<and> level \<noteq> 0 then 1 + level * space else 0) +
           xml_tree_size c (if level \<noteq> 0 then level + 1 else 0) space + sz, b))"

definition start_tag :: "string option \<Rightarrow> string \<Rightarrow> string option \<Rightarrow> string" where
  "start_tag pfx name attr =
     (case (pfx, attr) of
        (Some p, Some a) \<Rightarrow> ''<'' @ p @ '':'' @ name @ '' '' @ a @ ''>''
      | (Some p, None) \<Rightarrow> ''<'' @ p @ '':'' @ name @ ''>''
      | (None, Some a) \<Rightarrow> ''<'' @ name @ '' '' @ a @ ''>''
      | (None, None) \<Rightarrow> ''<'' @ name @ ''>'')"

text \<open>A new line and \<open>n\<close> times \<open>space_buf\<close>, which holds \<open>space\<close> blanks, at most 10.\<close>

definition indent :: "nat \<Rightarrow> nat \<Rightarrow> string" where
  "indent n space = CHR 0x0A # concat (replicate n (replicate space (CHR '' '')))"

fun dump_tree :: "xml_node \<Rightarrow> string \<Rightarrow> nat \<Rightarrow> nat \<Rightarrow> string"
  and dump_children :: "xml_node list \<Rightarrow> string \<Rightarrow> nat \<Rightarrow> nat \<Rightarrow> bool \<Rightarrow> string \<times> bool" where
  "dump_tree (Node n t p u a cs) xml_buf level space =
     (if xml_is_text (Node n t p u a cs) then xml_buf @ the t
      else if xml_is_element (Node n t p u a cs)
      then (case dump_children cs (xml_buf @ start_tag p (the n) a) level space False of
              (xml_buf, is_element_child) \<Rightarrow>
                xml_buf @ (if is_element_child \<and> level \<noteq> 0 then indent (level - 1) space else []) @
                end_tag1 p (the n))
      else xml_buf)"
| "dump_children [] xml_buf level space is_element_child = (xml_buf, is_element_child)"
| "dump_children (c # cs) xml_buf level space is_element_child =
     dump_children cs
       (dump_tree c (if xml_is_element c \<and> level \<noteq> 0 then xml_buf @ indent level space else xml_buf)
          (if level \<noteq> 0 then level + 1 else 0) space)
       level space (xml_is_element c)"

text \<open>The result is the size of the buffer that is allocated and the string written into it.\<close>

definition xml_dump_tree :: "xml_node \<Rightarrow> nat \<times> string" where
  "xml_dump_tree root = (xml_tree_size root 0 0 + 1, dump_tree root [] 0 0)"

definition xml_dump_tree_ex :: "xml_node \<Rightarrow> string option \<Rightarrow> nat \<Rightarrow> nat \<Rightarrow> nat \<times> string" where
  "xml_dump_tree_ex root prolog new_line space =
     (let space = (if space > 10 then 10 else space);
          xml_size = xml_tree_size root 1 space
      in case prolog of
           Some pr \<Rightarrow>
             (if new_line \<noteq> 0 then (length pr + xml_size + 2, pr @ dump_tree root [CHR 0x0A] new_line space)
              else (length pr + xml_size + 1, pr @ dump_tree root [] new_line space))
         | None \<Rightarrow> (xml_size + 1, dump_tree root [] new_line space))"

section \<open>Attributes\<close>

text \<open>
  Where \<open>attr=\<close> with the quote \<open>q\<close> stands in the attribute string: behind a blank at an index, or at
  the very start (\<open>Some None\<close>). \<open>value_at\<close> is the index behind the opening quote.
\<close>

definition attr_pattern :: "string \<Rightarrow> char \<Rightarrow> string" where
  "attr_pattern attr q = '' '' @ attr @ ''='' @ [q]"

definition find_attr :: "string \<Rightarrow> string \<Rightarrow> char \<Rightarrow> nat option option" where
  "find_attr all_attr attr q =
     (case xml_strstr all_attr (attr_pattern attr q) of
        Some attr_pos \<Rightarrow> Some (Some attr_pos)
      | None \<Rightarrow> (if xml_strstr all_attr (tl (attr_pattern attr q)) = Some 0 then Some None else None))"

definition value_at :: "string \<Rightarrow> char \<Rightarrow> nat option \<Rightarrow> nat" where
  "value_at attr q pos =
     (case pos of Some i \<Rightarrow> i + length (attr_pattern attr q) | None \<Rightarrow> length (attr_pattern attr q) - 1)"

definition read_value :: "string \<Rightarrow> string \<Rightarrow> char \<Rightarrow> nat option \<Rightarrow> string option" where
  "read_value all_attr attr q pos =
     (let value_front = drop (value_at attr q pos) all_attr
      in case strchr value_front q of None \<Rightarrow> None | Some value_len \<Rightarrow> Some (take value_len value_front))"

definition xml_get_attribute :: "xml_node \<Rightarrow> string \<Rightarrow> string option option" where
  "xml_get_attribute node attr =
     (case nd_attr node of
        None \<Rightarrow> Some None
      | Some all_attr \<Rightarrow>
          (case find_attr all_attr attr (CHR 0x27) of
             Some pos \<Rightarrow> map_option Some (read_value all_attr attr (CHR 0x27) pos)
           | None \<Rightarrow>
               (case find_attr all_attr attr (CHR 0x22) of
                  Some pos \<Rightarrow> map_option Some (read_value all_attr attr (CHR 0x22) pos)
                | None \<Rightarrow> Some None)))"

text \<open>The attributes before and behind the one at \<open>pos\<close>.\<close>

definition cut_attr :: "string \<Rightarrow> string \<Rightarrow> char \<Rightarrow> nat option \<Rightarrow> (string option \<times> string option) option" where
  "cut_attr all_attr attr q pos =
     (let v = value_at attr q pos
      in case strchr (drop v all_attr) q of
           None \<Rightarrow> None
         | Some n \<Rightarrow>
             Some (case pos of Some i \<Rightarrow> str_strip (take i all_attr) | None \<Rightarrow> None,
                   str_strip (drop (v + n + 1) all_attr)))"

definition join_attr :: "string option \<Rightarrow> string \<Rightarrow> string option \<Rightarrow> string" where
  "join_attr p1 new_attr p2 =
     (case (p1, p2) of
        (Some x, Some y) \<Rightarrow> x @ '' '' @ new_attr @ '' '' @ y
      | (Some x, None) \<Rightarrow> x @ '' '' @ new_attr
      | (None, Some y) \<Rightarrow> new_attr @ '' '' @ y
      | (None, None) \<Rightarrow> new_attr)"

definition replace_attr :: "string \<Rightarrow> string \<Rightarrow> string \<Rightarrow> string option" where
  "replace_attr all_attr attr new_attr =
     (case find_attr all_attr attr (CHR 0x27) of
        Some pos \<Rightarrow> map_option (\<lambda>(p1, p2). join_attr p1 new_attr p2) (cut_attr all_attr attr (CHR 0x27) pos)
      | None \<Rightarrow>
          (case find_attr all_attr attr (CHR 0x22) of
             Some pos \<Rightarrow> map_option (\<lambda>(p1, p2). join_attr p1 new_attr p2) (cut_attr all_attr attr (CHR 0x22) pos)
           | None \<Rightarrow> Some (all_attr @ '' '' @ new_attr)))"

definition xml_set_attribute :: "xml_node \<Rightarrow> string \<Rightarrow> string \<Rightarrow> xml_node option" where
  "xml_set_attribute node attr value =
     (let ns_tag = (case nd_prefix node of Some p \<Rightarrow> ''xmlns:'' @ p | None \<Rightarrow> ''xmlns'');
          uri = (if ns_tag = attr then Some value else nd_uri node);
          q = (if strchr value (CHR 0x22) \<noteq> None then CHR 0x27 else CHR 0x22);
          new_attr = attr @ ''='' @ [q] @ value @ [q]
      in map_option (\<lambda>a. Node (nd_name node) (nd_text node) (nd_prefix node) uri (Some a) (nd_child node))
           (case nd_attr node of
              Some all_attr \<Rightarrow> replace_attr all_attr attr new_attr
            | None \<Rightarrow> Some new_attr))"

end
