(* ===== verification/Xml_Facts.thy ===== *)
theory Xml_Facts
  imports Xml_Ops
begin

text \<open>
  Lemmas on the XML operations that do not involve the parser: printing as a concatenation, its
  length, copies, and the searches as filters over the nodes in document order.
\<close>

section \<open>Printing\<close>

definition next_level :: "nat \<Rightarrow> nat" where
  "next_level level = (if level \<noteq> 0 then level + 1 else 0)"

definition lead :: "nat \<Rightarrow> nat \<Rightarrow> xml_node \<Rightarrow> string" where
  "lead level space c = (if xml_is_element c \<and> level \<noteq> 0 then indent level space else [])"

definition out :: "nat \<Rightarrow> nat \<Rightarrow> xml_node \<Rightarrow> string" where
  "out level space t = dump_tree t [] level space"

definition outs :: "nat \<Rightarrow> nat \<Rightarrow> xml_node list \<Rightarrow> string" where
  "outs level space cs = concat (map (\<lambda>c. lead level space c @ out (next_level level) space c) cs)"

definition trail :: "nat \<Rightarrow> nat \<Rightarrow> xml_node list \<Rightarrow> string" where
  "trail level space cs =
     (if cs \<noteq> [] \<and> xml_is_element (last cs) \<and> level \<noteq> 0 then indent (level - 1) space else [])"

lemma outs_simps [simp]:
  "outs level space [] = []"
  "outs level space (c # cs) = lead level space c @ out (next_level level) space c @ outs level space cs"
  by (simp_all add: outs_def)

lemma dump_children_append:
  assumes "\<And>c buf level. c \<in> set cs \<Longrightarrow> dump_tree c buf level space = buf @ out level space c"
  shows "dump_children cs buf level space b =
     (buf @ outs level space cs, if cs = [] then b else xml_is_element (last cs))"
  using assms by (induction cs arbitrary: buf b) (auto simp: lead_def next_level_def)

lemma dump_tree_append: "dump_tree t buf level space = buf @ out level space t"
proof (induction t arbitrary: buf level)
  case (Node n t p u a cs)
  have "dump_children cs buf level space b =
     (buf @ outs level space cs, if cs = [] then b else xml_is_element (last cs))" for buf level b
    by (rule dump_children_append) (rule Node)
  then show ?case by (simp add: out_def)
qed

lemmas dump_append = dump_tree_append dump_children_append [OF dump_tree_append]

lemma out_text: "xml_is_text t \<Longrightarrow> out level space t = the (nd_text t)"
  by (cases t) (simp add: out_def)

lemma out_element:
  assumes "xml_is_element t"
  shows "out level space t = start_tag (nd_prefix t) (the (nd_name t)) (nd_attr t) @
    outs level space (nd_child t) @ trail level space (nd_child t) @ end_tag1 (nd_prefix t) (the (nd_name t))"
proof -
  have "\<not> xml_is_text t" using assms by (auto simp: xml_is_element_def xml_is_text_def)
  then show ?thesis using assms
    by (cases t) (auto simp: out_def dump_append(2) trail_def)
qed

lemma start_size_eq: "start_size p n a = length (start_tag p n a)"
  by (auto simp: start_size_def start_tag_def split: option.splits)

lemma end_size_eq: "end_size p n = length (end_tag1 p n)"
  by (auto simp: end_size_def end_tag1_def qname_def split: option.splits)

lemma length_indent: "length (indent n space) = 1 + n * space"
  by (induction n) (auto simp: indent_def)

lemma tree_size_length:
  "length (dump_tree t buf level space) = length buf + xml_tree_size t level space"
  "length (fst (dump_children cs buf level space b)) = length buf + fst (tree_size_children cs level space b) \<and>
   snd (dump_children cs buf level space b) = snd (tree_size_children cs level space b)"
proof (induction t buf level space and cs buf level space b rule: dump_tree_dump_children.induct)
  case (1 n t p u a cs buf level space)
  then show ?case
    by (cases "xml_is_element (Node n t p u a cs)")
       (auto simp: start_size_eq end_size_eq length_indent split: prod.splits)
next
  case (3 c cs buf level space b)
  then show ?case by (auto simp: length_indent split: prod.splits)
qed simp

lemma out_length: "length (out level space t) = xml_tree_size t level space"
  using tree_size_length(1) [of t "[]"] by (simp add: out_def)

text \<open>Deeper levels print at least as much.\<close>

lemma outs_length_mono:
  assumes "\<forall>c \<in> set cs. length (out (next_level l) space c) \<le> length (out (next_level l') space c)" and "l \<le> l'"
  shows "length (outs l space cs) \<le> length (outs l' space cs)"
proof -
  have "length (lead l space c) \<le> length (lead l' space c)" for c
    using assms(2) by (auto simp: lead_def length_indent mult_le_mono1)
  then show ?thesis using assms(1) by (induction cs) (auto intro!: add_mono)
qed

lemma out_length_mono: "l \<le> l' \<Longrightarrow> length (out l space t) \<le> length (out l' space t)"
proof (induction t arbitrary: l l')
  case (Node n s p u a cs)
  have "length (outs l space cs) \<le> length (outs l' space cs)"
    by (rule outs_length_mono) (use Node in \<open>auto simp: next_level_def\<close>)
  moreover have "length (trail l space cs) \<le> length (trail l' space cs)"
    using Node.prems by (auto simp: trail_def length_indent mult_le_mono1 diff_le_mono)
  ultimately show ?case
    by (cases "xml_is_element (Node n s p u a cs)") (auto simp: out_element, auto simp: out_def)
qed

text \<open>An element child that is indented deeper makes the print longer.\<close>

lemma outs_length_strict:
  assumes "c \<in> set cs" and "xml_is_element c" and "0 < l" and "l < l'" and "0 < space"
  shows "length (outs l space cs) < length (outs l' space cs)"
proof -
  obtain xs ys where cs: "cs = xs @ c # ys" using split_list [OF assms(1)] by blast
  have mono: "length (outs l space zs) \<le> length (outs l' space zs)" for zs
    by (rule outs_length_mono) (use assms(4) in \<open>auto simp: next_level_def intro!: out_length_mono\<close>)
  have "length (lead l space c) < length (lead l' space c)"
    using assms(2-5) by (simp add: lead_def length_indent)
  moreover have "length (out (next_level l) space c) \<le> length (out (next_level l') space c)"
    by (rule out_length_mono) (use assms(3,4) in \<open>simp add: next_level_def\<close>)
  moreover have "outs k space cs = outs k space xs @ lead k space c @ out (next_level k) space c @ outs k space ys" for k
    by (simp add: cs outs_def)
  ultimately show ?thesis using mono [of xs] mono [of ys] by simp
qed

lemma out_length_strict:
  assumes "xml_is_element t" and "c \<in> set (nd_child t)" and "xml_is_element c" and "0 < l" and "l < l'" and "0 < space"
  shows "length (out l space t) < length (out l' space t)"
proof -
  have "length (trail l space (nd_child t)) \<le> length (trail l' space (nd_child t))"
    using assms(4,5) by (simp add: trail_def length_indent mult_le_mono1 diff_le_mono)
  then show ?thesis using outs_length_strict [OF assms(2-6)] by (simp add: out_element [OF assms(1)])
qed

section \<open>Proper trees\<close>

text \<open>The trees that the operations build: a text node has nothing but its text.\<close>

fun proper :: "xml_node \<Rightarrow> bool" where
  "proper (Node n t p u a cs) \<longleftrightarrow>
     (n \<noteq> None \<and> t = None \<and> (\<forall>c \<in> set cs. proper c)) \<or>
     (n = None \<and> t \<noteq> None \<and> p = None \<and> u = None \<and> a = None \<and> cs = [])"

lemma proper_cases:
  assumes "proper t"
  obtains (element) n p u a cs where "t = Node (Some n) None p u a cs" "\<forall>c \<in> set cs. proper c"
  | (leaf) s where "t = xml_new_text s"
  using assms by (cases t) (auto simp: xml_new_text_def)

lemma is_element_Node [simp]: "xml_is_element (Node (Some n) None p u a cs)"
  by (simp add: xml_is_element_def)

lemma is_text_Node [simp]: "\<not> xml_is_text (Node (Some n) t p u a cs)"
  by (simp add: xml_is_text_def)

lemma new_text_kind [simp]: "xml_is_text (xml_new_text s)" "\<not> xml_is_element (xml_new_text s)"
  by (simp_all add: xml_new_text_def xml_is_text_def xml_is_element_def)

lemma add_child_Node [simp]:
  "xml_add_child (Node (Some n) None p u a cs) c = Node (Some n) None p u a (cs @ [c])"
  by (simp add: xml_add_child_def)

lemma copy_children_append:
  assumes "\<And>c n p u a ds. c \<in> set cs \<Longrightarrow>
      xml_copy_into c (Node (Some n) None p u a ds) = Node (Some n) None p u a (ds @ [c])"
  shows "xml_copy_children cs (Node (Some n) None p u a ds) = Node (Some n) None p u a (ds @ cs)"
  using assms by (induction cs arbitrary: ds) auto

lemma copy_into_proper:
  "proper t \<Longrightarrow> xml_copy_into t (Node (Some n) None p u a ds) = Node (Some n) None p u a (ds @ [t])"
proof (induction t arbitrary: n p u a ds)
  case (Node m s q v b cs)
  show ?case
  proof (cases m)
    case None
    then show ?thesis using Node.prems by (auto simp: xml_is_text_def xml_new_text_def)
  next
    case (Some k)
    moreover have "xml_copy_children cs (Node (Some k) None q v b []) = Node (Some k) None q v b cs"
      using copy_children_append [of cs k q v b "[]"] Node Some by simp
    ultimately show ?thesis using Node.prems by simp
  qed
qed

lemma copy_tree_proper: "proper t \<Longrightarrow> xml_copy_tree t = Some t"
  by (erule proper_cases)
     (auto simp: xml_copy_tree_def xml_new_text_def xml_is_text_def copy_children_append copy_into_proper)

section \<open>Searching\<close>

lemma find_element_count:
  "length (find_element name t ns) = element_count name t (length ns)"
  "length (find_element_children name cs ns) = element_count_children name cs (length ns)"
  by (induction name t ns and name cs ns rule: find_element_find_element_children.induct) auto

lemma find_path_count:
  "length (find_path t path ns) = path_count t path (length ns)"
  "length (find_path_children cs path ns) = path_count_children cs path (length ns)"
  by (induction t path ns and cs path ns rule: find_path_find_path_children.induct)
     (auto simp: Let_def split: option.splits)

text \<open>The nodes of a tree in document order.\<close>

fun nodes :: "xml_node \<Rightarrow> xml_node list" where
  "nodes (Node n t p u a cs) = Node n t p u a cs # concat (map nodes cs)"

definition is_named :: "string \<Rightarrow> xml_node \<Rightarrow> bool" where
  "is_named name t \<longleftrightarrow> xml_is_element t \<and> nd_name t = Some name"

lemma is_named_Node [simp]:
  "is_named name (Node (Some k) None p u a cs) \<longleftrightarrow> k = name" "\<not> is_named name (Node None s p u a cs)"
  by (auto simp: is_named_def xml_is_element_def)

lemma find_element_children_append:
  assumes "\<And>c ns. c \<in> set cs \<Longrightarrow> find_element name c ns = ns @ filter (is_named name) (nodes c)"
  shows "find_element_children name cs ns = ns @ filter (is_named name) (concat (map nodes cs))"
  using assms by (induction cs arbitrary: ns) auto

lemma find_element_nodes:
  "proper t \<Longrightarrow> find_element name t ns = ns @ filter (is_named name) (nodes t)"
proof (induction t arbitrary: ns)
  case (Node m s q v b cs)
  show ?case
  proof (cases m)
    case None
    then show ?thesis using Node.prems by (auto simp: xml_is_element_def)
  next
    case (Some k)
    then show ?thesis
      using Node find_element_children_append [of cs name] by auto
  qed
qed

text \<open>A path as the list of its steps, and what it selects.\<close>

definition path_string :: "(string option \<times> string) list \<Rightarrow> string" where
  "path_string steps = concat (map (\<lambda>(p, n). CHR ''/'' # qname p n) steps)"

definition step_ok :: "string option \<times> string \<Rightarrow> bool" where
  "step_ok st \<longleftrightarrow> (case st of (p, n) \<Rightarrow>
     CHR ''/'' \<notin> set n \<and> CHR '':'' \<notin> set n \<and> (\<forall>q. p = Some q \<longrightarrow> CHR ''/'' \<notin> set q \<and> CHR '':'' \<notin> set q))"

fun select :: "(string option \<times> string) list \<Rightarrow> xml_node \<Rightarrow> xml_node list" where
  "select [] t = []"
| "select ((p, n) # steps) t =
     (if xml_is_element t \<and> nd_prefix t = p \<and> nd_name t = Some n
      then (if steps = [] then [t] else concat (map (select steps) (nd_child t)))
      else [])"

lemma path_string_simps [simp]:
  "path_string [] = []" "path_string ((p, n) # steps) = CHR ''/'' # qname p n @ path_string steps"
  by (simp_all add: path_string_def)

lemma path_string_slash: "steps \<noteq> [] \<Longrightarrow> \<exists>r. path_string steps = CHR ''/'' # r"
  by (cases steps) auto

lemma path_step_string:
  assumes "step_ok (p, n)"
  shows "path_step (qname p n @ path_string steps) =
    (p, n, if steps = [] then None else Some (path_string steps))"
proof (cases "steps = []")
  case True
  then show ?thesis
    using assms by (cases p) (auto simp: path_step_def step_ok_def qname_def)
next
  case False
  then obtain r where r: "path_string steps = CHR ''/'' # r" using path_string_slash by blast
  have slash: "strchr (qname p n @ CHR ''/'' # r) (CHR ''/'') = Some (length (qname p n))"
    using assms by (intro strchr_first) (auto simp: step_ok_def qname_def split: option.splits)
  show ?thesis
  proof (cases p)
    case None
    have "strchr (n @ CHR ''/'' # r) (CHR '':'') = map_option (\<lambda>i. length n + i) (strchr (CHR ''/'' # r) (CHR '':''))"
      using assms by (intro strchr_append) (simp add: step_ok_def)
    then show ?thesis
      using assms slash None False by (auto simp: path_step_def r qname_def split: option.splits)
  next
    case (Some q)
    then show ?thesis using assms slash False by (auto simp: path_step_def r qname_def step_ok_def)
  qed
qed

lemma find_path_children_append:
  assumes "\<And>c ns. c \<in> set cs \<Longrightarrow> find_path c path ns = ns @ f c"
  shows "find_path_children cs path ns = ns @ concat (map f cs)"
  using assms by (induction cs arbitrary: ns) auto

lemma find_path_select:
  assumes "\<forall>st \<in> set steps. step_ok st"
  shows "find_path t (path_string steps) ns = ns @ select steps t"
  using assms
proof (induction steps arbitrary: t ns)
  case Nil
  then show ?case by (cases t) simp
next
  case (Cons st steps)
  obtain p n where st: "st = (p, n)" by (cases st)
  obtain m s q v b cs where t: "t = Node m s q v b cs" by (cases t)
  have "find_path_children cs (path_string steps) ns = ns @ concat (map (select steps) cs)"
    by (rule find_path_children_append) (rule Cons.IH, use Cons.prems in simp)
  then show ?case
    using Cons.prems path_step_string [of p n steps] by (auto simp: st t step_matches_def)
qed

end
