(* ===== verification/Xml_Tags.thy ===== *)
theory Xml_Tags
  imports Xml_Facts
begin

text \<open>
  Reading back a tag: what the searches of \<^verbatim>\<open>component/common/utilities/xml.c\<close>
  find in concatenated strings, stripping of blanks, and that a printed tag is taken apart into the
  prefix, name, URI and attributes it was printed from.
\<close>

section \<open>Where a pattern does not start\<close>

text \<open>\<open>free_of pat s r\<close>: no occurrence of \<open>pat\<close> in \<open>s @ r\<close> starts inside \<open>s\<close>.\<close>

definition free_of :: "string \<Rightarrow> string \<Rightarrow> string \<Rightarrow> bool" where
  "free_of pat s r \<longleftrightarrow> (\<forall>j < length s. \<not> prefix pat (drop j (s @ r)))"

lemma free_of_Nil [simp]: "free_of pat [] r"
  by (simp add: free_of_def)

lemma free_of_append:
  assumes "free_of pat s (t @ r)" and "free_of pat t r"
  shows "free_of pat (s @ t) r"
  unfolding free_of_def
proof (intro allI impI)
  fix j assume j: "j < length (s @ t)"
  show "\<not> prefix pat (drop j ((s @ t) @ r))"
  proof (cases "j < length s")
    case True
    then show ?thesis using assms(1) by (simp add: free_of_def)
  next
    case False
    then have "drop j ((s @ t) @ r) = drop (j - length s) (t @ r)" by simp
    then show ?thesis using assms(2) j False by (simp add: free_of_def)
  qed
qed

lemma free_of_no_head:
  assumes "c \<notin> set s"
  shows "free_of (c # pat) s r"
  unfolding free_of_def
proof (intro allI impI)
  fix j assume "j < length s"
  moreover from this have "s ! j \<noteq> c" using assms nth_mem by blast
  ultimately have "hd (drop j (s @ r)) \<noteq> c" by (simp add: hd_drop_conv_nth nth_append)
  then show "\<not> prefix (c # pat) (drop j (s @ r))"
    by (cases "drop j (s @ r)") auto
qed

lemma free_of_Cons:
  assumes "\<not> prefix (c # pat) (x # s @ r)" and "c \<notin> set s"
  shows "free_of (c # pat) (x # s) r"
proof -
  have "free_of (c # pat) [x] (s @ r)" using assms(1) by (simp add: free_of_def)
  then show ?thesis using free_of_append [of "c # pat" "[x]" s r] free_of_no_head [OF assms(2)] by simp
qed

lemma xml_strstr_free:
  assumes "free_of pat s (pat @ r)"
  shows "xml_strstr (s @ pat @ r) pat = Some (length s)"
  using assms by (simp add: xml_strstr_Some free_of_def)

lemma xml_strstr_free_None:
  assumes "free_of pat s []" and "pat \<noteq> []"
  shows "xml_strstr s pat = None"
proof -
  have "\<not> sublist pat s"
  proof
    assume "sublist pat s"
    then obtain a b where "s = a @ pat @ b" by (auto simp: sublist_def)
    then have "length a < length s" "prefix pat (drop (length a) (s @ []))" using assms(2) by auto
    then show False using assms(1) by (auto simp: free_of_def)
  qed
  then show ?thesis by (simp add: xml_strstr_None)
qed

lemma prefix_drop_append:
  fixes pat :: string
  assumes "hd pat \<notin> set a" and "pat \<noteq> []" and "j < length a"
  shows "\<not> prefix pat (drop j (a @ s))"
  using free_of_no_head [of "hd pat" a "tl pat" s] assms by (simp add: free_of_def)

lemma xml_strstr_skip:
  assumes "hd pat \<notin> set a" and "pat \<noteq> []"
  shows "xml_strstr (a @ s) pat = map_option (\<lambda>i. length a + i) (xml_strstr s pat)"
proof (cases "xml_strstr s pat")
  case None
  have "\<not> sublist pat (a @ s)"
  proof
    assume "sublist pat (a @ s)"
    then obtain x y where xy: "a @ s = x @ pat @ y" by (auto simp: sublist_def)
    then have p: "prefix pat (drop (length x) (a @ s))" by simp
    then have "length a \<le> length x" using prefix_drop_append [OF assms, of "length x" s] by (meson leI)
    then have "prefix pat (drop (length x - length a) s)" using p by simp
    then have "sublist pat s" using sublist_drop prefix_imp_sublist sublist_order.order.trans by blast
    then show False using None by (simp add: xml_strstr_None)
  qed
  then have "xml_strstr (a @ s) pat = None" by (simp add: xml_strstr_None)
  then show ?thesis using None by simp
next
  case (Some i)
  have "\<not> prefix pat (drop j (a @ s))" if "j < length a + i" for j
  proof (cases "j < length a")
    case True
    then show ?thesis using prefix_drop_append [OF assms] by blast
  next
    case False
    then show ?thesis using Some that by (simp add: xml_strstr_Some)
  qed
  then have "xml_strstr (a @ s) pat = Some (length a + i)" using Some by (simp add: xml_strstr_Some)
  then show ?thesis using Some by simp
qed

section \<open>Stripping\<close>

lemma str_strip_id:
  assumes "s \<noteq> []" and "hd s \<noteq> CHR '' ''" and "last s \<noteq> CHR '' ''"
  shows "str_strip s = Some s"
proof -
  have "dropWhile (\<lambda>c. c = CHR '' '') s = s" using assms(1,2) by (cases s) auto
  moreover have "dropWhile (\<lambda>c. c = CHR '' '') (rev s) = rev s"
    using assms(1,3) by (cases s rule: rev_cases) auto
  ultimately show ?thesis using assms(1) by (simp add: str_strip_def)
qed

lemma str_strip_blank: "s \<noteq> [] \<Longrightarrow> str_strip (CHR '' '' # s) = str_strip s"
  by (simp add: str_strip_def)

section \<open>Tags\<close>

definition name_ok :: "string \<Rightarrow> bool" where
  "name_ok s \<longleftrightarrow> s \<noteq> [] \<and> hd s \<noteq> CHR ''?'' \<and> hd s \<noteq> CHR ''!'' \<and>
     CHR '' '' \<notin> set s \<and> CHR ''<'' \<notin> set s \<and> CHR ''>'' \<notin> set s \<and> CHR ''/'' \<notin> set s \<and> CHR '':'' \<notin> set s \<and> NUL \<notin> set s"

definition attr_ok :: "string \<Rightarrow> bool" where
  "attr_ok s \<longleftrightarrow> s \<noteq> [] \<and> hd s \<noteq> CHR '' '' \<and> last s \<noteq> CHR '' '' \<and> last s \<noteq> CHR ''/'' \<and>
     CHR ''<'' \<notin> set s \<and> CHR ''>'' \<notin> set s \<and> NUL \<notin> set s"

text \<open>The URI of a node is the value of its name space attribute.\<close>

definition ns_pattern :: "string option \<Rightarrow> string" where
  "ns_pattern pfx = (case pfx of Some p \<Rightarrow> '' xmlns:'' @ p | None \<Rightarrow> '' xmlns'')"

definition uri_ok :: "string option \<Rightarrow> string option \<Rightarrow> string option \<Rightarrow> bool" where
  "uri_ok pfx attr uri \<longleftrightarrow>
     (case attr of
        None \<Rightarrow> uri = None
      | Some x \<Rightarrow>
          (case xml_strstr (CHR '' '' # x) (ns_pattern pfx) of
             None \<Rightarrow> uri = None
           | Some i \<Rightarrow> uri \<noteq> None \<and> ns_uri (drop i (CHR '' '' # x)) = uri))"

definition tag_ok :: "string option \<Rightarrow> string \<Rightarrow> string option \<Rightarrow> bool" where
  "tag_ok pfx name attr \<longleftrightarrow> name_ok name \<and> (\<forall>p. pfx = Some p \<longrightarrow> name_ok p) \<and> (\<forall>a. attr = Some a \<longrightarrow> attr_ok a)"

definition attr_part :: "string option \<Rightarrow> string" where
  "attr_part attr = (case attr of None \<Rightarrow> [] | Some a \<Rightarrow> CHR '' '' # a)"

definition tag_text :: "string option \<Rightarrow> string \<Rightarrow> string option \<Rightarrow> string" where
  "tag_text pfx name attr = qname pfx name @ attr_part attr"

lemma start_tag_text: "start_tag pfx name attr = ''<'' @ tag_text pfx name attr @ ''>''"
  by (auto simp: start_tag_def tag_text_def qname_def attr_part_def split: option.splits)

lemma NUL_neq [simp]:
  "CHR '' '' \<noteq> NUL" "CHR ''<'' \<noteq> NUL" "CHR ''>'' \<noteq> NUL" "CHR ''/'' \<noteq> NUL" "CHR '':'' \<noteq> NUL" "CHR 0x0A \<noteq> NUL"
  "NUL \<noteq> CHR '' ''" "NUL \<noteq> CHR ''<''" "NUL \<noteq> CHR ''>''" "NUL \<noteq> CHR ''/''" "NUL \<noteq> CHR '':''" "NUL \<noteq> CHR 0x0A"
  by (simp_all add: NUL_def)

lemma qname_chars:
  assumes "tag_ok pfx name attr"
  shows "CHR '' '' \<notin> set (qname pfx name)" "CHR ''<'' \<notin> set (qname pfx name)" "CHR ''>'' \<notin> set (qname pfx name)"
    "CHR ''/'' \<notin> set (qname pfx name)" "NUL \<notin> set (qname pfx name)"
  using assms by (cases pfx; simp add: tag_ok_def name_ok_def qname_def)+

lemma qname_head:
  assumes "tag_ok pfx name attr"
  shows "qname pfx name \<noteq> []" "hd (qname pfx name) \<noteq> CHR ''?''" "hd (qname pfx name) \<noteq> CHR ''!''"
    "hd (qname pfx name) \<noteq> CHR ''/''"
proof -
  show ne: "qname pfx name \<noteq> []" using assms by (cases pfx) (simp_all add: tag_ok_def name_ok_def qname_def)
  show "hd (qname pfx name) \<noteq> CHR ''?''" "hd (qname pfx name) \<noteq> CHR ''!''"
    using assms by (cases pfx; simp add: tag_ok_def name_ok_def qname_def)+
  show "hd (qname pfx name) \<noteq> CHR ''/''" using qname_chars(4) [OF assms] hd_in_set [OF ne] by metis
qed

lemma tag_text_chars:
  assumes "tag_ok pfx name attr"
  shows "CHR ''<'' \<notin> set (tag_text pfx name attr)" "CHR ''>'' \<notin> set (tag_text pfx name attr)"
    "NUL \<notin> set (tag_text pfx name attr)"
  using qname_chars [OF assms] assms
  by (cases attr; simp add: tag_ok_def tag_text_def attr_part_def attr_ok_def)+

lemma tag_text_last:
  assumes "tag_ok pfx name attr"
  shows "tag_text pfx name attr \<noteq> []" "last (tag_text pfx name attr) \<noteq> CHR ''/''"
proof -
  show "tag_text pfx name attr \<noteq> []" using qname_head(1) [OF assms] by (simp add: tag_text_def)
  have "last (qname pfx name) \<noteq> CHR ''/''"
    using qname_chars(4) [OF assms] last_in_set [OF qname_head(1) [OF assms]] by metis
  then show "last (tag_text pfx name attr) \<noteq> CHR ''/''"
    using assms by (cases attr) (simp_all add: tag_text_def attr_part_def tag_ok_def attr_ok_def)
qed

lemma name_strip:
  assumes "name_ok n"
  shows "str_strip n = Some n"
proof (rule str_strip_id)
  show ne: "n \<noteq> []" using assms by (simp add: name_ok_def)
  show "hd n \<noteq> CHR '' ''" "last n \<noteq> CHR '' ''"
    using assms hd_in_set [OF ne] last_in_set [OF ne] unfolding name_ok_def by metis+
qed

lemma tag_rest_ok:
  assumes "name_ok n" and "\<forall>a. attr = Some a \<longrightarrow> attr_ok a"
  shows "tag_rest p u (n @ attr_part attr) = (p, Some n, u, attr)"
proof (cases attr)
  case None
  moreover have "strchr n (CHR '' '') = None" using assms(1) by (simp add: name_ok_def)
  ultimately show ?thesis using assms(1) by (simp add: tag_rest_def attr_part_def name_strip)
next
  case (Some a)
  then have "str_strip (CHR '' '' # a) = Some a"
    using assms(2) by (simp add: attr_ok_def str_strip_blank str_strip_id)
  moreover have "CHR '' '' \<notin> set n" using assms(1) by (simp add: name_ok_def)
  ultimately show ?thesis using Some assms(1) by (simp add: tag_rest_def attr_part_def name_strip)
qed

text \<open>The search for the name space attribute passes over the name.\<close>

lemma strstr_tag_text:
  assumes "tag_ok pfx name attr"
  shows "xml_strstr (tag_text pfx name attr) (ns_pattern pfx) =
    map_option (\<lambda>i. length (qname pfx name) + i) (xml_strstr (attr_part attr) (ns_pattern pfx))"
proof -
  have "hd (ns_pattern pfx) = CHR '' ''" "ns_pattern pfx \<noteq> []" by (auto simp: ns_pattern_def split: option.splits)
  moreover have "CHR '' '' \<notin> set (qname pfx name)" using qname_chars(1) [OF assms] .
  ultimately show ?thesis unfolding tag_text_def by (intro xml_strstr_skip) auto
qed

lemma uri_of_tag:
  assumes "tag_ok pfx name attr" and "uri_ok pfx attr uri"
  shows "(case xml_strstr (tag_text pfx name attr) (ns_pattern pfx) of
      Some i \<Rightarrow> map_option Some (ns_uri (drop i (tag_text pfx name attr)))
    | None \<Rightarrow> Some None) = Some uri"
proof -
  have "xml_strstr [] (ns_pattern pfx) = None" by (auto simp: xml_strstr_None ns_pattern_def split: option.splits)
  then show ?thesis
    using assms(2) unfolding strstr_tag_text [OF assms(1)]
    by (auto simp: uri_ok_def attr_part_def tag_text_def split: option.splits)
qed

definition ns_of :: "string option \<Rightarrow> string \<Rightarrow> string option option" where
  "ns_of pfx t =
     (case xml_strstr t (ns_pattern pfx) of
        Some i \<Rightarrow> map_option Some (ns_uri (drop i t))
      | None \<Rightarrow> Some None)"

lemma xml_parse_tag_plain:
  assumes "\<not> (case strchr t (CHR '':'') of None \<Rightarrow> False
            | Some i \<Rightarrow> (case strchr t (CHR '' '') of None \<Rightarrow> True | Some j \<Rightarrow> i < j))"
  shows "xml_parse_tag t = map_option (\<lambda>u. tag_rest None u t) (ns_of None t)"
  using assms unfolding xml_parse_tag_def Let_def if_not_P [OF assms]
  by (simp add: ns_pattern_def ns_of_def split: option.split)

lemma xml_parse_tag_prefixed:
  assumes "strchr t (CHR '':'') = Some i" and "case strchr t (CHR '' '') of None \<Rightarrow> True | Some j \<Rightarrow> i < j"
    and "str_strip (take i t) = Some p"
  shows "xml_parse_tag t = map_option (\<lambda>u. tag_rest (Some p) u (drop (i + 1) t)) (ns_of (Some p) t)"
proof -
  have "(case strchr t (CHR '':'') of None \<Rightarrow> False
            | Some i \<Rightarrow> (case strchr t (CHR '' '') of None \<Rightarrow> True | Some j \<Rightarrow> i < j))"
    using assms(1,2) by simp
  then show ?thesis
    unfolding xml_parse_tag_def Let_def
    by (subst if_P, assumption)
       (simp add: assms(1,3) ns_pattern_def ns_of_def split: option.split)
qed

lemma parse_tag_text:
  assumes "tag_ok pfx name attr" and "uri_ok pfx attr uri"
  shows "xml_parse_tag (tag_text pfx name attr) = Some (pfx, Some name, uri, attr)"
proof -
  let ?t = "tag_text pfx name attr"
  have ok: "name_ok name" "\<forall>a. attr = Some a \<longrightarrow> attr_ok a" using assms(1) by (simp_all add: tag_ok_def)
  note rest = tag_rest_ok [OF ok]
  have ns: "ns_of pfx ?t = Some uri" using uri_of_tag [OF assms] by (simp add: ns_of_def)
  show ?thesis
  proof (cases pfx)
    case None
    have "CHR '':'' \<notin> set name" "CHR '' '' \<notin> set name" using ok(1) by (simp_all add: name_ok_def)
    then have "\<not> (case strchr ?t (CHR '':'') of None \<Rightarrow> False
            | Some i \<Rightarrow> (case strchr ?t (CHR '' '') of None \<Rightarrow> True | Some j \<Rightarrow> i < j))"
      using None by (cases attr) (simp_all add: tag_text_def qname_def attr_part_def strchr_append split: option.split)
    from xml_parse_tag_plain [OF this] show ?thesis
      using ns None rest [of None uri] by (simp add: tag_text_def qname_def)
  next
    case (Some p)
    have p: "name_ok p" "CHR '':'' \<notin> set p" "CHR '' '' \<notin> set p"
      using assms(1) Some by (simp_all add: tag_ok_def name_ok_def)
    have t: "?t = p @ CHR '':'' # name @ attr_part attr" using Some by (simp add: tag_text_def qname_def)
    have c: "strchr ?t (CHR '':'') = Some (length p)" using p(2) by (simp add: t)
    have b: "(case strchr ?t (CHR '' '') of None \<Rightarrow> True | Some j \<Rightarrow> length p < j)"
      using p(3) by (simp add: t strchr_append split: option.split)
    have "str_strip (take (length p) ?t) = Some p" using name_strip [OF p(1)] by (simp add: t)
    from xml_parse_tag_prefixed [OF c b this] show ?thesis
      using ns Some rest [of "Some p" uri] by (simp add: t [unfolded Some])
  qed
qed

end
