(* ===== verification/Xml_Reparse.thy ===== *)
theory Xml_Reparse
  imports Xml_Tags
begin

text \<open>
  Parsing what was printed: \<open>printable\<close> describes the trees that the parser of
  \<^verbatim>\<open>component/common/utilities/xml.c\<close> gives back, at every level of indentation.
\<close>

section \<open>Printable trees\<close>

text \<open>The qualified names of the elements of a tree.\<close>

fun elem_names :: "xml_node \<Rightarrow> string set" where
  "elem_names (Node n t p u a cs) =
     (case n of Some m \<Rightarrow> {qname p m} | None \<Rightarrow> {}) \<union> (\<Union>c \<in> set cs. elem_names c)"

text \<open>A text that comes back: an empty one is printed as nothing, and a \<open><\<close> starts a tag.\<close>

definition text_ok :: "string \<Rightarrow> bool" where
  "text_ok s \<longleftrightarrow> s \<noteq> [] \<and> CHR ''<'' \<notin> set s \<and> NUL \<notin> set s"

text \<open>
  The children are elements only or one text, which is not empty; the name of an element does not come again below it,
  because the parser takes the first closing tag with the name.
\<close>

fun printable :: "xml_node \<Rightarrow> bool" where
  "printable (Node (Some m) None p u a cs) \<longleftrightarrow>
     tag_ok p m a \<and> uri_ok p a u \<and> (\<forall>c \<in> set cs. qname p m \<notin> elem_names c) \<and>
     ((\<forall>c \<in> set cs. printable c) \<or> (\<exists>s. cs = [xml_new_text s] \<and> text_ok s))"
| "printable _ \<longleftrightarrow> False"

lemma printable_cases:
  assumes "printable t"
  obtains m p u a cs where "t = Node (Some m) None p u a cs"
  using assms by (cases t rule: printable.cases) auto

lemma printable_element: "printable t \<Longrightarrow> xml_is_element t"
  by (erule printable_cases) simp

lemma indent_chars: "CHR ''<'' \<notin> set (indent n sp)" "NUL \<notin> set (indent n sp)"
  by (auto simp: indent_def)

lemma lead_chars: "CHR ''<'' \<notin> set (lead l sp c)" "NUL \<notin> set (lead l sp c)"
  by (simp_all add: lead_def indent_chars)

lemma trail_chars: "CHR ''<'' \<notin> set (trail l sp cs)" "NUL \<notin> set (trail l sp cs)"
  by (simp_all add: trail_def indent_chars)

lemma out_Node:
  "out l sp (Node (Some m) None p u a cs) = start_tag p m a @ outs l sp cs @ trail l sp cs @ end_tag1 p m"
  by (simp add: out_element)

lemma out_new_text: "out l sp (xml_new_text s) = s"
  by (simp add: out_text) (simp add: xml_new_text_def)

lemma text_children: "outs l sp [xml_new_text s] = s" "trail l sp [xml_new_text s] = []"
  by (simp_all add: lead_def out_new_text trail_def)

section \<open>Closing tags\<close>

text \<open>A pattern that starts with \<open><\<close> and does not fit the tags of a tree does not occur in its text.\<close>

lemma free_of_outs:
  assumes "\<And>c l r. c \<in> set cs \<Longrightarrow> free_of (CHR ''<'' # pat) (out l sp c) r"
  shows "free_of (CHR ''<'' # pat) (outs l sp cs) r"
  using assms
proof (induction cs arbitrary: r)
  case (Cons c cs)
  then show ?case
    by (simp add: free_of_append free_of_no_head lead_chars(1))
qed simp

lemma free_of_children:
  assumes "\<And>c l r. c \<in> set cs \<Longrightarrow> printable c \<Longrightarrow> free_of (CHR ''<'' # pat) (out l sp c) r"
    and "printable (Node (Some m) None p u a cs)"
  shows "free_of (CHR ''<'' # pat) (outs l sp cs @ trail l sp cs) r"
proof (cases "\<forall>c \<in> set cs. printable c")
  case True
  then have "free_of (CHR ''<'' # pat) (outs l sp cs) (trail l sp cs @ r)" using assms(1) by (intro free_of_outs) blast
  then show ?thesis by (rule free_of_append) (rule free_of_no_head, rule trail_chars)
next
  case False
  then obtain s where s: "cs = [xml_new_text s]" "text_ok s" using assms(2) by auto
  then show ?thesis by (simp add: text_children free_of_no_head text_ok_def del: outs_simps)
qed

lemma free_of_start_tag:
  assumes "tag_ok p m a" and "c \<in> {CHR ''/'', CHR ''?'', CHR ''!''}"
  shows "free_of (CHR ''<'' # c # pat) (start_tag p m a) r"
proof -
  have "hd (tag_text p m a) \<noteq> c" using qname_head [OF assms(1)] assms(2) by (auto simp: tag_text_def)
  then have "\<not> prefix (CHR ''<'' # c # pat) (CHR ''<'' # (tag_text p m a @ ''>'') @ r)"
    using tag_text_last(1) [OF assms(1)] by (cases "tag_text p m a") auto
  then show ?thesis
    using free_of_Cons tag_text_chars(1) [OF assms(1)] by (simp add: start_tag_text)
qed

lemma free_of_end_tag:
  assumes "tag_ok p m a" and "\<not> prefix pat (CHR ''/'' # qname p m @ CHR ''>'' # r)"
  shows "free_of (CHR ''<'' # pat) (end_tag1 p m) r"
proof -
  have "free_of (CHR ''<'' # pat) (CHR ''<'' # (CHR ''/'' # qname p m @ ''>'')) r"
    by (rule free_of_Cons) (use assms qname_chars(2) [OF assms(1)] in auto)
  then show ?thesis by (simp add: end_tag1_def)
qed

lemma free_of_tree:
  assumes "printable t" and "c \<in> {CHR ''/'', CHR ''?'', CHR ''!''}"
    and "\<And>q r. q \<in> elem_names t \<Longrightarrow> \<not> prefix (c # pat) (CHR ''/'' # q @ CHR ''>'' # r)"
  shows "free_of (CHR ''<'' # c # pat) (out l sp t) r"
  using assms(1,3)
proof (induction t arbitrary: l r)
  case (Node n s p u a cs l r)
  obtain m where n: "n = Some m" "s = None" using Node.prems(1) by (auto elim: printable_cases)
  have tag: "tag_ok p m a" using Node.prems(1) n by simp
  have q: "qname p m \<in> elem_names (Node n s p u a cs)" using n by simp
  have "free_of (CHR ''<'' # c # pat) (outs l sp cs @ trail l sp cs) r" for r
  proof (rule free_of_children)
    show "printable (Node (Some m) None p u a cs)" using Node.prems(1) n by simp
    fix d l r assume d: "d \<in> set cs" "printable d"
    then have "q \<in> elem_names d \<Longrightarrow> q \<in> elem_names (Node n s p u a cs)" for q by auto
    then show "free_of (CHR ''<'' # c # pat) (out l sp d) r"
      using Node.IH [OF d] Node.prems(2) by blast
  qed
  moreover have "free_of (CHR ''<'' # c # pat) (end_tag1 p m) r"
    by (rule free_of_end_tag [OF tag]) (rule Node.prems(2) [OF q])
  ultimately have "free_of (CHR ''<'' # c # pat) ((outs l sp cs @ trail l sp cs) @ end_tag1 p m) r"
    using free_of_append by blast
  with free_of_start_tag [OF tag assms(2)] show ?case
    using free_of_append [of _ "start_tag p m a" "(outs l sp cs @ trail l sp cs) @ end_tag1 p m" r] n
    by (simp add: out_Node)
qed

lemma elem_names_chars: "printable t \<Longrightarrow> q \<in> elem_names t \<Longrightarrow> CHR ''>'' \<notin> set q"
proof (induction t)
  case (Node n s p u a cs)
  obtain m where n: "n = Some m" "s = None" using Node.prems(1) by (auto elim: printable_cases)
  have tag: "tag_ok p m a" using Node.prems(1) n by simp
  show ?case
  proof (cases "q = qname p m")
    case True
    then show ?thesis using qname_chars(3) [OF tag] by simp
  next
    case False
    then obtain c where "c \<in> set cs" "q \<in> elem_names c" using Node.prems(2) n by auto
    moreover from this have "printable c" using Node.prems(1) n by (auto simp: xml_new_text_def)
    ultimately show ?thesis using Node.IH by blast
  qed
qed

lemma prefix_name_inj:
  assumes "CHR ''>'' \<notin> set q" and "CHR ''>'' \<notin> set q'" and "prefix (q @ ''>'') (q' @ CHR ''>'' # r)"
  shows "q = q'"
proof -
  have t: "takeWhile (\<lambda>c. c \<noteq> CHR ''>'') (x @ CHR ''>'' # z) = x" if "CHR ''>'' \<notin> set x" for x z
    using that by (induction x) auto
  obtain z where "q' @ CHR ''>'' # r = (q @ ''>'') @ z" using assms(3) unfolding prefix_def by blast
  then have "q' @ CHR ''>'' # r = q @ CHR ''>'' # z" by simp
  then show ?thesis using t [OF assms(1)] t [OF assms(2)] by metis
qed

text \<open>The first closing tag of an element behind its start tag is its own.\<close>

lemma find_end_own:
  assumes "printable (Node (Some m) None p u a cs)"
  shows "find_end (outs l sp cs @ trail l sp cs @ end_tag1 p m @ r) p m =
    Some (length (outs l sp cs @ trail l sp cs))"
proof -
  have tag: "tag_ok p m a" using assms by simp
  have "free_of (CHR ''<'' # CHR ''/'' # qname p m @ ''>'') (outs l sp cs @ trail l sp cs) (end_tag1 p m @ r)"
  proof (rule free_of_children [OF _ assms])
    fix c l r assume c: "c \<in> set cs" "printable c"
    have "qname p m \<notin> elem_names c" using assms c by simp
    then show "free_of (CHR ''<'' # CHR ''/'' # qname p m @ ''>'') (out l sp c) r"
      using prefix_name_inj [OF qname_chars(3) [OF tag] elem_names_chars [OF c(2)]]
      by (intro free_of_tree [OF c(2)]) auto
  qed
  then have "xml_strstr ((outs l sp cs @ trail l sp cs) @ end_tag1 p m @ r) (end_tag1 p m) =
      Some (length (outs l sp cs @ trail l sp cs))"
    by (intro xml_strstr_free) (simp add: end_tag1_def)
  then show ?thesis by (simp add: find_end_def)
qed

section \<open>Parsing\<close>

text \<open>One round of the parser at an element with content.\<close>

lemma parse_loop_element:
  assumes "CHR ''<'' \<notin> set w" and "CHR ''>'' \<notin> set tag" and "tag \<noteq> []" and "last tag \<noteq> CHR ''/''"
    and "xml_parse_tag tag = Some (pfx, Some name, uri, attr)" and "find_end doc pfx name = Some k"
    and "parse_loop (take k doc) (Some (Node (Some name) None pfx uri attr [])) = Some (Some node)"
    and "strchr (drop k doc) (CHR ''>'') = Some g"
  shows "parse_loop (w @ CHR ''<'' # tag @ CHR ''>'' # doc) root =
    (case root of None \<Rightarrow> Some (Some node) | Some r \<Rightarrow> parse_loop (drop (k + g + 1) doc) (Some (xml_add_child r node)))"
proof -
  have "(tag @ CHR ''>'' # doc) ! (length tag - 1) \<noteq> CHR ''/''"
    using assms(3,4) by (simp add: nth_append last_conv_nth)
  then show ?thesis
    using assms by (subst parse_loop.simps) (simp split: option.split)
qed

lemma parse_children:
  assumes "\<And>c w l r root. c \<in> set cs \<Longrightarrow> CHR ''<'' \<notin> set w \<Longrightarrow> parse_loop (w @ out l sp c @ r) root =
      (case root of None \<Rightarrow> Some (Some c) | Some R \<Rightarrow> parse_loop r (Some (xml_add_child R c)))"
    and "CHR ''<'' \<notin> set tr" and "cs @ ds \<noteq> [] \<or> tr = []"
  shows "parse_loop (outs l sp cs @ tr) (Some (Node (Some m) None p u a ds)) = Some (Some (Node (Some m) None p u a (ds @ cs)))"
  using assms
proof (induction cs arbitrary: ds)
  case Nil
  then show ?case by (subst parse_loop.simps) (auto simp: add_text_def)
next
  case (Cons c cs)
  have "parse_loop (outs l sp (c # cs) @ tr) (Some (Node (Some m) None p u a ds)) =
      parse_loop (outs l sp cs @ tr) (Some (Node (Some m) None p u a (ds @ [c])))"
    using Cons.prems(1) [of c "lead l sp c" "next_level l" "outs l sp cs @ tr"] by (simp add: lead_chars(1))
  also have "\<dots> = Some (Some (Node (Some m) None p u a (ds @ [c] @ cs)))"
    using Cons.IH [of "ds @ [c]"] Cons.prems by simp
  finally show ?case by simp
qed

lemma parse_inner:
  assumes "\<And>c w l r root. c \<in> set cs \<Longrightarrow> printable c \<Longrightarrow> CHR ''<'' \<notin> set w \<Longrightarrow> parse_loop (w @ out l sp c @ r) root =
      (case root of None \<Rightarrow> Some (Some c) | Some R \<Rightarrow> parse_loop r (Some (xml_add_child R c)))"
    and "printable (Node (Some m) None p u a cs)"
  shows "parse_loop (outs l sp cs @ trail l sp cs) (Some (Node (Some m) None p u a [])) = Some (Some (Node (Some m) None p u a cs))"
proof (cases "\<forall>c \<in> set cs. printable c")
  case True
  have "cs @ [] \<noteq> [] \<or> trail l sp cs = []" by (simp add: trail_def)
  from parse_children [OF _ trail_chars(1) this] True assms(1) show ?thesis by simp
next
  case False
  then obtain s where s: "cs = [xml_new_text s]" "text_ok s" using assms(2) by auto
  then have "CHR ''<'' \<notin> set s" "s \<noteq> []" by (auto simp: text_ok_def)
  then show ?thesis unfolding s(1) text_children
    by (subst parse_loop.simps) (simp add: add_text_def)
qed

lemma parse_tree:
  assumes "printable t" and "CHR ''<'' \<notin> set w"
  shows "parse_loop (w @ out l sp t @ r) root =
    (case root of None \<Rightarrow> Some (Some t) | Some R \<Rightarrow> parse_loop r (Some (xml_add_child R t)))"
  using assms
proof (induction t arbitrary: w l r root)
  case (Node n s p u a cs)
  obtain m where n: "n = Some m" "s = None" using Node.prems(1) by (auto elim: printable_cases)
  have pr: "printable (Node (Some m) None p u a cs)" using Node.prems(1) n by simp
  have tag: "tag_ok p m a" "uri_ok p a u" using pr by simp_all
  let ?inner = "outs l sp cs @ trail l sp cs"
  let ?doc = "?inner @ end_tag1 p m @ r"
  have inner: "parse_loop (take (length ?inner) ?doc) (Some (Node (Some m) None p u a [])) = Some (Some (Node n s p u a cs))"
    using parse_inner [OF Node.IH pr] n by simp
  have close: "strchr (drop (length ?inner) ?doc) (CHR ''>'') = Some (length (end_tag1 p m) - 1)"
    using qname_chars(3) [OF tag(1)] by (simp add: end_tag1_def)
  have "find_end ?doc p m = Some (length ?inner)" using find_end_own [OF pr] by simp
  from parse_loop_element [OF Node.prems(2) tag_text_chars(2) [OF tag(1)] tag_text_last [OF tag(1)]
      parse_tag_text [OF tag] this inner close, of root]
  have "parse_loop (w @ CHR ''<'' # tag_text p m a @ CHR ''>'' # ?doc) root =
      (case root of None \<Rightarrow> Some (Some (Node n s p u a cs))
       | Some R \<Rightarrow> parse_loop (drop (length ?inner + (length (end_tag1 p m) - 1) + 1) ?doc) (Some (xml_add_child R (Node n s p u a cs))))" .
  moreover have "drop (length ?inner + (length (end_tag1 p m) - 1) + 1) ?doc = r"
  proof -
    have "length (end_tag1 p m) - 1 + 1 = length (end_tag1 p m)" by (simp add: end_tag1_def)
    then show ?thesis unfolding add.assoc by simp
  qed
  moreover have "w @ CHR ''<'' # tag_text p m a @ CHR ''>'' # ?doc = w @ out l sp (Node n s p u a cs) @ r"
    using n by (simp add: out_Node start_tag_text)
  ultimately show ?case by (simp only:)
qed

section \<open>The prolog\<close>

lemma free_of_instruction:
  assumes "printable t" and "c \<in> {CHR ''?'', CHR ''!''}"
  shows "xml_strstr (out l sp t) [CHR ''<'', c] = None"
proof (rule xml_strstr_free_None)
  show "free_of [CHR ''<'', c] (out l sp t) []"
    by (rule free_of_tree [OF assms(1)]) (use assms(2) in auto)
qed simp

lemma outs_NUL:
  assumes "\<And>c l. c \<in> set cs \<Longrightarrow> NUL \<notin> set (out l sp c)"
  shows "NUL \<notin> set (outs l sp cs)"
  using assms by (induction cs) (simp_all add: lead_chars(2))

lemma out_NUL: "printable t \<Longrightarrow> NUL \<notin> set (out l sp t)"
proof (induction t arbitrary: l)
  case (Node n s p u a cs)
  obtain m where n: "n = Some m" "s = None" using Node.prems(1) by (auto elim: printable_cases)
  have pr: "printable (Node (Some m) None p u a cs)" using Node.prems(1) n by simp
  have tag: "tag_ok p m a" using pr by simp
  have "NUL \<notin> set (outs l sp cs)"
  proof (cases "\<forall>c \<in> set cs. printable c")
    case True
    then show ?thesis using Node.IH by (intro outs_NUL) blast
  next
    case False
    then obtain x where x: "cs = [xml_new_text x]" "text_ok x" using pr by auto
    then show ?thesis by (simp add: text_children text_ok_def del: outs_simps)
  qed
  then show ?case
    using n tag_text_chars(3) [OF tag] qname_chars(5) [OF tag] trail_chars(2)
    by (simp add: out_Node start_tag_text end_tag1_def)
qed

lemma cstr_id: "NUL \<notin> set s \<Longrightarrow> cstr s = s"
  by (induction s) (auto simp: cstr_def)

lemma skip_prolog_none:
  assumes "xml_strstr (drop pos doc) pat = None" and "pos < n"
  shows "skip_prolog pat doc n pos inst = Some (Some pos)"
  using assms by (subst skip_prolog.simps) simp

lemma xml_parse_printed:
  assumes "printable t"
  shows "xml_parse (out l sp t) (length (out l sp t)) = Some (Some t)"
proof -
  let ?d = "out l sp t"
  have "?d \<noteq> []" using assms by (auto simp: out_element printable_element end_tag1_def)
  then have "skip_prolog ''<?'' ?d (length ?d) 0 None = Some (Some 0)"
    "skip_prolog ''<!'' ?d (length ?d) 0 None = Some (Some 0)"
    using free_of_instruction [OF assms] by (auto intro!: skip_prolog_none)
  moreover have "parse_loop ?d None = Some (Some t)" using parse_tree [OF assms, of "[]" l sp "[]" None] by simp
  ultimately show ?thesis
    using cstr_id [OF out_NUL [OF assms]] by (simp add: xml_parse_def xml_parse_into_def)
qed

end
