(* ===== verification/Xml_Prolog.thy ===== *)
theory Xml_Prolog
  imports Xml_Reparse
begin

text \<open>
  Where \<open>xml_parse\<close> of \<^verbatim>\<open>component/common/utilities/xml.c\<close> starts: behind the last
  processing instruction or comment of the whole buffer.
\<close>

lemma strchr_prefix_bound:
  assumes "P ! k = c" and "k < length P" and "m \<le> k"
  shows "\<exists>g. strchr (drop m (P @ b)) c = Some g \<and> m + g \<le> k"
proof -
  have "c \<in> set (drop m (P @ b))"
    using assms by (auto simp: in_set_conv_nth intro!: exI [of _ "k - m"])
  then obtain g where g: "strchr (drop m (P @ b)) c = Some g" using strchr_None by blast
  have "\<not> k - m < g"
  proof
    assume less: "k - m < g"
    then have "take g (drop m (P @ b)) ! (k - m) = c" "k - m < length (take g (drop m (P @ b)))"
      using assms g by (auto simp: strchr_Some nth_append)
    then have "c \<in> set (take g (drop m (P @ b)))" by (metis nth_mem)
    then show False using g by (simp add: strchr_Some)
  qed
  then show ?thesis using g assms(3) by auto
qed

lemma strstr_before_body:
  assumes "xml_strstr (drop pos (P @ body)) pat = Some i" and "\<not> sublist pat body"
  shows "pos + i < length P"
proof (rule ccontr)
  assume "\<not> pos + i < length P"
  then have "drop (pos + i) (P @ body) = drop (pos + i - length P) body" by simp
  moreover have "prefix pat (drop (pos + i) (P @ body))"
    using assms(1) unfolding xml_strstr_Some drop_drop by (simp add: add.commute del: drop_append)
  ultimately have "prefix pat (drop (pos + i - length P) body)" by simp
  then have "sublist pat body" using sublist_drop prefix_imp_sublist sublist_order.order.trans by blast
  then show False using assms(2) by simp
qed

text \<open>The loop does not run past the end of \<open>P\<close> when \<open>P\<close> ends with a closing bracket.\<close>

lemma skip_prolog_bound:
  assumes "doc = P @ body" and "P \<noteq> []" and "last P = CHR ''>''" and "\<not> sublist pat body" and "length P < n"
    and "pos \<le> length P"
  shows "\<exists>e. skip_prolog pat doc n pos inst = Some (Some e) \<and> e \<le> length P"
  using assms
proof (induction pat doc n pos inst rule: skip_prolog.induct)
  case (1 pat doc n pos inst)
  show ?case
  proof (cases "xml_strstr (drop pos doc) pat")
    case None
    then show ?thesis using skip_prolog_none [OF None] 1(6,7) by auto
  next
    case (Some i)
    then have m: "pos + i < length P" using strstr_before_body 1(2,5) by blast
    have "P ! (length P - 1) = CHR ''>''" using 1(3,4) by (simp add: last_conv_nth)
    then obtain g where g: "strchr (drop (pos + i) doc) (CHR ''>'') = Some g" "pos + i + g \<le> length P - 1"
      using strchr_prefix_bound [of P "length P - 1" _ "pos + i" body] m 1(2) by force
    have "pos < n" "pos + i + g + 1 \<le> length P" using m g(2) 1(6) by auto
    then have "\<exists>e. skip_prolog pat doc n (pos + i + g + 1) (Some (pos + i)) = Some (Some e) \<and> e \<le> length P"
      using 1(1) [OF _ Some g(1) 1(2-6)] by blast
    then show ?thesis using Some g(1) \<open>pos < n\<close> by (subst skip_prolog.simps) simp
  qed
qed

text \<open>It does run to the end when the last instruction ends there.\<close>

lemma skip_prolog_exact:
  assumes "doc = pre @ CHR ''<'' # c # x @ CHR ''>'' # body" and "c \<noteq> CHR ''>''" and "CHR ''>'' \<notin> set x"
    and "\<not> sublist [CHR ''<'', c] body" and "length pre + length x + 3 < n"
    and "pos \<le> length pre \<or> pos = length pre + length x + 3"
  shows "skip_prolog [CHR ''<'', c] doc n pos inst = Some (Some (length pre + length x + 3))"
  using assms
proof (induction "[CHR ''<'', c]" doc n pos inst rule: skip_prolog.induct)
  case (1 doc n pos inst)
  let ?e = "length pre + length x + 3"
  show ?case
  proof (cases "pos = ?e")
    case True
    have "drop ?e doc = body" using 1(2) by (simp add: numeral_3_eq_3)
    then have "xml_strstr (drop pos doc) [CHR ''<'', c] = None" using 1(5) True by (simp add: xml_strstr_None)
    from skip_prolog_none [OF this] show ?thesis using 1(6) True by simp
  next
    case False
    then have pos: "pos \<le> length pre" using 1(7) by blast
    have "prefix [CHR ''<'', c] (drop (length pre - pos) (drop pos doc))" using 1(2) pos by simp
    then obtain i where i: "xml_strstr (drop pos doc) [CHR ''<'', c] = Some i" "i \<le> length pre - pos"
      by (metis (no_types, lifting) not_le_imp_less not_None_eq prefix_imp_sublist sublist_drop
          sublist_order.order.trans xml_strstr_None xml_strstr_Some)
    have m: "pos + i \<le> length pre" using i(2) pos by simp
    have d: "drop (pos + i) doc = drop (pos + i) pre @ CHR ''<'' # c # x @ CHR ''>'' # body" using 1(2) m by simp
    obtain g where g: "strchr (drop (pos + i) doc) (CHR ''>'') = Some g"
      "pos + i + g + 1 \<le> length pre \<or> pos + i + g + 1 = ?e"
    proof (cases "CHR ''>'' \<in> set (drop (pos + i) pre)")
      case True
      then obtain k where k: "pos + i \<le> k" "k < length pre" "pre ! k = CHR ''>''"
        by (auto simp: in_set_conv_nth) (metis add.commute le_add1 less_diff_conv)
      from strchr_prefix_bound [OF k(3,2,1), of "CHR ''<'' # c # x @ CHR ''>'' # body"] that k(2)
      show ?thesis by (auto simp: 1(2))
    next
      case False
      have "strchr (drop (pos + i) doc) (CHR ''>'') = Some (length pre - (pos + i) + (2 + length x))"
        using False 1(3,4) by (simp add: d strchr_append)
      then show ?thesis using that m by simp
    qed
    have "pos < n" using pos 1(6) by simp
    from 1(1) [OF this i(1) g(1) 1(2-6) g(2)] show ?thesis
      using i(1) g(1) \<open>pos < n\<close> by (subst skip_prolog.simps) simp
  qed
qed

lemma xml_parse_behind_instruction:
  assumes "doc = pre @ CHR ''<'' # c # x @ CHR ''>'' # body" and "c = CHR ''?'' \<or> c = CHR ''!''" and "CHR ''>'' \<notin> set x"
    and "\<not> sublist ''<?'' body" and "\<not> sublist ''<!'' body" and "body \<noteq> []" and "NUL \<notin> set doc"
  shows "xml_parse doc (length doc) = xml_parse_into body None"
proof -
  let ?e = "length pre + length x + 3"
  let ?P = "pre @ CHR ''<'' # c # x @ [CHR ''>'']"
  have P: "doc = ?P @ body" "?P \<noteq> []" "last ?P = CHR ''>''" "length ?P = ?e" "length ?P < length doc"
    using assms(1,6) by auto
  have b: "\<exists>e. skip_prolog pat doc (length doc) 0 None = Some (Some e) \<and> e \<le> ?e" if "\<not> sublist pat body" for pat
    using skip_prolog_bound [OF P(1-3) that P(5) le0, of None] unfolding P(4) .
  have e: "skip_prolog [CHR ''<'', c] doc (length doc) 0 None = Some (Some ?e)"
    by (rule skip_prolog_exact [OF assms(1) _ assms(3)]) (use assms(2,4,5) P(4,5) in auto)
  have "drop ?e doc = body" using assms(1) by (simp add: numeral_3_eq_3)
  moreover have "take (length doc - ?e) (drop ?e doc) = drop ?e doc" by simp
  moreover have "?e \<le> length doc" using P(4,5) by simp
  ultimately show ?thesis
    using e b [OF assms(4)] b [OF assms(5)] assms(2) unfolding xml_parse_def cstr_id [OF assms(7)]
    by (elim disjE) (auto simp: Let_def)
qed

end
