(* ===== verification/Xml_Attributes.thy ===== *)
theory Xml_Attributes
  imports Xml_Tags
begin

text \<open>
  The attribute string of an XML node as a finite map: \<open>xml_get_attribute\<close> and
  \<open>xml_set_attribute\<close> of \<^verbatim>\<open>component/common/utilities/xml.c\<close> work on a list of
  attributes with their quotes as lookup and update in place.
\<close>

section \<open>Attribute lists\<close>

type_synonym attribute = "string \<times> char \<times> string"

definition quote :: "char \<Rightarrow> bool" where
  "quote c \<longleftrightarrow> c = CHR 0x27 \<or> c = CHR 0x22"

definition key_ok :: "string \<Rightarrow> bool" where
  "key_ok a \<longleftrightarrow> a \<noteq> [] \<and> CHR '' '' \<notin> set a \<and> CHR ''='' \<notin> set a \<and> \<not> list_ex quote a"

text \<open>
  Names and values for which the string is a map. The code writes a value between quotes of one kind and does not escape it:
  values with quotes, or with \<open>=\<close> at the end, which looks like the beginning of an item, are excluded.
\<close>

definition value_ok :: "string \<Rightarrow> bool" where
  "value_ok v \<longleftrightarrow> \<not> list_ex quote v \<and> (v \<noteq> [] \<longrightarrow> last v \<noteq> CHR ''='')"

fun item_ok :: "attribute \<Rightarrow> bool" where
  "item_ok (n, q, v) \<longleftrightarrow> key_ok n \<and> quote q \<and> value_ok v"

fun item :: "attribute \<Rightarrow> string" where
  "item (n, q, v) = n @ ''='' @ [q] @ v @ [q]"

definition tail_string :: "attribute list \<Rightarrow> string" where
  "tail_string xs = concat (map (\<lambda>x. CHR '' '' # item x) xs)"

definition attr_string :: "attribute list \<Rightarrow> string" where
  "attr_string xs = tl (tail_string xs)"

definition items_ok :: "attribute list \<Rightarrow> bool" where
  "items_ok xs \<longleftrightarrow> xs \<noteq> [] \<and> list_all item_ok xs \<and> distinct (map fst xs)"

lemma tail_string_simps [simp]:
  "tail_string [] = []" "tail_string (x # xs) = CHR '' '' # item x @ tail_string xs"
  "tail_string (xs @ ys) = tail_string xs @ tail_string ys"
  by (simp_all add: tail_string_def)

lemma attr_string_Cons: "attr_string (x # xs) = item x @ tail_string xs"
  by (simp add: attr_string_def)

lemma quote_simps [simp]: "\<not> quote (CHR '' '')" "\<not> quote (CHR ''='')" "quote (CHR 0x27)" "quote (CHR 0x22)"
  by (simp_all add: quote_def)

section \<open>Where an attribute is found\<close>

lemma takeWhile_quote:
  assumes "\<not> list_ex quote s" and "quote q"
  shows "takeWhile (\<lambda>c. \<not> quote c) (s @ q # r) = s"
  using assms by (induction s) auto

lemma takeWhile_eq: "CHR ''='' \<notin> set s \<Longrightarrow> takeWhile (\<lambda>c. c \<noteq> CHR ''='') (s @ CHR ''='' # r) = s"
  by (induction s) auto

text \<open>The pattern does not start inside a value.\<close>

lemma free_of_value:
  assumes "key_ok a" and "quote q" and "value_ok v" and "quote q'"
  shows "free_of (attr_pattern a q) v (q' # r)"
  unfolding free_of_def
proof (intro allI impI notI)
  fix j assume j: "j < length v" and p: "prefix (attr_pattern a q) (drop j (v @ q' # r))"
  obtain z where "drop j v @ q' # r = CHR '' '' # (a @ ''='') @ q # z"
    using p j by (auto simp: attr_pattern_def prefix_def)
  moreover obtain c v3 where v3: "drop j v = c # v3" using j by (cases "drop j v") auto
  ultimately have eq: "v3 @ q' # r = (a @ ''='') @ q # z" by simp
  have "set v3 \<subseteq> set v" by (metis v3 set_drop_subset set_subset_Cons subset_trans)
  then have "\<not> list_ex quote v3" using assms(3) by (auto simp: value_ok_def list_ex_iff)
  moreover have "\<not> list_ex quote (a @ ''='')" using assms(1) by (simp add: key_ok_def)
  ultimately have "v3 = a @ ''=''" using takeWhile_quote eq assms(2,4) by metis
  then have "last v = CHR ''=''" using v3 j last_drop [of j v] by simp
  then show False using assms(3) j by (auto simp: value_ok_def)
qed

lemma free_of_item:
  assumes "key_ok a" and "quote q" and "item_ok x"
  shows "free_of (attr_pattern a q) (item x) r"
proof -
  obtain n q' v where x: "x = (n, q', v)" by (cases x)
  have ok: "key_ok n" "quote q'" "value_ok v" using assms(3) x by simp_all
  have pat: "attr_pattern a q = CHR '' '' # a @ ''='' @ [q]" by (simp add: attr_pattern_def)
  have nb: "CHR '' '' \<notin> set (n @ ''='' @ [q'])" "CHR '' '' \<notin> set [q']"
    using ok(1,2) by (auto simp: key_ok_def quote_def)
  have "free_of (attr_pattern a q) (v @ [q']) r"
    using free_of_append [OF _ free_of_no_head [OF nb(2)]] free_of_value [OF assms(1,2) ok(3,2)]
    by (simp add: pat)
  then have "free_of (attr_pattern a q) ((n @ ''='' @ [q']) @ v @ [q']) r"
    using free_of_append [OF free_of_no_head [OF nb(1)]] by (simp add: pat)
  then show ?thesis by (simp add: x)
qed

lemma prefix_item:
  assumes "key_ok a" and "item_ok (n, q', v)"
  shows "prefix (a @ ''='' @ [q]) (item (n, q', v) @ r) \<longleftrightarrow> a = n \<and> q = q'"
proof
  assume "prefix (a @ ''='' @ [q]) (item (n, q', v) @ r)"
  then obtain z where z: "n @ CHR ''='' # q' # v @ q' # r = a @ CHR ''='' # q # z"
    by (auto simp: prefix_def)
  have "CHR ''='' \<notin> set a" "CHR ''='' \<notin> set n" using assms by (auto simp: key_ok_def)
  then have "n = a" using z takeWhile_eq by metis
  then show "a = n \<and> q = q'" using z by simp
qed simp

lemma free_of_tail:
  assumes "key_ok a" and "quote q" and "list_all item_ok xs" and "\<forall>v. (a, q, v) \<notin> set xs"
  shows "free_of (attr_pattern a q) (tail_string xs) r"
  using assms(3,4)
proof (induction xs)
  case (Cons x xs)
  obtain n q' v where x: "x = (n, q', v)" by (cases x)
  have pat: "attr_pattern a q = CHR '' '' # a @ ''='' @ [q]" by (simp add: attr_pattern_def)
  have ok: "item_ok (n, q', v)" using Cons.prems(1) x by simp
  have "\<not> (a = n \<and> q = q')" using Cons.prems(2) x by auto
  then have "\<not> prefix (a @ ''='' @ [q]) (item (n, q', v) @ tail_string xs @ r)"
    using prefix_item [OF assms(1) ok] by blast
  then have "free_of (attr_pattern a q) [CHR '' ''] (item x @ tail_string xs @ r)"
    by (simp add: free_of_def pat x)
  moreover have "free_of (attr_pattern a q) (item x @ tail_string xs) r"
    using Cons free_of_append [OF free_of_item [OF assms(1,2)]] by simp
  ultimately show ?case using free_of_append [of _ "[CHR '' '']" "item x @ tail_string xs" r] by simp
qed simp

text \<open>The position of the attribute \<open>(a, q, v)\<close> with the attributes \<open>ys\<close> before it.\<close>

definition place :: "attribute list \<Rightarrow> nat option" where
  "place ys = (if ys = [] then None else Some (length (attr_string ys)))"

lemma attr_string_append: "ys \<noteq> [] \<Longrightarrow> attr_string (ys @ zs) = attr_string ys @ tail_string zs"
  by (cases ys) (simp_all add: attr_string_def)

lemma free_of_attr_string:
  assumes "key_ok a" and "quote q" and "items_ok xs" and "\<forall>v. (a, q, v) \<notin> set (tl xs)"
  shows "free_of (attr_pattern a q) (attr_string xs) r"
proof -
  obtain x ys where xs: "xs = x # ys" using assms(3) by (cases xs) (auto simp: items_ok_def)
  have "item_ok x" "list_all item_ok ys" using assms(3) xs by (auto simp: items_ok_def)
  then show ?thesis
    using free_of_append [OF free_of_item [OF assms(1,2)] free_of_tail [OF assms(1,2)]] assms(4)
    by (simp add: xs attr_string_Cons)
qed

lemma starts_with_item:
  assumes "key_ok a" and "item_ok x"
  shows "xml_strstr (attr_string (x # xs)) (tl (attr_pattern a q)) = Some 0 \<longleftrightarrow> (\<exists>v. x = (a, q, v))"
proof -
  obtain n q' v where x: "x = (n, q', v)" by (cases x)
  have "tl (attr_pattern a q) = a @ ''='' @ [q]" by (simp add: attr_pattern_def)
  then show ?thesis
    using prefix_item [OF assms(1), of n q' v q "tail_string xs"] assms(2) x
    by (auto simp: xml_strstr_Some attr_string_Cons)
qed

lemma find_attr_absent:
  assumes "key_ok a" and "quote q" and "items_ok xs" and "\<forall>v. (a, q, v) \<notin> set xs"
  shows "find_attr (attr_string xs) a q = None"
proof -
  obtain x ys where xs: "xs = x # ys" using assms(3) by (cases xs) (auto simp: items_ok_def)
  have "xml_strstr (attr_string xs) (attr_pattern a q) = None"
    by (rule xml_strstr_free_None, rule free_of_attr_string) (use assms xs in \<open>auto simp: attr_pattern_def\<close>)
  moreover have "xml_strstr (attr_string xs) (tl (attr_pattern a q)) \<noteq> Some 0"
    using starts_with_item [OF assms(1), of x ys q] assms(3,4) xs by (auto simp: items_ok_def)
  ultimately show ?thesis by (simp add: find_attr_def)
qed

lemma find_attr_present:
  assumes "key_ok a" and "quote q" and "items_ok (ys @ (a, q, v) # zs)"
  shows "find_attr (attr_string (ys @ (a, q, v) # zs)) a q = Some (place ys)"
proof (cases ys)
  case Nil
  have "xml_strstr (attr_string ((a, q, v) # zs)) (attr_pattern a q) = None"
    by (rule xml_strstr_free_None, rule free_of_attr_string)
       (use assms Nil in \<open>force simp: attr_pattern_def items_ok_def\<close>)+
  moreover have "xml_strstr (attr_string ((a, q, v) # zs)) (tl (attr_pattern a q)) = Some 0"
    using starts_with_item [OF assms(1), of "(a, q, v)" zs q] assms(3) Nil by (simp add: items_ok_def)
  ultimately show ?thesis using Nil by (simp add: find_attr_def place_def)
next
  case (Cons y ys')
  have ok: "items_ok ys" "\<forall>w. (a, q, w) \<notin> set (tl ys)"
    using assms(3) Cons by (force simp: items_ok_def)+
  have "attr_string (ys @ (a, q, v) # zs) = attr_string ys @ attr_pattern a q @ v @ [q] @ tail_string zs"
    using attr_string_append [of ys "(a, q, v) # zs"] Cons by (simp add: attr_pattern_def)
  then have "xml_strstr (attr_string (ys @ (a, q, v) # zs)) (attr_pattern a q) = Some (length (attr_string ys))"
    using xml_strstr_free [OF free_of_attr_string [OF assms(1,2) ok]] by simp
  then show ?thesis using Cons by (simp add: find_attr_def place_def)
qed

lemma value_position:
  "drop (value_at a q (place ys)) (attr_string (ys @ (a, q, v) # zs)) = v @ q # tail_string zs"
proof (cases "ys = []")
  case False
  have "attr_string (ys @ (a, q, v) # zs) = (attr_string ys @ attr_pattern a q) @ v @ q # tail_string zs"
    using False by (simp add: attr_string_append attr_pattern_def)
  then show ?thesis using False by (simp add: place_def value_at_def)
qed (simp add: place_def value_at_def attr_string_Cons attr_pattern_def)

lemma value_quote: "value_ok v \<Longrightarrow> quote q \<Longrightarrow> strchr (v @ q # r) q = Some (length v)"
  by (rule strchr_first) (auto simp: value_ok_def list_ex_iff)

lemma read_value_present:
  assumes "item_ok (a, q, v)"
  shows "read_value (attr_string (ys @ (a, q, v) # zs)) a q (place ys) = Some v"
  using assms by (simp add: read_value_def value_position value_quote)

section \<open>Lookup\<close>

definition value_of :: "attribute list \<Rightarrow> string \<Rightarrow> string option" where
  "value_of xs a = map_of (map (\<lambda>(n, q, v). (n, v)) xs) a"

lemma items_split:
  assumes "items_ok xs"
  obtains (absent) "a \<notin> fst ` set xs" "value_of xs a = None"
  | (present) ys q v zs where "xs = ys @ (a, q, v) # zs" "a \<notin> fst ` set ys" "a \<notin> fst ` set zs"
      "value_of xs a = Some v" "item_ok (a, q, v)"
proof (cases "a \<in> fst ` set xs")
  case False
  then have "a \<notin> fst ` set (map (\<lambda>(n, q, v). (n, v)) xs)" by force
  then have "value_of xs a = None" by (simp add: value_of_def map_of_eq_None_iff)
  then show ?thesis using False absent by blast
next
  case True
  then obtain q v where "(a, q, v) \<in> set xs" by force
  then obtain ys zs where s: "xs = ys @ (a, q, v) # zs" by (auto simp: in_set_conv_decomp)
  have n: "a \<notin> fst ` set ys" "a \<notin> fst ` set zs" using assms s by (auto simp: items_ok_def)
  have "map_of (map (\<lambda>(n, q, v). (n, v)) ys) a = None" using n(1) by (force simp: map_of_eq_None_iff)
  then have "value_of xs a = Some v" by (simp add: s value_of_def map_add_def)
  moreover have "item_ok (a, q, v)" using assms s by (simp add: items_ok_def)
  ultimately show ?thesis using present [OF s n] by blast
qed

lemma get_attribute_items:
  assumes "items_ok xs" and "key_ok a" and "nd_attr node = Some (attr_string xs)"
  shows "xml_get_attribute node a = Some (value_of xs a)"
  using assms(1)
proof (cases rule: items_split [where a = a])
  case absent
  then have "find_attr (attr_string xs) a (CHR 0x27) = None" "find_attr (attr_string xs) a (CHR 0x22) = None"
    using assms(1,2) by (force intro!: find_attr_absent)+
  then show ?thesis using absent assms(3) by (simp add: xml_get_attribute_def)
next
  case (present ys q v zs)
  have q: "quote q" using present(5) by simp
  have other: "find_attr (attr_string xs) a (CHR 0x27) = None" if "q \<noteq> CHR 0x27"
    by (rule find_attr_absent) (use assms(1,2) present that in force)+
  have "find_attr (attr_string xs) a q = Some (place ys)"
    using find_attr_present assms(1,2) q present(1) by blast
  moreover have "read_value (attr_string xs) a q (place ys) = Some v"
    using read_value_present [OF present(5)] present(1) by simp
  ultimately show ?thesis
    using q other present(4) assms(3) by (auto simp: xml_get_attribute_def quote_def)
qed

section \<open>Update\<close>

text \<open>An update in place, or at the end when the attribute is new.\<close>

fun put_value :: "attribute list \<Rightarrow> string \<Rightarrow> string \<Rightarrow> attribute list" where
  "put_value [] a w = [(a, CHR 0x22, w)]"
| "put_value ((n, q, v) # xs) a w = (if n = a then (a, CHR 0x22, w) # xs else (n, q, v) # put_value xs a w)"

lemma put_value_absent: "a \<notin> fst ` set xs \<Longrightarrow> put_value xs a w = xs @ [(a, CHR 0x22, w)]"
  by (induction xs a w rule: put_value.induct) auto

lemma put_value_present:
  "a \<notin> fst ` set ys \<Longrightarrow> put_value (ys @ (a, q, v) # zs) a w = ys @ (a, CHR 0x22, w) # zs"
  by (induction ys a w rule: put_value.induct) auto

lemma put_value_ok:
  assumes "items_ok xs" and "key_ok a" and "value_ok w"
  shows "items_ok (put_value xs a w)"
  using assms(1)
  by (cases rule: items_split [where a = a])
     (use assms in \<open>auto simp: put_value_absent put_value_present items_ok_def\<close>)

lemma value_of_put: "value_of (put_value xs a w) b = (if b = a then Some w else value_of xs b)"
  by (induction xs a w rule: put_value.induct) (auto simp: value_of_def)

lemma item_ends: "item_ok x \<Longrightarrow> item x \<noteq> [] \<and> hd (item x) \<noteq> CHR '' '' \<and> last (item x) \<noteq> CHR '' ''"
  by (cases x) (auto simp: key_ok_def quote_def hd_append, (metis hd_in_set)+)

lemma attr_string_ends:
  assumes "items_ok xs"
  shows "attr_string xs \<noteq> []" "hd (attr_string xs) \<noteq> CHR '' ''" "last (attr_string xs) \<noteq> CHR '' ''"
proof -
  obtain x ys where xs: "xs = x # ys" using assms by (cases xs) (auto simp: items_ok_def)
  have "last (tail_string zs) = last (item (last zs))" if "zs \<noteq> []" "list_all item_ok zs" for zs
    using that item_ends by (induction zs rule: rev_induct) (auto simp: last_append)
  moreover have "item_ok (last xs)" using assms by (simp add: items_ok_def list_all_iff)
  moreover have "last (attr_string xs) = last (tail_string xs)"
    using item_ends [of x] assms xs by (simp add: attr_string_def items_ok_def last_tl)
  ultimately show "last (attr_string xs) \<noteq> CHR '' ''" using item_ends assms by (simp add: items_ok_def)
  show "attr_string xs \<noteq> []" "hd (attr_string xs) \<noteq> CHR '' ''"
    using item_ends [of x] assms xs by (auto simp: attr_string_Cons items_ok_def)
qed

lemma strip_attr_string: "items_ok xs \<Longrightarrow> str_strip (attr_string xs) = Some (attr_string xs)"
  using attr_string_ends by (intro str_strip_id) auto

lemma strip_tail_string:
  assumes "zs \<noteq> [] \<Longrightarrow> items_ok zs"
  shows "str_strip (tail_string zs) = (if zs = [] then None else Some (attr_string zs))"
proof (cases "zs = []")
  case False
  then have "tail_string zs = CHR '' '' # attr_string zs" by (cases zs) (auto simp: attr_string_def)
  then show ?thesis
    using str_strip_blank [OF attr_string_ends(1)] strip_attr_string assms False by simp
qed (simp add: str_strip_def)

lemma str_strip_Nil [simp]: "str_strip [] = None"
  by (simp add: str_strip_def)

lemma items_ok_parts:
  assumes "items_ok (ys @ x # zs)"
  shows "ys \<noteq> [] \<Longrightarrow> items_ok ys" "zs \<noteq> [] \<Longrightarrow> items_ok zs"
  using assms by (auto simp: items_ok_def)

lemma cut_attr_present:
  assumes "items_ok (ys @ (a, q, v) # zs)"
  shows "cut_attr (attr_string (ys @ (a, q, v) # zs)) a q (place ys) =
    Some (if ys = [] then None else Some (attr_string ys), if zs = [] then None else Some (attr_string zs))"
proof -
  let ?s = "attr_string (ys @ (a, q, v) # zs)"
  have item: "quote q" "value_ok v" using assms by (auto simp: items_ok_def)
  have d: "drop (value_at a q (place ys)) ?s = v @ q # tail_string zs" by (rule value_position)
  have n: "strchr (v @ q # tail_string zs) q = Some (length v)" using value_quote item by blast
  have "drop (value_at a q (place ys) + length v + 1) ?s = drop (length v + 1) (drop (value_at a q (place ys)) ?s)"
    by (simp add: add.commute add.left_commute)
  also have "\<dots> = tail_string zs" by (simp add: d)
  finally have r: "drop (value_at a q (place ys) + length v + 1) ?s = tail_string zs" .
  have "take (length (attr_string ys)) ?s = attr_string ys" if "ys \<noteq> []"
    using that by (simp add: attr_string_append)
  moreover have "str_strip (tail_string zs) = (if zs = [] then None else Some (attr_string zs))"
    by (rule strip_tail_string, rule items_ok_parts(2) [OF assms])
  ultimately show ?thesis
    unfolding cut_attr_def Let_def d n option.case r
    using strip_attr_string [OF items_ok_parts(1) [OF assms]] by (cases "ys = []") (simp_all add: place_def)
qed

lemma join_attr_items:
  "join_attr (if ys = [] then None else Some (attr_string ys)) (item x) (if zs = [] then None else Some (attr_string zs)) =
   attr_string (ys @ x # zs)"
proof -
  have "tail_string zs = CHR '' '' # attr_string zs" if "zs \<noteq> []"
    using that by (cases zs) (auto simp: attr_string_def)
  then show ?thesis
    by (cases "ys = []"; cases "zs = []") (simp_all add: join_attr_def attr_string_Cons attr_string_append)
qed

lemma replace_attr_items:
  assumes "items_ok xs" and "key_ok a"
  shows "replace_attr (attr_string xs) a (item (a, CHR 0x22, w)) = Some (attr_string (put_value xs a w))"
  using assms(1)
proof (cases rule: items_split [where a = a])
  case absent
  then have "find_attr (attr_string xs) a (CHR 0x27) = None" "find_attr (attr_string xs) a (CHR 0x22) = None"
    using assms by (force intro!: find_attr_absent)+
  then show ?thesis
    using absent assms(1) by (simp add: replace_attr_def put_value_absent attr_string_append items_ok_def del: item.simps)
next
  case (present ys q v zs)
  have q: "quote q" using present(5) by simp
  have other: "find_attr (attr_string xs) a (CHR 0x27) = None" if "q \<noteq> CHR 0x27"
    by (rule find_attr_absent) (use assms present that in force)+
  have f: "find_attr (attr_string xs) a q = Some (place ys)"
    using find_attr_present assms q present(1) by blast
  have "cut_attr (attr_string xs) a q (place ys) =
    Some (if ys = [] then None else Some (attr_string ys), if zs = [] then None else Some (attr_string zs))"
    using cut_attr_present assms(1) present(1) by blast
  then have "map_option (\<lambda>(p1, p2). join_attr p1 (item (a, CHR 0x22, w)) p2) (cut_attr (attr_string xs) a q (place ys)) =
    Some (attr_string (put_value xs a w))"
    using join_attr_items [of ys "(a, CHR 0x22, w)" zs] present(1,2) by (simp add: put_value_present del: item.simps)
  then show ?thesis
    using q other f by (auto simp: replace_attr_def quote_def simp del: item.simps)
qed

text \<open>What a node's attribute string stands for: nothing, or a list of attributes.\<close>

definition attrs_of :: "xml_node \<Rightarrow> attribute list \<Rightarrow> bool" where
  "attrs_of node xs \<longleftrightarrow> (case nd_attr node of None \<Rightarrow> xs = [] | Some s \<Rightarrow> items_ok xs \<and> s = attr_string xs)"

lemma get_attribute_refines:
  assumes "attrs_of node xs" and "key_ok a"
  shows "xml_get_attribute node a = Some (value_of xs a)"
proof (cases "nd_attr node")
  case None
  then show ?thesis using assms(1) by (simp add: attrs_of_def xml_get_attribute_def value_of_def)
next
  case (Some s)
  then have "items_ok xs" "nd_attr node = Some (attr_string xs)" using assms(1) by (simp_all add: attrs_of_def)
  then show ?thesis using get_attribute_items assms(2) by blast
qed

lemma set_attribute_refines:
  assumes "attrs_of node xs" and "key_ok a" and "value_ok w"
  shows "\<exists>node'. xml_set_attribute node a w = Some node' \<and> attrs_of node' (put_value xs a w) \<and>
    nd_name node' = nd_name node \<and> nd_prefix node' = nd_prefix node \<and> nd_text node' = nd_text node \<and>
    nd_child node' = nd_child node"
proof -
  have "CHR 0x22 \<notin> set w" using assms(3) by (auto simp: value_ok_def list_ex_iff)
  moreover have "items_ok [(a, CHR 0x22, w)]" using assms by (simp add: items_ok_def)
  ultimately show ?thesis
    using assms replace_attr_items [of xs a w] put_value_ok [of xs a w]
    by (auto simp: attrs_of_def xml_set_attribute_def Let_def attr_string_Cons split: option.splits)
qed

section \<open>The interface\<close>

text \<open>What a user of attributes relies on: a lookup after an update, and that neither faults.\<close>

locale attribute_map =
  fixes get :: "'n \<Rightarrow> string \<Rightarrow> string option option"
    and put :: "'n \<Rightarrow> string \<Rightarrow> string \<Rightarrow> 'n option"
    and inv :: "'n \<Rightarrow> bool" and key :: "string \<Rightarrow> bool" and val :: "string \<Rightarrow> bool"
  assumes get_total: "inv n \<Longrightarrow> key a \<Longrightarrow> get n a \<noteq> None"
    and put_total: "inv n \<Longrightarrow> key a \<Longrightarrow> val w \<Longrightarrow> \<exists>n'. put n a w = Some n' \<and> inv n'"
    and get_put: "inv n \<Longrightarrow> key a \<Longrightarrow> val w \<Longrightarrow> put n a w = Some n' \<Longrightarrow> key b \<Longrightarrow>
      get n' b = (if b = a then Some (Some w) else get n b)"
begin

lemma put_law:
  assumes "inv n" and "key a" and "val w"
  shows "\<exists>n'. put n a w = Some n' \<and> inv n' \<and> (\<forall>b. key b \<longrightarrow> get n' b = (if b = a then Some (Some w) else get n b))"
  using put_total [OF assms] get_put [OF assms] by blast

text \<open>The order of two updates of different attributes does not matter, and a later one wins.\<close>

lemma put_put:
  assumes "inv n" and "key a" and "val v" and "key b" and "val w" and "key c"
    and "put n a v = Some n1" and "put n1 b w = Some n2"
  shows "get n2 c = (if c = b then Some (Some w) else if c = a then Some (Some v) else get n c)"
proof -
  have "inv n1" using put_total [OF assms(1-3)] assms(7) by auto
  then show ?thesis using get_put [OF _ assms(4,5,8,6)] get_put [OF assms(1-3,7,6)] by simp
qed

end

interpretation xml_attrs: attribute_map xml_get_attribute xml_set_attribute "\<lambda>n. \<exists>xs. attrs_of n xs" key_ok value_ok
proof (unfold_locales, goal_cases)
  case (1 n a)
  then show ?case using get_attribute_refines by fastforce
next
  case (2 n a w)
  then show ?case using set_attribute_refines by fastforce
next
  case (3 n a w n' b)
  then show ?case using set_attribute_refines [of n _ a w] get_attribute_refines value_of_put by fastforce
qed

end
