(* ===== verification/Xml_Links.thy ===== *)
theory Xml_Links
  imports Xml_Facts
begin

text \<open>
  The pointer level of the XML tree: nodes in a store, linked through \<open>parent\<close>, \<open>child\<close>, \<open>prev\<close> and
  \<open>next\<close> as the picture at the top of \<^verbatim>\<open>component/common/utilities/xml.c\<close> shows.
  Address 0 is the null pointer; reading or writing an address that is not allocated gives \<open>None\<close>. The
  functions that walk or recurse take a fuel argument; the lemmas show how much is enough. The strings
  of a node are released with it.
\<close>

section \<open>The store\<close>

record xml_cell =
  c_name :: "string option"
  c_text :: "string option"
  c_prefix :: "string option"
  c_uri :: "string option"
  c_attr :: "string option"
  c_parent :: nat
  c_child :: nat
  c_prev :: nat
  c_next :: nat

type_synonym xml_store = "nat \<Rightarrow> xml_cell option"

definition with_cell :: "nat \<Rightarrow> (xml_cell \<Rightarrow> xml_cell) \<Rightarrow> xml_store \<Rightarrow> xml_store option" where
  "with_cell p f h = (case h p of None \<Rightarrow> None | Some c \<Rightarrow> Some (h(p \<mapsto> f c)))"

definition cell_is_element :: "xml_cell \<Rightarrow> bool" where
  "cell_is_element c \<longleftrightarrow> c_name c \<noteq> None \<and> c_text c = None"

section \<open>Adding a child\<close>

fun last_child :: "nat \<Rightarrow> xml_store \<Rightarrow> nat \<Rightarrow> nat option" where
  "last_child 0 h p = None"
| "last_child (Suc fuel) h p =
     (case h p of
        None \<Rightarrow> None
      | Some c \<Rightarrow> (if c_next c \<noteq> 0 then last_child fuel h (c_next c) else Some p))"

definition link_add_child :: "nat \<Rightarrow> nat \<Rightarrow> nat \<Rightarrow> xml_store \<Rightarrow> xml_store option" where
  "link_add_child fuel node child h =
     (case h node of
        None \<Rightarrow> None
      | Some c \<Rightarrow>
          (if \<not> cell_is_element c then Some h
           else
            (case (if c_child c \<noteq> 0
                   then (case last_child fuel h (c_child c) of
                           None \<Rightarrow> None
                         | Some l \<Rightarrow>
                             (case with_cell l (\<lambda>x. x\<lparr>c_next := child\<rparr>) h of
                                None \<Rightarrow> None
                              | Some h \<Rightarrow> with_cell child (\<lambda>x. x\<lparr>c_prev := l\<rparr>) h))
                   else with_cell node (\<lambda>x. x\<lparr>c_child := child\<rparr>) h) of
               None \<Rightarrow> None
             | Some h \<Rightarrow> with_cell child (\<lambda>x. x\<lparr>c_parent := node\<rparr>) h)))"

section \<open>Deleting\<close>

text \<open>Taking a node out of its sibling chain, or its parent's child link when it is the first.\<close>

definition unlink :: "xml_cell \<Rightarrow> xml_store \<Rightarrow> xml_store option" where
  "unlink c h =
     (if c_prev c \<noteq> 0
      then (case with_cell (c_prev c) (\<lambda>x. x\<lparr>c_next := c_next c\<rparr>) h of
              None \<Rightarrow> None
            | Some h \<Rightarrow> (if c_next c \<noteq> 0 then with_cell (c_next c) (\<lambda>x. x\<lparr>c_prev := c_prev c\<rparr>) h else Some h))
      else if c_parent c \<noteq> 0
      then (case with_cell (c_parent c) (\<lambda>x. x\<lparr>c_child := c_next c\<rparr>) h of
              None \<Rightarrow> None
            | Some h \<Rightarrow> (if c_next c \<noteq> 0 then with_cell (c_next c) (\<lambda>x. x\<lparr>c_prev := 0\<rparr>) h else Some h))
      else Some h)"

fun xml_delete_tree :: "nat \<Rightarrow> nat \<Rightarrow> xml_store \<Rightarrow> xml_store option"
  and xml_clear_child :: "nat \<Rightarrow> nat \<Rightarrow> xml_store \<Rightarrow> xml_store option" where
  "xml_delete_tree 0 root h = None"
| "xml_delete_tree (Suc fuel) root h =
     (case h root of
        None \<Rightarrow> None
      | Some _ \<Rightarrow>
     (case xml_clear_child fuel root h of
        None \<Rightarrow> None
      | Some h \<Rightarrow>
     (case h root of
        None \<Rightarrow> None
      | Some c \<Rightarrow>
     (case unlink c h of
        None \<Rightarrow> None
      | Some h \<Rightarrow> Some (h(root := None))))))"
| "xml_clear_child 0 node h = None"
| "xml_clear_child (Suc fuel) node h =
     (case h node of
        None \<Rightarrow> None
      | Some c \<Rightarrow>
          (if c_child c \<noteq> 0
           then (case xml_delete_tree fuel (c_child c) h of
                   None \<Rightarrow> None
                 | Some h \<Rightarrow> xml_clear_child fuel node h)
           else Some h))"

section \<open>Trees in the store\<close>

text \<open>A tree with the addresses of its nodes, and the store that holds it.\<close>

datatype ltree = L (addr: nat) (strings: "string option list") (kids: "ltree list")

fun addrs :: "ltree \<Rightarrow> nat list" where
  "addrs (L p d cs) = p # concat (map addrs cs)"

definition cell_strings :: "xml_cell \<Rightarrow> string option list" where
  "cell_strings c = [c_name c, c_text c, c_prefix c, c_uri c, c_attr c]"

text \<open>The address at the start and at the end of a chain that lies between two addresses.\<close>

definition first :: "nat \<Rightarrow> ltree list \<Rightarrow> nat" where
  "first nxt ts = (if ts = [] then nxt else addr (hd ts))"

definition final :: "nat \<Rightarrow> ltree list \<Rightarrow> nat" where
  "final prv ts = (if ts = [] then prv else addr (last ts))"

text \<open>A node with its parent, previous and next node, and a chain of nodes.\<close>

fun rep :: "xml_store \<Rightarrow> nat \<Rightarrow> nat \<Rightarrow> nat \<Rightarrow> ltree \<Rightarrow> bool"
  and reps :: "xml_store \<Rightarrow> nat \<Rightarrow> nat \<Rightarrow> nat \<Rightarrow> ltree list \<Rightarrow> bool" where
  "rep h par prv nxt (L p d cs) \<longleftrightarrow> p \<noteq> 0 \<and>
     (\<exists>c. h p = Some c \<and> cell_strings c = d \<and> c_parent c = par \<and> c_prev c = prv \<and> c_next c = nxt \<and> c_child c = first 0 cs) \<and>
     reps h p 0 0 cs"
| "reps h par prv nxt [] \<longleftrightarrow> True"
| "reps h par prv nxt (t # ts) \<longleftrightarrow> rep h par prv (first nxt ts) t \<and> reps h par (addr t) nxt ts"

definition all_addrs :: "ltree list \<Rightarrow> nat list" where
  "all_addrs ts = concat (map addrs ts)"

lemma addrs_simps [simp]:
  "addrs (L p d cs) = p # all_addrs cs" "all_addrs [] = []" "all_addrs (t # ts) = addrs t @ all_addrs ts"
  "all_addrs (ts @ us) = all_addrs ts @ all_addrs us"
  by (simp_all add: all_addrs_def)

declare addrs.simps [simp del]

lemma first_simps [simp]: "first nxt [] = nxt" "first nxt (t # ts) = addr t"
  "first nxt (ts @ us) = first (first nxt us) ts"
  by (auto simp: first_def)

lemma final_simps [simp]: "final prv [] = prv" "final prv (t # ts) = final (addr t) ts"
  "final prv (ts @ [t]) = addr t"
  by (auto simp: final_def)

lemma addr_in [simp]: "addr t \<in> set (addrs t)"
  by (cases t) simp

lemma addr_disjoint:
  "set (addrs t) \<inter> A = {} \<Longrightarrow> addr t \<notin> A" "A \<inter> set (addrs t) = {} \<Longrightarrow> addr t \<notin> A"
  using addr_in by blast+

lemma final_in: "ts \<noteq> [] \<Longrightarrow> final prv ts \<in> set (all_addrs ts)"
  by (induction ts arbitrary: prv) (auto, metis addr_in final_simps(1))

lemma first_in: "ts \<noteq> [] \<Longrightarrow> first nxt ts \<in> set (all_addrs ts)"
  by (cases ts) auto

lemma rep_addr:
  assumes "rep h par prv nxt t"
  shows "addr t \<noteq> 0" "\<exists>c. h (addr t) = Some c \<and> c_parent c = par \<and> c_prev c = prv \<and> c_next c = nxt"
  using assms by (cases t, auto)+

lemma reps_append:
  "reps h par prv nxt (ts @ us) \<longleftrightarrow> reps h par prv (first nxt us) ts \<and> reps h par (final prv ts) nxt us"
  by (induction ts arbitrary: prv) auto

text \<open>A tree does not depend on the rest of the store.\<close>

lemma rep_cong:
  "(\<And>a. a \<in> set (addrs t) \<Longrightarrow> h' a = h a) \<Longrightarrow> rep h' par prv nxt t = rep h par prv nxt t"
  "(\<And>a. a \<in> set (all_addrs ts) \<Longrightarrow> h' a = h a) \<Longrightarrow> reps h' par prv nxt ts = reps h par prv nxt ts"
  by (induction h par prv nxt t and h par prv nxt ts rule: rep_reps.induct) simp_all

lemma rep_frame:
  "a \<notin> set (addrs t) \<Longrightarrow> rep (h(a := v)) par prv nxt t = rep h par prv nxt t"
  "a \<notin> set (all_addrs ts) \<Longrightarrow> reps (h(a := v)) par prv nxt ts = reps h par prv nxt ts"
  by (intro rep_cong; auto)+

text \<open>Moving the ends of a node or of a chain.\<close>

lemma rep_move:
  assumes "rep h par prv nxt t" and "distinct (addrs t)" and "h (addr t) = Some c"
    and "cell_strings c' = cell_strings c" and "c_child c' = c_child c"
  shows "rep (h(addr t \<mapsto> c')) (c_parent c') (c_prev c') (c_next c') t"
  using assms by (cases t) (auto simp: rep_frame)

lemma reps_move_next:
  assumes "reps h par prv nxt ts" and "distinct (all_addrs ts)" and "ts \<noteq> []" and "h (final 0 ts) = Some c"
  shows "reps (h(final 0 ts \<mapsto> c\<lparr>c_next := n\<rparr>)) par prv n ts"
proof -
  obtain us t where ts: "ts = us @ [t]" using assms(3) by (cases ts rule: rev_cases) auto
  have t: "rep h par (final prv us) nxt t" "distinct (addrs t)" "addr t \<notin> set (all_addrs us)"
    using assms(1,2) ts by (auto simp: reps_append addr_disjoint)
  have "rep (h(addr t \<mapsto> c\<lparr>c_next := n\<rparr>)) par (final prv us) n t"
    using rep_move [OF t(1,2), of c "c\<lparr>c_next := n\<rparr>"] rep_addr(2) [OF t(1)] assms(4) ts by (auto simp: cell_strings_def)
  then show ?thesis using assms(1) t(3) by (auto simp: ts reps_append rep_frame)
qed

lemma reps_move_prev:
  assumes "reps h par prv nxt (t # ts)" and "distinct (all_addrs (t # ts))" and "h (addr t) = Some c"
  shows "reps (h(addr t \<mapsto> c\<lparr>c_prev := q\<rparr>)) par q nxt (t # ts)"
proof -
  have t: "rep h par prv (first nxt ts) t" "distinct (addrs t)" "addr t \<notin> set (all_addrs ts)"
    using assms(1,2) by (auto simp: addr_disjoint)
  have "rep (h(addr t \<mapsto> c\<lparr>c_prev := q\<rparr>)) par q (first nxt ts) t"
    using rep_move [OF t(1,2), of c "c\<lparr>c_prev := q\<rparr>"] rep_addr(2) [OF t(1)] assms(3) by (auto simp: cell_strings_def)
  then show ?thesis using assms(1) t(3) by (auto simp: rep_frame)
qed

section \<open>What deleting does to the store\<close>

definition without :: "nat set \<Rightarrow> xml_store \<Rightarrow> xml_store" where
  "without A h = (\<lambda>a. if a \<in> A then None else h a)"

lemma with_cell_remove:
  "p \<noteq> q \<Longrightarrow> with_cell q f (h(p := None)) = map_option (\<lambda>h. h(p := None)) (with_cell q f h)"
  by (auto simp: with_cell_def fun_upd_twist split: option.split)

lemma unlink_remove:
  assumes "p \<notin> {c_prev c, c_next c, c_parent c}"
  shows "unlink c (h(p := None)) = map_option (\<lambda>h. h(p := None)) (unlink c h)"
  using assms by (auto simp: unlink_def with_cell_remove split: option.split)

lemma unlink_cong:
  "c_prev c' = c_prev c \<Longrightarrow> c_next c' = c_next c \<Longrightarrow> c_parent c' = c_parent c \<Longrightarrow> unlink c' h = unlink c h"
  by (auto simp: unlink_def split: option.split)

text \<open>
  \<open>deletes t\<close>: with enough fuel, deleting \<open>t\<close> frees exactly its nodes and takes it out of its chain.
\<close>

definition deletes :: "ltree \<Rightarrow> bool" where
  "deletes t \<longleftrightarrow> (\<forall>h par prv nxt c. rep h par prv nxt t \<longrightarrow> distinct (addrs t) \<longrightarrow>
     {par, prv, nxt} \<inter> set (addrs t) = {} \<longrightarrow> h (addr t) = Some c \<longrightarrow>
     (\<exists>N. \<forall>n \<ge> N. xml_delete_tree n (addr t) h = unlink c (without (set (addrs t)) h)))"

lemma deletesD:
  assumes "deletes t" and "rep h par prv nxt t" and "distinct (addrs t)" and "{par, prv, nxt} \<inter> set (addrs t) = {}"
    and "h (addr t) = Some c"
  obtains N where "\<forall>n \<ge> N. xml_delete_tree n (addr t) h = unlink c (without (set (addrs t)) h)"
  using assms unfolding deletes_def by blast

text \<open>Taking out the first child of \<open>p\<close>.\<close>

lemma unlink_first:
  assumes "reps h p q 0 ts" and "distinct (p # all_addrs ts)" and "0 \<notin> set (p # all_addrs ts)" and "h p = Some c"
    and "c_parent ct = p" and "c_prev ct = 0" and "c_next ct = first 0 ts"
  shows "\<exists>h2. unlink ct h = Some h2 \<and> reps h2 p 0 0 ts \<and> h2 p = Some (c\<lparr>c_child := first 0 ts\<rparr>) \<and>
    (\<forall>a. a \<notin> set (p # all_addrs ts) \<longrightarrow> h2 a = h a)"
proof (cases ts)
  case Nil
  then show ?thesis using assms by (auto simp: unlink_def with_cell_def)
next
  case (Cons t us)
  let ?h1 = "h(p \<mapsto> c\<lparr>c_child := addr t\<rparr>)"
  have t: "rep h p q (first 0 us) t" using assms(1) Cons by simp
  obtain c2 where c2: "h (addr t) = Some c2" using rep_addr(2) [OF t] by blast
  have n: "addr t \<noteq> 0" "addr t \<noteq> p" using rep_addr(1) [OF t] assms(2) Cons by auto
  have "reps ?h1 p q 0 ts" using assms(1,2) by (simp add: rep_frame)
  then have "reps (?h1(addr t \<mapsto> c2\<lparr>c_prev := 0\<rparr>)) p 0 0 ts"
    using reps_move_prev [of ?h1 p q 0 t us c2 0] assms(2) c2 n Cons by simp
  moreover have "unlink ct h = Some (?h1(addr t \<mapsto> c2\<lparr>c_prev := 0\<rparr>))"
    using assms(3-7) c2 n Cons by (simp add: unlink_def with_cell_def)
  moreover have "(?h1(addr t \<mapsto> c2\<lparr>c_prev := 0\<rparr>)) a = h a" if "a \<notin> set (p # all_addrs ts)" for a
    using that Cons by auto
  ultimately show ?thesis using n Cons by auto
qed

lemma clear_child_step:
  assumes "h p = Some c" and "c_child c \<noteq> 0" and "\<forall>n \<ge> N1. xml_delete_tree n (c_child c) h = Some h2"
    and "\<forall>n \<ge> N2. xml_clear_child n p h2 = Some h3"
  shows "\<exists>N. \<forall>n \<ge> N. xml_clear_child n p h = Some h3"
proof -
  have "xml_clear_child n p h = Some h3" if "Suc (max N1 N2) \<le> n" for n
    using that assms by (cases n) auto
  then show ?thesis by blast
qed

lemma without_all:
  "A \<inter> set (all_addrs ts) = {} \<Longrightarrow> reps (without A h) par prv nxt ts = reps h par prv nxt ts"
  by (rule rep_cong) (auto simp: without_def)

lemma clear_child_reps:
  assumes "\<forall>t \<in> set ts. deletes t" and "reps h p 0 0 ts" and "distinct (p # all_addrs ts)" and "0 \<notin> set (p # all_addrs ts)"
    and "h p = Some c" and "c_child c = first 0 ts"
  shows "\<exists>N. \<forall>n \<ge> N. xml_clear_child n p h = Some (without (set (all_addrs ts)) (h(p \<mapsto> c\<lparr>c_child := 0\<rparr>)))"
  using assms
proof (induction ts arbitrary: h c)
  case Nil
  have "xml_clear_child n p h = Some (without {} (h(p \<mapsto> c\<lparr>c_child := 0\<rparr>)))" if "1 \<le> n" for n
    using that Nil by (cases n) (auto simp: without_def)
  then show ?case unfolding addrs_simps set_simps by blast
next
  case (Cons t ts)
  let ?A = "set (addrs t)"
  have t: "rep h p 0 (first 0 ts) t" "reps h p (addr t) 0 ts" using Cons.prems(2) by auto
  have d: "distinct (addrs t)" "{p, 0, first 0 ts} \<inter> ?A = {}"
    using Cons.prems(3,4) first_in [of ts 0] by (cases "ts = []", auto)+
  obtain ct where ct: "h (addr t) = Some ct" "c_parent ct = p" "c_prev ct = 0" "c_next ct = first 0 ts"
    using rep_addr(2) [OF t(1)] by blast
  obtain N1 where N1: "\<forall>n \<ge> N1. xml_delete_tree n (addr t) h = unlink ct (without ?A h)"
    by (rule deletesD [OF _ t(1) d ct(1)]) (use Cons.prems(1) in simp)
  have "reps (without ?A h) p (addr t) 0 ts"
    using t(2) without_all [of ?A ts h] Cons.prems(3) by simp
  then obtain h2 where h2: "unlink ct (without ?A h) = Some h2" "reps h2 p 0 0 ts"
    "h2 p = Some (c\<lparr>c_child := first 0 ts\<rparr>)" "\<And>a. a \<notin> set (p # all_addrs ts) \<Longrightarrow> h2 a = without ?A h a"
    using unlink_first [of "without ?A h" p "addr t" ts c ct] Cons.prems(3-5) ct by (auto simp: without_def)
  obtain N2 where N2: "\<forall>n \<ge> N2. xml_clear_child n p h2 =
      Some (without (set (all_addrs ts)) (h2(p \<mapsto> c\<lparr>c_child := first 0 ts\<rparr>\<lparr>c_child := 0\<rparr>)))"
  proof -
    have "\<forall>t \<in> set ts. deletes t" "distinct (p # all_addrs ts)" "0 \<notin> set (p # all_addrs ts)"
      "c_child (c\<lparr>c_child := first 0 ts\<rparr>) = first 0 ts"
      using Cons.prems(1,3,4) by simp_all
    from Cons.IH [OF this(1) h2(2) this(2,3) h2(3) this(4)] that show ?thesis by blast
  qed
  have eq: "without (set (all_addrs ts)) (h2(p \<mapsto> c\<lparr>c_child := first 0 ts\<rparr>\<lparr>c_child := 0\<rparr>)) =
      without (set (all_addrs (t # ts))) (h(p \<mapsto> c\<lparr>c_child := 0\<rparr>))"
    using h2(4) Cons.prems(3) by (auto simp: without_def fun_eq_iff)
  have ch: "c_child c = addr t" "c_child c \<noteq> 0" using Cons.prems(6) rep_addr(1) [OF t(1)] by simp_all
  have "\<forall>n \<ge> N1. xml_delete_tree n (c_child c) h = Some h2" using N1 h2(1) by (simp add: ch(1))
  from clear_child_step [of h p c, OF Cons.prems(5) ch(2) this N2] show ?case unfolding eq .
qed

lemma delete_tree_deletes: "0 \<notin> set (addrs t) \<Longrightarrow> deletes t"
proof (induction t)
  case (L p d cs)
  have kids: "\<forall>t \<in> set cs. deletes t" using L by (auto simp: all_addrs_def)
  show ?case unfolding deletes_def
  proof (intro allI impI, goal_cases)
    case (1 h par prv nxt c)
    have c: "h p = Some c" "c_child c = first 0 cs" "reps h p 0 0 cs" "c_parent c = par" "c_prev c = prv" "c_next c = nxt"
      using 1(1,4) by auto
    let ?h1 = "without (set (all_addrs cs)) (h(p \<mapsto> c\<lparr>c_child := 0\<rparr>))"
    obtain N where N: "\<forall>n \<ge> N. xml_clear_child n p h = Some ?h1"
      using clear_child_reps [OF kids c(3) _ _ c(1,2)] 1(2) L.prems by auto
    have p: "?h1 p = Some (c\<lparr>c_child := 0\<rparr>)" using 1(2) by (simp add: without_def)
    have r: "?h1(p := None) = without (set (addrs (L p d cs))) h" by (auto simp: without_def)
    have "xml_delete_tree n p h = unlink c (?h1(p := None))" if "Suc N \<le> n" for n
      using that N p c unlink_remove [of p c ?h1] unlink_cong [of "c\<lparr>c_child := 0\<rparr>" c ?h1] 1(3)
      by (cases n) (auto split: option.splits)
    then show ?case unfolding r by auto
  qed
qed

section \<open>The operations on trees\<close>

lemma last_child_reps:
  assumes "reps h par prv 0 ts" and "ts \<noteq> []" and "length ts \<le> fuel"
  shows "last_child fuel h (first 0 ts) = Some (final 0 ts)"
  using assms
proof (induction ts arbitrary: prv fuel)
  case (Cons t ts)
  obtain m where m: "fuel = Suc m" "length ts \<le> m" using Cons.prems(3) by (cases fuel) auto
  have t: "rep h par prv (first 0 ts) t" "reps h par (addr t) 0 ts" using Cons.prems(1) by auto
  obtain c where c: "h (addr t) = Some c" "c_next c = first 0 ts" using rep_addr(2) [OF t(1)] by blast
  show ?case
  proof (cases ts)
    case Nil
    then show ?thesis using c m by simp
  next
    case (Cons u us)
    then have "addr u \<noteq> 0" using t(2) rep_addr(1) by auto
    then show ?thesis using Cons.IH [OF t(2) _ m(2)] c m Cons by simp
  qed
qed simp

text \<open>\<open>xml_add_child\<close> appends a free tree to the children of an element.\<close>

lemma add_child_rep:
  assumes "rep h gp pp pn (L p d cs)" and "rep h 0 0 0 t" and "distinct (addrs (L p d cs) @ addrs t)"
    and "d ! 0 \<noteq> None" and "d ! 1 = None" and "length cs \<le> fuel"
  shows "\<exists>h'. link_add_child fuel p (addr t) h = Some h' \<and> rep h' gp pp pn (L p d (cs @ [t])) \<and>
    (\<forall>a. a \<notin> set (addrs (L p d cs) @ addrs t) \<longrightarrow> h' a = h a)"
proof -
  obtain c where c: "h p = Some c" "cell_strings c = d" "c_parent c = gp" "c_prev c = pp" "c_next c = pn"
    "c_child c = first 0 cs" "reps h p 0 0 cs" and p: "p \<noteq> 0"
    using assms(1) by auto
  obtain ct where ct: "h (addr t) = Some ct" "c_parent ct = 0" "c_prev ct = 0" "c_next ct = 0"
    using rep_addr(2) [OF assms(2)] by blast
  have el: "cell_is_element c" using c(2) assms(4,5) by (auto simp: cell_is_element_def cell_strings_def)
  have ne: "addr t \<noteq> p" "addr t \<notin> set (all_addrs cs)" "p \<notin> set (addrs t)" "p \<notin> set (all_addrs cs)"
    "distinct (addrs t)" "distinct (all_addrs cs)" "set (all_addrs cs) \<inter> set (addrs t) = {}"
    using assms(3) addr_in [of t] by (auto simp: addr_disjoint)
  show ?thesis
  proof (cases "cs = []")
    case True
    let ?h = "h(p \<mapsto> c\<lparr>c_child := addr t\<rparr>, addr t \<mapsto> ct\<lparr>c_parent := p\<rparr>)"
    have "rep (h(p \<mapsto> c\<lparr>c_child := addr t\<rparr>)) 0 0 0 t" using assms(2) ne(3) by (simp add: rep_frame)
    then have "rep ?h p 0 0 t"
      using rep_move [of _ 0 0 0 t ct "ct\<lparr>c_parent := p\<rparr>"] ne ct by (auto simp: cell_strings_def)
    then have "rep ?h gp pp pn (L p d [t])" using c p ne by (auto simp: cell_strings_def)
    moreover have "link_add_child fuel p (addr t) h = Some ?h"
      using c(1,6) el ct(1) ne(1) True by (simp add: link_add_child_def with_cell_def)
    ultimately show ?thesis using True addr_in [of t] by auto
  next
    case False
    define l where "l = final 0 cs"
    have lin: "l \<in> set (all_addrs cs)" using final_in [OF False] by (simp add: l_def)
    then have lne: "l \<noteq> p" "l \<noteq> addr t" "l \<notin> set (addrs t)" using ne by auto
    obtain us u where us: "cs = us @ [u]" using False by (cases cs rule: rev_cases) auto
    have "rep h p (final 0 us) 0 u" using c(7) us by (simp add: reps_append)
    then obtain cl where cl: "h l = Some cl" using rep_addr(2) us unfolding l_def by fastforce
    let ?h1 = "h(l \<mapsto> cl\<lparr>c_next := addr t\<rparr>)"
    let ?h = "?h1(addr t \<mapsto> ct\<lparr>c_prev := l, c_parent := p\<rparr>)"
    have "first 0 cs \<noteq> 0" using c(7) False rep_addr(1) by (cases cs) auto
    then have "link_add_child fuel p (addr t) h = Some ?h"
      using c(1,6) el ct(1) cl lne last_child_reps [OF c(7) False assms(6)]
      by (simp add: link_add_child_def with_cell_def l_def)
    moreover have "reps ?h p 0 (addr t) cs"
      using reps_move_next [OF c(7) ne(6) False, of cl "addr t"] cl ne(2) by (simp add: l_def rep_frame)
    moreover have "rep ?h p l 0 t"
      using rep_move [of ?h1 0 0 0 t ct "ct\<lparr>c_prev := l, c_parent := p\<rparr>"] assms(2) ne(5) ct lne
      by (simp add: rep_frame cell_strings_def)
    moreover have "?h p = Some c" using c(1) ne(1) lne(1) by simp
    moreover have "first 0 (cs @ [t]) = first 0 cs" using False by (cases cs) auto
    ultimately have "rep ?h gp pp pn (L p d (cs @ [t]))" "link_add_child fuel p (addr t) h = Some ?h"
      using c p us by (auto simp: reps_append l_def)
    then show ?thesis using lin addr_in [of t] by auto
  qed
qed

text \<open>Taking a node out of the middle of a chain joins the two parts.\<close>

lemma unlink_middle:
  assumes "reps h p 0 q us" and "reps h p q' 0 vs" and "us \<noteq> []" and "distinct (all_addrs us @ all_addrs vs)"
    and "c_prev c = final 0 us" and "c_next c = first 0 vs"
  shows "\<exists>h2. unlink c h = Some h2 \<and> reps h2 p 0 0 (us @ vs) \<and> (\<forall>a. a \<notin> set (all_addrs (us @ vs)) \<longrightarrow> h2 a = h a)"
proof -
  define l where "l = final 0 us"
  obtain ws w where ws: "us = ws @ [w]" using assms(3) by (cases us rule: rev_cases) auto
  have w: "rep h p (final 0 ws) q w" using assms(1) ws by (simp add: reps_append)
  then obtain cl where cl: "h l = Some cl" using rep_addr(2) ws unfolding l_def by fastforce
  have l: "l \<noteq> 0" "l \<in> set (all_addrs us)" using rep_addr(1) [OF w] ws by (simp_all add: l_def)
  let ?h1 = "h(l \<mapsto> cl\<lparr>c_next := first 0 vs\<rparr>)"
  have us1: "reps ?h1 p 0 (first 0 vs) us"
    using reps_move_next [OF assms(1) _ assms(3), of cl "first 0 vs"] assms(4) cl by (simp add: l_def)
  show ?thesis
  proof (cases vs)
    case Nil
    then have "unlink c h = Some ?h1" using assms(5,6) l(1) cl by (simp add: unlink_def with_cell_def l_def)
    then show ?thesis using us1 l(2) Nil by auto
  next
    case (Cons v xs)
    have v: "rep h p q' (first 0 xs) v" using assms(2) Cons by simp
    obtain cv where cv: "h (addr v) = Some cv" using rep_addr(2) [OF v] by blast
    have n: "addr v \<noteq> 0" "addr v \<notin> set (all_addrs us)" "l \<notin> set (all_addrs vs)"
      using rep_addr(1) [OF v] assms(4) Cons l(2) by (auto simp: addr_disjoint)
    let ?h2 = "?h1(addr v \<mapsto> cv\<lparr>c_prev := l\<rparr>)"
    have "l \<noteq> addr v" using n(2) l(2) by auto
    then have "unlink c h = Some ?h2"
      using assms(5,6) l(1) cl cv n(1) Cons by (simp add: unlink_def with_cell_def l_def)
    moreover have "reps ?h1 p q' 0 vs" using assms(2) n(3) by (simp add: rep_frame)
    then have "reps ?h2 p l 0 vs"
      using reps_move_prev [of ?h1 p q' 0 v xs cv l] assms(4) cv \<open>l \<noteq> addr v\<close> Cons by auto
    moreover have "reps ?h2 p 0 (first 0 vs) us" using us1 n(2) by (simp add: rep_frame)
    ultimately show ?thesis using l Cons assms(3) by (auto simp: reps_append final_def l_def)
  qed
qed

text \<open>\<open>xml_delete_tree\<close> on a child of a node.\<close>

lemma delete_child_rep:
  assumes "rep h gp pp pn (L p d (us @ t # vs))" and "distinct (0 # addrs (L p d (us @ t # vs)))"
  shows "\<exists>N h'. (\<forall>n \<ge> N. xml_delete_tree n (addr t) h = Some h') \<and> rep h' gp pp pn (L p d (us @ vs)) \<and>
    (\<forall>a. a \<in> set (addrs t) \<longrightarrow> h' a = None) \<and> (\<forall>a. a \<notin> set (addrs (L p d (us @ t # vs))) \<longrightarrow> h' a = h a)"
proof -
  let ?A = "set (addrs t)"
  obtain c where c: "h p = Some c" "cell_strings c = d" "c_parent c = gp" "c_prev c = pp" "c_next c = pn"
    "c_child c = first 0 (us @ t # vs)" and p: "p \<noteq> 0"
    and ch: "reps h p 0 (addr t) us" "rep h p (final 0 us) (first 0 vs) t" "reps h p (addr t) 0 vs"
    using assms(1) by (auto simp: reps_append)
  have dj: "distinct (addrs t)" "0 \<notin> ?A" "p \<notin> ?A" "?A \<inter> set (all_addrs us) = {}" "?A \<inter> set (all_addrs vs) = {}"
    "distinct (all_addrs us @ all_addrs vs)" "0 \<notin> set (p # all_addrs vs)" "distinct (p # all_addrs vs)" "p \<notin> set (all_addrs us)"
    using assms(2) by auto
  obtain ct where ct: "h (addr t) = Some ct" "c_parent ct = p" "c_prev ct = final 0 us" "c_next ct = first 0 vs"
    using rep_addr(2) [OF ch(2)] by blast
  have "{p, final 0 us, first 0 vs} \<inter> ?A = {}"
    using dj final_in [of us 0] first_in [of vs 0] by (cases "us = []"; cases "vs = []") auto
  then obtain N where N: "\<forall>n \<ge> N. xml_delete_tree n (addr t) h = unlink ct (without ?A h)"
    by (rule deletesD [OF delete_tree_deletes [OF dj(2)] ch(2) dj(1) _ ct(1)])
  have us: "reps (without ?A h) p 0 (addr t) us" "reps (without ?A h) p (addr t) 0 vs" "without ?A h p = Some c"
    using ch dj c(1) by (simp_all add: without_all) (simp add: without_def)
  obtain h2 c2 where h2: "unlink ct (without ?A h) = Some h2" "reps h2 p 0 0 (us @ vs)" "h2 p = Some c2"
    "cell_strings c2 = d" "c_parent c2 = gp" "c_prev c2 = pp" "c_next c2 = pn" "c_child c2 = first 0 (us @ vs)"
    "\<And>a. a \<notin> set (p # all_addrs (us @ vs)) \<Longrightarrow> h2 a = without ?A h a"
  proof (cases "us = []")
    case True
    obtain h2 where "unlink ct (without ?A h) = Some h2" "reps h2 p 0 0 vs" "h2 p = Some (c\<lparr>c_child := first 0 vs\<rparr>)"
      "\<forall>a. a \<notin> set (p # all_addrs vs) \<longrightarrow> h2 a = without ?A h a"
      using unlink_first [OF us(2) dj(8,7) us(3), of ct] ct True by auto
    then show ?thesis using c(2-5) True
      by (intro that [of h2 "c\<lparr>c_child := first 0 vs\<rparr>"]) (simp_all add: cell_strings_def)
  next
    case False
    obtain h2 where "unlink ct (without ?A h) = Some h2" "reps h2 p 0 0 (us @ vs)"
      and o: "\<forall>a. a \<notin> set (all_addrs (us @ vs)) \<longrightarrow> h2 a = without ?A h a"
      using unlink_middle [OF us(1,2) False dj(6) ct(3,4)] by blast
    moreover from o have "h2 p = Some c" using us(3) dj(8,9) by simp
    moreover have "c_child c = first 0 (us @ vs)" using c(6) False by (cases us) auto
    moreover have "h2 a = without ?A h a" if "a \<notin> set (p # all_addrs (us @ vs))" for a using o that by simp
    ultimately show ?thesis using c(2-5) by (intro that [of h2 c])
  qed
  have "rep h2 gp pp pn (L p d (us @ vs))" using h2(2-8) p by simp
  moreover have "h2 a = None" if "a \<in> ?A" for a using h2(9) [of a] that dj by (auto simp: without_def)
  moreover have "h2 a = h a" if "a \<notin> set (addrs (L p d (us @ t # vs)))" for a
    using h2(9) [of a] that by (simp add: without_def)
  ultimately show ?thesis using N h2(1) by auto
qed

text \<open>The tree that a linked tree stands for.\<close>

fun tree_of :: "ltree \<Rightarrow> xml_node" where
  "tree_of (L p d cs) = Node (d ! 0) (d ! 1) (d ! 2) (d ! 3) (d ! 4) (map tree_of cs)"

lemma tree_of_add_child:
  assumes "d ! 0 \<noteq> None" and "d ! 1 = None"
  shows "tree_of (L p d (cs @ [t])) = xml_add_child (tree_of (L p d cs)) (tree_of t)"
  using assms by (simp add: xml_add_child_def xml_is_element_def)

end
