(* ===== verification/Xml_Props.thy ===== *)
theory Xml_Props
  imports Xml_Prolog Xml_Attributes Xml_Links
begin

text \<open>
  The properties of the XML component, \<^verbatim>\<open>component/common/utilities/xml.c\<close>.
\<close>

section \<open>Parsing and printing\<close>

text \<open>
  C10: what is printed parses back. For a printable tree the parser gives the tree back, from the plain print and
  from the one with \<open>new_line\<close> 0 or 1 and any number of blanks per level, which the code cuts to ten (a larger \<open>new_line\<close> overruns the
  buffer of the print, \<open>xml_dump_ex_overrun\<close>). A tree is printable when each of its elements holds elements only, possibly none,
  or exactly one text, which is not empty and contains no \<open><\<close>; no element has the qualified name of an element around it; names
  and prefixes are not empty, do not begin with \<open>?\<close> or \<open>!\<close> and contain no blank and none of \<open>< > / :\<close>; attribute strings, where
  there are any, are not empty, do not begin or end with a blank or end with \<open>/\<close>, and contain neither \<open><\<close> nor \<open>>\<close>; the URI is the value of the name
  space attribute; and no string contains a zero byte. Other trees are not covered: an empty text is lost
  (\<open>xml_empty_text_lost\<close>).
\<close>

theorem xml_parse_dump_roundtrip:
  assumes "printable t" and "new_line \<le> 1"
  shows "xml_parse (snd (xml_dump_tree t)) (length (snd (xml_dump_tree t))) = Some (Some t) \<and>
    xml_parse (snd (xml_dump_tree_ex t None new_line space)) (length (snd (xml_dump_tree_ex t None new_line space))) =
      Some (Some t)"
  using xml_parse_printed [OF assms(1)] by (simp_all add: xml_dump_tree_def xml_dump_tree_ex_def dump_tree_append)

definition demo_tree :: xml_node where
  "demo_tree = Node (Some ''b'') None (Some ''a'') None (Some ''k=v'')
     [Node (Some ''c'') None None None None [xml_new_text ''hi''], Node (Some ''d'') None None None None []]"

lemma demo_printable: "printable demo_tree"
proof -
  have "xml_strstr '' k=v'' '' xmlns:a'' = None" by code_simp
  then show ?thesis
    by (auto simp: demo_tree_def tag_ok_def name_ok_def attr_ok_def uri_ok_def ns_pattern_def NUL_def qname_def
        xml_new_text_def text_ok_def)
qed

theorem xml_parse_dump_roundtrip_witness:
  "xml_parse ''<a:b k=v><c>hi</c><d></d></a:b>'' (length ''<a:b k=v><c>hi</c><d></d></a:b>'') =
     Some (Some demo_tree)"
proof -
  have "snd (xml_dump_tree demo_tree) = ''<a:b k=v><c>hi</c><d></d></a:b>''" by code_simp
  then show ?thesis using xml_parse_dump_roundtrip [OF demo_printable, of 0] by (simp only:)
qed

text \<open>
  An empty text does not come back: the element with an empty text child is printed as \<open><a></a>\<close>, which is parsed as an
  element without children.
\<close>

theorem xml_empty_text_lost:
  "xml_parse (snd (xml_dump_tree (Node (Some ''a'') None None None None [xml_new_text []]))) 7 =
     Some (Some (Node (Some ''a'') None None None None []))"
  by code_simp

text \<open>
  The parser starts behind the last instruction. Whatever stands before it, also a part of the
  document itself, everything up to the end of the last comment or processing instruction is
  skipped: a document with a comment inside loses its root element.
\<close>

theorem xml_parse_skips_to_last_comment:
  assumes "doc = pre @ CHR ''<'' # c # x @ CHR ''>'' # body" and "c = CHR ''?'' \<or> c = CHR ''!''" and "CHR ''>'' \<notin> set x"
    and "\<not> sublist ''<?'' body" and "\<not> sublist ''<!'' body" and "body \<noteq> []" and "NUL \<notin> set doc"
  shows "xml_parse doc (length doc) = xml_parse_into body None"
  using assms by (rule xml_parse_behind_instruction)

theorem xml_parse_skips_to_last_comment_witness:
  "xml_parse ''<a><!-- c --><b></b></a>'' (length ''<a><!-- c --><b></b></a>'') =
     Some (Some (Node (Some ''b'') None None None None []))"
proof -
  have s: "\<not> sublist ''<?'' ''<b></b></a>''" "\<not> sublist ''<!'' ''<b></b></a>''"
    unfolding xml_strstr_None [symmetric] by code_simp+
  have p: "xml_parse_into ''<b></b></a>'' None = Some (Some (Node (Some ''b'') None None None None []))" by code_simp
  have n: "NUL \<notin> set ''<a><!-- c --><b></b></a>''" by (simp add: NUL_def)
  have e: "''<a><!-- c --><b></b></a>'' = ''<a>'' @ CHR ''<'' # CHR ''!'' # ''-- c --'' @ CHR ''>'' # ''<b></b></a>''"
    by simp
  have x: "CHR ''>'' \<notin> set ''-- c --''" "''<b></b></a>'' \<noteq> []" by simp_all
  show ?thesis using xml_parse_skips_to_last_comment [OF e disjI2 [OF refl] x(1) s x(2) n] p by (rule trans)
qed

lemma find_end_none: "CHR ''<'' \<notin> set s \<Longrightarrow> find_end s p n = None"
  by (simp add: find_end_def end_tag1_def end_tag2_def xml_strstr_free_None free_of_no_head)

lemma cstr_append: "NUL \<notin> set a \<Longrightarrow> cstr (a @ b) = a @ cstr b"
  by (induction a) (auto simp: cstr_def)

text \<open>A start tag whose closing tag is missing is skipped.\<close>

lemma parse_loop_unclosed:
  assumes "tag_ok None n None" and "find_end doc None n = None"
  shows "parse_loop (''<'' @ n @ ''>'' @ doc) root = parse_loop doc root"
proof -
  have t: "tag_text None n None = n" by (simp add: tag_text_def qname_def attr_part_def)
  have "xml_parse_tag n = Some (None, Some n, None, None)"
    using parse_tag_text [OF assms(1), of None] t by (simp add: uri_ok_def)
  moreover have "(n @ CHR ''>'' # doc) ! (length n - 1) \<noteq> CHR ''/''" "CHR ''>'' \<notin> set n"
    using tag_text_last [OF assms(1)] tag_text_chars(2) [OF assms(1)] t by (simp_all add: nth_append last_conv_nth)
  ultimately show ?thesis using assms(2) by (subst parse_loop.simps) simp
qed

lemma parse_loop_text: "CHR ''<'' \<notin> set s \<Longrightarrow> parse_loop s root = Some (add_text s root)"
  by (subst parse_loop.simps) simp

text \<open>
  Nested elements with the same name are lost. The parser ends an element at the first closing
  tag with its name: of an element inside an element of the same name, only the text comes back, one
  level too high.
\<close>

theorem xml_nested_name_lost:
  assumes "name_ok n" and "text_ok s"
  shows "xml_parse_into (''<'' @ n @ ''><'' @ n @ ''>'' @ s @ ''</'' @ n @ ''></'' @ n @ ''>'') None =
    Some (Some (Node (Some n) None None None None [xml_new_text s]))"
proof -
  let ?e = "end_tag1 None n"
  let ?in = "''<'' @ n @ ''>'' @ s"
  have tag: "tag_ok None n None" using assms(1) by (simp add: tag_ok_def)
  have t: "tag_text None n None = n" by (simp add: tag_text_def qname_def attr_part_def)
  have s: "CHR ''<'' \<notin> set s" "s \<noteq> []" "NUL \<notin> set s" using assms(2) by (simp_all add: text_ok_def)
  have "free_of ?e (start_tag None n None @ s) (?e @ ?e)"
    using free_of_append free_of_start_tag [OF tag] free_of_no_head [OF s(1)] by (simp add: end_tag1_def)
  then have "xml_strstr (?in @ ?e @ ?e) ?e = Some (length ?in)"
    using xml_strstr_free [of ?e ?in ?e] by (simp add: start_tag_text t)
  then have f: "find_end (?in @ ?e @ ?e) None n = Some (length ?in)" by (simp add: find_end_def)
  have inner: "parse_loop (take (length ?in) (?in @ ?e @ ?e)) (Some (Node (Some n) None None None None [])) =
      Some (Some (Node (Some n) None None None None [xml_new_text s]))"
    using parse_loop_unclosed [OF tag find_end_none [OF s(1)]] parse_loop_text [OF s(1)] s(2)
    by (simp add: add_text_def)
  have g: "strchr (drop (length ?in) (?in @ ?e @ ?e)) (CHR ''>'') = Some (length n + 2)"
    using tag_text_chars(2) [OF tag] t by (simp add: end_tag1_def qname_def)
  have p: "xml_parse_tag n = Some (None, Some n, None, None)"
    using parse_tag_text [OF tag, of None] t by (simp add: uri_ok_def)
  have "parse_loop ([] @ CHR ''<'' # n @ CHR ''>'' # ?in @ ?e @ ?e) None =
      Some (Some (Node (Some n) None None None None [xml_new_text s]))"
    by (subst parse_loop_element [OF _ _ _ _ p f inner g])
       (use tag_text_chars(2) [OF tag] tag_text_last [OF tag] t in simp_all)
  moreover have "NUL \<notin> set (CHR ''<'' # n @ CHR ''>'' # ?in @ ?e @ ?e)"
    using tag_text_chars(3) [OF tag] t s(3) by (simp add: end_tag1_def qname_def)
  ultimately show ?thesis
    using cstr_id [of "CHR ''<'' # n @ CHR ''>'' # ?in @ ?e @ ?e"]
    by (simp add: xml_parse_into_def end_tag1_def qname_def)
qed

theorem xml_nested_name_lost_witness:
  "xml_parse_into ''<a><a>x</a></a>'' None = Some (Some (Node (Some ''a'') None None None None [xml_new_text ''x'']))"
  using xml_nested_name_lost [of "''a''" "''x''"] by (simp add: name_ok_def text_ok_def NUL_def)

text \<open>
  A tag without a name makes the parser read through a null pointer.
\<close>

theorem xml_empty_tag_fault:
  assumes "CHR ''<'' \<notin> set w" and "NUL \<notin> set w"
  shows "xml_parse_into (w @ ''<>'' @ rest) root = None"
proof -
  have "xml_parse_tag [] = Some (None, None, None, None)"
    by (simp add: xml_parse_tag_def tag_rest_def xml_strstr_def str_strip_def)
  moreover have "cstr (w @ ''<>'' @ rest) = w @ ''<>'' @ cstr rest"
    using cstr_append [of "w @ ''<>''" rest] assms(2) by simp
  ultimately show ?thesis
    using assms(1) by (subst xml_parse_into_def, subst parse_loop.simps) simp
qed

theorem xml_empty_tag_fault_witness: "xml_parse_into ''text<>more'' None = None"
  using xml_empty_tag_fault [of "''text''" "''more''"] by (simp add: NUL_def)

section \<open>The buffers of the printer and of the searches\<close>

text \<open>
  C34: the print fits its buffer. The size computed beforehand is the length of what is written and
  one more for the terminator, also with a prolog; with \<open>new_line\<close> 0 it is at most that.
\<close>

theorem xml_dump_fits_buffer:
  "length (snd (xml_dump_tree t)) + 1 = fst (xml_dump_tree t) \<and>
   length (snd (xml_dump_tree_ex t prolog 1 space)) + 1 = fst (xml_dump_tree_ex t prolog 1 space) \<and>
   length (snd (xml_dump_tree_ex t prolog 0 space)) + 1 \<le> fst (xml_dump_tree_ex t prolog 0 space)"
  using out_length_mono [of 0 1]
  by (simp add: xml_dump_tree_def xml_dump_tree_ex_def Let_def dump_tree_append out_length split: option.split)

text \<open>
  A larger \<open>new_line\<close> overruns the buffer. The size is always computed for level 1, but the
  print starts at level \<open>new_line\<close>: with a value above 1, an indentation and an element inside
  the root, more is written than was allocated.
\<close>

theorem xml_dump_ex_overrun:
  assumes "1 < new_line" and "0 < space" and "xml_is_element t" and "c \<in> set (nd_child t)" and "xml_is_element c"
  shows "fst (xml_dump_tree_ex t prolog new_line space) < length (snd (xml_dump_tree_ex t prolog new_line space)) + 1"
  using assms out_length_strict [of t c 1 new_line]
  by (simp add: xml_dump_tree_ex_def Let_def dump_tree_append out_length split: option.split)

theorem xml_dump_ex_overrun_witness:
  "fst (xml_dump_tree_ex demo_tree None 2 4) < length (snd (xml_dump_tree_ex demo_tree None 2 4)) + 1"
  by (rule xml_dump_ex_overrun [of 2 4 demo_tree "Node (Some ''d'') None None None None []"])
     (simp_all add: demo_tree_def)

text \<open>
  A search by name returns the elements with that name in document order, and the slots
  counted in the first pass are exactly the ones filled in the second.
\<close>

theorem xml_find_element_exact:
  "fst (xml_find_element root name) = length (snd (xml_find_element root name)) \<and>
   (proper root \<longrightarrow> snd (xml_find_element root name) = filter (is_named name) (nodes root))"
  using find_element_count(1) [of name root "[]"] find_element_nodes [of root name "[]"]
  by (simp add: xml_find_element_def xml_element_count_def)

theorem xml_find_element_exact_witness:
  "xml_find_element demo_tree ''d'' = (1, [Node (Some ''d'') None None None None []])"
proof -
  have "proper demo_tree" by (simp add: demo_tree_def xml_new_text_def)
  moreover have "filter (is_named ''d'') (nodes demo_tree) = [Node (Some ''d'') None None None None []]" by code_simp
  ultimately show ?thesis using xml_find_element_exact [of demo_tree "''d''"] by (simp add: prod_eq_iff)
qed

text \<open>
  A search by path returns what the path selects. For every path the counted slots are the
  filled ones; for a path of steps, each a name with an optional prefix, the result is the elements
  that are reached by matching the steps level by level.
\<close>

theorem xml_find_path_exact:
  "fst (xml_find_path root path) = length (snd (xml_find_path root path)) \<and>
   ((\<forall>st \<in> set steps. step_ok st) \<longrightarrow> snd (xml_find_path root (path_string steps)) = select steps root)"
  using find_path_count(1) [of root path "[]"] find_path_select [of steps root "[]"]
  by (simp add: xml_find_path_def xml_path_count_def)

theorem xml_find_path_exact_witness:
  "snd (xml_find_path demo_tree ''/a:b/d'') = [Node (Some ''d'') None None None None []]"
  using xml_find_path_exact [of demo_tree _ "[(Some ''a'', ''b''), (None, ''d'')]"]
  by (simp add: step_ok_def path_string_def qname_def) (simp add: demo_tree_def)

section \<open>Strings and attributes\<close>

text \<open>
  The substring search finds the first occurrence, and a null pointer means that there is none.
\<close>

theorem xml_strstr_first:
  "(xml_strstr s b = Some i \<longleftrightarrow> prefix b (drop i s) \<and> (\<forall>j < i. \<not> prefix b (drop j s))) \<and>
   (xml_strstr s b = None \<longleftrightarrow> \<not> sublist b s)"
  by (simp add: xml_strstr_Some xml_strstr_None)

theorem xml_strstr_first_witness: "xml_strstr ''ababc'' ''abc'' = Some 2 \<and> \<not> sublist ''ac'' ''ababc''"
proof -
  have "xml_strstr ''ababc'' ''ac'' = None" by code_simp
  moreover have "prefix ''abc'' (drop 2 ''ababc'')" by (simp add: numeral_2_eq_2)
  moreover have "\<forall>j < 2. \<not> prefix ''abc'' (drop j ''ababc'')" by (simp add: less_2_cases_iff)
  ultimately show ?thesis
    using xml_strstr_first [of "''ababc''" "''abc''" 2] xml_strstr_first [of "''ababc''" "''ac''"] by blast
qed

text \<open>
  C35: the attributes of a node are a map. For a node whose attribute string is absent or well-formed, that is, a list of items
  name, \<open>=\<close>, quote, value and the same quote, separated by single blanks and with different names, setting an attribute does not fault and leaves a well-formed
  string, a later lookup of it gives the new value, and every other attribute keeps its value. Names are not empty and
  contain no blank, no \<open>=\<close> and no quote; values, also the new one, contain neither kind of quote and do not end with
  \<open>=\<close>. A value with both kinds of quote is read back cut (\<open>xml_quoted_value_cut\<close>).
\<close>

theorem xml_attribute_set_get:
  assumes "attrs_of node xs" and "key_ok a" and "value_ok w"
  shows "\<exists>node'. xml_set_attribute node a w = Some node' \<and> (\<exists>ys. attrs_of node' ys) \<and>
    (\<forall>b. key_ok b \<longrightarrow> xml_get_attribute node' b = (if b = a then Some (Some w) else xml_get_attribute node b))"
  using xml_attrs.put_law [OF exI [of "attrs_of node", OF assms(1)] assms(2,3)] .

theorem xml_attribute_set_get_witness:
  "\<exists>node'. xml_set_attribute (Node (Some ''n'') None None None (Some ''k=\"1\" m=\"2\"'') []) ''k'' ''7'' = Some node' \<and>
     xml_get_attribute node' ''k'' = Some (Some ''7'')"
proof -
  have "attrs_of (Node (Some ''n'') None None None (Some ''k=\"1\" m=\"2\"'') [])
      [(''k'', CHR 0x22, ''1''), (''m'', CHR 0x22, ''2'')]"
    by (simp add: attrs_of_def items_ok_def key_ok_def value_ok_def quote_def attr_string_def)
  from xml_attribute_set_get [OF this, of "''k''" "''7''"] show ?thesis
    by (auto simp: key_ok_def value_ok_def quote_def)
qed

text \<open>
  A value with both kinds of quote is written between apostrophes as it is, and the lookup ends at the first apostrophe: of
  \<open>a'b"c\<close> only \<open>a\<close> comes back.
\<close>

theorem xml_quoted_value_cut:
  "map_option (\<lambda>n. xml_get_attribute n ''k'')
     (xml_set_attribute (Node (Some ''n'') None None None None []) ''k'' [CHR ''a'', CHR 0x27, CHR ''b'', CHR 0x22, CHR ''c'']) =
   Some (Some (Some ''a''))"
  by code_simp

section \<open>The name of a document\<close>

lemma doc_name_loop_element:
  assumes "CHR ''>'' \<notin> set tag" and "tag \<noteq> []" and "last tag \<noteq> CHR ''/''"
    and "xml_parse_tag tag = Some (pfx, Some name, uri, attr)" and "find_end doc pfx name = Some k"
  shows "doc_name_loop (CHR ''<'' # tag @ CHR ''>'' # doc) = Some (Some (pfx, Some name, uri))"
proof -
  have "(tag @ CHR ''>'' # doc) ! (length tag - 1) \<noteq> CHR ''/''"
    using assms(2,3) by (simp add: nth_append last_conv_nth)
  then show ?thesis using assms by (subst doc_name_loop.simps) simp
qed

text \<open>
  The name of a document is the name of its root, and parsing with that name gives the
  document. For a printed tree the search for the document name finds prefix, name and URI of the
  root; when the root has no other attribute than its name space, the parser that is given these
  three returns the tree.
\<close>

theorem xml_doc_name_root:
  assumes "printable t" and "t = Node (Some m) None p u a cs" and "doc = snd (xml_dump_tree t)"
  shows "xml_doc_name doc (length doc) = Some (Some (p, Some m, u)) \<and>
    (a = nd_attr (xml_new_element p m u) \<longrightarrow> xml_parse_doc doc (length doc) p m u = Some (Some t))"
proof -
  let ?in = "outs 0 0 cs @ trail 0 0 cs"
  have pr: "printable (Node (Some m) None p u a cs)" using assms(1,2) by simp
  have tag: "tag_ok p m a" "uri_ok p a u" using pr by simp_all
  have o: "doc = out 0 0 t" using assms(3) by (simp add: xml_dump_tree_def dump_tree_append)
  have doc: "doc = start_tag p m a @ ?in @ end_tag1 p m" using o assms(2) by (simp add: out_Node)
  have c: "cstr doc = doc" using cstr_id [OF out_NUL [OF assms(1)]] o by simp
  have f: "find_end (?in @ end_tag1 p m) p m = Some (length ?in)" using find_end_own [OF pr, of 0 0 "[]"] by simp
  have name: "xml_doc_name doc (length doc) = Some (Some (p, Some m, u))"
    using doc_name_loop_element [OF tag_text_chars(2) [OF tag(1)] tag_text_last [OF tag(1)] parse_tag_text [OF tag] f] c
    by (simp add: xml_doc_name_def doc start_tag_text)
  have "xml_parse_doc doc (length doc) p m u = Some (Some t)" if a: "a = nd_attr (xml_new_element p m u)"
  proof -
    have st: "doc_start_tag p m u @ ''>'' = start_tag p m a"
      by (cases p; cases u) (simp_all add: a doc_start_tag_def start_tag_def xml_new_element_def qname_def)
    have "xml_strstr doc (start_tag p m a) = Some 0" by (simp add: doc xml_strstr_Some)
    moreover have "xml_strstr (?in @ end_tag1 p m) (end_tag1 p m) = Some (length ?in)"
    proof -
      have "sublist (end_tag1 p m) (?in @ end_tag1 p m)" by (metis sublist_appendI append_Nil2 append_assoc)
      then have "xml_strstr (?in @ end_tag1 p m) (end_tag1 p m) \<noteq> None" by (simp add: xml_strstr_None)
      then show ?thesis using f by (auto simp: find_end_def)
    qed
    moreover have "drop (length (start_tag p m a)) doc = ?in @ end_tag1 p m" by (simp add: doc)
    moreover have "NUL \<notin> set ?in" using out_NUL [OF assms(1), of 0 0] unfolding o [symmetric] doc by simp
    then have "cstr ?in = ?in" by (rule cstr_id)
    moreover have "xml_new_element p m u = Node (Some m) None p u a []" by (simp add: a xml_new_element_def Let_def)
    moreover have "parse_loop ?in (Some (Node (Some m) None p u a [])) = Some (Some t)"
      using parse_inner [OF parse_tree pr] assms(2) by simp
    ultimately show ?thesis
      using c by (simp add: xml_parse_doc_def xml_parse_into_def Let_def st)
  qed
  then show ?thesis using name by blast
qed

definition plain_tree :: xml_node where
  "plain_tree = Node (Some ''b'') None (Some ''a'') None None [xml_new_text ''hi'']"

theorem xml_doc_name_root_witness:
  "xml_doc_name ''<a:b>hi</a:b>'' (length ''<a:b>hi</a:b>'') = Some (Some (Some ''a'', Some ''b'', None)) \<and>
   xml_parse_doc ''<a:b>hi</a:b>'' (length ''<a:b>hi</a:b>'') (Some ''a'') ''b'' None = Some (Some plain_tree)"
proof -
  have pr: "printable plain_tree"
    by (auto simp: plain_tree_def tag_ok_def name_ok_def uri_ok_def NUL_def qname_def xml_new_text_def text_ok_def)
  have d: "''<a:b>hi</a:b>'' = snd (xml_dump_tree plain_tree)" by code_simp
  have "None = nd_attr (xml_new_element (Some ''a'') ''b'' None)" by (simp add: xml_new_element_def)
  then show ?thesis using xml_doc_name_root [OF pr plain_tree_def d] by blast
qed

section \<open>Links\<close>

text \<open>
  C37: adding a child keeps the links. In a store that holds an element with its children and,
  apart from it, a tree without parent and siblings, linking the tree as a child gives a store that
  holds the element with the tree as its last child, every parent, previous and next link in place;
  nothing else changes. The walk to the last child needs one round per child.
\<close>

theorem xml_add_child_links:
  assumes "rep h gp pp pn (L p d cs)" and "rep h 0 0 0 t" and "distinct (addrs (L p d cs) @ addrs t)"
    and "d ! 0 \<noteq> None" and "d ! 1 = None" and "length cs \<le> fuel"
  shows "\<exists>h'. link_add_child fuel p (addr t) h = Some h' \<and> rep h' gp pp pn (L p d (cs @ [t])) \<and>
    tree_of (L p d (cs @ [t])) = xml_add_child (tree_of (L p d cs)) (tree_of t) \<and>
    (\<forall>a. a \<notin> set (addrs (L p d cs) @ addrs t) \<longrightarrow> h' a = h a)"
  using add_child_rep [OF assms] tree_of_add_child [OF assms(4,5)] by blast

definition demo_cell :: "string option \<Rightarrow> nat \<Rightarrow> nat \<Rightarrow> nat \<Rightarrow> nat \<Rightarrow> xml_cell" where
  "demo_cell n par chi prv nxt = \<lparr>c_name = n, c_text = None, c_prefix = None, c_uri = None, c_attr = None,
     c_parent = par, c_child = chi, c_prev = prv, c_next = nxt\<rparr>"

definition demo_store :: xml_store where
  "demo_store = [1 \<mapsto> demo_cell (Some ''r'') 0 2 0 0, 2 \<mapsto> demo_cell (Some ''x'') 1 0 0 3,
     3 \<mapsto> demo_cell (Some ''y'') 1 0 2 0, 4 \<mapsto> demo_cell (Some ''z'') 0 0 0 0]"

definition demo_leaf :: "nat \<Rightarrow> string \<Rightarrow> ltree" where
  "demo_leaf p n = L p [Some n, None, None, None, None] []"

theorem xml_add_child_links_witness:
  "\<exists>h'. link_add_child 2 1 4 demo_store = Some h' \<and>
     rep h' 0 0 0 (L 1 [Some ''r'', None, None, None, None] [demo_leaf 2 ''x'', demo_leaf 3 ''y'', demo_leaf 4 ''z''])"
  using xml_add_child_links [of demo_store 0 0 0 1 "[Some ''r'', None, None, None, None]"
      "[demo_leaf 2 ''x'', demo_leaf 3 ''y'']" "demo_leaf 4 ''z''" 2]
  by (auto simp: demo_store_def demo_leaf_def demo_cell_def cell_strings_def)

text \<open>
  C36: deleting a subtree frees exactly its nodes and closes the gap. In a store that holds a node
  with its children, deleting one child returns; its nodes are no longer allocated, the store holds
  the node with the other children linked in order, and nothing outside the node's tree changes.
\<close>

theorem xml_delete_tree_links:
  assumes "rep h gp pp pn (L p d (us @ t # vs))" and "distinct (0 # addrs (L p d (us @ t # vs)))"
  shows "\<exists>N h'. (\<forall>n \<ge> N. xml_delete_tree n (addr t) h = Some h') \<and> rep h' gp pp pn (L p d (us @ vs)) \<and>
    (\<forall>a \<in> set (addrs t). h' a = None) \<and> (\<forall>a. a \<notin> set (addrs (L p d (us @ t # vs))) \<longrightarrow> h' a = h a)"
  using delete_child_rep [OF assms] by blast

theorem xml_delete_tree_links_witness:
  "\<exists>N h'. (\<forall>n \<ge> N. xml_delete_tree n 2 demo_store = Some h') \<and>
     rep h' 0 0 0 (L 1 [Some ''r'', None, None, None, None] [demo_leaf 3 ''y''])"
  using xml_delete_tree_links [of demo_store 0 0 0 1 "[Some ''r'', None, None, None, None]" "[]"
      "demo_leaf 2 ''x''" "[demo_leaf 3 ''y'']"]
  by (auto simp: demo_store_def demo_leaf_def demo_cell_def cell_strings_def)

end
