(* ===== verification/Ymodem_Crc.thy ===== *)
theory Ymodem_Crc
  imports RTL_Prelude
begin

text \<open>
  The cyclic redundancy check of \<^verbatim>\<open>crc_check\<close> in \<^verbatim>\<open>component/common/utilities/uart_ymodem.c\<close>: the loop as
  it is written, on a 32-bit accumulator whose upper half is never cleared, and the reference it is
  compared with, long division of bit strings by \<open>x\<^sup>1\<^sup>6 + x\<^sup>1\<^sup>2 + x\<^sup>5 + 1\<close>. From the reference follow
  linearity and that no error confined to sixteen consecutive bits goes unnoticed.
\<close>

section \<open>The loop\<close>

definition crc_bit :: "u32 \<Rightarrow> u32" where
  "crc_bit cksum = (if cksum AND 0x8000 \<noteq> 0 then push_bit 1 cksum XOR 0x1021 else push_bit 1 cksum)"

definition crc_byte :: "u8 \<Rightarrow> u32 \<Rightarrow> u32" where
  "crc_byte b cksum = (crc_bit ^^ 8) (cksum XOR push_bit 8 (ucast b))"

definition crc_loop :: "bytes \<Rightarrow> u32" where
  "crc_loop data = fold crc_byte data 0 AND 0xffff"

section \<open>Long division of bit strings\<close>

text \<open>Bit strings have the highest coefficient first. \<open>xor_onto\<close> adds a string to the front of another.\<close>

fun xor_onto :: "bool list \<Rightarrow> bool list \<Rightarrow> bool list" where
  "xor_onto (a # as) (b # bs) = (a \<noteq> b) # xor_onto as bs"
| "xor_onto _ bs = bs"

lemma length_xor_onto [simp]: "length (xor_onto as bs) = length bs"
  by (induction as bs rule: xor_onto.induct) auto

text \<open>The generator without its leading coefficient.\<close>

definition generator :: "bool list" where
  "generator = [False, False, False, True, False, False, False, False,
                False, False, True, False, False, False, False, True]"

fun remainder :: "bool list \<Rightarrow> bool list" where
  "remainder [] = []"
| "remainder (b # bs) =
     (if length bs < 16 then b # bs else remainder (if b then xor_onto generator bs else bs))"

definition byte_bits :: "u8 \<Rightarrow> bool list" where
  "byte_bits b = map (bit b) (rev [0..<8])"

definition word_bits :: "u16 \<Rightarrow> bool list" where
  "word_bits w = map (bit w) (rev [0..<16])"

definition message_bits :: "bytes \<Rightarrow> bool list" where
  "message_bits bs = concat (map byte_bits bs)"

section \<open>Laws of the reference\<close>

lemma length_generator [simp]: "length generator = 16"
  by (simp add: generator_def)

lemma length_bits [simp]: "length (byte_bits b) = 8" "length (word_bits w) = 16" "length (message_bits bs) = 8 * length bs"
  by (simp_all add: byte_bits_def word_bits_def message_bits_def length_concat comp_def sum_list_triv)

lemma nth_xor_onto:
  "i < length bs \<Longrightarrow> xor_onto as bs ! i \<longleftrightarrow> (if i < length as then as ! i \<noteq> bs ! i else bs ! i)"
proof (induction as bs arbitrary: i rule: xor_onto.induct)
  case (1 a as b bs)
  then show ?case by (cases i) auto
qed auto

lemma xor_onto_eqI:
  assumes "length bs = length cs"
    and "\<And>i. i < length bs \<Longrightarrow> (if i < length as then as ! i \<noteq> bs ! i else bs ! i) \<longleftrightarrow> cs ! i"
  shows "xor_onto as bs = cs"
  using assms by (intro nth_equalityI) (auto simp: nth_xor_onto)

lemma xor_onto_assoc: "length as = length bs \<Longrightarrow> xor_onto (xor_onto as bs) cs = xor_onto as (xor_onto bs cs)"
  by (rule xor_onto_eqI) (auto simp: nth_xor_onto)

lemma xor_onto_left_commute: "xor_onto as (xor_onto bs cs) = xor_onto bs (xor_onto as cs)"
  by (rule xor_onto_eqI) (auto simp: nth_xor_onto)

lemma xor_onto_append: "length as \<le> length bs \<Longrightarrow> xor_onto as (bs @ cs) = xor_onto as bs @ cs"
  by (rule xor_onto_eqI) (auto simp: nth_xor_onto nth_append)

lemma xor_onto_zeros [simp]: "length as = n \<Longrightarrow> xor_onto as (replicate n False) = as"
  by (rule xor_onto_eqI) auto

lemma length_remainder: "16 \<le> length bs \<Longrightarrow> length (remainder bs) = 16"
  by (induction bs rule: remainder.induct) auto

lemma remainder_short [simp]: "length bs \<le> 16 \<Longrightarrow> remainder bs = bs"
  by (cases bs) auto

text \<open>The remainder is linear.\<close>

lemma remainder_xor:
  "length as = length bs \<Longrightarrow> remainder (xor_onto as bs) = xor_onto (remainder as) (remainder bs)"
proof (induction as arbitrary: bs rule: remainder.induct)
  case (2 a as)
  then obtain b bs' where b: "bs = b # bs'" "length as = length bs'" by (cases bs) auto
  show ?case
  proof (cases "length as < 16")
    case False
    let ?r = "\<lambda>c xs. if c then xor_onto generator xs else xs"
    have "xor_onto (?r a as) (?r b bs') = ?r (a \<noteq> b) (xor_onto as bs')"
    proof (rule nth_equalityI)
      fix i assume "i < length (xor_onto (?r a as) (?r b bs'))"
      then have "i < length bs'" by (auto split: if_splits)
      then show "xor_onto (?r a as) (?r b bs') ! i = ?r (a \<noteq> b) (xor_onto as bs') ! i"
        using b(2) by (auto simp: nth_xor_onto)
    qed auto
    moreover have "remainder (xor_onto (?r a as) (?r b bs')) = xor_onto (remainder (?r a as)) (remainder (?r b bs'))"
      using False b(2) by (intro "2.IH") auto
    ultimately show ?thesis using False b by simp
  qed (use b in simp)
qed simp

lemma remainder_leading_zeros: "16 \<le> length bs \<Longrightarrow> remainder (replicate n False @ bs) = remainder bs"
  by (induction n) auto

text \<open>Appending a string of sixteen bits instead of sixteen zeros adds it to the remainder.\<close>

lemma remainder_append:
  assumes "length c = 16"
  shows "remainder (l @ c) = xor_onto (remainder (l @ replicate 16 False)) c"
proof -
  have "l @ c = xor_onto (l @ replicate 16 False) (replicate (length l) False @ c)"
    using assms by (intro xor_onto_eqI [symmetric]) (auto simp: nth_append)
  then show ?thesis using assms by (simp add: remainder_xor remainder_leading_zeros)
qed

section \<open>The register\<close>

text \<open>The loop on sixteen bits; the accumulator's upper half has no influence on its lower one.\<close>

definition register_bit :: "u16 \<Rightarrow> u16" where
  "register_bit c = push_bit 1 c XOR (if bit c 15 then 0x1021 else 0)"

lemma bit_8000: "cksum AND 0x8000 \<noteq> 0 \<longleftrightarrow> bit (cksum :: u32) 15"
proof -
  have "(0x8000 :: u32) = push_bit 15 1" by simp
  then show ?thesis by (metis and_exp_eq_0_iff_not_bit push_bit_of_1)
qed

lemma ucast_crc_bit: "ucast (crc_bit c) = register_bit (ucast c)"
  unfolding crc_bit_def bit_8000 register_bit_def
  by (rule bit_word_eqI) (auto simp: bit_simps simp del: push_bit_Suc)

lemma ucast_crc_bits: "ucast ((crc_bit ^^ n) c) = (register_bit ^^ n) (ucast c)"
  by (induction n) (simp_all add: ucast_crc_bit)

lemma ucast_crc_byte: "ucast (crc_byte b c) = (register_bit ^^ 8) (ucast c XOR push_bit 8 (ucast b))"
proof -
  have "ucast (c XOR push_bit 8 (ucast b)) = (ucast c XOR push_bit 8 (ucast b) :: u16)"
    by (rule bit_word_eqI) (auto simp: bit_simps)
  then show ?thesis unfolding crc_byte_def ucast_crc_bits by simp
qed

lemma nth_byte_bits: "i < 8 \<Longrightarrow> byte_bits b ! i = bit b (7 - i)"
  by (simp add: byte_bits_def rev_nth)

lemma nth_word_bits: "i < 16 \<Longrightarrow> word_bits w ! i = bit w (15 - i)"
  by (simp add: word_bits_def rev_nth)

lemma generator_bits: "generator = word_bits 0x1021"
  by code_simp

lemma bit_register_bit:
  "bit (register_bit c) n \<longleftrightarrow> (n < 16 \<and> 0 < n \<and> bit c (n - 1)) \<noteq> (bit c 15 \<and> bit (0x1021 :: u16) n)"
  by (auto simp: register_bit_def bit_simps simp del: push_bit_Suc)

text \<open>One step of the register is one step of the division.\<close>

lemma remainder_register:
  assumes "16 \<le> length s"
  shows "remainder (xor_onto (word_bits c) (False # s)) = remainder (xor_onto (word_bits (register_bit c)) s)"
proof -
  define t where "t = map (bit c) (rev [0..<15])"
  have "[0..<16] = [0..<15] @ [15]" using upt_Suc [of 0 15] by simp
  then have t: "word_bits c = bit c 15 # t" "length t = 15" by (simp_all add: word_bits_def t_def)
  have "(if bit c 15 then xor_onto generator (xor_onto t s) else xor_onto t s) = xor_onto (word_bits (register_bit c)) s"
  proof (rule nth_equalityI)
    fix i assume "i < length (if bit c 15 then xor_onto generator (xor_onto t s) else xor_onto t s)"
    then have i: "i < length s" by (auto split: if_splits)
    have "t ! i = bit c (14 - i)" if "i < 15" using that by (simp add: t_def rev_nth)
    then show "(if bit c 15 then xor_onto generator (xor_onto t s) else xor_onto t s) ! i =
        xor_onto (word_bits (register_bit c)) s ! i"
      using i t(2) unfolding generator_bits by (cases "i < 15"; cases "i = 15") (auto simp: nth_xor_onto nth_word_bits bit_register_bit)
  qed auto
  then show ?thesis using assms by (simp add: t(1))
qed

lemma remainder_registers:
  "16 \<le> length s \<Longrightarrow> remainder (xor_onto (word_bits c) (replicate n False @ s)) = remainder (xor_onto (word_bits ((register_bit ^^ n) c)) s)"
proof (induction n arbitrary: c)
  case (Suc n)
  then show ?case using remainder_register [of "replicate n False @ s" c] by (simp add: funpow_swap1)
qed simp

lemma remainder_byte:
  assumes "16 \<le> length s"
  shows "remainder (xor_onto (word_bits (ucast c)) (byte_bits b @ s)) = remainder (xor_onto (word_bits (ucast (crc_byte b c))) s)"
proof -
  have "xor_onto (word_bits (ucast c)) (byte_bits b @ s) =
      xor_onto (word_bits (ucast c XOR push_bit 8 (ucast b))) (replicate 8 False @ s)"
    using assms by (intro nth_equalityI)
      (auto simp: nth_xor_onto nth_word_bits nth_byte_bits nth_append bit_simps)
  then show ?thesis using assms by (simp add: remainder_registers ucast_crc_byte)
qed

lemma remainder_bytes:
  assumes "16 \<le> length s"
  shows "remainder (xor_onto (word_bits (ucast c)) (message_bits data @ s)) =
    remainder (xor_onto (word_bits (ucast (fold crc_byte data c))) s)"
  using assms by (induction data arbitrary: c) (simp_all add: message_bits_def remainder_byte)

section \<open>The loop computes the remainder\<close>

lemma word_bits_zero: "word_bits 0 = replicate 16 False"
  by (intro nth_equalityI) (auto simp: nth_word_bits)

lemma word_bits_inject [simp]: "word_bits v = word_bits w \<longleftrightarrow> v = w"
proof
  assume eq: "word_bits v = word_bits w"
  show "v = w"
  proof (rule bit_word_eqI)
    fix n assume "n < LENGTH(16)"
    then show "bit v n \<longleftrightarrow> bit w n" using arg_cong [OF eq, of "\<lambda>l. l ! (15 - n)"] by (simp add: nth_word_bits)
  qed
qed simp

lemma word_bits_surj:
  assumes "length w = 16"
  obtains c where "word_bits c = w"
proof
  show "word_bits (horner_sum of_bool 2 (rev w)) = w"
    using assms by (intro nth_equalityI) (auto simp: nth_word_bits bit_horner_sum_bit_word_iff rev_nth)
qed

lemma xor_onto_zeros_left: "xor_onto (replicate n False) bs = bs"
  by (rule xor_onto_eqI) auto

lemma bit_crc_loop: "bit (crc_loop data) n \<longleftrightarrow> n < 16 \<and> bit (fold crc_byte data 0) n"
proof -
  have m: "(0xffff :: u32) = mask 16" by (simp add: mask_eq_exp_minus_1)
  show ?thesis unfolding crc_loop_def m by (simp only: bit_and_iff bit_mask_iff) (auto dest: bit_imp_le_length)
qed

lemma crc_loop_remainder: "word_bits (ucast (crc_loop data)) = remainder (message_bits data @ replicate 16 False)"
proof -
  have "(ucast (crc_loop data) :: u16) = ucast (fold crc_byte data 0)"
    by (intro bit_word_eqI) (auto simp: bit_simps bit_crc_loop)
  then show ?thesis
    using remainder_bytes [of "replicate 16 False" 0 data] by (simp add: word_bits_zero xor_onto_zeros_left)
qed

lemma crc_loop_range: "ucast (ucast (crc_loop data) :: u16) = crc_loop data"
  by (intro bit_word_eqI) (auto simp: bit_simps bit_crc_loop)

text \<open>The two bytes behind a block agree with its check exactly when the whole string is divisible.\<close>

definition crc_bytes :: "bytes \<Rightarrow> bytes" where
  "crc_bytes data = [ucast (drop_bit 8 (crc_loop data)), ucast (crc_loop data)]"

lemma join_bytes: "byte_bits h @ byte_bits l = word_bits (push_bit 8 (ucast h) OR ucast l)"
proof (rule nth_equalityI)
  fix i assume "i < length (byte_bits h @ byte_bits l)"
  then have "i < 16" by simp
  moreover have "\<not> bit (b :: u8) m" if "8 \<le> m" for b m using that bit_imp_le_length [of b m] by auto
  ultimately show "(byte_bits h @ byte_bits l) ! i = word_bits (push_bit 8 (ucast h) OR ucast l) ! i"
    by (cases "i < 8") (auto simp: nth_append nth_byte_bits nth_word_bits bit_simps)
qed simp

lemma message_bits_append: "message_bits (a @ b) = message_bits a @ message_bits b"
  by (simp add: message_bits_def)

lemma xor_onto_eq_zeros: "length r = n \<Longrightarrow> length c = n \<Longrightarrow> xor_onto r c = replicate n False \<longleftrightarrow> r = c"
  by (auto simp: list_eq_iff_nth_eq nth_xor_onto)

lemma crc_accepts:
  "crc_loop data = push_bit 8 (ucast h) OR ucast l \<longleftrightarrow> remainder (message_bits (data @ [h, l])) = replicate 16 False"
proof -
  have u: "ucast (push_bit 8 (ucast h) OR ucast l :: u32) = (push_bit 8 (ucast h) OR ucast l :: u16)"
    by (rule bit_word_eqI) (auto simp: bit_simps)
  have r: "ucast (push_bit 8 (ucast h) OR ucast l :: u16) = (push_bit 8 (ucast h) OR ucast l :: u32)"
    by (rule bit_word_eqI) (auto simp: bit_simps dest: bit_imp_le_length)
  have "crc_loop data = push_bit 8 (ucast h) OR ucast l \<longleftrightarrow>
      (ucast (crc_loop data) :: u16) = push_bit 8 (ucast h) OR ucast l"
    by (metis crc_loop_range u r)
  also have "\<dots> \<longleftrightarrow> remainder (message_bits data @ replicate 16 False) = byte_bits h @ byte_bits l"
    unfolding join_bytes crc_loop_remainder [symmetric] by simp
  also have "\<dots> \<longleftrightarrow> xor_onto (remainder (message_bits data @ replicate 16 False)) (byte_bits h @ byte_bits l) = replicate 16 False"
    (is "?r = ?c \<longleftrightarrow> _")
  proof -
    have len: "length ?r = 16" "length ?c = 16" by (simp_all add: length_remainder)
    then show ?thesis by (simp add: xor_onto_eq_zeros)
  qed
  also have "\<dots> \<longleftrightarrow> remainder (message_bits (data @ [h, l])) = replicate 16 False"
    using remainder_append [of "byte_bits h @ byte_bits l" "message_bits data"]
    by (simp add: message_bits_append message_bits_def)
  finally show ?thesis .
qed

lemma crc_bytes_accepted: "crc_loop data = push_bit 8 (ucast (crc_bytes data ! 0)) OR ucast (crc_bytes data ! 1)"
  by (intro bit_word_eqI) (auto simp: crc_bytes_def bit_simps bit_crc_loop)

section \<open>Bursts\<close>

lemma register_nonzero: "c \<noteq> 0 \<Longrightarrow> (register_bit ^^ n) c \<noteq> 0"
proof (induction n)
  case (Suc n)
  let ?c = "(register_bit ^^ n) c"
  show ?case
  proof
    assume "(register_bit ^^ Suc n) c = 0"
    then have z: "\<not> bit (register_bit ?c) m" for m by simp
    have "\<not> bit ?c 15" using z [of 0] by (simp add: bit_register_bit)
    moreover have "\<not> bit ?c m" if "m < 15" for m
      using z [of "Suc m"] that \<open>\<not> bit ?c 15\<close> by (simp add: bit_register_bit)
    ultimately have "\<not> bit ?c m" if "m < 16" for m using that by (cases "m = 15") auto
    then have "?c = 0" by (intro bit_word_eqI) simp
    then show False using Suc by simp
  qed
qed simp

lemma remainder_burst:
  assumes "length w = 16" and "True \<in> set w"
  shows "remainder (replicate i False @ w @ replicate j False) \<noteq> replicate 16 False"
proof -
  obtain c where c: "word_bits c = w" using word_bits_surj [OF assms(1)] by blast
  have "c \<noteq> 0" using assms(2) c word_bits_zero by auto
  have "w @ replicate j False = xor_onto (word_bits c) (replicate 16 False @ replicate j False)"
    using c assms(1) by (subst xor_onto_append) (auto simp del: append_replicate_commute)
  also have "replicate 16 False @ replicate j False = replicate j False @ replicate 16 False"
    by (simp flip: replicate_add add: add.commute)
  finally have "remainder (w @ replicate j False) = word_bits ((register_bit ^^ j) c)"
    by (simp add: remainder_registers)
  then show ?thesis
    using register_nonzero [OF \<open>c \<noteq> 0\<close>, of j] assms(1) word_bits_inject [of _ 0]
    by (simp add: remainder_leading_zeros word_bits_zero)
qed

text \<open>A burst of errors in a divisible string leaves a string that is not divisible.\<close>

lemma burst_detected:
  assumes "remainder sent = replicate 16 False" and "length w = 16" and "True \<in> set w"
    and "length sent = i + 16 + j"
    and "received = xor_onto (replicate i False @ w @ replicate j False) sent"
  shows "remainder received \<noteq> replicate 16 False"
proof -
  have "remainder received = remainder (replicate i False @ w @ replicate j False)"
    using assms(1,2,4,5) by (simp add: remainder_xor length_remainder)
  then show ?thesis using remainder_burst [OF assms(2,3)] by simp
qed

end
