(* ===== verification/Ymodem.thy ===== *)
theory Ymodem
  imports Ota Ymodem_Crc
begin

text \<open>
  The YMODEM receiver, \<^verbatim>\<open>component/common/utilities/uart_ymodem.c\<close> with the configuration of
  \<^verbatim>\<open>uart_ymodem.h\<close> (8711B, file size on, CRC on, no dump, no reboot): a UART interrupt that fills a ring
  buffer, a thread that waits for the line to fall silent and then takes the buffer for one packet,
  and the writing of the packets' data to the OTA slot through the flash driver and the routines of
  \<^verbatim>\<open>rtl8710b_ota.c\<close>.

  The record holds the members of \<open>uart_ymodem_t\<close>, the file's static variables, the thread's local
  variables, the bytes sent and the board. Buffers are the memory from their first byte on. The thread
  and the interrupt interleave at the events of \<open>ymodem_event\<close>.
\<close>

section \<open>State\<close>

definition MODEM_SOH :: u8 where "MODEM_SOH = 0x01"
definition MODEM_STX :: u8 where "MODEM_STX = 0x02"
definition MODEM_EOT :: u8 where "MODEM_EOT = 0x04"
definition MODEM_ACK :: u8 where "MODEM_ACK = 0x06"
definition MODEM_NAK :: u8 where "MODEM_NAK = 0x15"
definition MODEM_CAN :: u8 where "MODEM_CAN = 0x18"
definition MODEM_C :: u8 where "MODEM_C = 0x43"
definition MODEM_CAN_COUNT :: int where "MODEM_CAN_COUNT = 3"
definition MODEM_EOT_COUNT :: int where "MODEM_EOT_COUNT = 1"
definition RCV_BUF_SIZE :: int where "RCV_BUF_SIZE = 1 + 2 + 1024 + 2"
definition IMAGE_TWO :: int where "IMAGE_TWO = 0x80000"

lemmas modem_consts = MODEM_SOH_def MODEM_STX_def MODEM_EOT_def MODEM_ACK_def MODEM_NAK_def MODEM_CAN_def
  MODEM_C_def MODEM_CAN_COUNT_def MODEM_EOT_COUNT_def RCV_BUF_SIZE_def

text \<open>
  Where the thread is: not started, sending its invitation, receiving, or ended with an error bit and,
  when there was no error, the result of \<open>set_signature\<close>.
\<close>

datatype thread_phase = Not_started | Inviting | Receiving | Ended (error_bit: int) (signed: "int option")

record 'c ymodem =
  uart_rcv_buf :: ram
  uart_irq_buf :: ram
  uart_rx_sema :: nat
  image_address :: int
  tick_last_update :: int
  tick_current :: int
  uart_recv_index :: int
  uart_recv_buf_index :: int
  modemtype :: int
  crc_mode :: int
  nxt_num :: int
  cur_num :: int
  ym_len :: int
  rec_err :: int
  filelen :: int
  filename :: ram
  uart_signature :: ram
  OtaTargetHdr :: update_ota_target_hdr
  flash_write_len :: int
  flash_offset :: int
  file_offset :: int
  IMAGE_OFFSET :: int
  IMAGE_LEN :: int
  hd_flags :: bool
  sig_flags :: bool
  sig_cnt :: int
  first_time :: bool
  send_count :: int
  can_counter :: int
  eot_counter :: int
  phase :: thread_phase
  sent :: bytes
  ym_board :: "'c board"

section \<open>The UART\<close>

text \<open>The receive interrupt; \<open>now\<close> is the tick count.\<close>

definition uarty_irq :: "int \<Rightarrow> u8 \<Rightarrow> 'c ymodem \<Rightarrow> 'c ymodem" where
  "uarty_irq now ch p =
     (let p = (if uart_recv_index p = 0 then p\<lparr>uart_rx_sema := uart_rx_sema p + 1\<rparr> else p);
          p = (if uart_recv_index p = RCV_BUF_SIZE then p\<lparr>uart_recv_index := 0\<rparr> else p)
      in p\<lparr>uart_irq_buf := (uart_irq_buf p)(uart_recv_index p := ch),
           uart_recv_index := uart_recv_index p + 1, tick_last_update := now\<rparr>)"

definition uart_init :: "'c ymodem \<Rightarrow> 'c ymodem" where
  "uart_init p = p\<lparr>uart_rx_sema := 0\<rparr>"

definition uart_sendbyte :: "u8 \<Rightarrow> 'c ymodem \<Rightarrow> 'c ymodem" where
  "uart_sendbyte sendc p = p\<lparr>sent := sent p @ [sendc]\<rparr>"

text \<open>The return value, always 0, is left out, and so are the branches that test it.\<close>

definition uart_recvbytetimeout :: "'c ymodem \<Rightarrow> u8 \<times> 'c ymodem" where
  "uart_recvbytetimeout p =
     (let ch = uart_irq_buf p (uart_recv_buf_index p);
          p = p\<lparr>uart_recv_buf_index := uart_recv_buf_index p + 1\<rparr>;
          p = (if uart_recv_buf_index p = RCV_BUF_SIZE then p\<lparr>uart_recv_buf_index := 0\<rparr> else p)
      in (ch, p))"

definition memset_0 :: "int \<Rightarrow> ram \<Rightarrow> ram" where
  "memset_0 n m = (\<lambda>i. if 0 \<le> i \<and> i < n then 0 else m i)"

definition uart_rxempty :: "'c ymodem \<Rightarrow> 'c ymodem" where
  "uart_rxempty p = p\<lparr>uart_irq_buf := memset_0 RCV_BUF_SIZE (uart_irq_buf p),
     uart_rcv_buf := memset_0 RCV_BUF_SIZE (uart_rcv_buf p), uart_recv_buf_index := 0, uart_recv_index := 0\<rparr>"

section \<open>Flash\<close>

text \<open>
  The loop of \<open>ymodem_flashwrite\<close>, which nothing calls: it counts \<open>len\<close> down by words to 0 exactly. The
  driver's \<open>flash_write_word\<close> always answers 1, so that the error branch is not taken.
\<close>

partial_function (option) flashwrite_loop :: "'c rom \<Rightarrow> int \<Rightarrow> ram \<Rightarrow> int \<Rightarrow> int \<Rightarrow> 'c board \<Rightarrow> 'c board option" where
  "flashwrite_loop r flashadd m p len b =
     (if len = 0 then Some b
      else flashwrite_loop r (sint32 (flashadd + 4)) m (p + 4) (sint32 (len - 4))
             (snd (flash_write_word r (uint32 flashadd) (word_of_int (load32 m p)) b)))"

definition ymodem_flashwrite :: "'c rom \<Rightarrow> int \<Rightarrow> ram \<Rightarrow> int \<Rightarrow> 'c board \<Rightarrow> (int \<times> 'c board) option" where
  "ymodem_flashwrite r flashadd m len b =
     (if len = 0 then Some (-1, b)
      else (let rm = sgn len * (\<bar>len\<bar> mod 4);
                len = len + (4 - (if rm = 0 then 4 else rm))
            in map_option (Pair 0) (flashwrite_loop r flashadd m 0 len b)))"

section \<open>Start and end\<close>

text \<open>
  The name buffer is an array of \<open>uart_ymodem_init\<close> itself, so that the pointer dangles once it has
  returned; \<open>filename\<close> is the memory there.
\<close>

definition uart_ymodem_init :: "'c ymodem \<Rightarrow> 'c ymodem" where
  "uart_ymodem_init p = p\<lparr>cur_num := 0, filelen := 0, filename := (\<lambda>i. if 0 \<le> i \<and> i < 33 then 0 else filename p i),
     ym_len := 0, nxt_num := 0, modemtype := 2, rec_err := 0, crc_mode := 1, uart_recv_buf_index := 0,
     uart_recv_index := 0, image_address := IMAGE_TWO,
     uart_signature := (\<lambda>i. if 0 \<le> i \<and> i < 9 then 0 else uart_signature p i), OtaTargetHdr := zero_target_hdr,
     flash_write_len := 0, flash_offset := 0, file_offset := 0, IMAGE_OFFSET := 0, IMAGE_LEN := 0,
     hd_flags := False, sig_flags := False, sig_cnt := 0\<rparr>"

text \<open>The length field of the first packet; the scan ends at a zero or at the first character that is no digit.\<close>

partial_function (option) filelen_loop :: "int \<Rightarrow> ram \<Rightarrow> int \<Rightarrow> int \<Rightarrow> int option" where
  "filelen_loop datatype m i result =
     (let c = uint (m i)
      in if c = 0 then Some result
         else if 48 \<le> c \<and> c \<le> 57 then filelen_loop datatype m (i + 1) (sint32 (result * datatype + c - 48))
         else if datatype = 10 then Some result
         else if 65 \<le> c \<and> c \<le> 70 then filelen_loop datatype m (i + 1) (sint32 (result * 16 + c - 55))
         else if 97 \<le> c \<and> c \<le> 102 then filelen_loop datatype m (i + 1) (sint32 (result * 16 + c - 87))
         else Some result)"

definition buf_filelen :: "ram \<Rightarrow> int \<Rightarrow> int option" where
  "buf_filelen m i =
     (if m i = 48 \<and> (m (i + 1) = 120 \<and> m (i + 1) = 88)
      then map_option uint32 (filelen_loop 16 m (i + 2) 0)
      else map_option uint32 (filelen_loop 10 m i 0))"

definition modem_cancle :: "'c ymodem \<Rightarrow> 'c ymodem" where
  "modem_cancle p = uart_sendbyte 0x18 (uart_sendbyte 0x18 (uart_sendbyte 0x18 (uart_sendbyte 0x18 (uart_sendbyte 0x18 p))))"

section \<open>Packets\<close>

definition start_next_round :: "'c ymodem \<Rightarrow> int \<times> 'c ymodem" where
  "start_next_round p =
     (let (ret, p) = (if rec_err p = 0 then (0, uart_rxempty p) else (-1, p))
      in (ret,
          if nxt_num p = 0 then uart_sendbyte (if crc_mode p \<noteq> 0 then MODEM_C else MODEM_NAK) p
          else if rec_err p \<noteq> 0 then uart_sendbyte MODEM_NAK p
          else if nxt_num p = 1
          then (if crc_mode p \<noteq> 0 then uart_sendbyte MODEM_C (uart_sendbyte MODEM_ACK p) else uart_sendbyte MODEM_NAK p)
          else uart_sendbyte MODEM_ACK p))"

definition block_num_check :: "'c ymodem \<Rightarrow> int \<times> 'c ymodem" where
  "block_num_check p =
     (let (blk, p) = uart_recvbytetimeout p;
          (cblk, p) = uart_recvbytetimeout p
      in (if uint blk + uint cblk \<noteq> 0xff then -1 else 0, p))"

text \<open>
  The name of the file is copied up to its terminator. In the code \<open>filename\<close> is an array of 33 bytes that is filled without
  a check; here it is a memory of its own without an end, so that an overrun is visible as a write at an index above 32
  and destroys nothing else.
\<close>

partial_function (option) copy_name :: "ram \<Rightarrow> int \<Rightarrow> ram \<Rightarrow> int \<Rightarrow> (ram \<times> int) option" where
  "copy_name m i name j =
     (if m i \<noteq> 0 then copy_name m (i + 1) (name(j := m i)) (j + 1) else Some (name(j := 0), i + 1))"

partial_function (option) skip_blanks :: "ram \<Rightarrow> int \<Rightarrow> int option" where
  "skip_blanks m i = (if m i = 32 then skip_blanks m (i + 1) else Some i)"

definition calc_file_name_size :: "int \<Rightarrow> 'c ymodem \<Rightarrow> 'c ymodem option" where
  "calc_file_name_size bufptr p =
     (case copy_name (uart_irq_buf p) bufptr (filename p) 0 of
        None \<Rightarrow> None
      | Some (name, i) \<Rightarrow>
          (case skip_blanks (uart_irq_buf p) i of
             None \<Rightarrow> None
           | Some i \<Rightarrow>
               (case buf_filelen (uart_irq_buf p) i of
                  None \<Rightarrow> None
                | Some n \<Rightarrow> Some (p\<lparr>filename := name, filelen := n\<rparr>))))"

definition crc_check :: "'c ymodem \<Rightarrow> int \<times> 'c ymodem" where
  "crc_check p =
     (let (crch, p) = uart_recvbytetimeout p;
          (crcl, p) = (if crc_mode p \<noteq> 0 then uart_recvbytetimeout p else (0, p));
          data = load (uart_rcv_buf p) 0 (nat (ym_len p));
          cksum = uint32 (sum_bytes data)
      in if cksum = 0 then (2, p)
         else if crc_mode p \<noteq> 0
         then (if crc_loop data \<noteq> push_bit 8 (ucast crch) OR ucast crcl then (1, p\<lparr>rec_err := 1\<rparr>) else (0, p))
         else (if uint32 (cksum + sum_bytes data) AND 0xff \<noteq> uint crch then (1, p\<lparr>rec_err := 1\<rparr>) else (0, p)))"

section \<open>Writing the data\<close>

text \<open>The first data packet: find the header of the target image, its slot, and erase the slot.\<close>

definition ymodem_target_index :: "int \<Rightarrow> ota_index" where
  "ymodem_target_index cus_addr =
     (case ota_get_cur_index cus_addr of OTA_INDEX_1 \<Rightarrow> OTA_INDEX_2 | OTA_INDEX_2 \<Rightarrow> OTA_INDEX_1)"

definition open_target :: "'c rom \<Rightarrow> 'c ota_lib \<Rightarrow> int \<Rightarrow> 'c ymodem \<Rightarrow> bool \<times> 'c ymodem" where
  "open_target r l cus_addr p =
     (let idx = ymodem_target_index cus_addr
      in case get_ota_tartget_header (uart_rcv_buf p) (ym_len p) (OtaTargetHdr p) (OtaImgId idx) of
           None \<Rightarrow> (False, p)
         | Some hdr \<Rightarrow>
             (case get_ota_address r l idx hdr (ym_board p) of
                (None, b) \<Rightarrow> (False, p\<lparr>OtaTargetHdr := hdr, ym_board := b\<rparr>)
              | (Some addr, b) \<Rightarrow>
                  (let b = erase_ota_target_flash r addr (ImgLen (FileImgHdr hdr)) b;
                       b = (if RdpStatus hdr then flash_erase_sector r (RDP_FLASH_ADDR - SPI_FLASH_BASE) b else b)
                   in (True, p\<lparr>OtaTargetHdr := hdr, image_address := addr, IMAGE_LEN := ImgLen (FileImgHdr hdr),
                               IMAGE_OFFSET := Offset (FileImgHdr hdr), hd_flags := True, ym_board := b\<rparr>))))"

text \<open>The end of \<open>data_write_to_flash\<close>: \<open>write_len\<close> bytes of the buffer from \<open>buf_offset\<close> on go behind the others.\<close>

definition write_block :: "'c rom \<Rightarrow> int \<Rightarrow> int \<Rightarrow> 'c ymodem \<Rightarrow> int \<times> 'c ymodem" where
  "write_block r buf_offset write_len p =
     (case flash_stream_write r (uint32 (image_address p + flash_offset p - SPI_FLASH_BASE)) write_len
             (\<lambda>i. uart_rcv_buf p (buf_offset + int i)) (ym_board p) of
        (st, b) \<Rightarrow>
          (if st < 0 then (1, p\<lparr>ym_board := b\<rparr>)
           else (0, p\<lparr>ym_board := b, flash_offset := uint32 (flash_offset p + write_len),
                      flash_write_len := uint32 (flash_write_len p + write_len)\<rparr>)))"

definition place_block :: "'c rom \<Rightarrow> 'c ymodem \<Rightarrow> int \<times> 'c ymodem" where
  "place_block r p =
     (let pos = file_offset p; end_pos = uint32 (file_offset p + ym_len p);
          image_end = uint32 (IMAGE_OFFSET p + IMAGE_LEN p);
          p = p\<lparr>file_offset := end_pos\<rparr>
      in if IMAGE_OFFSET p \<ge> pos \<and> IMAGE_OFFSET p < end_pos
         then (let buf_offset = IMAGE_OFFSET p - pos;
                   write_len = uint32 (ym_len p - buf_offset)
               in if \<not> sig_flags p
                  then (let p = (if write_len < 8 then p\<lparr>sig_cnt := write_len\<rparr> else p\<lparr>sig_cnt := 8, sig_flags := True\<rparr>);
                            p = p\<lparr>uart_signature := store 0 (load (uart_rcv_buf p) buf_offset (nat (sig_cnt p))) (uart_signature p),
                                  flash_offset := uint32 (flash_offset p + sig_cnt p)\<rparr>;
                            write_len = uint32 (write_len - sig_cnt p)
                        in if write_len = 0 then (0, p) else write_block r (buf_offset + sig_cnt p) write_len p)
                  else write_block r buf_offset write_len p)
         else if IMAGE_OFFSET p < pos \<and> image_end \<ge> end_pos
         then (if \<not> sig_flags p
               then (let p = p\<lparr>uart_signature := store (sig_cnt p) (load (uart_rcv_buf p) 0 (nat (8 - sig_cnt p))) (uart_signature p),
                               sig_cnt := 8 - sig_cnt p\<rparr>;
                         p = p\<lparr>flash_offset := uint32 (flash_offset p + sig_cnt p), sig_flags := True\<rparr>
                     in write_block r (sig_cnt p) (uint32 (ym_len p - sig_cnt p)) p)
               else write_block r 0 (ym_len p) p)
         else if image_end > pos \<and> image_end < end_pos
         then write_block r 0 (uint32 (image_end - pos)) p
         else (0, p))"

definition data_write_to_flash :: "'c rom \<Rightarrow> 'c ota_lib \<Rightarrow> int \<Rightarrow> 'c ymodem \<Rightarrow> int \<times> 'c ymodem" where
  "data_write_to_flash r l cus_addr p =
     (if hd_flags p then place_block r p
      else (case open_target r l cus_addr p of
              (False, p) \<Rightarrow> (1, p)
            | (True, p) \<Rightarrow> place_block r p))"

definition set_signature :: "'c rom \<Rightarrow> 'c ota_lib \<Rightarrow> 'c ymodem \<Rightarrow> int \<times> 'c ymodem" where
  "set_signature r l p =
     (let idx = (if image_address p = OTA1_ADDR then OTA_INDEX_1 else OTA_INDEX_2)
      in if flash_write_len p \<le> 0 \<or> flash_write_len p \<noteq> uint32 (ImgLen (FileImgHdr (OtaTargetHdr p)) - 8) then (1, p)
         else
          (case verify_ota_checksum r l (image_address p) (flash_write_len p) (uart_signature p) (OtaTargetHdr p) (ym_board p) of
             (True, b) \<Rightarrow>
               (case change_ota_signature r l (image_address p) (uart_signature p) idx b of
                  (ok, b) \<Rightarrow> (if ok then 0 else 1, p\<lparr>ym_board := b\<rparr>))
           | (False, b) \<Rightarrow> (1, p\<lparr>ym_board := flash_erase_sector r (uint32 (image_address p - SPI_FLASH_BASE)) b\<rparr>)))"

section \<open>The thread\<close>

text \<open>The label \<open>exit\<close>: every jump there has an error bit or a finished transfer.\<close>

definition thread_exit :: "'c rom \<Rightarrow> 'c ota_lib \<Rightarrow> int \<Rightarrow> 'c ymodem \<Rightarrow> 'c ymodem" where
  "thread_exit r l error p =
     (if error \<noteq> 0 then p\<lparr>first_time := True, phase := Ended error None\<rparr>
      else (case set_signature r l p of (ret, p) \<Rightarrow> p\<lparr>first_time := True, phase := Ended 0 (Some ret)\<rparr>))"

text \<open>One turn of the first loop, which invites the sender every 100 ticks.\<close>

definition invite :: "'c rom \<Rightarrow> 'c ota_lib \<Rightarrow> 'c ymodem \<Rightarrow> 'c ymodem" where
  "invite r l p =
     (if send_count p \<ge> 2 * 60 * 10 then thread_exit r l 6 p
      else (let p = uart_sendbyte (if crc_mode p \<noteq> 0 then MODEM_C else MODEM_NAK) p;
                p = p\<lparr>send_count := send_count p + 1\<rparr>
            in if 0 < uart_rx_sema p then p\<lparr>phase := Receiving\<rparr> else p))"

definition copy_byte :: "nat \<Rightarrow> 'c ymodem \<Rightarrow> 'c ymodem" where
  "copy_byte i p = (case uart_recvbytetimeout p of (ch, p) \<Rightarrow> p\<lparr>uart_rcv_buf := (uart_rcv_buf p)(int i := ch)\<rparr>)"

text \<open>From the block number to the next round. \<open>None\<close>: the scan of the name finds no end.\<close>

definition receive_block :: "'c rom \<Rightarrow> 'c ota_lib \<Rightarrow> int \<Rightarrow> 'c ymodem \<Rightarrow> 'c ymodem option" where
  "receive_block r l cus_addr p =
     (case block_num_check p of (ret, p) \<Rightarrow>
      if ret \<noteq> 0 then Some (thread_exit r l 2 p)
      else
       (case (if nxt_num p = 0 \<and> first_time p then calc_file_name_size 3 p else Some p) of
          None \<Rightarrow> None
        | Some p \<Rightarrow>
            (let p = fold copy_byte [0..<nat (ym_len p)] p;
                 (ret, p) =
                   (if nxt_num p \<noteq> 0 \<or> \<not> first_time p
                    then (case data_write_to_flash r l cus_addr p of
                            (ret, p) \<Rightarrow> if ret \<noteq> 0 then (ret, p) else (0, p\<lparr>first_time := False\<rparr>))
                    else (0, p))
             in if ret \<noteq> 0 then Some (thread_exit r l 3 p)
                else
                 (case crc_check p of (ret, p) \<Rightarrow>
                  if ret = 1 then Some (thread_exit r l 4 p)
                  else if ret = 2 \<and> nxt_num p = 0xff then Some (thread_exit r l 0 p)
                  else (case start_next_round (p\<lparr>nxt_num := uint32 (nxt_num p + 1), rec_err := 0\<rparr>) of
                          (ret, p) \<Rightarrow> Some (if ret \<noteq> 0 then thread_exit r l 5 p else p))))))"

text \<open>One turn of the second loop, once the semaphore was taken and the line is silent.\<close>

definition receive_packet :: "'c rom \<Rightarrow> 'c ota_lib \<Rightarrow> int \<Rightarrow> int \<Rightarrow> 'c ymodem \<Rightarrow> 'c ymodem option" where
  "receive_packet r l cus_addr now p =
     (case uart_recvbytetimeout (p\<lparr>uart_rx_sema := uart_rx_sema p - 1, tick_current := now\<rparr>) of (ch, p) \<Rightarrow>
      if ch = MODEM_SOH then receive_block r l cus_addr (p\<lparr>ym_len := 128\<rparr>)
      else if ch = MODEM_STX then receive_block r l cus_addr (p\<lparr>ym_len := 1024\<rparr>)
      else if ch = MODEM_CAN
      then (let p = p\<lparr>can_counter := can_counter p + 1\<rparr>
            in if can_counter p \<ge> MODEM_CAN_COUNT then Some (thread_exit r l 1 p) else receive_block r l cus_addr p)
      else if ch = MODEM_EOT
      then (let p = p\<lparr>eot_counter := eot_counter p + 1\<rparr>
            in if eot_counter p \<ge> MODEM_EOT_COUNT
               then (let p = uart_sendbyte MODEM_ACK p;
                         p = (if modemtype p = 2
                              then modem_cancle (uart_sendbyte MODEM_C (uart_sendbyte MODEM_ACK (uart_sendbyte MODEM_C p)))
                              else p)
                     in Some (thread_exit r l 0 p))
               else Some (uart_sendbyte MODEM_C (uart_sendbyte MODEM_ACK p)))
      else Some (thread_exit r l 1 p))"

text \<open>
  The events: a turn of the invitation, a byte on the line, a turn of the receiver. \<open>None\<close>: the event
  cannot happen in this state.
\<close>

datatype ymodem_event = Invite | Rx int u8 | Packet int

fun ymodem_step :: "'c rom \<Rightarrow> 'c ota_lib \<Rightarrow> int \<Rightarrow> ymodem_event \<Rightarrow> 'c ymodem \<Rightarrow> 'c ymodem option" where
  "ymodem_step r l cus_addr Invite p = (if phase p = Inviting then Some (invite r l p) else None)"
| "ymodem_step r l cus_addr (Rx now ch) p =
     (if phase p = Inviting \<or> phase p = Receiving then Some (uarty_irq now ch p) else None)"
| "ymodem_step r l cus_addr (Packet now) p =
     (if phase p = Receiving \<and> 0 < uart_rx_sema p \<and> \<not> sint32 (now - tick_last_update p) < 50
      then receive_packet r l cus_addr now p else None)"

fun ymodem_run :: "'c rom \<Rightarrow> 'c ota_lib \<Rightarrow> int \<Rightarrow> ymodem_event list \<Rightarrow> 'c ymodem \<Rightarrow> 'c ymodem option" where
  "ymodem_run r l cus_addr [] p = Some p"
| "ymodem_run r l cus_addr (e # es) p =
     (case ymodem_step r l cus_addr e p of None \<Rightarrow> None | Some p \<Rightarrow> ymodem_run r l cus_addr es p)"

text \<open>Starting the receiver on the memory that the allocation returned.\<close>

definition uart_ymodem :: "bool \<Rightarrow> bool \<Rightarrow> 'c ymodem \<Rightarrow> int \<times> 'c ymodem" where
  "uart_ymodem allocated task_created p =
     (if \<not> allocated then (-1, p)
      else (let p = uart_init (uart_ymodem_init p)
            in (0, if task_created
                   then p\<lparr>send_count := 0, can_counter := 0, eot_counter := 0, phase := Inviting\<rparr> else p)))"

end
