(* ===== verification/Ymodem_Write.thy ===== *)
theory Ymodem_Write
  imports Ymodem Ota_Install
begin

text \<open>
  The placing of the packets' data in the flash: an invariant that ties the receiver's counters, the
  signature it put aside and the cells of the slot to the concatenation of the blocks it has seen.
\<close>

section \<open>Pieces\<close>

lemma take_drop_before: "y + x \<le> length F \<Longrightarrow> take x (drop y (F @ B)) = take x (drop y F)"
  by (simp add: drop_append)

lemma take_drop_across: "y + x = length F \<Longrightarrow> take (x + z) (drop y (F @ B)) = take x (drop y F) @ take z B"
  by (simp add: drop_append) (metis add.commute add.left_commute add_diff_cancel_left')

lemma take_drop_after: "length F \<le> y \<Longrightarrow> take z (drop y (F @ B)) = take z (drop (y - length F) B)"
  by (simp add: drop_append)

lemma load_part: "i + n \<le> k \<Longrightarrow> load m (int i) n = take n (drop i (load m 0 k))"
  by (rule nth_equalityI) (auto simp: load_def)

section \<open>What has been written\<close>

text \<open>
  The image the header announced: no RDP image, longer than one packet and a signature, in the
  address range of the flash.
\<close>

definition ym_target :: "'c ymodem \<Rightarrow> bool" where
  "ym_target p \<longleftrightarrow> \<not> RdpStatus (OtaTargetHdr p) \<and> 1032 \<le> IMAGE_LEN p \<and> 0 \<le> IMAGE_OFFSET p \<and>
     IMAGE_OFFSET p + IMAGE_LEN p < 2 ^ 31 \<and> SPI_FLASH_BASE \<le> image_address p \<and> image_address p mod 4096 = 0 \<and>
     image_address p + IMAGE_LEN p + 4200 < 2 ^ 32"

definition ym_written :: "('c \<Rightarrow> int \<Rightarrow> u8) \<Rightarrow> ('c \<Rightarrow> int \<Rightarrow> bool) \<Rightarrow> (int \<Rightarrow> u8) \<Rightarrow> ram \<Rightarrow> bytes \<Rightarrow> 'c ymodem \<Rightarrow> bool" where
  "ym_written cell clean mem old F p \<longleftrightarrow>
     (let off = nat (IMAGE_OFFSET p); q = length F - off; n = min q (nat (IMAGE_LEN p)) in
      file_offset p = int (length F) \<and> (sig_flags p \<longleftrightarrow> 8 \<le> q) \<and> (\<not> sig_flags p \<longrightarrow> sig_cnt p = int q) \<and>
      uart_signature p = store 0 (take (min q 8) (drop off F)) old \<and>
      flash_offset p = int n \<and> flash_write_len p = int (n - 8) \<and>
      cell (chip (ym_board p)) = prog mem (image_address p - SPI_FLASH_BASE + 8) (take (n - 8) (drop (off + 8) F)) \<and>
      (\<forall>x. clean (chip (ym_board p)) x))"

lemma ym_written_iff:
  assumes "IMAGE_OFFSET p = int off" and "length F - off = q" and "min q (nat (IMAGE_LEN p)) = n"
  shows "ym_written cell clean mem old F p \<longleftrightarrow>
    file_offset p = int (length F) \<and> (sig_flags p \<longleftrightarrow> 8 \<le> q) \<and> (\<not> sig_flags p \<longrightarrow> sig_cnt p = int q) \<and>
    uart_signature p = store 0 (take (min q 8) (drop off F)) old \<and>
    flash_offset p = int n \<and> flash_write_len p = int (n - 8) \<and>
    cell (chip (ym_board p)) = prog mem (image_address p - SPI_FLASH_BASE + 8) (take (n - 8) (drop (off + 8) F)) \<and>
    (\<forall>x. clean (chip (ym_board p)) x)"
  using assms by (simp add: ym_written_def Let_def)

text \<open>The part of the state that placing a block leaves alone.\<close>

definition ym_same :: "'c ymodem \<Rightarrow> 'c ymodem \<Rightarrow> bool" where
  "ym_same p p' \<longleftrightarrow> p' = p\<lparr>file_offset := file_offset p', sig_flags := sig_flags p', sig_cnt := sig_cnt p',
     uart_signature := uart_signature p', flash_offset := flash_offset p', flash_write_len := flash_write_len p',
     ym_board := ym_board p'\<rparr>"

context nor_flash
begin

lemma write_block_cells:
  assumes "image_address p = a + SPI_FLASH_BASE" and "flash_offset p = 8 + int j" and "flash_write_len p = int j"
    and "0 < n" and "0 \<le> a" and "a + SPI_FLASH_BASE + 8 + int j + int n + 3 < 2 ^ 32" and "\<forall>x. clean (chip (ym_board p)) x"
  obtains b where "write_block r (int i) (int n) p =
      (0, p\<lparr>ym_board := b, flash_offset := 8 + int (j + n), flash_write_len := int (j + n)\<rparr>)"
    and "cell (chip b) = prog (cell (chip (ym_board p))) (a + 8 + int j) (load (uart_rcv_buf p) (int i) n)"
    and "\<forall>x. clean (chip b) x"
proof -
  have u: "uint32 (a + SPI_FLASH_BASE + (8 + int j) - SPI_FLASH_BASE) = a + 8 + int j"
    "uint32 (8 + int j + int n) = 8 + int (j + n)" "uint32 (int j + int n) = int (j + n)"
    using assms(5,6) by (auto simp: uint32_id SPI_FLASH_BASE_def)
  define w where "w = flash_stream_write r (a + 8 + int j) (int n) (\<lambda>k. uart_rcv_buf p (int i + int k)) (ym_board p)"
  have st: "fst w = 1" by (simp add: w_def flash_stream_write_def Let_def)
  have "write_block r (int i) (int n) p =
      (0, p\<lparr>ym_board := snd w, flash_offset := 8 + int (j + n), flash_write_len := int (j + n)\<rparr>)"
    using st unfolding write_block_def assms(1-3) u w_def [symmetric] by (cases w) simp
  moreover have "cell (chip (snd w)) = prog (cell (chip (ym_board p))) (a + 8 + int j) (load (uart_rcv_buf p) (int i) n)"
    "\<forall>x. clean (chip (snd w)) x"
    using stream_write_cells [of "a + 8 + int j" "int n" "ym_board p" "\<lambda>k. uart_rcv_buf p (int i + int k)"] assms(4-7)
    by (auto simp: w_def load_def SPI_FLASH_BASE_def)
  ultimately show ?thesis using that by blast
qed

text \<open>
  Writing \<open>n\<close> bytes of the block behind the \<open>j\<close> bytes written so far brings the flash up to the data
  received, \<open>F\<close>.
\<close>

lemma write_appends:
  assumes "ym_target e" and "IMAGE_OFFSET e = int off" and "file_offset e = int (length F)" and "sig_flags e"
    and "uart_signature e = store 0 (take 8 (drop off F)) old" and "flash_offset e = 8 + int j" and "flash_write_len e = int j"
    and "cell (chip (ym_board e)) = prog mem (image_address e - SPI_FLASH_BASE + 8) (take j (drop (off + 8) F))"
    and "\<forall>x. clean (chip (ym_board e)) x" and "length F - off = q" and "min q (nat (IMAGE_LEN e)) = 8 + j + n" and "0 < n"
    and "load (uart_rcv_buf e) (int i) n = take n (drop (off + 8 + j) F)"
    and "write_block r (int i) (int n) e = (ret, e')"
  shows "ret = 0 \<and> ym_written cell clean mem old F e' \<and> ym_same e e'"
proof -
  define a where "a = image_address e - SPI_FLASH_BASE"
  have a: "image_address e = a + SPI_FLASH_BASE" "0 \<le> a" "a + SPI_FLASH_BASE + IMAGE_LEN e + 4200 < 2 ^ 32"
    using assms(1) by (auto simp: a_def ym_target_def)
  have n: "8 + j + n \<le> q" "8 + j + n \<le> nat (IMAGE_LEN e)" using assms(11) by linarith+
  then have "a + SPI_FLASH_BASE + 8 + int j + int n + 3 < 2 ^ 32" using a(3) by linarith
  from write_block_cells [OF a(1) assms(6,7,12) a(2) this assms(9), of i]
  obtain b where b: "write_block r (int i) (int n) e =
      (0, e\<lparr>ym_board := b, flash_offset := 8 + int (j + n), flash_write_len := int (j + n)\<rparr>)"
    "cell (chip b) = prog (cell (chip (ym_board e))) (a + 8 + int j) (load (uart_rcv_buf e) (int i) n)"
    "\<forall>x. clean (chip b) x" by blast
  let ?e = "e\<lparr>ym_board := b, flash_offset := 8 + int (j + n), flash_write_len := int (j + n)\<rparr>"
  have "length (take j (drop (off + 8) F)) = j" using n(1) assms(10) by simp
  then have "cell (chip b) = prog mem (a + 8) (take (j + n) (drop (off + 8) F))"
    unfolding b(2) assms(8,13) a_def [symmetric] take_drop_split by (intro prog_append) simp
  moreover have "IMAGE_OFFSET ?e = int off" "min q (nat (IMAGE_LEN ?e)) = 8 + j + n" "8 \<le> q" using assms(2,11) n by simp_all
  ultimately have "ym_written cell clean mem old F ?e"
    using assms(3-5) b(3) by (subst ym_written_iff [OF _ assms(10)]) (simp_all add: a_def min_absorb2, auto)
  then show ?thesis using b(1) assms(14) by (simp add: ym_same_def)
qed

text \<open>
  The four places a block can have: the image starts in it, it lies inside the image, the image ends
  in it, or it has no part of the image.
\<close>

lemma place_block_start:
  assumes tgt: "ym_target p" and wr: "ym_written cell clean mem old F p"
    and k: "ym_len p = int k" "k \<le> 1024" "length F + k < 2 ^ 31" and B: "B = load (uart_rcv_buf p) 0 k"
    and off: "IMAGE_OFFSET p = int off" "length F \<le> off" "off < length F + k"
    and pb: "place_block r p = (ret, p')"
  shows "ret = 0 \<and> ym_written cell clean mem old (F @ B) p' \<and> ym_same p p'"
proof -
  define i where "i = off - length F"
  define w where "w = k - i"
  define a where "a = image_address p - SPI_FLASH_BASE"
  have iw: "i + w = k" "0 < w" "off = length F + i" using off(2,3) by (auto simp: i_def w_def)
  have N: "1032 \<le> IMAGE_LEN p" "IMAGE_LEN p < 2 ^ 31" "0 \<le> a" "image_address p = a + SPI_FLASH_BASE"
    "a + SPI_FLASH_BASE + IMAGE_LEN p + 4200 < 2 ^ 32"
    using tgt off(1) by (auto simp: ym_target_def a_def)
  have q0: "length F - off = 0" "min 0 (nat (IMAGE_LEN p)) = 0" using off(2) by simp_all
  have s: "file_offset p = int (length F)" "\<not> sig_flags p" "uart_signature p = old" "flash_offset p = 0" "flash_write_len p = 0"
    "cell (chip (ym_board p)) = mem" "\<forall>x. clean (chip (ym_board p)) x"
    using wr unfolding ym_written_iff [OF off(1) q0] by simp_all
  have nw: "min (length F + k - off) (nat (IMAGE_LEN p)) = w" using iw k(2) N(1) by auto
  have u: "uint32 (int (length F) + int k) = int (length F + k)" "int off - int (length F) = int i"
    "uint32 (int k - int i) = int w" "uint32 (int w) = int w"
    using k iw by (auto simp: uint32_id)
  have sub: "load (uart_rcv_buf p) (int i) n = take n (drop off (F @ B))" if "n \<le> w" for n
    using that iw load_part [of i n k "uart_rcv_buf p"] by (simp add: B take_drop_after)
  have len: "length (F @ B) - off = w" using iw by (simp add: B)
  let ?p = "p\<lparr>file_offset := int (length F + k)\<rparr>"
  have start: "place_block r p =
      (if w < 8
       then (0, ?p\<lparr>sig_cnt := int w, uart_signature := store 0 (load (uart_rcv_buf p) (int i) w) old, flash_offset := int w\<rparr>)
       else let e = ?p\<lparr>sig_cnt := 8, sig_flags := True, uart_signature := store 0 (load (uart_rcv_buf p) (int i) 8) old, flash_offset := 8\<rparr>
            in if w = 8 then (0, e) else write_block r (int (i + 8)) (int (w - 8)) e)"
  proof -
    have "uint32 (int w - 8) = int (w - 8)" if "\<not> w < 8" using that iw k by (auto simp: uint32_id)
    moreover have "uint32 8 = 8" "uint32 0 = 0" by (simp_all add: uint32_def)
    moreover have i8: "int (i + 8) = int i + 8" by simp
    moreover have "int (length F) \<le> int off" "int off < int (length F + k)" using off(2,3) by simp_all
    ultimately show ?thesis
      using iw(2) by (cases "w < 8"; cases "w = 8") (simp_all add: place_block_def Let_def k(1) off(1) s u i8 del: of_nat_add)
  qed
  have nw': "min w (nat (IMAGE_LEN p)) = w" using nw iw by simp
  show ?thesis
  proof (cases "w \<le> 8")
    case True
    let ?e = "?p\<lparr>sig_cnt := int w, sig_flags := 8 \<le> w, uart_signature := store 0 (load (uart_rcv_buf p) (int i) w) old, flash_offset := int w\<rparr>"
    have e: "ret = 0" "p' = ?e" using pb start s(2) True by (auto simp: Let_def split: if_splits)
    have "IMAGE_OFFSET ?e = int off" "min w (nat (IMAGE_LEN ?e)) = w" using off(1) nw' by simp_all
    then have "ym_written cell clean mem old (F @ B) ?e"
      using s(5-7) True sub [of w] by (subst ym_written_iff [OF _ len]) (auto simp: B)
    then show ?thesis using e by (simp add: ym_same_def)
  next
    case False
    let ?e = "?p\<lparr>sig_cnt := 8, sig_flags := True, uart_signature := store 0 (load (uart_rcv_buf p) (int i) 8) old, flash_offset := 8\<rparr>"
    have "write_block r (int (i + 8)) (int (w - 8)) ?e = (ret, p')" using pb start False by (simp add: Let_def)
    note wa = write_appends [where off = off and j = 0 and old = old and mem = mem, OF _ _ _ _ _ _ _ _ _ len _ _ _ this]
    have "load (uart_rcv_buf p) (int (i + 8)) (w - 8) = take (w - 8) (drop (off + 8) (F @ B))"
      using False iw load_part [of "i + 8" "w - 8" k "uart_rcv_buf p"] by (simp add: B take_drop_after add.commute)
    moreover have "ym_target ?e" using tgt by (simp add: ym_target_def)
    ultimately have "ret = 0 \<and> ym_written cell clean mem old (F @ B) p' \<and> ym_same ?e p'"
      by (intro wa) (use s off(1) False nw' sub [of 8] in \<open>auto simp: B\<close>)
    then show ?thesis by (simp add: ym_same_def)
  qed
qed

lemma place_block_inside:
  assumes tgt: "ym_target p" and wr: "ym_written cell clean mem old F p"
    and k: "ym_len p = int k" "8 \<le> k" "k \<le> 1024" "length F + k < 2 ^ 31" and B: "B = load (uart_rcv_buf p) 0 k"
    and off: "IMAGE_OFFSET p = int off" "off < length F" "length F + k \<le> off + nat (IMAGE_LEN p)"
    and pb: "place_block r p = (ret, p')"
  shows "ret = 0 \<and> ym_written cell clean mem old (F @ B) p' \<and> ym_same p p'"
proof -
  define q where "q = length F - off"
  have q: "length F - off = q" "0 < q" "off + q = length F" "min q (nat (IMAGE_LEN p)) = q" using off(2,3) by (auto simp: q_def)
  note s = wr [unfolded ym_written_iff [OF off(1) q(1,4)]]
  have len: "length (F @ B) - off = q + k" "min (q + k) (nat (IMAGE_LEN p)) = q + k" using q(3) off(3) by (auto simp: B)
  have N: "0 \<le> IMAGE_LEN p" "int off + IMAGE_LEN p < 2 ^ 31" using tgt off(1) by (auto simp: ym_target_def)
  have u: "uint32 (int (length F) + int k) = int (length F + k)" "uint32 (int off + IMAGE_LEN p) = int off + IMAGE_LEN p"
    "int (length F + k) \<le> int off + IMAGE_LEN p"
    using k N off(3) by (auto simp: uint32_id)
  let ?p = "p\<lparr>file_offset := int (length F + k)\<rparr>"
  show ?thesis
  proof (cases "8 \<le> q")
    case True
    have "write_block r (int 0) (int k) ?p = (ret, p')"
      using pb s True off(2) u by (simp add: place_block_def Let_def k(1) off(1) del: of_nat_add)
    from write_appends [where off = off and j = "q - 8" and old = old and mem = mem, OF _ _ _ _ _ _ _ _ _ len(1) _ _ _ this]
    show ?thesis
      using tgt off(1) s True k(2) len(2) q(3)
      by (simp add: ym_target_def ym_same_def B take_drop_before take_drop_after)
  next
    case False
    let ?e = "?p\<lparr>uart_signature := store (int q) (load (uart_rcv_buf p) 0 (8 - q)) (uart_signature p), sig_cnt := 8 - int q,
        flash_offset := 8, sig_flags := True\<rparr>"
    have v: "uint32 (int k - (8 - int q)) = int (k - (8 - q))" "uint32 8 = 8" "nat (8 - int q) = 8 - q" "int (8 - q) = 8 - int q"
      using False k by (auto simp: uint32_id)
    have "write_block r (int (8 - q)) (int (k - (8 - q))) ?e = (ret, p')"
      using pb s False off(2) u v by (simp add: place_block_def Let_def k(1) off(1) del: of_nat_add of_nat_diff)
    note wa = write_appends [where off = off and j = 0 and old = old and mem = mem, OF _ _ _ _ _ _ _ _ _ len(1) _ _ _ this]
    have ld: "load (uart_rcv_buf p) 0 (8 - q) = take (8 - q) B" using load_part [of 0 "8 - q" k] k(2) by (simp add: B)
    have sg: "uart_signature ?e = store 0 (take 8 (drop off (F @ B))) old"
    proof -
      have "take (min q 8) (drop off F) @ take (8 - q) B = take 8 (drop off (F @ B))"
        using take_drop_across [of off q F "8 - q" B] q(3) False by (simp add: min_absorb1)
      moreover have "int q = 0 + int (length (take (min q 8) (drop off F)))" using q(3) False by simp
      ultimately have "store (int q) (take (8 - q) B) (uart_signature p) = store 0 (take 8 (drop off (F @ B))) old"
        using s by (simp only: store_extend)
      then show ?thesis by (simp add: ld del: take_append drop_append)
    qed
    have "off + 8 + 0 = length F + (8 - q)" using q(3) False by simp
    then have bo: "load (uart_rcv_buf p) (int (8 - q)) (k - (8 - q)) = take (k - (8 - q)) (drop (off + 8 + 0) (F @ B))"
      using load_part [of "8 - q" "k - (8 - q)" k] k(2) by (simp only: take_drop_after B) simp
    have mn: "min (q + k) (nat (IMAGE_LEN ?e)) = 8 + 0 + (k - (8 - q))" "0 < k - (8 - q)" using len(2) False k(2) q(2) by auto
    have "ym_target ?e" using tgt by (simp add: ym_target_def)
    then have "ret = 0 \<and> ym_written cell clean mem old (F @ B) p' \<and> ym_same ?e p'"
      by (rule wa) (use s off(1) False mn bo sg in \<open>auto simp: B\<close>)
    then show ?thesis by (simp add: ym_same_def)
  qed
qed

lemma place_block_end:
  assumes tgt: "ym_target p" and wr: "ym_written cell clean mem old F p"
    and k: "ym_len p = int k" "k \<le> 1024" "length F + k < 2 ^ 31" and B: "B = load (uart_rcv_buf p) 0 k"
    and off: "IMAGE_OFFSET p = int off" "length F < off + nat (IMAGE_LEN p)" "off + nat (IMAGE_LEN p) < length F + k"
    and pb: "place_block r p = (ret, p')"
  shows "ret = 0 \<and> ym_written cell clean mem old (F @ B) p' \<and> ym_same p p'"
proof -
  define q where "q = length F - off"
  have N: "1032 \<le> nat (IMAGE_LEN p)" "int off + IMAGE_LEN p < 2 ^ 31" using tgt off(1) by (auto simp: ym_target_def)
  have q: "length F - off = q" "8 \<le> q" "off + q = length F" "min q (nat (IMAGE_LEN p)) = q"
    using off(2,3) N(1) k(2) by (auto simp: q_def)
  note s = wr [unfolded ym_written_iff [OF off(1) q(1,4)]]
  define n where "n = nat (IMAGE_LEN p) - q"
  have n: "n \<le> k" "0 < n" "q + n = nat (IMAGE_LEN p)" "int off + IMAGE_LEN p = int (length F + n)"
    using off(2,3) q(3) N by (auto simp: n_def)
  have len: "length (F @ B) - off = q + k" "min (q + k) (nat (IMAGE_LEN p)) = 8 + (q - 8) + n" using q(2,3) n(1,3) by (auto simp: B)
  have u: "uint32 (int (length F) + int k) = int (length F + k)" "uint32 (int off + IMAGE_LEN p) = int (length F + n)"
    "uint32 (int (length F + n) - int (length F)) = int n"
    using k n by (auto simp: uint32_id)
  have lt: "int (length F) < int (length F + n)" "int (length F + n) < int (length F + k)" "\<not> int (length F + k) \<le> int (length F + n)"
    "\<not> int (length F) \<le> int off"
    using off(3) n q(2,3) by auto
  let ?p = "p\<lparr>file_offset := int (length F + k)\<rparr>"
  have "write_block r (int 0) (int n) ?p = (ret, p')"
    using pb s q(2) u lt by (simp add: place_block_def Let_def k(1) off(1) del: of_nat_add)
  from write_appends [where off = off and j = "q - 8" and old = old and mem = mem, OF _ _ _ _ _ _ _ _ _ len(1) _ _ _ this]
  show ?thesis
    using tgt off(1) s q(2,3) len(2) n(1,2) load_part [of 0 n k "uart_rcv_buf p"]
    by (simp add: ym_target_def ym_same_def B take_drop_before take_drop_after)
qed

lemma place_block_outside:
  assumes tgt: "ym_target p" and wr: "ym_written cell clean mem old F p"
    and k: "ym_len p = int k" "0 < k" "length F + k < 2 ^ 31" and B: "B = load (uart_rcv_buf p) 0 k"
    and off: "IMAGE_OFFSET p = int off" "length F + k \<le> off \<or> off + nat (IMAGE_LEN p) \<le> length F"
    and pb: "place_block r p = (ret, p')"
  shows "ret = 0 \<and> ym_written cell clean mem old (F @ B) p' \<and> ym_same p p'"
proof -
  have N: "1032 \<le> nat (IMAGE_LEN p)" "int off + IMAGE_LEN p < 2 ^ 31" "0 \<le> IMAGE_LEN p"
    using tgt off(1) by (auto simp: ym_target_def)
  have u: "uint32 (int (length F) + int k) = int (length F + k)" "uint32 (int off + IMAGE_LEN p) = int off + IMAGE_LEN p"
    using k N by (auto simp: uint32_id)
  let ?p = "p\<lparr>file_offset := int (length F + k)\<rparr>"
  have f: "file_offset p = int (length F)" using wr by (simp add: ym_written_def Let_def)
  have "place_block r p = (0, ?p)"
    using off(2)
  proof
    assume "length F + k \<le> off"
    then show ?thesis using u k(2) N(3) by (simp add: place_block_def Let_def f k(1) off(1))
  next
    assume "off + nat (IMAGE_LEN p) \<le> length F"
    then have "int off + IMAGE_LEN p \<le> int (length F)" "off < length F" using N by linarith+
    then show ?thesis using u k(2) by (simp add: place_block_def Let_def f k(1) off(1))
  qed
  then have e: "ret = 0" "p' = ?p" using pb by simp_all
  have o: "IMAGE_OFFSET ?p = int off" using off(1) by simp
  have "ym_written cell clean mem old (F @ B) ?p"
    using off(2)
  proof
    assume a: "length F + k \<le> off"
    have q: "length F - off = 0" "length (F @ B) - off = 0" "min 0 (nat (IMAGE_LEN p)) = 0" "min 0 (nat (IMAGE_LEN ?p)) = 0"
      using a by (simp_all add: B)
    show ?thesis
      using wr unfolding ym_written_iff [OF off(1) q(1,3)] ym_written_iff [OF o q(2,4)] by (auto simp: B)
  next
    assume a: "off + nat (IMAGE_LEN p) \<le> length F"
    define q where "q = length F - off"
    have q: "length F - off = q" "length (F @ B) - off = q + k" "min q (nat (IMAGE_LEN p)) = nat (IMAGE_LEN p)"
      "min (q + k) (nat (IMAGE_LEN ?p)) = nat (IMAGE_LEN p)"
      using a by (auto simp: B q_def)
    have "take 8 (drop off (F @ B)) = take 8 (drop off F)"
      "take (nat (IMAGE_LEN p) - 8) (drop (off + 8) (F @ B)) = take (nat (IMAGE_LEN p) - 8) (drop (off + 8) F)"
      using a N(1) by (intro take_drop_before; simp)+
    moreover have "min q 8 = 8" "min (q + k) 8 = 8" "8 \<le> q" using a N(1) by (auto simp: q_def)
    moreover have "length (F @ B) = length F + k" by (simp add: B)
    ultimately show ?thesis
      using wr unfolding ym_written_iff [OF off(1) q(1,3)] ym_written_iff [OF o q(2,4)]
      by (auto simp del: take_append drop_append length_append)
  qed
  then show ?thesis using e by (simp add: ym_same_def)
qed

lemma place_block_written:
  assumes "ym_target p" and "ym_written cell clean mem old F p" and "ym_len p = int k" and "8 \<le> k" and "k \<le> 1024"
    and "length F + k < 2 ^ 31" and "B = load (uart_rcv_buf p) 0 k" and "place_block r p = (ret, p')"
  shows "ret = 0 \<and> ym_written cell clean mem old (F @ B) p' \<and> ym_same p p'"
proof -
  obtain off where off: "IMAGE_OFFSET p = int off"
    using assms(1) nonneg_int_cases unfolding ym_target_def by metis
  have N: "0 < nat (IMAGE_LEN p)" using assms(1) by (auto simp: ym_target_def)
  consider "length F \<le> off" "off < length F + k" | "off < length F" "length F + k \<le> off + nat (IMAGE_LEN p)"
    | "length F < off + nat (IMAGE_LEN p)" "off + nat (IMAGE_LEN p) < length F + k"
    | "length F + k \<le> off \<or> off + nat (IMAGE_LEN p) \<le> length F"
    using N by linarith
  then show ?thesis
  proof cases
    case 1
    then show ?thesis by (rule place_block_start [OF assms(1,2,3,5,6,7) off _ _ assms(8)])
  next
    case 2
    then show ?thesis by (rule place_block_inside [OF assms(1-7) off _ _ assms(8)])
  next
    case 3
    then show ?thesis by (rule place_block_end [OF assms(1,2,3,5,6,7) off _ _ assms(8)])
  next
    case 4
    have "0 < k" using assms(4) by simp
    then show ?thesis using place_block_outside [OF assms(1,2,3) _ assms(6,7) off 4 assms(8)] by blast
  qed
qed

end

end
