(* ===== verification/Ymodem_Run.thy ===== *)
theory Ymodem_Run
  imports Ymodem_Write
begin

text \<open>
  Whole runs of the receiver: the invariant that holds after any sequence of interrupts and turns of
  the thread, until the thread ends.
\<close>

section \<open>What the protocol leaves alone\<close>

text \<open>The part of the state that only \<open>data_write_to_flash\<close> and \<open>set_signature\<close> change, with the packet length.\<close>

definition ym_state where
  "ym_state p = (ym_len p, image_address p, OtaTargetHdr p, flash_write_len p, flash_offset p, file_offset p,
     IMAGE_OFFSET p, IMAGE_LEN p, hd_flags p, sig_flags p, sig_cnt p, uart_signature p, ym_board p)"

lemma ym_state_eq:
  "ym_state p = ym_state q \<longleftrightarrow> ym_len p = ym_len q \<and> image_address p = image_address q \<and> OtaTargetHdr p = OtaTargetHdr q \<and>
     flash_write_len p = flash_write_len q \<and> flash_offset p = flash_offset q \<and> file_offset p = file_offset q \<and>
     IMAGE_OFFSET p = IMAGE_OFFSET q \<and> IMAGE_LEN p = IMAGE_LEN q \<and> hd_flags p = hd_flags q \<and> sig_flags p = sig_flags q \<and>
     sig_cnt p = sig_cnt q \<and> uart_signature p = uart_signature q \<and> ym_board p = ym_board q"
  by (auto simp: ym_state_def)

lemma ym_state_updates [simp]:
  "ym_state (p\<lparr>uart_rx_sema := n\<rparr>) = ym_state p"
  "ym_state (p\<lparr>tick_current := x\<rparr>) = ym_state p"
  "ym_state (p\<lparr>nxt_num := x\<rparr>) = ym_state p"
  "ym_state (p\<lparr>rec_err := x\<rparr>) = ym_state p"
  "ym_state (p\<lparr>can_counter := x\<rparr>) = ym_state p"
  "ym_state (p\<lparr>eot_counter := x\<rparr>) = ym_state p"
  "ym_state (p\<lparr>send_count := x\<rparr>) = ym_state p"
  "ym_state (p\<lparr>phase := f\<rparr>) = ym_state p"
  "ym_state (p\<lparr>first_time := b\<rparr>) = ym_state p"
  by (simp_all add: ym_state_def)

lemma ym_state_ops [simp]:
  "ym_state (uarty_irq now ch p) = ym_state p"
  "ym_state (uart_sendbyte ch p) = ym_state p"
  "ym_state (snd (uart_recvbytetimeout p)) = ym_state p"
  "ym_state (uart_rxempty p) = ym_state p"
  "ym_state (modem_cancle p) = ym_state p"
  "ym_state (copy_byte i p) = ym_state p"
  by (simp_all add: ym_state_def uarty_irq_def uart_sendbyte_def uart_recvbytetimeout_def uart_rxempty_def
      modem_cancle_def copy_byte_def Let_def)

lemma phase_ops [simp]:
  "phase (uarty_irq now ch p) = phase p"
  "phase (uart_sendbyte ch p) = phase p"
  "phase (snd (uart_recvbytetimeout p)) = phase p"
  "phase (uart_rxempty p) = phase p"
  "phase (modem_cancle p) = phase p"
  "phase (copy_byte i p) = phase p"
  by (simp_all add: uarty_irq_def uart_sendbyte_def uart_recvbytetimeout_def uart_rxempty_def
      modem_cancle_def copy_byte_def Let_def)

lemma fold_copy_byte [simp]:
  "ym_state (fold copy_byte is p) = ym_state p" "phase (fold copy_byte is p) = phase p"
  by (induction "is" arbitrary: p) simp_all

lemma block_num_check_state [simp]:
  "ym_state (snd (block_num_check p)) = ym_state p" "phase (snd (block_num_check p)) = phase p"
  by (simp_all add: block_num_check_def split_beta)

lemma recv_state: "uart_recvbytetimeout p = (ch, q) \<Longrightarrow> ym_state q = ym_state p \<and> phase q = phase p"
  using ym_state_ops(3) [of p] phase_ops(3) [of p] by simp

lemma crc_check_state [simp]:
  "ym_state (snd (crc_check p)) = ym_state p" "phase (snd (crc_check p)) = phase p"
proof -
  obtain h p1 l p2 where p1: "uart_recvbytetimeout p = (h, p1)"
    and p2: "(if crc_mode p1 \<noteq> 0 then uart_recvbytetimeout p1 else (0, p1)) = (l, p2)" by fastforce
  have "ym_state p2 = ym_state p \<and> phase p2 = phase p"
    using p1 p2 by (auto dest!: recv_state split: if_splits)
  moreover have "snd (crc_check p) = p2 \<or> snd (crc_check p) = p2\<lparr>rec_err := 1\<rparr>"
    unfolding crc_check_def p1 Let_def prod.case p2 by simp
  ultimately show "ym_state (snd (crc_check p)) = ym_state p" "phase (snd (crc_check p)) = phase p" by auto
qed

lemma start_next_round_state [simp]:
  "ym_state (snd (start_next_round p)) = ym_state p" "phase (snd (start_next_round p)) = phase p"
  by (simp_all add: start_next_round_def split_beta)

lemma calc_file_name_size_state:
  "calc_file_name_size i p = Some p' \<Longrightarrow> ym_state p' = ym_state p \<and> phase p' = phase p"
  by (auto simp: calc_file_name_size_def ym_state_def split: option.splits)

section \<open>The invariant\<close>

definition under_way :: "'c ymodem \<Rightarrow> bool" where
  "under_way p \<longleftrightarrow> phase p = Inviting \<or> phase p = Receiving"

lemma thread_exit_phase: "\<not> under_way (thread_exit r l e p)"
  by (auto simp: thread_exit_def under_way_def split: prod.split)

definition blank :: "(int \<Rightarrow> u8) \<Rightarrow> int \<Rightarrow> int \<Rightarrow> bool" where
  "blank mem a n \<longleftrightarrow> (\<forall>x. a \<le> x \<longrightarrow> x < a + n \<longrightarrow> mem x = 0xFF)"

definition ym_inv :: "('c \<Rightarrow> int \<Rightarrow> u8) \<Rightarrow> ('c \<Rightarrow> int \<Rightarrow> bool) \<Rightarrow> ram \<Rightarrow> bytes \<Rightarrow> 'c ymodem \<Rightarrow> bool" where
  "ym_inv cell clean old F p \<longleftrightarrow> ym_len p \<in> {0, 128, 1024} \<and>
     (if hd_flags p
      then ym_len p \<noteq> 0 \<and> IMAGE_LEN p = ImgLen (FileImgHdr (OtaTargetHdr p)) \<and>
        (ym_target p \<longrightarrow>
          (\<exists>mem. blank mem (image_address p - SPI_FLASH_BASE) (IMAGE_LEN p) \<and> ym_written cell clean mem old F p))
      else F = [] \<and> file_offset p = 0 \<and> flash_offset p = 0 \<and> flash_write_len p = 0 \<and> \<not> sig_flags p \<and> sig_cnt p = 0 \<and>
        uart_signature p = old)"

lemma ym_target_cong: "ym_state p = ym_state q \<Longrightarrow> ym_target p = ym_target q"
  by (simp add: ym_state_eq ym_target_def)

lemma ym_written_cong: "ym_state p = ym_state q \<Longrightarrow> ym_written cell clean mem old F p = ym_written cell clean mem old F q"
  by (simp add: ym_state_eq ym_written_def)

lemma ym_inv_cong:
  assumes "ym_state p = ym_state q"
  shows "ym_inv cell clean old F p = ym_inv cell clean old F q"
  using assms ym_target_cong [OF assms] ym_written_cong [OF assms] by (simp add: ym_inv_def ym_state_eq)

lemma ym_inv_state: "ym_inv cell clean old F p \<Longrightarrow> ym_state q = ym_state p \<Longrightarrow> ym_inv cell clean old F q"
  using ym_inv_cong by blast

lemma ym_len_update [simp]:
  "ym_target (p\<lparr>ym_len := n\<rparr>) = ym_target p" "ym_written cell clean mem old F (p\<lparr>ym_len := n\<rparr>) = ym_written cell clean mem old F p"
  by (simp_all add: ym_target_def ym_written_def)

lemma ym_inv_len: "ym_inv cell clean old F p \<Longrightarrow> n = 128 \<or> n = 1024 \<Longrightarrow> ym_inv cell clean old F (p\<lparr>ym_len := n\<rparr>)"
  by (cases "hd_flags p") (auto simp: ym_inv_def)

lemma ym_same_refl: "ym_same p p"
  by (simp add: ym_same_def)

lemma ym_same_update:
  assumes "ym_same p q"
  shows "ym_same p (q\<lparr>file_offset := x\<rparr>)" "ym_same p (q\<lparr>sig_flags := f\<rparr>)" "ym_same p (q\<lparr>sig_cnt := x\<rparr>)"
    "ym_same p (q\<lparr>uart_signature := m\<rparr>)" "ym_same p (q\<lparr>flash_offset := x\<rparr>)" "ym_same p (q\<lparr>flash_write_len := x\<rparr>)"
    "ym_same p (q\<lparr>ym_board := b\<rparr>)"
  using assms by (cases p; cases q; simp add: ym_same_def)+

lemma write_block_same: "ym_same p q \<Longrightarrow> ym_same p (snd (write_block r i n q))"
  by (auto simp: write_block_def split_beta intro: ym_same_update)

lemma place_block_same: "ym_same p (snd (place_block r p))"
  unfolding place_block_def Let_def
  by (auto intro!: ym_same_update write_block_same ym_same_refl)

context nor_flash
begin

lemma open_target_inv:
  assumes inv: "ym_inv cell clean old F p" and "\<not> hd_flags p" and ot: "open_target r l cus_addr p = (ok, p')"
  shows "ym_inv cell clean old F p'" and "ok \<longleftrightarrow> hd_flags p'" and "ym_len p' = ym_len p" and "phase p' = phase p"
    and "uart_rcv_buf p' = uart_rcv_buf p"
proof -
  have i: "ym_len p \<in> {0, 128, 1024}" "F = []" "file_offset p = 0" "flash_offset p = 0" "flash_write_len p = 0"
    "\<not> sig_flags p" "sig_cnt p = 0" "uart_signature p = old"
    using assms(1,2) by (auto simp: ym_inv_def)
  define idx where "idx = ymodem_target_index cus_addr"
  show "ok \<longleftrightarrow> hd_flags p'" "ym_len p' = ym_len p" "phase p' = phase p" "uart_rcv_buf p' = uart_rcv_buf p"
    using ot assms(2) unfolding open_target_def Let_def by (auto split: option.splits prod.splits)
  show "ym_inv cell clean old F p'"
  proof (cases ok)
    case False
    then have "p' = p \<or> (\<exists>hdr b. p' = p\<lparr>OtaTargetHdr := hdr, ym_board := b\<rparr>)"
      using ot unfolding open_target_def Let_def idx_def [symmetric] by (auto split: option.splits prod.splits)
    then show ?thesis using i assms(2) by (auto simp: ym_inv_def)
  next
    case True
    then obtain hdr addr b1 where h: "get_ota_tartget_header (uart_rcv_buf p) (ym_len p) (OtaTargetHdr p) (OtaImgId idx) = Some hdr"
      and a: "get_ota_address r l idx hdr (ym_board p) = (Some addr, b1)"
      using ot unfolding open_target_def Let_def idx_def [symmetric] by (auto split: option.splits prod.splits)
    let ?b = "erase_ota_target_flash r addr (ImgLen (FileImgHdr hdr)) b1"
    let ?e = "\<lambda>b. p\<lparr>OtaTargetHdr := hdr, image_address := addr, IMAGE_LEN := ImgLen (FileImgHdr hdr),
        IMAGE_OFFSET := Offset (FileImgHdr hdr), hd_flags := True, ym_board := b\<rparr>"
    have p': "p' = ?e (if RdpStatus hdr then flash_erase_sector r (RDP_FLASH_ADDR - SPI_FLASH_BASE) ?b else ?b)"
      using ot h a unfolding open_target_def Let_def idx_def [symmetric] by simp
    have "ym_len p \<noteq> 0" using h by (auto simp: get_ota_tartget_header_def Let_def sizeof_img_hdr_def split: if_splits)
    moreover have "blank (cell (chip (ym_board p'))) (image_address p' - SPI_FLASH_BASE) (IMAGE_LEN p') \<and>
        ym_written cell clean (cell (chip (ym_board p'))) old F p'" if "ym_target p'"
    proof -
      have t: "\<not> RdpStatus hdr" "1032 \<le> ImgLen (FileImgHdr hdr)" "SPI_FLASH_BASE \<le> addr" "addr mod 4096 = 0"
        "addr + ImgLen (FileImgHdr hdr) + 4200 < 2 ^ 32"
        using that unfolding p' by (auto simp: ym_target_def)
      have l: "0 < ImgLen (FileImgHdr hdr)" "addr + ImgLen (FileImgHdr hdr) + 4096 < 2 ^ 32" using t by auto
      note er = erase_target_cells [OF l(1) t(3,4) l(2) refl, where b = b1]
      have "blank (cell (chip ?b)) (addr - SPI_FLASH_BASE) (ImgLen (FileImgHdr hdr))"
        unfolding blank_def er(1) by auto
      moreover have "ym_written cell clean (cell (chip ?b)) old [] (?e ?b)"
        using i er(2) by (auto simp: ym_written_def Let_def)
      ultimately show ?thesis using t(1) i(2) by (simp add: p')
    qed
    ultimately show ?thesis using i(1) by (auto simp: ym_inv_def p')
  qed
qed

lemma place_block_inv:
  assumes inv: "ym_inv cell clean old F p" and hd: "hd_flags p" and len: "length F + 1024 < 2 ^ 31"
    and pb: "place_block r p = (ret, p')"
  shows "ym_inv cell clean old (F @ load (uart_rcv_buf p) 0 (nat (ym_len p))) p'" and "phase p' = phase p"
proof -
  have same: "ym_same p p'" using place_block_same [of p r] pb by simp
  have e: "hd_flags p' = hd_flags p" "ym_len p' = ym_len p" "IMAGE_LEN p' = IMAGE_LEN p" "OtaTargetHdr p' = OtaTargetHdr p"
    "image_address p' = image_address p" "IMAGE_OFFSET p' = IMAGE_OFFSET p" "phase p' = phase p"
    using same by (cases p; cases p'; simp add: ym_same_def)+
  show "phase p' = phase p" by (rule e(7))
  have tg: "ym_target p' = ym_target p" using e by (simp add: ym_target_def)
  have l: "ym_len p = 128 \<or> ym_len p = 1024" using inv hd by (auto simp: ym_inv_def)
  have "ym_written cell clean mem old (F @ load (uart_rcv_buf p) 0 (nat (ym_len p))) p'"
    if "ym_target p" "ym_written cell clean mem old F p" for mem
    using place_block_written [OF that _ _ _ _ refl pb, of "nat (ym_len p)"] l len by auto
  then show "ym_inv cell clean old (F @ load (uart_rcv_buf p) 0 (nat (ym_len p))) p'"
    using inv hd l unfolding ym_inv_def tg e(1-5) by auto
qed

lemma data_write_inv:
  assumes inv: "ym_inv cell clean old F p" and len: "length F + 1024 < 2 ^ 31"
    and dw: "data_write_to_flash r l cus_addr p = (ret, p')"
  obtains F' where "ym_inv cell clean old F' p'" and "length F' \<le> length F + 1024" and "phase p' = phase p"
proof (cases "hd_flags p")
  case True
  have "nat (ym_len p) \<le> 1024" using inv by (auto simp: ym_inv_def)
  then show ?thesis
    using that place_block_inv [OF inv True len, of ret p'] dw True by (auto simp: data_write_to_flash_def)
next
  case False
  obtain ok p1 where ot: "open_target r l cus_addr p = (ok, p1)" by fastforce
  note o = open_target_inv [OF inv False ot]
  show ?thesis
  proof (cases ok)
    case True
    have "nat (ym_len p1) \<le> 1024" using o(1) by (auto simp: ym_inv_def)
    then show ?thesis
      using that place_block_inv [OF o(1) _ len, of ret p'] dw False ot True o(2,4) by (auto simp: data_write_to_flash_def)
  next
    case nok: False
    then show ?thesis using that [of F] dw False ot o(1,4) by (simp add: data_write_to_flash_def)
  qed
qed

text \<open>
  After any number of events the thread is under way, with at most so many bytes written, or it ended
  from a state with the invariant.
\<close>

definition ym_next :: "ram \<Rightarrow> 'c ota_lib \<Rightarrow> nat \<Rightarrow> 'c ymodem \<Rightarrow> bool" where
  "ym_next old l n p' \<longleftrightarrow> (\<exists>F p1. ym_inv cell clean old F p1 \<and> length F \<le> n \<and>
     (p' = p1 \<and> under_way p' \<or> (\<exists>e \<ge> 0. p' = thread_exit r l e p1)))"

lemma ym_next_go: "ym_inv cell clean old F p \<Longrightarrow> length F \<le> n \<Longrightarrow> under_way p \<Longrightarrow> ym_next old l n p"
  by (auto simp: ym_next_def)

lemma ym_next_exit: "ym_inv cell clean old F p \<Longrightarrow> length F \<le> n \<Longrightarrow> 0 \<le> e \<Longrightarrow> ym_next old l n (thread_exit r l e p)"
  unfolding ym_next_def by blast

lemma ym_next_mono:
  assumes "ym_next old l n p" and "n \<le> m"
  shows "ym_next old l m p"
  using assms(1)
proof (unfold ym_next_def, elim exE conjE)
  fix F p1
  assume "ym_inv cell clean old F p1" "length F \<le> n" "p = p1 \<and> under_way p \<or> (\<exists>e \<ge> 0. p = thread_exit r l e p1)"
  then show "\<exists>F p1. ym_inv cell clean old F p1 \<and> length F \<le> m \<and> (p = p1 \<and> under_way p \<or> (\<exists>e \<ge> 0. p = thread_exit r l e p1))"
    using order_trans [OF _ assms(2)] by blast
qed

lemma receive_block_next:
  assumes inv: "ym_inv cell clean old F p" and uw: "under_way p" and len: "length F + 1024 < 2 ^ 31"
    and rb: "receive_block r l cus_addr p = Some p'"
  shows "ym_next old l (length F + 1024) p'"
proof -
  obtain c1 p1 where p1: "block_num_check p = (c1, p1)" by fastforce
  have i1: "ym_inv cell clean old F p1" "phase p1 = phase p"
    using ym_inv_state [OF inv] block_num_check_state [of p] by (simp_all add: p1)
  show ?thesis
  proof (cases "c1 = 0")
    case False
    then have "p' = thread_exit r l 2 p1" using rb by (simp add: receive_block_def p1)
    then show ?thesis using ym_next_exit [OF i1(1)] by simp
  next
    case True
    then obtain p2 where p2: "(if nxt_num p1 = 0 \<and> first_time p1 then calc_file_name_size 3 p1 else Some p1) = Some p2"
      using rb by (auto simp: receive_block_def p1 split: option.splits)
    have i2: "ym_inv cell clean old F p2" "phase p2 = phase p"
      using p2 i1 by (auto split: if_splits dest!: calc_file_name_size_state intro: ym_inv_state)
    define p3 where "p3 = fold copy_byte [0..<nat (ym_len p2)] p2"
    have i3: "ym_inv cell clean old F p3" "phase p3 = phase p"
      using i2 ym_inv_state [OF i2(1)] by (simp_all add: p3_def)
    obtain c4 p4 where p4: "(if nxt_num p3 \<noteq> 0 \<or> \<not> first_time p3
        then case data_write_to_flash r l cus_addr p3 of (ret, p) \<Rightarrow> if ret \<noteq> 0 then (ret, p) else (0, p\<lparr>first_time := False\<rparr>)
        else (0, p3)) = (c4, p4)" by fastforce
    obtain F' where i4: "ym_inv cell clean old F' p4" "length F' \<le> length F + 1024" "phase p4 = phase p"
    proof (cases "nxt_num p3 \<noteq> 0 \<or> \<not> first_time p3")
      case True
      obtain d q where dw: "data_write_to_flash r l cus_addr p3 = (d, q)" by fastforce
      obtain F' where "ym_inv cell clean old F' q" "length F' \<le> length F + 1024" "phase q = phase p"
        using data_write_inv [OF i3(1) len dw] i3(2) by metis
      moreover have "p4 = q \<or> p4 = q\<lparr>first_time := False\<rparr>" using p4 True dw by (auto split: if_splits)
      moreover have "ym_inv cell clean old F' (q\<lparr>first_time := False\<rparr>)" if "ym_inv cell clean old F' q"
        using ym_inv_state [OF that] by simp
      ultimately show ?thesis using that by auto
    qed (use that [of F] i3 p4 in auto)
    obtain c5 p5 where p5: "crc_check p4 = (c5, p5)" by fastforce
    have i5: "ym_inv cell clean old F' p5" "phase p5 = phase p"
      using i4 ym_inv_state crc_check_state [of p4] by (simp_all add: p5)
    define p6 where "p6 = p5\<lparr>nxt_num := uint32 (nxt_num p5 + 1), rec_err := 0\<rparr>"
    obtain c7 p7 where p7: "start_next_round p6 = (c7, p7)" by fastforce
    have "ym_state p7 = ym_state p5" "phase p7 = phase p5"
      using start_next_round_state [of p6] unfolding p7 by (simp_all add: p6_def)
    then have i7: "ym_inv cell clean old F' p7" "phase p7 = phase p" using i5 ym_inv_state [OF i5(1)] by auto
    have "p' = thread_exit r l 3 p4 \<or> p' = thread_exit r l 4 p5 \<or> p' = thread_exit r l 0 p5 \<or> p' = thread_exit r l 5 p7 \<or> p' = p7"
      using rb p4 unfolding receive_block_def p1 prod.case p2 option.case Let_def p3_def [symmetric] p4
      by (simp add: True p5 p7 flip: p6_def split: if_splits)
    then show ?thesis
      using ym_next_exit [OF i4(1,2)] ym_next_exit [OF i5(1) i4(2)] ym_next_exit [OF i7(1) i4(2)] ym_next_go [OF i7(1) i4(2)] i7(2) uw
      by (auto simp: under_way_def)
  qed
qed

lemma receive_packet_next:
  assumes inv: "ym_inv cell clean old F p" and uw: "under_way p" and len: "length F + 1024 < 2 ^ 31"
    and rp: "receive_packet r l cus_addr now p = Some p'"
  shows "ym_next old l (length F + 1024) p'"
proof -
  define p0 where "p0 = p\<lparr>uart_rx_sema := uart_rx_sema p - 1, tick_current := now\<rparr>"
  obtain ch p1 where p1: "uart_recvbytetimeout p0 = (ch, p1)" by fastforce
  have "ym_state p1 = ym_state p0" "phase p1 = phase p0" using recv_state [OF p1] by simp_all
  then have i1: "ym_inv cell clean old F p1" "phase p1 = phase p"
    using ym_inv_state [OF inv, of p1] by (simp_all add: p0_def)
  have block: "ym_next old l (length F + 1024) p'" if "receive_block r l cus_addr q = Some p'"
    "q = p1\<lparr>ym_len := 128\<rparr> \<or> q = p1\<lparr>ym_len := 1024\<rparr> \<or> q = p1\<lparr>can_counter := can_counter p1 + 1\<rparr>" for q
  proof -
    have "ym_inv cell clean old F q" "phase q = phase p"
      using that(2) i1 ym_inv_len [OF i1(1), of 128] ym_inv_len [OF i1(1), of 1024] ym_inv_state [OF i1(1), of q] by auto
    then show ?thesis using receive_block_next [OF _ _ len that(1)] uw by (simp add: under_way_def)
  qed
  have exit: "ym_next old l (length F + 1024) (thread_exit r l e q)" if "0 \<le> e" "ym_state q = ym_state p1" for e q
    using ym_next_exit [OF ym_inv_state [OF i1(1) that(2)] _ that(1)] by simp
  have go: "ym_next old l (length F + 1024) q" if "ym_state q = ym_state p1" "phase q = phase p1" for q
    using ym_next_go [OF ym_inv_state [OF i1(1) that(1)]] that(2) i1(2) uw by (simp add: under_way_def)
  show ?thesis
    using rp unfolding receive_packet_def p0_def [symmetric] p1 prod.case Let_def
    by (auto split: if_splits intro: block exit go)
qed

lemma ymodem_step_next:
  assumes inv: "ym_inv cell clean old F p" and len: "length F + 1024 < 2 ^ 31"
    and st: "ymodem_step r l cus_addr ev p = Some p'"
  shows "ym_next old l (length F + 1024) p'"
proof (cases ev)
  case Invite
  have "p' = thread_exit r l 6 p \<or> ym_state p' = ym_state p \<and> under_way p'"
    using st Invite by (auto simp: invite_def Let_def under_way_def split: if_splits)
  then show ?thesis
    using ym_inv_state [OF inv, of p'] ym_next_exit [OF inv, of _ 6] ym_next_go [of _ F p'] by auto
next
  case (Rx now ch)
  then have "ym_state p' = ym_state p" "under_way p'"
    using st by (auto simp: under_way_def split: if_splits)
  then show ?thesis using ym_inv_state [OF inv, of p'] ym_next_go [of _ F p'] by simp
next
  case (Packet now)
  then have "receive_packet r l cus_addr now p = Some p'" "under_way p" using st by (auto simp: under_way_def split: if_splits)
  then show ?thesis using receive_packet_next [OF inv _ len] by blast
qed

lemma ymodem_run_next:
  assumes "ymodem_run r l cus_addr evs p = Some p'" and "ym_inv cell clean old F p" and "under_way p"
    and "length F + 1024 * length evs < 2 ^ 31"
  shows "ym_next old l (length F + 1024 * length evs) p'"
  using assms
proof (induction evs arbitrary: p F)
  case (Cons ev evs)
  then obtain q where q: "ymodem_step r l cus_addr ev p = Some q" "ymodem_run r l cus_addr evs q = Some p'"
    by (auto split: option.splits)
  have n: "ym_next old l (length F + 1024) q"
    using ymodem_step_next [OF Cons.prems(2) _ q(1)] Cons.prems(4) by auto
  show ?case
  proof (cases "under_way q")
    case True
    then obtain F1 where F1: "ym_inv cell clean old F1 q" "length F1 \<le> length F + 1024"
      using n thread_exit_phase unfolding ym_next_def by metis
    then have "ym_next old l (length F1 + 1024 * length evs) p'"
      using Cons.IH [OF q(2) F1(1) True] Cons.prems(4) by simp
    then show ?thesis by (rule ym_next_mono) (use F1(2) in simp)
  next
    case False
    then have "p' = q" using q(2) by (cases evs) (auto simp: under_way_def elim!: ymodem_step.elims split: option.splits if_splits)
    then show ?thesis using ym_next_mono [OF n] by simp
  qed
qed (auto intro: ym_next_go)

end

text \<open>The receiver as it is started establishes the invariant.\<close>

lemma uart_ymodem_inv:
  assumes "uart_ymodem True True p = (ret, p')"
  shows "under_way p'" and "ym_inv cell clean (\<lambda>i. if 0 \<le> i \<and> i < 9 then 0 else uart_signature p i) [] p'"
  using assms by (auto simp: uart_ymodem_def uart_init_def uart_ymodem_init_def Let_def under_way_def ym_inv_def)

end
