(* ===== verification/Ymodem_Transfer.thy ===== *)
theory Ymodem_Transfer
  imports Ymodem_Run
begin

text \<open>
  A transfer as a YMODEM sender performs it: what the receiver does with the bytes of a good packet,
  and the sequence of events from the invitation to the end of the file.
\<close>

section \<open>The sender\<close>

text \<open>
  A packet with number \<open>n\<close>, and the events of its arrival up to the receiver's turn: byte \<open>i\<close> arrives at tick \<open>rx i\<close>, and
  the receiver looks at the packet at tick \<open>t\<close>.
\<close>

definition packet_bytes :: "nat \<Rightarrow> bytes \<Rightarrow> bytes" where
  "packet_bytes n B = [if length B = 128 then MODEM_SOH else MODEM_STX, of_nat n, 255 - of_nat n] @ B @ crc_bytes B"

definition byte_events :: "(nat \<Rightarrow> int) \<Rightarrow> bytes \<Rightarrow> ymodem_event list" where
  "byte_events rx bs = map (\<lambda>i. Rx (rx i) (bs ! i)) [0..<length bs]"

definition packet_events :: "(nat \<Rightarrow> int) \<Rightarrow> int \<Rightarrow> bytes \<Rightarrow> ymodem_event list" where
  "packet_events rx t bs = byte_events rx bs @ [Packet t]"

fun block_events :: "(nat \<Rightarrow> nat \<Rightarrow> int) \<Rightarrow> (nat \<Rightarrow> int) \<Rightarrow> nat \<Rightarrow> bytes list \<Rightarrow> ymodem_event list" where
  "block_events rx ts n [] = packet_events (rx n) (ts n) [MODEM_EOT]"
| "block_events rx ts n (B # Bs) = packet_events (rx n) (ts n) (packet_bytes n B) @ block_events rx ts (n + 1) Bs"

text \<open>The whole session: one invitation, the name packet, the data packets, the end of the transmission.\<close>

definition session_events :: "(nat \<Rightarrow> nat \<Rightarrow> int) \<Rightarrow> (nat \<Rightarrow> int) \<Rightarrow> bytes \<Rightarrow> bytes list \<Rightarrow> ymodem_event list" where
  "session_events rx ts name_block Bs =
     [Invite] @ byte_events (rx 0) (packet_bytes 0 name_block) @ [Invite, Packet (ts 0)] @ block_events rx ts 1 Bs"

text \<open>
  The receiver takes a packet to be complete when no byte has come for fifty ticks: each packet is looked at fifty ticks
  or more after its bytes have arrived. The tick counter has 32 bits, and the difference is taken with sign.
\<close>

definition line_silent :: "(nat \<Rightarrow> nat \<Rightarrow> int) \<Rightarrow> (nat \<Rightarrow> int) \<Rightarrow> bool" where
  "line_silent rx ts \<longleftrightarrow> (\<forall>n i. 50 \<le> sint32 (ts n - rx n i))"

lemma length_byte_events [simp]: "length (byte_events rx bs) = length bs"
  by (simp add: byte_events_def)

lemma byte_events_Nil [simp]: "byte_events rx [] = []"
  by (simp add: byte_events_def)

lemma byte_events_snoc: "byte_events rx (bs @ [b]) = byte_events rx bs @ [Rx (rx (length bs)) b]"
  by (simp add: byte_events_def nth_append)

lemma length_packet_bytes [simp]: "length (packet_bytes n B) = length B + 5"
  by (simp add: packet_bytes_def crc_bytes_def)

lemma length_block_events:
  "\<forall>B \<in> set Bs. length B \<le> 1024 \<Longrightarrow> length (block_events rx ts n Bs) \<le> 2 + 1030 * length Bs"
proof (induction Bs arbitrary: n)
  case (Cons B Bs)
  have "length (block_events rx ts (n + 1) Bs) \<le> 2 + 1030 * length Bs" "length B \<le> 1024" using Cons by simp_all
  then show ?case by (simp add: packet_events_def)
qed (simp add: packet_events_def)

lemma ymodem_run_append:
  "ymodem_run r l a (es @ es') p = (case ymodem_run r l a es p of None \<Rightarrow> None | Some p \<Rightarrow> ymodem_run r l a es' p)"
  by (induction es arbitrary: p) (auto split: option.split)

section \<open>Bytes on the line\<close>

text \<open>The interrupt fills the empty buffer; a whole packet of 1029 bytes just fits.\<close>

lemma receive_bytes:
  assumes "under_way p" and "uart_recv_index p = 0" and "int (length bs) \<le> RCV_BUF_SIZE" and "bs \<noteq> []"
  shows "ymodem_run r l a (byte_events rx bs) p =
    Some (p\<lparr>uart_rx_sema := uart_rx_sema p + 1, uart_irq_buf := store 0 bs (uart_irq_buf p),
      uart_recv_index := int (length bs), tick_last_update := rx (length bs - 1)\<rparr>)"
  using assms(3,4)
proof (induction bs rule: rev_induct)
  case (snoc x xs)
  show ?case
  proof (cases "xs = []")
    case True
    have st: "m(0 := x) = store 0 [x] m" for m by (auto simp: store_def fun_eq_iff)
    show ?thesis
      using assms(1,2) True byte_events_snoc [of rx "[]" x] by (auto simp: uarty_irq_def Let_def under_way_def RCV_BUF_SIZE_def st)
  next
    case False
    have "(store 0 xs m)(int (length xs) := x) = store 0 (xs @ [x]) m" for m
      by (auto simp: store_def fun_eq_iff nth_append)
    then show ?thesis
      using snoc False assms(1)
      by (auto simp: byte_events_snoc ymodem_run_append uarty_irq_def Let_def under_way_def RCV_BUF_SIZE_def)
  qed
qed simp

lemma recv_at:
  "uart_recv_buf_index p = int j \<Longrightarrow> j < 1028 \<Longrightarrow>
     uart_recvbytetimeout p = (uart_irq_buf p (int j), p\<lparr>uart_recv_buf_index := int (j + 1)\<rparr>)"
  by (simp add: uart_recvbytetimeout_def Let_def RCV_BUF_SIZE_def)

lemma fold_copy:
  assumes "uart_recv_buf_index p = int j" and "j + k < 1029"
  shows "fold copy_byte [0..<k] p =
    p\<lparr>uart_rcv_buf := store 0 (load (uart_irq_buf p) (int j) k) (uart_rcv_buf p), uart_recv_buf_index := int (j + k)\<rparr>"
  using assms(2)
proof (induction k)
  case (Suc k)
  have "(store 0 (load m (int j) k) n)(int k := m (int (j + k))) = store 0 (load m (int j) (Suc k)) n" for m n
    by (auto simp: store_def fun_eq_iff load_def nth_append)
  then show ?case
    using Suc assms(1) by (simp add: copy_byte_def recv_at [of _ "j + k"] del: of_nat_add of_nat_Suc)
qed (simp add: assms(1) load_def)

section \<open>A good packet\<close>

text \<open>The state of the protocol, which writing the data leaves alone.\<close>

definition proto where
  "proto p = (uart_rcv_buf p, uart_irq_buf p, uart_rx_sema p, uart_recv_index p, uart_recv_buf_index p, modemtype p,
     crc_mode p, nxt_num p, eot_counter p, first_time p, phase p, filename p, filelen p)"

lemma data_write_proto:
  assumes "data_write_to_flash r l a p = (ret, p')"
  shows "proto p' = proto p"
proof -
  have pb: "proto (snd (place_block r q)) = proto q" for q
    using place_block_same [of q r] by (cases q; cases "snd (place_block r q)"; simp add: ym_same_def proto_def)
  have "proto (snd (open_target r l a p)) = proto p"
    by (simp add: open_target_def Let_def proto_def split: option.splits prod.splits)
  then show ?thesis
    using assms pb [of p] pb [of "snd (open_target r l a p)"]
    by (auto simp: data_write_to_flash_def split: if_splits prod.splits bool.splits)
qed

lemma load_irq:
  assumes "j + k \<le> length bs"
  shows "load (store 0 bs m) (int j) k = take k (drop j bs)"
  using load_store_0 [OF assms] .

text \<open>
  A turn of the receiver over a packet whose number, complement and check are right. \<open>p3\<close> is the state
  once the block is in the receive buffer, \<open>p4\<close> the one after its data was written, if it was.
\<close>

lemma receive_block_good:
  assumes "uart_recv_buf_index p = 1" and "crc_mode p = 1" and "ym_len p = int k" and "k = 128 \<or> k = 1024"
    and irq: "uart_irq_buf p = store 0 ([h, n, c] @ B @ crc_bytes B) m" and B: "length B = k" and "uint n + uint c = 255"
    and name: "(if nxt_num p = 0 \<and> first_time p then calc_file_name_size 3 (p\<lparr>uart_recv_buf_index := 3\<rparr>)
      else Some (p\<lparr>uart_recv_buf_index := 3\<rparr>)) = Some p2"
    and p2: "p2 = p\<lparr>uart_recv_buf_index := 3, filename := filename p2, filelen := filelen p2\<rparr>"
    and p3: "p3 = p2\<lparr>uart_rcv_buf := store 0 B (uart_rcv_buf p), uart_recv_buf_index := int (3 + k)\<rparr>"
    and data: "(if nxt_num p3 \<noteq> 0 \<or> \<not> first_time p3
      then case data_write_to_flash r l a p3 of (ret, p) \<Rightarrow> if ret \<noteq> 0 then (ret, p) else (0, p\<lparr>first_time := False\<rparr>)
      else (0, p3)) = (0, p4)"
    and "ym_len p4 = int k" and zero: "nxt_num p = 255 \<Longrightarrow> sum_bytes B mod 2 ^ 32 \<noteq> 0"
  shows "\<exists>x. receive_block r l a p = Some (snd (start_next_round
    (p4\<lparr>uart_recv_buf_index := x, nxt_num := uint32 (nxt_num p4 + 1), rec_err := 0\<rparr>)))"
proof -
  let ?bs = "[h, n, c] @ B @ crc_bytes B"
  have at: "store 0 ?bs m 1 = n" "store 0 ?bs m 2 = c" by (simp_all add: store_def)
  have bn: "block_num_check p = (0, p\<lparr>uart_recv_buf_index := 3\<rparr>)"
    using assms(1,7) recv_at [of p 1] recv_at [of "p\<lparr>uart_recv_buf_index := 2\<rparr>" 2] at
    by (simp add: block_num_check_def irq)
  have p2i: "uart_recv_buf_index p2 = int 3" "uart_irq_buf p2 = store 0 ?bs m" "ym_len p2 = int k" "uart_rcv_buf p2 = uart_rcv_buf p"
    "nxt_num p2 = nxt_num p" "crc_mode p2 = 1"
    using p2 assms(2,3) irq by (cases p2; simp)+
  have "load (store 0 ?bs m) (int 3) k = B" using load_irq [of 3 k ?bs m] B by simp
  moreover have "3 + k < 1029" "nat (ym_len p2) = k" using assms(4) p2i(3) by auto
  ultimately have cp: "fold copy_byte [0..<nat (ym_len p2)] p2 = p3"
    using fold_copy [OF p2i(1)] unfolding p3 p2i(2,4) by metis
  have fr: "uart_rcv_buf p4 = uart_rcv_buf p3" "uart_irq_buf p4 = uart_irq_buf p3" "nxt_num p4 = nxt_num p3"
    "uart_recv_buf_index p4 = uart_recv_buf_index p3" "crc_mode p4 = crc_mode p3"
    using data data_write_proto [of r l a p3] by (auto simp: proto_def split: if_splits prod.splits)
  have p4: "uart_rcv_buf p4 = store 0 B (uart_rcv_buf p)" "uart_irq_buf p4 = store 0 ?bs m" "nxt_num p4 = nxt_num p"
    "uart_recv_buf_index p4 = int (3 + k)" "crc_mode p4 = 1"
    using p2i fr by (simp_all add: p3)
  have crc: "store 0 ?bs m (int (3 + k)) = crc_bytes B ! 0" "store 0 ?bs m (int (4 + k)) = crc_bytes B ! 1"
    using B by (auto simp: store_def nth_append crc_bytes_def nat_add_distrib)
  define p5 where "p5 = p4\<lparr>uart_recv_buf_index := int (4 + k)\<rparr>"
  have r1: "uart_recvbytetimeout p4 = (crc_bytes B ! 0, p5)"
    using recv_at [of p4 "3 + k"] p4 assms(4) crc by (auto simp: p5_def add.commute)
  obtain x where r2: "uart_recvbytetimeout p5 = (crc_bytes B ! 1, p4\<lparr>uart_recv_buf_index := x\<rparr>)"
    using that [of "if 5 + int k = RCV_BUF_SIZE then 0 else 5 + int k"] p4 crc
    by (auto simp: p5_def uart_recvbytetimeout_def Let_def)
  have ld: "load (uart_rcv_buf p4) 0 (nat (ym_len p4)) = B"
    using load_irq [of 0 k B "uart_rcv_buf p"] B assms(12) p4(1) by simp
  have ck: "crc_check p4 = (if uint32 (sum_bytes B) = 0 then 2 else 0, p4\<lparr>uart_recv_buf_index := x\<rparr>)"
  proof -
    have "crc_mode p5 = 1" using p4(5) by (simp add: p5_def)
    then have "(if crc_mode p5 \<noteq> 0 then uart_recvbytetimeout p5 else (0, p5)) = (crc_bytes B ! 1, p4\<lparr>uart_recv_buf_index := x\<rparr>)"
      by (simp add: r2)
    then show ?thesis
      using p4(5) ld crc_bytes_accepted [of B] unfolding crc_check_def r1 prod.case Let_def by simp
  qed
  have "receive_block r l a p = Some (snd (start_next_round
      (p4\<lparr>uart_recv_buf_index := x, nxt_num := uint32 (nxt_num p4 + 1), rec_err := 0\<rparr>)))"
  proof -
    have "fst (start_next_round (p4\<lparr>uart_recv_buf_index := x, nxt_num := y, rec_err := 0\<rparr>)) = 0" for y
      by (simp add: start_next_round_def)
    moreover have "\<not> ((if uint32 (sum_bytes B) = 0 then 2 else 0) = (2 :: int) \<and> nxt_num p4 = 255)"
      using zero p4(3) by (auto simp: uint32_def)
    moreover have name': "(if nxt_num (p\<lparr>uart_recv_buf_index := 3\<rparr>) = 0 \<and> first_time (p\<lparr>uart_recv_buf_index := 3\<rparr>)
        then calc_file_name_size 3 (p\<lparr>uart_recv_buf_index := 3\<rparr>) else Some (p\<lparr>uart_recv_buf_index := 3\<rparr>)) = Some p2"
      using name by simp
    ultimately show ?thesis
      unfolding receive_block_def bn prod.case
      by (simp only: simp_thms if_False name' option.case Let_def cp data prod.case ck) (simp add: split_beta)
  qed
  then show ?thesis by blast
qed

section \<open>Turns of the receiver\<close>

lemma complement_sum: "uint (b :: u8) + uint (255 - b) = 255"
proof -
  have "(255 :: u8) = - 1" by simp
  then have "b \<le> 255" by (simp only: word_n1_ge)
  then have "uint (255 - b) = uint (255 :: u8) - uint b" by (simp only: uint_minus_simple_alt)
  then show ?thesis by simp
qed

text \<open>Between two packets: \<open>n\<close> is the number of the next one.\<close>

definition ready :: "nat \<Rightarrow> 'c ymodem \<Rightarrow> bool" where
  "ready n p \<longleftrightarrow> phase p = Receiving \<and> uart_recv_index p = 0 \<and> uart_recv_buf_index p = 0 \<and> crc_mode p = 1 \<and>
     modemtype p = 2 \<and> eot_counter p = 0 \<and> nxt_num p = int n"

text \<open>A packet is in the interrupt's buffer, and at tick \<open>t\<close> the line has been silent for fifty ticks.\<close>

definition arrived :: "int \<Rightarrow> nat \<Rightarrow> bytes \<Rightarrow> 'c ymodem \<Rightarrow> bool" where
  "arrived t n bs p \<longleftrightarrow> phase p = Receiving \<and> 0 < uart_rx_sema p \<and> 50 \<le> sint32 (t - tick_last_update p) \<and> uart_recv_buf_index p = 0 \<and>
     crc_mode p = 1 \<and> modemtype p = 2 \<and> eot_counter p = 0 \<and> nxt_num p = int n \<and> (\<exists>m. uart_irq_buf p = store 0 bs m)"

lemma start_next_ready:
  assumes "rec_err p = 0" and "phase p = Receiving" and "crc_mode p = 1" and "modemtype p = 2" and "eot_counter p = 0" and "nxt_num p = int n"
  shows "ready n (snd (start_next_round p))" "filename (snd (start_next_round p)) = filename p"
    "filelen (snd (start_next_round p)) = filelen p" "first_time (snd (start_next_round p)) = first_time p"
  using assms by (simp_all add: start_next_round_def ready_def uart_rxempty_def uart_sendbyte_def Let_def)

lemma modem_codes: "MODEM_SOH \<noteq> MODEM_STX" "MODEM_EOT \<noteq> MODEM_SOH" "MODEM_EOT \<noteq> MODEM_STX" "MODEM_EOT \<noteq> MODEM_CAN"
  by (simp_all add: modem_consts)

lemma packet_step:
  assumes arr: "arrived t n (packet_bytes n B) p" and n: "n < 2 ^ 31" and B: "length B = k" "k = 128 \<or> k = 1024"
    and q: "q = p\<lparr>uart_rx_sema := uart_rx_sema p - 1, tick_current := t, uart_recv_buf_index := 1, ym_len := int k\<rparr>"
    and name: "(if n = 0 \<and> first_time p then calc_file_name_size 3 (q\<lparr>uart_recv_buf_index := 3\<rparr>)
      else Some (q\<lparr>uart_recv_buf_index := 3\<rparr>)) = Some p2"
    and p2: "p2 = q\<lparr>uart_recv_buf_index := 3, filename := filename p2, filelen := filelen p2\<rparr>"
    and p3: "p3 = p2\<lparr>uart_rcv_buf := store 0 B (uart_rcv_buf p), uart_recv_buf_index := int (3 + k)\<rparr>"
    and data: "(if nxt_num p3 \<noteq> 0 \<or> \<not> first_time p3
      then case data_write_to_flash r l a p3 of (ret, p) \<Rightarrow> if ret \<noteq> 0 then (ret, p) else (0, p\<lparr>first_time := False\<rparr>)
      else (0, p3)) = (0, p4)"
    and len: "ym_len p4 = int k" and zero: "n = 255 \<Longrightarrow> sum_bytes B mod 2 ^ 32 \<noteq> 0"
  shows "\<exists>p'. ymodem_step r l a (Packet t) p = Some p' \<and> ready (n + 1) p' \<and> ym_state p' = ym_state p4 \<and>
    filename p' = filename p2 \<and> filelen p' = filelen p2 \<and> first_time p' = first_time p4"
proof -
  obtain m where g: "phase p = Receiving" "0 < uart_rx_sema p" "50 \<le> sint32 (t - tick_last_update p)" "uart_recv_buf_index p = 0" "crc_mode p = 1"
    "modemtype p = 2" "eot_counter p = 0" "nxt_num p = int n" "uart_irq_buf p = store 0 (packet_bytes n B) m"
    using arr by (auto simp: arrived_def)
  define h where "h = (if length B = 128 then MODEM_SOH else MODEM_STX)"
  have irq: "uart_irq_buf q = store 0 ([h, of_nat n, 255 - of_nat n] @ B @ crc_bytes B) m"
    by (simp add: q g(9) packet_bytes_def h_def)
  let ?p0 = "p\<lparr>uart_rx_sema := uart_rx_sema p - 1, tick_current := t\<rparr>"
  have "uart_irq_buf p 0 = h" by (simp add: g(9) packet_bytes_def h_def store_def)
  then have ch: "uart_recvbytetimeout ?p0 = (h, ?p0\<lparr>uart_recv_buf_index := 1\<rparr>)"
    using recv_at [of ?p0 0] g(4) by simp
  have step: "ymodem_step r l a (Packet t) p = receive_block r l a q"
  proof -
    have "receive_packet r l a t p = receive_block r l a q"
      unfolding receive_packet_def ch prod.case using B modem_codes(1) by (auto simp: h_def q)
    then show ?thesis using g(1-3) by simp
  qed
  have qi: "uart_recv_buf_index q = 1" "crc_mode q = 1" "ym_len q = int k" "nxt_num q = int n" "uart_rcv_buf q = uart_rcv_buf p"
    "first_time q = first_time p"
    using g by (simp_all add: q)
  have name': "(if nxt_num q = 0 \<and> first_time q then calc_file_name_size 3 (q\<lparr>uart_recv_buf_index := 3\<rparr>)
      else Some (q\<lparr>uart_recv_buf_index := 3\<rparr>)) = Some p2"
    using name by (simp add: qi)
  have p3': "p3 = p2\<lparr>uart_rcv_buf := store 0 B (uart_rcv_buf q), uart_recv_buf_index := int (3 + k)\<rparr>" using p3 by (simp add: qi)
  have z': "nxt_num q = 255 \<Longrightarrow> sum_bytes B mod 2 ^ 32 \<noteq> 0" using zero by (simp add: qi)
  obtain x where x: "receive_block r l a q = Some (snd (start_next_round
      (p4\<lparr>uart_recv_buf_index := x, nxt_num := uint32 (nxt_num p4 + 1), rec_err := 0\<rparr>)))"
    using receive_block_good [OF qi(1-3) B(2) irq B(1) complement_sum name' p2 p3' data len z'] by blast
  let ?z = "p4\<lparr>uart_recv_buf_index := x, nxt_num := uint32 (nxt_num p4 + 1), rec_err := 0\<rparr>"
  have p3f: "phase p3 = Receiving" "crc_mode p3 = 1" "modemtype p3 = 2" "eot_counter p3 = 0" "nxt_num p3 = int n"
    "filename p3 = filename p2" "filelen p3 = filelen p2"
    using p2 g by (cases p2; simp add: p3 q)+
  have fr: "phase p4 = phase p3" "crc_mode p4 = crc_mode p3" "modemtype p4 = modemtype p3" "eot_counter p4 = eot_counter p3"
    "nxt_num p4 = nxt_num p3" "filename p4 = filename p3" "filelen p4 = filelen p3"
    using data data_write_proto [of r l a p3] by (auto simp: proto_def split: if_splits prod.splits)
  have "uint32 (int n + 1) = int (n + 1)" using n by (simp add: uint32_id)
  then have zi: "rec_err ?z = 0" "phase ?z = Receiving" "crc_mode ?z = 1" "modemtype ?z = 2" "eot_counter ?z = 0" "nxt_num ?z = int (n + 1)"
    using p3f fr by simp_all
  have "ym_state (snd (start_next_round ?z)) = ym_state p4" by (simp add: ym_state_eq)
  then show ?thesis
    using step x start_next_ready [OF zi] p3f(6,7) fr(6,7) by auto
qed

text \<open>The arrival of a packet at a receiver that is ready for it.\<close>

lemma packet_arrives:
  assumes "ready n p" and "bs \<noteq> []" and "length bs \<le> 1029" and "\<And>i. 50 \<le> sint32 (t - rx i)"
  shows "\<exists>p'. ymodem_run r l a (packet_events rx t bs) p = ymodem_run r l a [Packet t] p' \<and> arrived t n bs p' \<and>
    ym_state p' = ym_state p \<and> first_time p' = first_time p \<and> filename p' = filename p \<and> filelen p' = filelen p"
proof -
  have u: "under_way p" "uart_recv_index p = 0" using assms(1) by (auto simp: ready_def under_way_def)
  have len: "int (length bs) \<le> RCV_BUF_SIZE" using assms(3) by (simp add: RCV_BUF_SIZE_def)
  let ?p = "p\<lparr>uart_rx_sema := uart_rx_sema p + 1, uart_irq_buf := store 0 bs (uart_irq_buf p),
      uart_recv_index := int (length bs), tick_last_update := rx (length bs - 1)\<rparr>"
  have "ymodem_run r l a (packet_events rx t bs) p = ymodem_run r l a [Packet t] ?p"
    by (simp add: packet_events_def ymodem_run_append receive_bytes [OF u len assms(2)])
  moreover have "arrived t n bs ?p" using assms(1,4) by (auto simp: arrived_def ready_def)
  moreover have "ym_state ?p = ym_state p" by (simp add: ym_state_eq)
  ultimately show ?thesis by (intro exI [of _ ?p]) simp
qed

text \<open>The end of the transmission.\<close>

lemma eot_step:
  assumes "arrived t n [MODEM_EOT] p"
  shows "\<exists>q. ymodem_step r l a (Packet t) p = Some (thread_exit r l 0 q) \<and> ym_state q = ym_state p \<and>
    filename q = filename p \<and> filelen q = filelen p"
proof -
  obtain m where g: "phase p = Receiving" "0 < uart_rx_sema p" "50 \<le> sint32 (t - tick_last_update p)" "uart_recv_buf_index p = 0"
    "modemtype p = 2" "eot_counter p = 0" "uart_irq_buf p = store 0 [MODEM_EOT] m"
    using assms by (auto simp: arrived_def)
  let ?p0 = "p\<lparr>uart_rx_sema := uart_rx_sema p - 1, tick_current := t\<rparr>"
  let ?p1 = "?p0\<lparr>uart_recv_buf_index := 1, eot_counter := 1\<rparr>"
  let ?q = "modem_cancle (uart_sendbyte MODEM_C (uart_sendbyte MODEM_ACK (uart_sendbyte MODEM_C (uart_sendbyte MODEM_ACK ?p1))))"
  have "uart_irq_buf p 0 = MODEM_EOT" by (simp add: g(7) store_def)
  then have ch: "uart_recvbytetimeout ?p0 = (MODEM_EOT, ?p0\<lparr>uart_recv_buf_index := 1\<rparr>)"
    using recv_at [of ?p0 0] g(4) by simp
  have "modemtype (uart_sendbyte c x) = modemtype x" for c and x :: "'a ymodem" by (simp add: uart_sendbyte_def)
  then have "receive_packet r l a t p = Some (thread_exit r l 0 ?q)"
    unfolding receive_packet_def ch prod.case using modem_codes g(5,6) by (simp add: Let_def MODEM_EOT_COUNT_def)
  moreover have "ym_state ?q = ym_state p" by (simp add: ym_state_eq)
  moreover have "filename ?q = filename p" "filelen ?q = filelen p" by (simp_all add: modem_cancle_def uart_sendbyte_def)
  ultimately show ?thesis using g(1-3) by (intro exI [of _ ?q]) simp
qed

text \<open>A data packet. The first one must hold the file header, from which the slot is opened.\<close>

definition opened :: "update_ota_target_hdr \<Rightarrow> int \<Rightarrow> 'c ymodem \<Rightarrow> bool" where
  "opened hdr addr p \<longleftrightarrow> hd_flags p \<and> OtaTargetHdr p = hdr \<and> image_address p = addr \<and>
     IMAGE_LEN p = ImgLen (FileImgHdr hdr) \<and> IMAGE_OFFSET p = Offset (FileImgHdr hdr)"

definition header_block :: "'c rom \<Rightarrow> 'c ota_lib \<Rightarrow> int \<Rightarrow> 'c board \<Rightarrow> bytes \<Rightarrow> update_ota_target_hdr \<Rightarrow> int \<Rightarrow> bool" where
  "header_block r l cus_addr b B hdr addr \<longleftrightarrow>
     (\<forall>m. load m 0 (length B) = B \<longrightarrow>
        get_ota_tartget_header m (int (length B)) zero_target_hdr (OtaImgId (ymodem_target_index cus_addr)) = Some hdr) \<and>
     fst (get_ota_address r l (ymodem_target_index cus_addr) hdr b) = Some addr"

lemma opened_cong: "ym_state p = ym_state q \<Longrightarrow> opened hdr addr p = opened hdr addr q"
  by (simp add: opened_def ym_state_eq)

lemma open_header_block:
  assumes "header_block r l cus_addr (ym_board p) B hdr addr" and "OtaTargetHdr p = zero_target_hdr"
    and "load (uart_rcv_buf p) 0 (length B) = B" and "ym_len p = int (length B)" and "open_target r l cus_addr p = (ok, p')"
  shows "ok" and "opened hdr addr p'"
  using assms unfolding header_block_def open_target_def Let_def by (auto simp: opened_def split: prod.splits)

lemma write_block_ok: "fst (write_block r i n p) = 0"
  by (simp add: write_block_def flash_stream_write_def Let_def split_beta)

lemma place_block_ok: "fst (place_block r p) = 0"
  by (simp add: place_block_def Let_def write_block_ok)

lemma place_block_opened: "opened hdr addr p \<Longrightarrow> opened hdr addr (snd (place_block r p))"
  using place_block_same [of p r] by (cases p; cases "snd (place_block r p)"; simp add: ym_same_def opened_def)

context nor_flash
begin

lemma data_write_good:
  assumes inv: "ym_inv cell clean old F p" and len: "length F + 1024 < 2 ^ 31"
    and B: "ym_len p = int (length B)" "load (uart_rcv_buf p) 0 (length B) = B"
    and hdr: "opened hdr addr p \<or> \<not> hd_flags p \<and> OtaTargetHdr p = zero_target_hdr \<and> header_block r l cus_addr (ym_board p) B hdr addr"
    and dw: "data_write_to_flash r l cus_addr p = (ret, p')"
  shows "ret = 0" and "ym_inv cell clean old (F @ B) p'" and "opened hdr addr p'" and "ym_len p' = ym_len p"
proof -
  obtain q where q: "data_write_to_flash r l cus_addr p = place_block r q" "ym_inv cell clean old F q" "opened hdr addr q"
    "ym_len q = int (length B)" "uart_rcv_buf q = uart_rcv_buf p"
  proof (cases "hd_flags p")
    case True
    then show ?thesis using that [of p] inv hdr B(1) by (auto simp: data_write_to_flash_def)
  next
    case False
    then have h: "header_block r l cus_addr (ym_board p) B hdr addr" "OtaTargetHdr p = zero_target_hdr"
      using hdr by (auto simp: opened_def)
    obtain ok q where ot: "open_target r l cus_addr p = (ok, q)" by fastforce
    note o = open_target_inv [OF inv False ot] and ho = open_header_block [OF h B(2,1) ot]
    show ?thesis using that [of q] o ho False ot B(1) by (simp add: data_write_to_flash_def)
  qed
  obtain ret' q' where pb: "place_block r q = (ret', q')" by fastforce
  have e: "ret = ret'" "p' = q'" using dw q(1) pb by simp_all
  show "ret = 0" using place_block_ok [of r q] pb e by simp
  show "opened hdr addr p'" using place_block_opened [OF q(3), of r] pb e by simp
  have "hd_flags q" using q(3) by (simp add: opened_def)
  then show "ym_inv cell clean old (F @ B) p'" using place_block_inv(1) [OF q(2) _ len pb] q(4,5) B(2) e by simp
  show "ym_len p' = ym_len p"
    using place_block_same [of q r] pb e q(4) B(1) by (cases q; cases q'; simp add: ym_same_def)
qed

lemma data_step:
  assumes arr: "arrived t n (packet_bytes n B) p" and n: "0 < n" "n < 2 ^ 31" and B: "length B = 128 \<or> length B = 1024"
    and inv: "ym_inv cell clean old F p" and len: "length F + 1024 < 2 ^ 31"
    and hdr: "opened hdr addr p \<or> \<not> hd_flags p \<and> OtaTargetHdr p = zero_target_hdr \<and> header_block r l a (ym_board p) B hdr addr"
    and zero: "n = 255 \<Longrightarrow> sum_bytes B mod 2 ^ 32 \<noteq> 0"
  shows "\<exists>p'. ymodem_step r l a (Packet t) p = Some p' \<and> ready (n + 1) p' \<and> ym_inv cell clean old (F @ B) p' \<and>
    opened hdr addr p' \<and> filename p' = filename p \<and> filelen p' = filelen p"
proof -
  define q where "q = p\<lparr>uart_rx_sema := uart_rx_sema p - 1, tick_current := t, uart_recv_buf_index := 1, ym_len := int (length B)\<rparr>"
  define p2 where "p2 = q\<lparr>uart_recv_buf_index := 3\<rparr>"
  define p3 where "p3 = p2\<lparr>uart_rcv_buf := store 0 B (uart_rcv_buf p), uart_recv_buf_index := int (3 + length B)\<rparr>"
  obtain ret p4 where dw: "data_write_to_flash r l a p3 = (ret, p4)" by fastforce
  have "ym_state p3 = ym_state (p\<lparr>ym_len := int (length B)\<rparr>)" by (simp add: ym_state_eq p3_def p2_def q_def)
  then have i3: "ym_inv cell clean old F p3"
    using ym_inv_state [OF ym_inv_len [OF inv]] B by fastforce
  have p3i: "ym_len p3 = int (length B)" "load (uart_rcv_buf p3) 0 (length B) = B" "nxt_num p3 = nxt_num p"
    "opened hdr addr p3 \<or> \<not> hd_flags p3 \<and> OtaTargetHdr p3 = zero_target_hdr \<and> header_block r l a (ym_board p3) B hdr addr"
    "filename p2 = filename p" "filelen p2 = filelen p"
    using load_irq [of 0 "length B" B] hdr by (auto simp: p3_def p2_def q_def opened_def)
  note d = data_write_good [OF i3 len p3i(1,2,4) dw]
  let ?p4 = "p4\<lparr>first_time := False\<rparr>"
  have nx: "nxt_num p3 \<noteq> 0" using arr n(1) p3i(3) by (auto simp: arrived_def)
  then have data: "(if nxt_num p3 \<noteq> 0 \<or> \<not> first_time p3
      then case data_write_to_flash r l a p3 of (ret, p) \<Rightarrow> if ret \<noteq> 0 then (ret, p) else (0, p\<lparr>first_time := False\<rparr>)
      else (0, p3)) = (0, ?p4)"
    using dw d(1) by simp
  have name: "(if n = 0 \<and> first_time p then calc_file_name_size 3 (q\<lparr>uart_recv_buf_index := 3\<rparr>)
      else Some (q\<lparr>uart_recv_buf_index := 3\<rparr>)) = Some p2" using n(1) by (simp add: p2_def)
  have p2: "p2 = q\<lparr>uart_recv_buf_index := 3, filename := filename p2, filelen := filelen p2\<rparr>" by (simp add: p2_def)
  have l4: "ym_len ?p4 = int (length B)" using d(4) p3i(1) by simp
  obtain p' where p': "ymodem_step r l a (Packet t) p = Some p'" "ready (n + 1) p'" "ym_state p' = ym_state ?p4"
    "filename p' = filename p2" "filelen p' = filelen p2"
    using packet_step [OF arr n(2) refl B q_def name p2 p3_def data l4 zero] by blast
  have "ym_state p' = ym_state p4" using p'(3) by simp
  then have "ym_inv cell clean old (F @ B) p'" "opened hdr addr p'"
    using ym_inv_state [OF d(2)] d(3) opened_cong by blast+
  then show ?thesis using p' p3i(5,6) by auto
qed

text \<open>All data packets, one after the other.\<close>

lemma blocks_run:
  assumes "\<forall>B \<in> set Bs. length B = 128 \<or> length B = 1024" and "ready n p" and "0 < n" and "n + length Bs < 2 ^ 31"
    and "ym_inv cell clean old F p" and "length F + 1024 * length Bs < 2 ^ 31" and "opened hdr addr p"
    and "\<forall>i < length Bs. n + i = 255 \<longrightarrow> sum_bytes (Bs ! i) mod 2 ^ 32 \<noteq> 0" and silent: "line_silent rx ts"
  shows "\<exists>q. ymodem_run r l a (block_events rx ts n Bs) p = Some (thread_exit r l 0 q) \<and> ym_inv cell clean old (F @ concat Bs) q \<and>
    opened hdr addr q \<and> filename q = filename p \<and> filelen q = filelen p"
  using assms(1-8)
proof (induction Bs arbitrary: n p F)
  case Nil
  have pk: "[MODEM_EOT] \<noteq> []" "length [MODEM_EOT] \<le> 1029" by simp_all
  obtain p1 where p1: "ymodem_run r l a (packet_events (rx n) (ts n) [MODEM_EOT]) p = ymodem_run r l a [Packet (ts n)] p1"
    "arrived (ts n) n [MODEM_EOT] p1" "ym_state p1 = ym_state p" "filename p1 = filename p" "filelen p1 = filelen p"
    using packet_arrives [OF Nil.prems(2) pk] silent unfolding line_silent_def by blast
  obtain q where q: "ymodem_step r l a (Packet (ts n)) p1 = Some (thread_exit r l 0 q)" "ym_state q = ym_state p1"
    "filename q = filename p1" "filelen q = filelen p1"
    using eot_step [OF p1(2)] by blast
  have s: "ym_state q = ym_state p" using q(2) p1(3) by simp
  then show ?case
    using p1 q ym_inv_state [OF Nil.prems(5) s] opened_cong [OF s] Nil.prems(7) by (intro exI [of _ q]) simp
next
  case (Cons B Bs)
  have B: "length B = 128 \<or> length B = 1024" using Cons.prems(1) by simp
  then have pk: "packet_bytes n B \<noteq> []" "length (packet_bytes n B) \<le> 1029" by (auto simp: packet_bytes_def) (auto simp: crc_bytes_def)
  obtain p1 where p1: "ymodem_run r l a (packet_events (rx n) (ts n) (packet_bytes n B)) p = ymodem_run r l a [Packet (ts n)] p1"
    "arrived (ts n) n (packet_bytes n B) p1" "ym_state p1 = ym_state p" "filename p1 = filename p" "filelen p1 = filelen p"
    using packet_arrives [OF Cons.prems(2) pk] silent unfolding line_silent_def by blast
  have i1: "ym_inv cell clean old F p1" "opened hdr addr p1"
    using ym_inv_state [OF Cons.prems(5) p1(3)] opened_cong [OF p1(3)] Cons.prems(7) by simp_all
  have n: "0 < n" "n < 2 ^ 31" "length F + 1024 < 2 ^ 31" "n = 255 \<Longrightarrow> sum_bytes B mod 2 ^ 32 \<noteq> 0"
    using Cons.prems(3,4,6,8) by auto
  obtain p2 where p2: "ymodem_step r l a (Packet (ts n)) p1 = Some p2" "ready (n + 1) p2" "ym_inv cell clean old (F @ B) p2"
    "opened hdr addr p2" "filename p2 = filename p1" "filelen p2 = filelen p1"
    using data_step [OF p1(2) n(1,2) B i1(1) n(3) disjI1 [OF i1(2)] n(4)] by blast
  have z: "\<forall>i < length Bs. n + 1 + i = 255 \<longrightarrow> sum_bytes (Bs ! i) mod 2 ^ 32 \<noteq> 0"
  proof (intro allI impI)
    fix i assume "i < length Bs" "n + 1 + i = 255"
    then show "sum_bytes (Bs ! i) mod 2 ^ 32 \<noteq> 0" using spec [OF Cons.prems(8), of "Suc i"] by simp
  qed
  have "length B \<le> 1024" using B by auto
  then have prems: "\<forall>B \<in> set Bs. length B = 128 \<or> length B = 1024" "0 < n + 1" "n + 1 + length Bs < 2 ^ 31"
    "length (F @ B) + 1024 * length Bs < 2 ^ 31"
    using Cons.prems(1,4,6) by simp_all
  obtain q where q: "ymodem_run r l a (block_events rx ts (n + 1) Bs) p2 = Some (thread_exit r l 0 q)"
    "ym_inv cell clean old ((F @ B) @ concat Bs) q" "opened hdr addr q" "filename q = filename p2" "filelen q = filelen p2"
    using Cons.IH [OF prems(1) p2(2) prems(2,3) p2(3) prems(4) p2(4) z] by blast
  have "ymodem_run r l a (block_events rx ts n (B # Bs)) p = Some (thread_exit r l 0 q)"
    using p1(1) p2(1) q(1) by (simp add: ymodem_run_append)
  then show ?case using q p2(5,6) p1(4,5) by auto
qed

end

end
