(* ===== verification/Ymodem_Session.thy ===== *)
theory Ymodem_Session
  imports Ymodem_Transfer
begin

text \<open>
  The name packet, the verification at the end, and the whole session.
\<close>

section \<open>The name packet\<close>

text \<open>The number a sender prints with \<open>%d\<close>.\<close>

fun decimal :: "nat \<Rightarrow> bytes" where
  "decimal n = (if n < 10 then [of_nat (48 + n)] else decimal (n div 10) @ [of_nat (48 + n mod 10)])"

declare decimal.simps [simp del]

definition digit :: "u8 \<Rightarrow> bool" where
  "digit c \<longleftrightarrow> 48 \<le> uint c \<and> uint c \<le> 57"

lemma copy_name_at:
  assumes "at m i (nm @ [0])" and "0 \<notin> set nm"
  shows "copy_name m i name j = Some (store j (nm @ [0]) name, i + int (length nm) + 1)"
  using assms
proof (induction nm arbitrary: i name j)
  case Nil
  have "name(j := 0) = store j [0] name" by (auto simp: store_def fun_eq_iff)
  then show ?case using Nil by (subst copy_name.simps) simp
next
  case (Cons c nm)
  have "store (j + 1) cs (name(j := c)) = store j (c # cs) name" for cs
    by (auto simp: store_def fun_eq_iff nth_Cons' intro!: arg_cong [where f = "(!) cs"])
  then show ?case using Cons by (subst copy_name.simps) simp
qed

lemma skip_blanks_at:
  "at m i (replicate b 32) \<Longrightarrow> m (i + int b) \<noteq> 32 \<Longrightarrow> skip_blanks m i = Some (i + int b)"
proof (induction b arbitrary: i)
  case (Suc b)
  then show ?case using Suc.IH [of "i + 1"] by (subst skip_blanks.simps) (simp add: ac_simps)
qed (simp add: skip_blanks.simps)

definition digits_value :: "int \<Rightarrow> bytes \<Rightarrow> int" where
  "digits_value v ds = foldl (\<lambda>v d. v * 10 + (uint d - 48)) v ds"

lemma digits_value_mono: "0 \<le> v \<Longrightarrow> \<forall>d \<in> set ds. digit d \<Longrightarrow> v \<le> digits_value v ds"
proof (induction ds arbitrary: v)
  case (Cons d ds)
  have "v * 10 + (uint d - 48) \<le> digits_value (v * 10 + (uint d - 48)) ds"
    using Cons by (intro Cons.IH) (auto simp: digit_def)
  then show ?case using Cons.prems by (auto simp: digits_value_def digit_def)
qed (simp add: digits_value_def)

lemma filelen_loop_at:
  assumes "at m i ds" and "\<forall>d \<in> set ds. digit d" and "\<not> digit (m (i + int (length ds)))"
    and "0 \<le> v" and "digits_value v ds < 2 ^ 31"
  shows "filelen_loop 10 m i v = Some (digits_value v ds)"
  using assms
proof (induction ds arbitrary: i v)
  case Nil
  then show ?case by (subst filelen_loop.simps) (auto simp: digits_value_def digit_def Let_def)
next
  case (Cons d ds)
  let ?v = "v * 10 + (uint d - 48)"
  have d: "48 \<le> uint d" "uint d \<le> 57" "uint d \<noteq> 0" using Cons.prems(2) by (auto simp: digit_def)
  have dv: "digits_value v (d # ds) = digits_value ?v ds" by (simp add: digits_value_def)
  have "?v \<le> digits_value ?v ds" using Cons.prems(2,4) d by (intro digits_value_mono) auto
  then have v: "0 \<le> ?v" "?v < 2 ^ 31" using Cons.prems(4,5) d dv by auto
  have "filelen_loop 10 m i v = filelen_loop 10 m (i + 1) (sint32 (v * 10 + uint d - 48))"
    using Cons.prems(1) d by (subst filelen_loop.simps) (simp add: Let_def)
  also have "sint32 (v * 10 + uint d - 48) = ?v" using v by (simp add: sint32_id)
  also have "filelen_loop 10 m (i + 1) ?v = Some (digits_value ?v ds)"
  proof (rule Cons.IH [OF _ _ _ v(1)])
    have "i + 1 + int (length ds) = i + int (length (d # ds))" by simp
    then show "\<not> digit (m (i + 1 + int (length ds)))" using Cons.prems(3) by metis
  qed (use Cons.prems(1,2,5) dv in simp_all)
  finally show ?case by (simp add: dv)
qed

lemma uint_digit: "n < 10 \<Longrightarrow> uint (of_nat (48 + n) :: u8) = 48 + int n"
  by (simp only: unsigned_of_nat take_bit_eq_mod) simp

lemma decimal_value: "digits_value 0 (decimal n) = int n" "\<forall>d \<in> set (decimal n). digit d" "decimal n \<noteq> []"
proof (induction n rule: decimal.induct)
  case (1 n)
  {
    case 1
    show ?case
    proof (cases "n < 10")
      case False
      have "n div 10 * 10 + n mod 10 = n" by simp
      then have "int (n div 10) * 10 + int (n mod 10) = int n" by (metis of_nat_add of_nat_mult of_nat_numeral)
      then show ?thesis
        using "1.IH"(1) [OF False] uint_digit [of "n mod 10"] False by (subst decimal.simps) (simp add: digits_value_def)
    qed (use uint_digit [of n] in \<open>simp add: decimal.simps digits_value_def\<close>)
  next
    case 2
    show ?case using "1.IH"(2) uint_digit [of n] uint_digit [of "n mod 10"]
      by (subst decimal.simps) (auto simp: digit_def)
  next
    case 3
    show ?case by (subst decimal.simps) simp
  }
qed

lemma name_packet_read:
  assumes "at (uart_irq_buf p) i (nm @ [0] @ replicate b 32 @ decimal n @ [e])" and "0 \<notin> set nm" and "\<not> digit e" and "n < 2 ^ 31"
  shows "calc_file_name_size i p = Some (p\<lparr>filename := store 0 (nm @ [0]) (filename p), filelen := int n\<rparr>)"
proof -
  let ?m = "uart_irq_buf p"
  let ?j = "i + int (length nm) + 1"
  have a: "at ?m i (nm @ [0])" "at ?m ?j (replicate b 32)" "at ?m (?j + int b) (decimal n)"
    "?m (?j + int b + int (length (decimal n))) = e"
    using assms(1) by (auto simp: at_append ac_simps)
  obtain d ds where d: "decimal n = d # ds" using decimal_value(3) [of n] by (cases "decimal n") auto
  have "digit d" using decimal_value(2) [of n] d by simp
  moreover have "?m (?j + int b) = d" using a(3) d by simp
  ultimately have nb: "?m (?j + int b) \<noteq> 32" by (auto simp: digit_def)
  have "filelen_loop 10 ?m (?j + int b) 0 = Some (int n)"
    using filelen_loop_at [OF a(3) decimal_value(2)] a(4) assms(3,4) by (simp add: decimal_value(1))
  then have "buf_filelen ?m (?j + int b) = Some (int n)"
    using assms(4) by (auto simp: buf_filelen_def uint32_id)
  then show ?thesis
    by (simp add: calc_file_name_size_def copy_name_at [OF a(1) assms(2)] skip_blanks_at [OF a(2) nb])
qed

section \<open>The end of a transfer\<close>

text \<open>The bytes of the image among the bytes received.\<close>

definition image_of :: "'c ymodem \<Rightarrow> bytes \<Rightarrow> bytes" where
  "image_of p F = take (nat (IMAGE_LEN p)) (drop (nat (IMAGE_OFFSET p)) F)"

definition custom_signature :: "'c ota_lib \<Rightarrow> 'c ymodem \<Rightarrow> bool" where
  "custom_signature l p \<longleftrightarrow> str_eq (xip_bytes l (OTF_Mask l (image_address p - SPI_FLASH_BASE)
     (uint32 (uint32 (IMAGE_LEN p - 9) div 4096 + 1)) False (ym_board p)) (image_address p + IMAGE_HEADER_LEN) 32) cus_sig_demo"

context ota_flash
begin

text \<open>
  The signature is written exactly when the image is complete, carries the custom signature and has
  the right checksum; otherwise its place stays blank.
\<close>

lemma set_signature_cases:
  assumes inv: "ym_inv cell clean old F p" and hd: "hd_flags p" and tgt: "ym_target p"
    and a: "a = image_address p - SPI_FLASH_BASE" and ss: "set_signature r l p = (ret, p')"
  obtains "ret = 1" and "\<forall>x. a \<le> x \<longrightarrow> x < a + 8 \<longrightarrow> cell (chip (ym_board p')) x = 0xFF"
      and "\<not> (length (image_of p F) = nat (IMAGE_LEN p) \<and> custom_signature l p \<and>
         uint32 (sum_bytes (image_of p F)) = Checksum (FileImgHdr (OtaTargetHdr p)))"
    | b where "ret = 0" and "length (image_of p F) = nat (IMAGE_LEN p)"
      and "uint32 (sum_bytes (image_of p F)) = Checksum (FileImgHdr (OtaTargetHdr p))"
      and "ym_board p' = OTA_Change l (if image_address p = OTA1_ADDR then OTA_INDEX_1 else OTA_INDEX_2) b"
      and "cells (cell (chip b)) a (nat (IMAGE_LEN p)) = image_of p F"
proof -
  define L where "L = nat (IMAGE_LEN p) - 8"
  define off where "off = nat (IMAGE_OFFSET p)"
  define img where "img = image_of p F"
  have t: "\<not> RdpStatus (OtaTargetHdr p)" "1032 \<le> IMAGE_LEN p" "IMAGE_LEN p = int L + 8" "nat (IMAGE_LEN p) = 8 + L" "0 < L"
    "0 \<le> a" "a mod 4096 = 0" "a + int L + 11 < 2 ^ 32" "L + 8 < 2 ^ 31" "IMAGE_OFFSET p = int off"
    using tgt by (auto simp: ym_target_def L_def a off_def SPI_FLASH_BASE_def mod_diff_eq [symmetric, of "image_address p"])
  have big: "256 \<le> int L" using t(2,3) by simp
  have img: "img = take (8 + L) (drop off F)" by (simp add: img_def image_of_def t(4) off_def)
  obtain mem where mem: "blank mem a (IMAGE_LEN p)" "ym_written cell clean mem old F p"
    using inv hd tgt by (auto simp: ym_inv_def a)
  have IL: "IMAGE_LEN p = ImgLen (FileImgHdr (OtaTargetHdr p))" using inv hd by (auto simp: ym_inv_def)
  define q where "q = length F - off"
  define n where "n = min q (8 + L)"
  note w = mem(2) [unfolded ym_written_iff [OF t(10) q_def [symmetric] n_def [symmetric, unfolded t(4) [symmetric]]]]
  have blank: "\<forall>x. a \<le> x \<longrightarrow> x < a + 8 \<longrightarrow> cell (chip (ym_board p)) x = 0xFF"
    using w mem(1) t(2) by (auto simp: a [symmetric] prog_outside blank_def)
  have len: "length img = n" by (auto simp: img q_def n_def)
  let ?wrong = "flash_write_len p \<le> 0 \<or> flash_write_len p \<noteq> uint32 (ImgLen (FileImgHdr (OtaTargetHdr p)) - 8)"
  have wrong: "?wrong \<longleftrightarrow> n < 8 + L"
  proof -
    have "uint32 (ImgLen (FileImgHdr (OtaTargetHdr p)) - 8) = int L" using t(3,9) IL by (simp add: uint32_id)
    moreover have "flash_write_len p = int (n - 8)" "n \<le> 8 + L" using w by (auto simp: n_def)
    ultimately show ?thesis using t(5) by auto
  qed
  show ?thesis
  proof (cases "n < 8 + L")
    case True
    then have "ret = 1" "p' = p" using ss wrong by (auto simp: set_signature_def Let_def)
    then show ?thesis using that(1) blank True len t(4) by (simp add: img_def)
  next
    case False
    then have full: "n = 8 + L" "8 + L \<le> q" by (auto simp: n_def)
    have li: "length img = 8 + L" using len full(1) by simp
    have sig: "load (uart_signature p) 0 8 = take 8 img"
    proof -
      have "min q 8 = 8" "take 8 (drop off F) = take 8 img" using full by (simp_all add: img)
      then have "uart_signature p = store 0 (take 8 img) old" using w by metis
      then show ?thesis using load_store_0 [of 0 8 "take 8 img" old] li by simp
    qed
    have body: "take L (drop (off + 8) F) = drop 8 img" by (simp add: img drop_take add.commute)
    have wl: "flash_write_len p = int L" using w full(1) by simp
    have cd: "cell (chip (ym_board p)) = prog mem (a + 8) (drop 8 img)" using w full(1) body by (simp add: a [symmetric])
    have "cells (prog mem (a + 8) (drop 8 img)) (a + 8) (length (drop 8 img)) = drop 8 img"
      using mem(1) li t(3) by (intro cells_prog_erased) (auto simp: blank_def)
    then have cells: "cells (cell (chip (ym_board p))) (a + 8) L = drop 8 img" using li by (simp add: cd)
    obtain okv bv where v: "verify_ota_checksum r l (image_address p) (int L) (uart_signature p) (OtaTargetHdr p) (ym_board p) = (okv, bv)"
      by fastforce
    have "\<forall>x. clean (chip (ym_board p)) x" using w by blast
    note vs = verify_single [OF this t(1) _ t(6,8) a v]
    have cb: "cell (chip bv) = cell (chip (ym_board p))" using vs(1) by simp
    have ok: "okv \<longleftrightarrow> custom_signature l p \<and> uint32 (sum_bytes img) = Checksum (FileImgHdr (OtaTargetHdr p))"
      using vs(2) sig cells t(3) sum_bytes_append [of "take 8 img" "drop 8 img"] by (simp add: custom_signature_def a)
    have u: "uint32 (image_address p - SPI_FLASH_BASE) = a" using t(6,8) a by (simp add: uint32_id)
    have pass: "\<not> (int L \<le> 0 \<or> int L \<noteq> uint32 (ImgLen (FileImgHdr (OtaTargetHdr p)) - 8))" using wrong False wl by simp
    show ?thesis
    proof (cases okv)
      case False
      then have e: "ret = 1" "p' = p\<lparr>ym_board := flash_erase_sector r a bv\<rparr>"
        using ss unfolding set_signature_def Let_def wl if_not_P [OF pass] v u by (simp_all add: False)
      have "\<forall>x. a \<le> x \<longrightarrow> x < a + 8 \<longrightarrow> cell (chip (ym_board p')) x = 0xFF"
      proof (intro allI impI)
        fix x assume "a \<le> x" "x < a + 8"
        then have "x div 4096 = a div 4096" using t(7) by auto
        then show "cell (chip (ym_board p')) x = 0xFF" by (simp add: e(2) erase_sector_cells(1))
      qed
      then show ?thesis using that(1) e(1) False ok by (simp add: img_def)
    next
      case True
      let ?b = "snd (flash_stream_write r a 8 (\<lambda>i. uart_signature p (int i)) bv)"
      have "ret = 0" "ym_board p' = OTA_Change l (if image_address p = OTA1_ADDR then OTA_INDEX_1 else OTA_INDEX_2) ?b"
        using ss unfolding set_signature_def Let_def wl if_not_P [OF pass] v
        by (auto simp: True u change_ota_signature_def flash_stream_write_def Let_def)
      moreover have "cells (cell (chip ?b)) a (8 + L) = img"
        by (rule signature_completes [OF t(7,6)]) (use t(8) big blank cells li sig in \<open>simp_all add: cb load_def\<close>)
      ultimately show ?thesis using that(2) True ok li t(4) by (simp add: img_def)
    qed
  qed
qed

end

section \<open>The session\<close>

definition name_block :: "bytes \<Rightarrow> nat \<Rightarrow> nat \<Rightarrow> bytes \<Rightarrow> bytes" where
  "name_block nm b len rest = nm @ [0] @ replicate b 32 @ decimal len @ rest"

text \<open>The invitation, the name packet and the turn that reads it.\<close>

lemma name_step:
  assumes arr: "arrived t 0 (packet_bytes 0 Z) p" and Z: "Z = name_block nm b len rest" "length Z = 128"
    and "0 \<notin> set nm" and "rest \<noteq> []" and "\<not> digit (hd rest)" and "len < 2 ^ 31" and "first_time p"
  shows "\<exists>p'. ymodem_step r l a (Packet t) p = Some p' \<and> ready 1 p' \<and> ym_state p' = ym_state (p\<lparr>ym_len := 128\<rparr>) \<and>
    filename p' = store 0 (nm @ [0]) (filename p) \<and> filelen p' = int len"
proof -
  define q where "q = p\<lparr>uart_rx_sema := uart_rx_sema p - 1, tick_current := t, uart_recv_buf_index := 1, ym_len := int 128\<rparr>"
  define p2 where "p2 = q\<lparr>uart_recv_buf_index := 3, filename := store 0 (nm @ [0]) (filename p), filelen := int len\<rparr>"
  define p3 where "p3 = p2\<lparr>uart_rcv_buf := store 0 Z (uart_rcv_buf p), uart_recv_buf_index := int (3 + 128)\<rparr>"
  obtain e es where rest: "rest = e # es" using assms(5) by (cases rest) auto
  obtain m where m: "uart_irq_buf p = store 0 (packet_bytes 0 Z) m" using arr by (auto simp: arrived_def)
  let ?cs = "nm @ [0] @ replicate b 32 @ decimal len @ [e]"
  have "Z = ?cs @ es" by (simp add: Z(1) name_block_def rest)
  then have "load (uart_irq_buf p) (int 3) (length ?cs) = ?cs"
    unfolding m by (subst load_irq) (simp_all add: packet_bytes_def)
  then have "at (uart_irq_buf (q\<lparr>uart_recv_buf_index := 3\<rparr>)) 3 ?cs" by (simp add: at_def q_def)
  then have "calc_file_name_size 3 (q\<lparr>uart_recv_buf_index := 3\<rparr>) = Some p2"
    using name_packet_read [of "q\<lparr>uart_recv_buf_index := 3\<rparr>" 3 nm b len e] assms(4,6,7) rest by (simp add: p2_def q_def)
  then have name: "(if (0 :: nat) = 0 \<and> first_time p then calc_file_name_size 3 (q\<lparr>uart_recv_buf_index := 3\<rparr>)
      else Some (q\<lparr>uart_recv_buf_index := 3\<rparr>)) = Some p2" using assms(8) by simp
  have p2: "p2 = q\<lparr>uart_recv_buf_index := 3, filename := filename p2, filelen := filelen p2\<rparr>" by (simp add: p2_def)
  have "nxt_num p3 = 0" "first_time p3" using arr assms(8) by (simp_all add: arrived_def p3_def p2_def q_def)
  then have data: "(if nxt_num p3 \<noteq> 0 \<or> \<not> first_time p3
      then case data_write_to_flash r l a p3 of (ret, p) \<Rightarrow> if ret \<noteq> 0 then (ret, p) else (0, p\<lparr>first_time := False\<rparr>)
      else (0, p3)) = (0, p3)" by simp
  have len: "ym_len p3 = int 128" by (simp add: p3_def p2_def q_def)
  have st: "ym_state p3 = ym_state (p\<lparr>ym_len := 128\<rparr>)" by (simp add: ym_state_eq p3_def p2_def q_def)
  have "\<exists>p'. ymodem_step r l a (Packet t) p = Some p' \<and> ready (0 + 1) p' \<and> ym_state p' = ym_state p3 \<and>
      filename p' = filename p2 \<and> filelen p' = filelen p2 \<and> first_time p' = first_time p3"
    by (rule packet_step [OF arr _ Z(2) _ q_def name p2 p3_def data len]) simp_all
  then show ?thesis by (auto simp: st p2_def simp del: ymodem_step.simps)
qed

lemma session_start:
  assumes start: "uart_ymodem True True raw = (0, p)" and "first_time raw" and Z: "Z = name_block nm b len rest" "length Z = 128"
    and "0 \<notin> set nm" and "rest \<noteq> []" and "\<not> digit (hd rest)" and "len < 2 ^ 31" and silent: "line_silent rx ts"
  shows "\<exists>p'. ymodem_run r l a (session_events rx ts Z Bs) p = ymodem_run r l a (block_events rx ts 1 Bs) p' \<and> ready 1 p' \<and>
    ym_state p' = ym_state (p\<lparr>ym_len := 128\<rparr>) \<and> filename p' = store 0 (nm @ [0]) (filename p) \<and> filelen p' = int len"
proof -
  have p: "phase p = Inviting" "uart_recv_index p = 0" "uart_recv_buf_index p = 0" "uart_rx_sema p = 0" "send_count p = 0"
    "crc_mode p = 1" "modemtype p = 2" "eot_counter p = 0" "nxt_num p = 0" "first_time p"
    using start assms(2) by (auto simp: uart_ymodem_def Let_def uart_init_def uart_ymodem_init_def)
  let ?p1 = "p\<lparr>sent := sent p @ [MODEM_C], send_count := 1\<rparr>"
  have r1: "ymodem_step r l a Invite p = Some ?p1" using p by (simp add: invite_def Let_def uart_sendbyte_def)
  have "under_way ?p1" "uart_recv_index ?p1 = 0" using p by (simp_all add: under_way_def)
  moreover have "int (length (packet_bytes 0 Z)) \<le> RCV_BUF_SIZE" "packet_bytes 0 Z \<noteq> []"
    using Z(2) by (simp_all add: RCV_BUF_SIZE_def packet_bytes_def crc_bytes_def)
  ultimately have r2: "ymodem_run r l a (byte_events (rx 0) (packet_bytes 0 Z)) ?p1 =
      Some (?p1\<lparr>uart_rx_sema := 1, uart_irq_buf := store 0 (packet_bytes 0 Z) (uart_irq_buf p),
        uart_recv_index := int (length (packet_bytes 0 Z)), tick_last_update := rx 0 (length (packet_bytes 0 Z) - 1)\<rparr>)" (is "_ = Some ?p2")
    using receive_bytes [of ?p1 "packet_bytes 0 Z" r l a "rx 0"] p(4) by simp
  let ?p3 = "?p2\<lparr>sent := sent p @ [MODEM_C] @ [MODEM_C], send_count := 2, phase := Receiving\<rparr>"
  have r3: "ymodem_step r l a Invite ?p2 = Some ?p3" using p by (simp add: invite_def Let_def uart_sendbyte_def)
  have arr: "arrived (ts 0) 0 (packet_bytes 0 Z) ?p3" using p silent by (auto simp: arrived_def line_silent_def)
  have ft: "first_time ?p3" using p(10) by simp
  obtain p' where p': "ymodem_step r l a (Packet (ts 0)) ?p3 = Some p'" "ready 1 p'"
    "ym_state p' = ym_state (?p3\<lparr>ym_len := 128\<rparr>)" "filename p' = store 0 (nm @ [0]) (filename ?p3)" "filelen p' = int len"
    using name_step [OF arr Z assms(5-8) ft] by blast
  have "ymodem_run r l a (session_events rx ts Z Bs) p = ymodem_run r l a (block_events rx ts 1 Bs) p'"
    unfolding session_events_def ymodem_run_append using r1 r2 r3 p'(1) by (simp del: ymodem_step.simps)
  moreover have "ym_state (?p3\<lparr>ym_len := 128\<rparr>) = ym_state (p\<lparr>ym_len := 128\<rparr>)" by (simp add: ym_state_eq)
  ultimately show ?thesis using p'(2-5) by auto
qed

text \<open>
  A whole file. The verification at the end sees a state in which the header is the one of the first
  data packet and the bytes received are the blocks, one behind the other.
\<close>

context nor_flash
begin

lemma session_run:
  assumes start: "uart_ymodem True True raw = (0, p)" and "first_time raw" and Z: "Z = name_block nm b len rest" "length Z = 128"
    and nm: "0 \<notin> set nm" "rest \<noteq> []" "\<not> digit (hd rest)" "len < 2 ^ 31"
    and Bs: "\<forall>B \<in> set Bs. length B = 128 \<or> length B = 1024" "length Bs < 2 ^ 20" "Bs \<noteq> []"
    and hdr: "header_block r l a (ym_board raw) (hd Bs) hdr addr"
    and zero: "254 < length Bs \<longrightarrow> sum_bytes (Bs ! 254) mod 2 ^ 32 \<noteq> 0" and silent: "line_silent rx ts"
  obtains q where "ymodem_run r l a (session_events rx ts Z Bs) p = Some (thread_exit r l 0 q)"
    and "ym_inv cell clean (\<lambda>i. if 0 \<le> i \<and> i < 9 then 0 else uart_signature raw i) (concat Bs) q" and "opened hdr addr q"
    and "filename q = store 0 (nm @ [0]) (filename p)" and "filelen q = int len"
proof -
  let ?old = "\<lambda>i. if 0 \<le> i \<and> i < 9 then 0 else uart_signature raw i"
  obtain p1 where p1: "ymodem_run r l a (session_events rx ts Z Bs) p = ymodem_run r l a (block_events rx ts 1 Bs) p1" "ready 1 p1"
    "ym_state p1 = ym_state (p\<lparr>ym_len := 128\<rparr>)" "filename p1 = store 0 (nm @ [0]) (filename p)" "filelen p1 = int len"
    using session_start [OF start assms(2) Z nm silent] by blast
  have "ym_inv cell clean ?old [] p" using uart_ymodem_inv(2) [OF start] .
  then have i1: "ym_inv cell clean ?old [] p1" using ym_inv_state [OF ym_inv_len p1(3)] by blast
  have b1: "ym_board p1 = ym_board raw" "\<not> hd_flags p1" "OtaTargetHdr p1 = zero_target_hdr"
    using p1(3) start by (auto simp: ym_state_eq uart_ymodem_def Let_def uart_init_def uart_ymodem_init_def)
  obtain B Bs' where B: "Bs = B # Bs'" using Bs(3) by (cases Bs) auto
  have lB: "length B = 128 \<or> length B = 1024" using Bs(1) B by simp
  then have pk: "packet_bytes 1 B \<noteq> []" "length (packet_bytes 1 B) \<le> 1029" by (auto simp: packet_bytes_def) (auto simp: crc_bytes_def)
  obtain p2 where p2: "ymodem_run r l a (packet_events (rx 1) (ts 1) (packet_bytes 1 B)) p1 = ymodem_run r l a [Packet (ts 1)] p2"
    "arrived (ts 1) 1 (packet_bytes 1 B) p2" "ym_state p2 = ym_state p1" "filename p2 = filename p1" "filelen p2 = filelen p1"
    using packet_arrives [OF p1(2) pk] silent unfolding line_silent_def by blast
  have i2: "ym_inv cell clean ?old [] p2" using ym_inv_state [OF i1 p2(3)] .
  have h2: "opened hdr addr p2 \<or> \<not> hd_flags p2 \<and> OtaTargetHdr p2 = zero_target_hdr \<and> header_block r l a (ym_board p2) B hdr addr"
    using b1 p2(3) hdr B by (simp add: ym_state_eq)
  obtain p3 where p3: "ymodem_step r l a (Packet (ts 1)) p2 = Some p3" "ready (1 + 1) p3"
    "ym_inv cell clean ?old ([] @ B) p3" "opened hdr addr p3" "filename p3 = filename p2" "filelen p3 = filelen p2"
    using data_step [OF p2(2) _ _ lB i2 _ h2] by auto
  have prems: "\<forall>B \<in> set Bs'. length B = 128 \<or> length B = 1024" "(0 :: nat) < 1 + 1" "1 + 1 + length Bs' < 2 ^ 31"
    "length ([] @ B) + 1024 * length Bs' < 2 ^ 31"
    using Bs(1,2) B lB by auto
  have z: "\<forall>i < length Bs'. 1 + 1 + i = 255 \<longrightarrow> sum_bytes (Bs' ! i) mod 2 ^ 32 \<noteq> 0"
  proof (intro allI impI)
    fix i assume i: "i < length Bs'" "1 + 1 + i = 255"
    then have "254 = Suc i" by simp
    then show "sum_bytes (Bs' ! i) mod 2 ^ 32 \<noteq> 0" using zero i(1) by (simp add: B)
  qed
  obtain q where q: "ymodem_run r l a (block_events rx ts (1 + 1) Bs') p3 = Some (thread_exit r l 0 q)"
    "ym_inv cell clean ?old (([] @ B) @ concat Bs') q" "opened hdr addr q" "filename q = filename p3" "filelen q = filelen p3"
    using blocks_run [OF prems(1) p3(2) prems(2,3) p3(3) prems(4) p3(4) z silent] by blast
  have "ymodem_run r l a (block_events rx ts 1 Bs) p1 = Some (thread_exit r l 0 q)"
    using p2(1) p3(1) q(1) unfolding B by (simp add: ymodem_run_append del: ymodem_step.simps)
  then show ?thesis
    using that [of q] p1 p2(4,5) p3(5,6) q by (simp add: B)
qed

end

end
