(* ===== verification/Ymodem_End.thy ===== *)
theory Ymodem_End
  imports Ymodem_Session Ota_Sign
begin

text \<open>
  How the receiver ends: with a verified image and its signature in place, or without a signature.
\<close>

section \<open>The two endings\<close>

lemma set_signature_frame: "snd (set_signature r l p) = p\<lparr>ym_board := ym_board (snd (set_signature r l p))\<rparr>"
proof -
  obtain ok b where v: "verify_ota_checksum r l (image_address p) (flash_write_len p) (uart_signature p) (OtaTargetHdr p) (ym_board p) = (ok, b)"
    by fastforce
  obtain ok' b' where c: "change_ota_signature r l (image_address p) (uart_signature p)
      (if image_address p = OTA1_ADDR then OTA_INDEX_1 else OTA_INDEX_2) b = (ok', b')"
    by fastforce
  have "snd (set_signature r l p) = p \<or> (\<exists>b. snd (set_signature r l p) = p\<lparr>ym_board := b\<rparr>)"
    unfolding set_signature_def Let_def v c prod.case by (cases ok) (simp_all only: bool.case c prod.case snd_conv if_split_asm, (simp; blast)+)
  then show ?thesis by auto
qed

context ota_flash
begin

lemma run_ended:
  assumes start: "uart_ymodem True True raw = (0, p)" and run: "ymodem_run r l cus_addr evs p = Some p'"
    and evs: "length evs < 2 ^ 20" and ended: "\<not> under_way p'" and hd: "hd_flags p'" and tgt: "ym_target p'"
    and a: "a = image_address p' - SPI_FLASH_BASE" and N: "N = nat (IMAGE_LEN p')"
  obtains b where "phase p' = Ended 0 (Some 0)"
      and "ym_board p' = OTA_Change l (if image_address p' = OTA1_ADDR then OTA_INDEX_1 else OTA_INDEX_2) b"
      and "uint32 (sum_bytes (cells (cell (chip b)) a N)) = Checksum (FileImgHdr (OtaTargetHdr p'))"
    | "phase p' \<noteq> Ended 0 (Some 0)" and "\<forall>x. a \<le> x \<longrightarrow> x < a + 8 \<longrightarrow> cell (chip (ym_board p')) x = 0xFF"
proof -
  define old where "old = (\<lambda>i :: int. if 0 \<le> i \<and> i < 9 then 0 else uart_signature raw i)"
  have inv: "ym_inv cell clean old [] p" and uw: "under_way p" using uart_ymodem_inv [OF start] by (simp_all add: old_def)
  obtain F p1 e where p1: "ym_inv cell clean old F p1" "0 \<le> e" "p' = thread_exit r l e p1"
    using ymodem_run_next [OF run inv uw] evs ended unfolding ym_next_def by auto
  show ?thesis
  proof (cases "e = 0")
    case False
    then have p': "p' = p1\<lparr>first_time := True, phase := Ended e None\<rparr>" using p1(3) by (simp add: thread_exit_def)
    then have "ym_state p' = ym_state p1" by (simp add: ym_state_eq)
    then have "ym_inv cell clean old F p'" using ym_inv_state [OF p1(1)] by simp
    then obtain mem where "blank mem a (IMAGE_LEN p')" "ym_written cell clean mem old F p'"
      using hd tgt by (auto simp: ym_inv_def a)
    then have "\<forall>x. a \<le> x \<longrightarrow> x < a + 8 \<longrightarrow> cell (chip (ym_board p')) x = 0xFF"
      using tgt by (auto simp: ym_written_def Let_def prog_outside blank_def ym_target_def a)
    then show ?thesis using that(2) p' False by simp
  next
    case True
    obtain ret p2 where ss: "set_signature r l p1 = (ret, p2)" by fastforce
    obtain b where p2: "p2 = p1\<lparr>ym_board := b\<rparr>" using set_signature_frame [of r l p1] ss by (metis snd_conv)
    have p': "p' = p2\<lparr>first_time := True, phase := Ended 0 (Some ret)\<rparr>" using p1(3) True ss by (simp add: thread_exit_def)
    have e: "hd_flags p1" "ym_target p1" "image_address p1 = image_address p'" "IMAGE_LEN p1 = IMAGE_LEN p'"
      "OtaTargetHdr p1 = OtaTargetHdr p'"
      using hd tgt by (simp_all add: p' p2 ym_target_def)
    have a1: "a = image_address p1 - SPI_FLASH_BASE" using a e(3) by simp
    show ?thesis
      using set_signature_cases [OF p1(1) e(1,2) a1 ss]
    proof cases
      case 1
      then show ?thesis using that(2) p' by simp
    next
      case (2 b1)
      then show ?thesis using that(1) [of b1] p' e(3-5) N by simp
    qed
  qed
qed

lemma transfer_installs:
  assumes start: "uart_ymodem True True raw = (0, p)" and "first_time raw" and Z: "Z = name_block nm b len rest" "length Z = 128"
    and nm: "0 \<notin> set nm" "rest \<noteq> []" "\<not> digit (hd rest)" "len < 2 ^ 31"
    and Bs: "\<forall>B \<in> set Bs. length B = 128 \<or> length B = 1024" "length Bs < 2 ^ 20" "Bs \<noteq> []"
    and hdr: "header_block r l cus_addr (ym_board raw) (hd Bs) hdr addr"
    and zero: "254 < length Bs \<longrightarrow> sum_bytes (Bs ! 254) mod 2 ^ 32 \<noteq> 0" and silent: "line_silent rx ts"
    and hd: "\<not> RdpStatus hdr" "ImgLen (FileImgHdr hdr) = int N" "1032 \<le> N" "Offset (FileImgHdr hdr) = int off" "off + N < 2 ^ 31"
      "SPI_FLASH_BASE \<le> addr" "addr + int N + 4200 < 2 ^ 32"
    and img: "img = take N (drop off (concat Bs))" "length img = N" "uint32 (sum_bytes img) = Checksum (FileImgHdr hdr)"
    and a: "a = addr - SPI_FLASH_BASE"
    and cus: "custom_signed cell clean l addr (N - 8) img"
  shows "\<exists>p' b1. ymodem_run r l cus_addr (session_events rx ts Z Bs) p = Some p' \<and> phase p' = Ended 0 (Some 0) \<and>
    filelen p' = int len \<and> opened hdr addr p' \<and>
    ym_board p' = OTA_Change l (if addr = OTA1_ADDR then OTA_INDEX_1 else OTA_INDEX_2) b1 \<and>
    cells (cell (chip b1)) a N = img"
proof -
  obtain q where q: "ymodem_run r l cus_addr (session_events rx ts Z Bs) p = Some (thread_exit r l 0 q)"
    "ym_inv cell clean (\<lambda>i. if 0 \<le> i \<and> i < 9 then 0 else uart_signature raw i) (concat Bs) q" "opened hdr addr q" "filelen q = int len"
    using session_run [OF start assms(2) Z nm Bs hdr zero silent] by blast
  let ?old = "\<lambda>i. if 0 \<le> i \<and> i < 9 then 0 else uart_signature raw i"
  have o: "hd_flags q" "OtaTargetHdr q = hdr" "image_address q = addr" "IMAGE_LEN q = int N" "IMAGE_OFFSET q = int off"
    using q(3) hd by (auto simp: opened_def)
  have "addr mod 4096 = 0"
    using hdr get_ota_address_aligned(1) unfolding header_block_def by (metis prod.collapse)
  then have tgt: "ym_target q" using o hd by (auto simp: ym_target_def)
  have im: "image_of q (concat Bs) = img" using o img(1) by (simp add: image_of_def)
  obtain mem where mem: "blank mem a (int N)" "ym_written cell clean mem ?old (concat Bs) q"
    using q(2) o(1,3,4) tgt by (auto simp: ym_inv_def a)
  have "cells (cell (chip (ym_board q))) (a + 8) (N - 8) = drop 8 img \<and> (\<forall>x. clean (chip (ym_board q)) x)"
  proof -
    have nq: "min (length (concat Bs) - off) (nat (IMAGE_LEN q)) = N" using img(1,2) o(4) by auto
    have body: "take (N - 8) (drop (off + 8) (concat Bs)) = drop 8 img"
      using hd(3) by (simp add: img(1) drop_take add.commute)
    have "cell (chip (ym_board q)) = prog mem (a + 8) (drop 8 img) \<and> (\<forall>x. clean (chip (ym_board q)) x)"
      using mem(2) unfolding ym_written_iff [OF o(5) refl nq] body by (simp add: a o(3))
    moreover have "cells (prog mem (a + 8) (drop 8 img)) (a + 8) (length (drop 8 img)) = drop 8 img"
      using mem(1) img(2) hd(3) by (intro cells_prog_erased) (auto simp: blank_def)
    ultimately show ?thesis using img(2) by simp
  qed
  moreover have "IMAGE_LEN q - 9 = int (N - 8) - 1" using o(4) hd(3) by simp
  ultimately have cs: "custom_signature l q" using cus by (simp add: custom_signature_def custom_signed_def o(3) a)
  obtain ret p2 where ss: "set_signature r l q = (ret, p2)" by fastforce
  obtain b2 where p2: "p2 = q\<lparr>ym_board := b2\<rparr>" using set_signature_frame [of r l q] ss by (metis snd_conv)
  have aq: "a = image_address q - SPI_FLASH_BASE" by (simp add: a o(3))
  obtain b1 where b1: "ret = 0" "ym_board p2 = OTA_Change l (if addr = OTA1_ADDR then OTA_INDEX_1 else OTA_INDEX_2) b1"
    "cells (cell (chip b1)) a N = img"
    using set_signature_cases [OF q(2) o(1) tgt aq ss] cs img(2,3) o by (metis im nat_int)
  let ?p' = "thread_exit r l 0 q"
  have "?p' = p2\<lparr>first_time := True, phase := Ended 0 (Some 0)\<rparr>" using ss b1(1) by (simp add: thread_exit_def)
  moreover have "filelen p2 = int len" "opened hdr addr p2" using q(3,4) by (simp_all add: p2 opened_def)
  ultimately have "phase ?p' = Ended 0 (Some 0) \<and> filelen ?p' = int len \<and> opened hdr addr ?p' \<and> ym_board ?p' = ym_board p2"
    by (simp add: opened_def)
  then show ?thesis using q(1) b1(2,3) by metis
qed

end

end
