(* ===== verification/Ymodem_Ranges.thy ===== *)
theory Ymodem_Ranges
  imports Ymodem_Run
begin

text \<open>
  The receiver's indices and counters stay in their ranges and its two buffers are never written outside
  their bounds, whatever arrives: a typing of the state that every event preserves.
\<close>

definition outside :: "ram \<Rightarrow> ram \<Rightarrow> bool" where
  "outside m m' \<longleftrightarrow> (\<forall>i. i < 0 \<or> RCV_BUF_SIZE \<le> i \<longrightarrow> m' i = m i)"

definition u32_range :: "int \<Rightarrow> bool" where
  "u32_range x \<longleftrightarrow> 0 \<le> x \<and> x < 2 ^ 32"

text \<open>\<open>irq\<close> and \<open>rcv\<close> are the memories at the two buffers before.\<close>

definition ym_typed :: "ram \<Rightarrow> ram \<Rightarrow> 'c ymodem \<Rightarrow> bool" where
  "ym_typed irq rcv p \<longleftrightarrow> outside irq (uart_irq_buf p) \<and> outside rcv (uart_rcv_buf p) \<and>
     0 \<le> uart_recv_index p \<and> uart_recv_index p \<le> RCV_BUF_SIZE \<and>
     0 \<le> uart_recv_buf_index p \<and> uart_recv_buf_index p < RCV_BUF_SIZE \<and>
     ym_len p \<in> {0, 128, 1024} \<and> rec_err p \<in> {0, 1} \<and> 0 \<le> send_count p \<and> send_count p \<le> 1200 \<and>
     0 \<le> sig_cnt p \<and> sig_cnt p \<le> 8 \<and> u32_range (nxt_num p) \<and> u32_range (filelen p) \<and>
     u32_range (file_offset p) \<and> u32_range (flash_offset p) \<and> u32_range (flash_write_len p)"

lemma uint32_nonneg [simp]: "0 \<le> uint32 x"
  by (simp add: uint32_def)

lemma u32_range_uint32 [simp]: "u32_range (uint32 x)"
  by (simp add: u32_range_def uint32_def)

lemma outside_refl: "outside m m"
  by (simp add: outside_def)

lemma outside_upd: "outside m n \<Longrightarrow> 0 \<le> i \<Longrightarrow> i < RCV_BUF_SIZE \<Longrightarrow> outside m (n(i := c))"
  by (auto simp: outside_def)

lemma outside_memset: "outside m n \<Longrightarrow> outside m (memset_0 RCV_BUF_SIZE n)"
  by (auto simp: outside_def memset_0_def)

section \<open>Updates\<close>

lemma typed_update [simp]:
  "ym_typed irq rcv (p\<lparr>uart_rx_sema := n\<rparr>) = ym_typed irq rcv p"
  "ym_typed irq rcv (p\<lparr>tick_current := x\<rparr>) = ym_typed irq rcv p"
  "ym_typed irq rcv (p\<lparr>tick_last_update := x\<rparr>) = ym_typed irq rcv p"
  "ym_typed irq rcv (p\<lparr>can_counter := x\<rparr>) = ym_typed irq rcv p"
  "ym_typed irq rcv (p\<lparr>eot_counter := x\<rparr>) = ym_typed irq rcv p"
  "ym_typed irq rcv (p\<lparr>phase := ph\<rparr>) = ym_typed irq rcv p"
  "ym_typed irq rcv (p\<lparr>first_time := f\<rparr>) = ym_typed irq rcv p"
  "ym_typed irq rcv (p\<lparr>sent := s\<rparr>) = ym_typed irq rcv p"
  "ym_typed irq rcv (p\<lparr>filename := m\<rparr>) = ym_typed irq rcv p"
  "ym_typed irq rcv (p\<lparr>ym_board := b\<rparr>) = ym_typed irq rcv p"
  "ym_typed irq rcv (p\<lparr>uart_signature := m\<rparr>) = ym_typed irq rcv p"
  "ym_typed irq rcv (p\<lparr>sig_flags := f\<rparr>) = ym_typed irq rcv p"
  "ym_typed irq rcv (p\<lparr>hd_flags := f\<rparr>) = ym_typed irq rcv p"
  "ym_typed irq rcv (p\<lparr>OtaTargetHdr := h\<rparr>) = ym_typed irq rcv p"
  "ym_typed irq rcv (p\<lparr>image_address := x\<rparr>) = ym_typed irq rcv p"
  "ym_typed irq rcv (p\<lparr>IMAGE_LEN := x\<rparr>) = ym_typed irq rcv p"
  "ym_typed irq rcv (p\<lparr>IMAGE_OFFSET := x\<rparr>) = ym_typed irq rcv p"
  by (simp_all add: ym_typed_def)

lemma typed_intro:
  assumes "ym_typed irq rcv p"
  shows "u32_range x \<Longrightarrow> ym_typed irq rcv (p\<lparr>file_offset := x\<rparr>)" "u32_range x \<Longrightarrow> ym_typed irq rcv (p\<lparr>flash_offset := x\<rparr>)"
    "u32_range x \<Longrightarrow> ym_typed irq rcv (p\<lparr>flash_write_len := x\<rparr>)" "u32_range x \<Longrightarrow> ym_typed irq rcv (p\<lparr>nxt_num := x\<rparr>)"
    "u32_range x \<Longrightarrow> ym_typed irq rcv (p\<lparr>filelen := x\<rparr>)" "0 \<le> x \<Longrightarrow> x \<le> 8 \<Longrightarrow> ym_typed irq rcv (p\<lparr>sig_cnt := x\<rparr>)"
    "x = 0 \<or> x = 1 \<Longrightarrow> ym_typed irq rcv (p\<lparr>rec_err := x\<rparr>)" "x = 128 \<or> x = 1024 \<Longrightarrow> ym_typed irq rcv (p\<lparr>ym_len := x\<rparr>)"
    "0 \<le> x \<Longrightarrow> x \<le> 1200 \<Longrightarrow> ym_typed irq rcv (p\<lparr>send_count := x\<rparr>)"
    "0 \<le> x \<Longrightarrow> x < RCV_BUF_SIZE \<Longrightarrow> ym_typed irq rcv (p\<lparr>uart_rcv_buf := (uart_rcv_buf p)(x := c)\<rparr>)"
  using assms by (auto simp: ym_typed_def intro: outside_upd)

lemma typed_ranges:
  assumes "ym_typed irq rcv p"
  shows "0 \<le> sig_cnt p" "sig_cnt p \<le> 8" "ym_len p \<le> 1024" "0 \<le> send_count p" "send_count p \<le> 1200"
  using assms by (auto simp: ym_typed_def)

section \<open>Operations\<close>

lemma uarty_irq_typed: "ym_typed irq rcv p \<Longrightarrow> ym_typed irq rcv (uarty_irq now ch p)"
  by (auto simp: ym_typed_def uarty_irq_def Let_def RCV_BUF_SIZE_def intro!: outside_upd)

lemma recv_typed: "ym_typed irq rcv p \<Longrightarrow> ym_typed irq rcv (snd (uart_recvbytetimeout p))"
  by (auto simp: ym_typed_def uart_recvbytetimeout_def Let_def RCV_BUF_SIZE_def)

lemma rxempty_typed: "ym_typed irq rcv p \<Longrightarrow> ym_typed irq rcv (uart_rxempty p)"
proof -
  have "0 < RCV_BUF_SIZE" by (simp add: RCV_BUF_SIZE_def)
  then show "ym_typed irq rcv p \<Longrightarrow> ym_typed irq rcv (uart_rxempty p)"
    by (auto simp: ym_typed_def uart_rxempty_def intro: outside_memset)
qed

lemma sendbyte_typed [simp]: "ym_typed irq rcv (uart_sendbyte c p) = ym_typed irq rcv p"
  by (simp add: uart_sendbyte_def)

lemma modem_cancle_typed [simp]: "ym_typed irq rcv (modem_cancle p) = ym_typed irq rcv p"
  by (simp add: modem_cancle_def)

lemma copy_byte_typed: "ym_typed irq rcv p \<Longrightarrow> i < 1024 \<Longrightarrow> ym_typed irq rcv (copy_byte i p)"
  using recv_typed [of irq rcv p] by (auto simp: copy_byte_def split_beta RCV_BUF_SIZE_def intro!: typed_intro(10))

lemma copy_typed: "ym_typed irq rcv p \<Longrightarrow> k \<le> 1024 \<Longrightarrow> ym_typed irq rcv (fold copy_byte [0..<k] p)"
  by (induction k) (simp_all add: copy_byte_typed)

lemma block_num_check_typed: "ym_typed irq rcv p \<Longrightarrow> ym_typed irq rcv (snd (block_num_check p))"
  by (simp add: block_num_check_def split_beta recv_typed)

lemma calc_typed: "calc_file_name_size i p = Some p' \<Longrightarrow> ym_typed irq rcv p \<Longrightarrow> ym_typed irq rcv p'"
  by (auto simp: calc_file_name_size_def buf_filelen_def split: option.splits if_splits intro!: typed_intro(5))

lemma crc_check_typed:
  assumes "ym_typed irq rcv p"
  shows "ym_typed irq rcv (snd (crc_check p))"
proof -
  obtain h p1 l p2 where p1: "uart_recvbytetimeout p = (h, p1)"
    and p2: "(if crc_mode p1 \<noteq> 0 then uart_recvbytetimeout p1 else (0, p1)) = (l, p2)" by fastforce
  have "ym_typed irq rcv p1" using recv_typed [OF assms] p1 by simp
  then have "ym_typed irq rcv p2" using recv_typed [of irq rcv p1] p2 by (auto split: if_splits)
  moreover have "snd (crc_check p) = p2 \<or> snd (crc_check p) = p2\<lparr>rec_err := 1\<rparr>"
    unfolding crc_check_def p1 Let_def prod.case p2 by simp
  ultimately show ?thesis by (auto intro: typed_intro(7))
qed

lemma start_next_typed: "ym_typed irq rcv p \<Longrightarrow> ym_typed irq rcv (snd (start_next_round p))"
  by (simp add: start_next_round_def split_beta rxempty_typed)

lemma write_block_typed: "ym_typed irq rcv p \<Longrightarrow> ym_typed irq rcv (snd (write_block r i n p))"
  by (auto simp: write_block_def split_beta intro!: typed_intro)

lemma place_block_typed: "ym_typed irq rcv p \<Longrightarrow> ym_typed irq rcv (snd (place_block r p))"
  unfolding place_block_def Let_def
  by (frule typed_ranges(1), frule typed_ranges(2))
    (auto intro!: write_block_typed typed_intro)

lemma open_target_typed: "ym_typed irq rcv p \<Longrightarrow> ym_typed irq rcv (snd (open_target r l a p))"
  by (simp add: open_target_def Let_def split: option.split prod.split)

lemma data_write_typed: "ym_typed irq rcv p \<Longrightarrow> ym_typed irq rcv (snd (data_write_to_flash r l a p))"
  using open_target_typed [of irq rcv p r l a]
  by (auto simp: data_write_to_flash_def place_block_typed split: prod.split bool.split)

lemma thread_exit_typed: "ym_typed irq rcv p \<Longrightarrow> ym_typed irq rcv (thread_exit r l e p)"
  by (simp add: thread_exit_def set_signature_def Let_def split: prod.split bool.split)

lemma receive_block_typed:
  assumes p: "ym_typed irq rcv p" and rb: "receive_block r l a p = Some p'"
  shows "ym_typed irq rcv p'"
proof -
  obtain c1 p1 where p1: "block_num_check p = (c1, p1)" by fastforce
  have i1: "ym_typed irq rcv p1" using block_num_check_typed [OF p] p1 by simp
  show ?thesis
  proof (cases "c1 = 0")
    case False
    then show ?thesis using rb i1 by (auto simp: receive_block_def p1 intro: thread_exit_typed)
  next
    case True
    then obtain p2 where p2: "(if nxt_num p1 = 0 \<and> first_time p1 then calc_file_name_size 3 p1 else Some p1) = Some p2"
      using rb by (auto simp: receive_block_def p1 split: option.splits)
    have i2: "ym_typed irq rcv p2" using p2 i1 by (auto split: if_splits intro: calc_typed)
    define p3 where "p3 = fold copy_byte [0..<nat (ym_len p2)] p2"
    have i3: "ym_typed irq rcv p3" using copy_typed [OF i2] typed_ranges(3) [OF i2] by (simp add: p3_def)
    obtain c4 p4 where p4: "(if nxt_num p3 \<noteq> 0 \<or> \<not> first_time p3
        then case data_write_to_flash r l a p3 of (ret, p) \<Rightarrow> if ret \<noteq> 0 then (ret, p) else (0, p\<lparr>first_time := False\<rparr>)
        else (0, p3)) = (c4, p4)" by fastforce
    have i4: "ym_typed irq rcv p4"
      using p4 i3 data_write_typed [OF i3, of r l a] by (auto split: if_splits prod.splits)
    obtain c5 p5 where p5: "crc_check p4 = (c5, p5)" by fastforce
    have i5: "ym_typed irq rcv p5" using crc_check_typed [OF i4] p5 by simp
    define p6 where "p6 = p5\<lparr>nxt_num := uint32 (nxt_num p5 + 1), rec_err := 0\<rparr>"
    have i6: "ym_typed irq rcv p6" using i5 by (simp add: p6_def typed_intro)
    obtain c7 p7 where p7: "start_next_round p6 = (c7, p7)" by fastforce
    have i7: "ym_typed irq rcv p7" using start_next_typed [OF i6] p7 by simp
    have "p' = thread_exit r l 3 p4 \<or> p' = thread_exit r l 4 p5 \<or> p' = thread_exit r l 0 p5 \<or> p' = thread_exit r l 5 p7 \<or> p' = p7"
      using rb p4 unfolding receive_block_def p1 prod.case p2 option.case Let_def p3_def [symmetric] p4
      by (simp add: True p5 p7 flip: p6_def split: if_splits)
    then show ?thesis using i4 i5 i7 thread_exit_typed by auto
  qed
qed

lemma receive_packet_typed:
  assumes p: "ym_typed irq rcv p" and rp: "receive_packet r l a now p = Some p'"
  shows "ym_typed irq rcv p'"
proof -
  obtain ch p1 where p1: "uart_recvbytetimeout (p\<lparr>uart_rx_sema := uart_rx_sema p - 1, tick_current := now\<rparr>) = (ch, p1)" by fastforce
  have "ym_typed irq rcv p1"
    using recv_typed [of irq rcv "p\<lparr>uart_rx_sema := uart_rx_sema p - 1, tick_current := now\<rparr>"] p p1 by simp
  then show ?thesis
    using rp unfolding receive_packet_def p1 prod.case Let_def
    by (auto split: if_splits intro!: thread_exit_typed elim!: receive_block_typed [rotated] intro: typed_intro(8))
qed

lemma ymodem_step_typed:
  assumes p: "ym_typed irq rcv p" and st: "ymodem_step r l a ev p = Some p'"
  shows "ym_typed irq rcv p'"
proof (cases ev)
  case Invite
  then show ?thesis
    using st p typed_ranges(4) [OF p]
    by (auto simp: invite_def Let_def uart_sendbyte_def split: if_splits intro!: thread_exit_typed typed_intro(9))
next
  case (Rx now ch)
  then show ?thesis using st uarty_irq_typed [OF p] by (auto split: if_splits)
next
  case (Packet now)
  then show ?thesis using st receive_packet_typed [OF p] by (auto split: if_splits)
qed

lemma ymodem_run_typed:
  "ymodem_run r l a evs p = Some p' \<Longrightarrow> ym_typed irq rcv p \<Longrightarrow> ym_typed irq rcv p'"
  by (induction evs arbitrary: p) (auto split: option.splits simp del: ymodem_step.simps dest: ymodem_step_typed)

lemma uart_ymodem_typed:
  assumes "uart_ymodem True True raw = (0, p)"
  shows "ym_typed (uart_irq_buf raw) (uart_rcv_buf raw) p"
  using assms by (auto simp: uart_ymodem_def uart_init_def uart_ymodem_init_def Let_def ym_typed_def outside_refl RCV_BUF_SIZE_def u32_range_def)

end
