(* ===== verification/Ymodem_Props.thy ===== *)
theory Ymodem_Props
  imports Ymodem_End Ymodem_Ranges Ota_Props
begin

text \<open>
  The properties of the YMODEM receiver, stated over the functions of
  \<^verbatim>\<open>component/common/utilities/uart_ymodem.c\<close>.
\<close>

section \<open>A demonstration file\<close>

text \<open>
  One image of 1032 bytes, which carries the custom signature, for the second slot behind a header of 32 bytes, sent in a block of 1024 and one
  of 128 bytes to a receiver on a blank flash whose system data zone names the slot.
\<close>

definition demo_img_hdr :: update_file_img_hdr where
  "demo_img_hdr = \<lparr>ImgId = [79, 84, 65, 50], ImgHdrLen = 24, Checksum = 3762, ImgLen = 1032, Offset = 32, FlashOffset = 0x08080000\<rparr>"

definition demo_target :: update_ota_target_hdr where
  "demo_target = zero_target_hdr\<lparr>FileImgHdr := demo_img_hdr\<rparr>"

definition demo_header :: bytes where
  "demo_header = [1, 0, 0, 0, 1, 0, 0, 0, 79, 84, 65, 50, 24, 0, 0, 0, 178, 14, 0, 0, 8, 4, 0, 0, 32, 0, 0, 0, 0, 0, 8, 8]"

definition demo_first :: bytes where "demo_first = demo_header @ replicate 32 1 @ cus_sig_demo @ replicate 928 1"
definition demo_second :: bytes where "demo_second = replicate 128 1"

definition demo_file_image :: bytes where "demo_file_image = replicate 32 1 @ cus_sig_demo @ replicate 968 1"

definition demo_name :: bytes where "demo_name = name_block [111, 116, 97] 0 1064 (replicate 120 0)"

definition demo_receiver :: "nor_chip ymodem" where
  "demo_receiver = \<lparr>uart_rcv_buf = (\<lambda>_. 0), uart_irq_buf = (\<lambda>_. 0), uart_rx_sema = 0, image_address = 0, tick_last_update = 0,
     tick_current = 0, uart_recv_index = 0, uart_recv_buf_index = 0, modemtype = 0, crc_mode = 0, nxt_num = 0, cur_num = 0,
     ym_len = 0, rec_err = 0, filelen = 0, filename = (\<lambda>_. 0), uart_signature = (\<lambda>_. 0), OtaTargetHdr = zero_target_hdr,
     flash_write_len = 0, flash_offset = 0, file_offset = 0, IMAGE_OFFSET = 0, IMAGE_LEN = 0, hd_flags = False,
     sig_flags = False, sig_cnt = 0, first_time = True, send_count = 0, can_counter = 0, eot_counter = 0,
     phase = Not_started, sent = [], ym_board = slot_board\<rparr>"

definition demo_start :: "nor_chip ymodem" where
  "demo_start = snd (uart_ymodem True True demo_receiver)"

lemma demo_started: "uart_ymodem True True demo_receiver = (0, demo_start)"
  by (simp add: demo_start_def uart_ymodem_def Let_def)

lemma demo_name_block: "length demo_name = 128"
proof -
  have "decimal 1064 = [49, 48, 54, 52]" by (simp add: decimal.simps)
  then show ?thesis by (simp add: demo_name_def name_block_def)
qed

lemma demo_load:
  assumes "load m 0 1024 = demo_first" and "i < 32"
  shows "m (int i) = demo_header ! i"
proof -
  have "length demo_header = 32" by (simp add: demo_header_def)
  then have "demo_first ! i = demo_header ! i" using assms(2) by (simp add: demo_first_def nth_append)
  moreover have "load m 0 1024 ! i = m (int i)" using assms(2) by simp
  ultimately show ?thesis using assms(1) by simp
qed

lemma demo_words:
  assumes "load m 0 1024 = demo_first"
  shows "load32 m 4 = 1" "img_hdr_at m 8 = demo_img_hdr" "load m 8 4 = [79, 84, 65, 50]"
proof -
  have b: "m 4 = 1" "m 5 = 0" "m 6 = 0" "m 7 = 0" "m 8 = 79" "m 9 = 84" "m 10 = 65" "m 11 = 50" "m 12 = 24" "m 13 = 0" "m 14 = 0"
    "m 15 = 0" "m 16 = 178" "m 17 = 14" "m 18 = 0" "m 19 = 0" "m 20 = 8" "m 21 = 4" "m 22 = 0" "m 23 = 0" "m 24 = 32" "m 25 = 0"
    "m 26 = 0" "m 27 = 0" "m 28 = 0" "m 29 = 0" "m 30 = 8" "m 31 = 8"
    using demo_load [OF assms, of 4] demo_load [OF assms, of 5] demo_load [OF assms, of 6] demo_load [OF assms, of 7]
      demo_load [OF assms, of 8] demo_load [OF assms, of 9] demo_load [OF assms, of 10] demo_load [OF assms, of 11]
      demo_load [OF assms, of 12] demo_load [OF assms, of 13] demo_load [OF assms, of 14] demo_load [OF assms, of 15]
      demo_load [OF assms, of 16] demo_load [OF assms, of 17] demo_load [OF assms, of 18] demo_load [OF assms, of 19]
      demo_load [OF assms, of 20] demo_load [OF assms, of 21] demo_load [OF assms, of 22] demo_load [OF assms, of 23]
      demo_load [OF assms, of 24] demo_load [OF assms, of 25] demo_load [OF assms, of 26] demo_load [OF assms, of 27]
      demo_load [OF assms, of 28] demo_load [OF assms, of 29] demo_load [OF assms, of 30] demo_load [OF assms, of 31]
    by (simp_all add: demo_header_def)
  have four: "load m i 4 = [m i, m (i + 1), m (i + 2), m (i + 3)]" for i
    by (simp add: load_def upt_rec)
  show "load32 m 4 = 1" "img_hdr_at m 8 = demo_img_hdr" "load m 8 4 = [79, 84, 65, 50]"
    by (simp_all add: img_hdr_at_def demo_img_hdr_def load32_def four b bytes_word_def)
qed

lemma demo_header_block: "header_block nor_rom nor_lib 0x0800B020 slot_board demo_first demo_target 0x08080000"
proof -
  have idx: "ymodem_target_index 0x0800B020 = OTA_INDEX_2"
    by (simp add: ymodem_target_index_def ota_get_cur_index_def ota_consts)
  have len: "length demo_first = 1024" by (simp add: demo_first_def demo_header_def cus_sig_demo_def)
  have "get_ota_tartget_header m 1024 zero_target_hdr (OtaImgId OTA_INDEX_2) = Some demo_target" if "load m 0 1024 = demo_first" for m
    using demo_words [OF that]
    by (simp add: get_ota_tartget_header_def find_headers.simps Let_def sizeof_img_hdr_def uint32_def demo_img_hdr_def
        demo_target_def zero_target_hdr_def eval_nat_numeral)
  moreover have "get_ota_address nor_rom nor_lib OTA_INDEX_2 demo_target slot_board = (Some 0x08080000, slot_board)"
    using slot_board_words by (simp add: get_ota_address_def Let_def demo_target_def demo_img_hdr_def ota_consts uint32_def)
  ultimately show ?thesis by (simp add: header_block_def idx len)
qed

lemma demo_first_time: "first_time demo_receiver" "ym_board demo_receiver = slot_board"
  by (simp_all add: demo_receiver_def)

lemma demo_file_image_facts:
  "length demo_file_image = 1032" "sum_bytes demo_file_image = 3762" "uint32 (sum_bytes demo_file_image) = 3762"
  "custom_signed array (\<lambda>c x. window c x = array c x) nor_lib 0x08080000 1024 demo_file_image"
proof -
  have l: "length cus_sig_demo = 32" "sum_bytes cus_sig_demo = 2762" by (simp_all add: cus_sig_demo_def sum_bytes_def)
  then show len: "length demo_file_image = 1032" by (simp add: demo_file_image_def)
  have "sum_bytes (replicate n 1) = int n" for n by (simp add: sum_bytes_def sum_list_replicate)
  then show sum: "sum_bytes demo_file_image = 3762" using l by (simp add: demo_file_image_def sum_bytes_append)
  then show "uint32 (sum_bytes demo_file_image) = 3762" by (simp add: uint32_def)
  have t: "take 32 (drop 32 demo_file_image) = cus_sig_demo" using l by (simp add: demo_file_image_def)
  show "custom_signed array (\<lambda>c x. window c x = array c x) nor_lib 0x08080000 1024 demo_file_image"
    by (rule nor_custom_signed) (use len in simp, use len in simp, subst t, rule str_eq_cus_sig)
qed

lemma demo_image: "take 1032 (drop 32 (concat [demo_first, demo_second])) = demo_file_image"
proof -
  have "demo_first @ demo_second = demo_header @ demo_file_image @ replicate 88 1"
    by (simp add: demo_first_def demo_second_def demo_file_image_def flip: replicate_add)
  moreover have "length demo_header = 32" by (simp add: demo_header_def)
  ultimately show ?thesis by (simp add: demo_file_image_facts(1))
qed

lemma demo_blocks: "length demo_first = 1024" "length demo_second = 128"
  by (simp_all add: demo_first_def demo_header_def demo_second_def cus_sig_demo_def)

lemma demo_target_fields: "\<not> RdpStatus demo_target" "ImgLen (FileImgHdr demo_target) = int 1032" "Offset (FileImgHdr demo_target) = int 32"
  "Checksum (FileImgHdr demo_target) = 3762"
  by (simp_all add: demo_target_def zero_target_hdr_def demo_img_hdr_def)

lemma demo_name_form: "(0 :: u8) \<notin> set [111, 116, 97]" "replicate 120 (0 :: u8) \<noteq> []" "\<not> digit (hd (replicate 120 0))" "(1064 :: nat) < 2 ^ 31"
  by (simp_all add: digit_def)

section \<open>Installing an image\<close>

text \<open>
  C4: a transfer of a good file to a freshly started receiver installs it. A sender that answers the first invitation with the name packet (a name of at most 32
  characters, and the length in decimal, less than \<open>2 ^ 31\<close> and followed by a byte that is no digit), and then
  sends the blocks of the file, whatever mixture of 128 and 1024 bytes, and the end of
  the transmission, brings the receiver to its successful end: the slot holds exactly the image, the boot
  index is changed to it, and the announced file length is the one the sender printed. The bytes arrive at any
  times, each at its own tick, and the receiver looks at each packet at any time at least fifty ticks after its bytes, as
  its waiting for a silent line demands (differences of the 32-bit tick counter taken with sign). The conditions on the file: it has fewer than \<open>2 ^ 20\<close> blocks; its
  first block holds the file header, which announces a single image, no RDP image; the image is complete, at least
  1032 bytes long, has the checksum of the header and carries the custom signature of the firmware, as the board shows
  it when its cache agrees with its flash; and the bytes of block 255, if there is one, do not add up to zero.
\<close>

theorem ymodem_transfer_installs:
  assumes "ota_flash r cell clean l" and "uart_ymodem True True raw = (0, p)" and "first_time raw"
    and "Z = name_block nm b len rest" and "length Z = 128" and "0 \<notin> set nm" and "rest \<noteq> []" and "\<not> digit (hd rest)" and "len < 2 ^ 31"
    and "\<forall>B \<in> set Bs. length B = 128 \<or> length B = 1024" and "length Bs < 2 ^ 20" and "Bs \<noteq> []"
    and "header_block r l cus_addr (ym_board raw) (hd Bs) hdr addr"
    and "254 < length Bs \<longrightarrow> sum_bytes (Bs ! 254) mod 2 ^ 32 \<noteq> 0"
    and "\<not> RdpStatus hdr" and "ImgLen (FileImgHdr hdr) = int N" and "1032 \<le> N" and "Offset (FileImgHdr hdr) = int off"
    and "off + N < 2 ^ 31" and "SPI_FLASH_BASE \<le> addr" and "addr + int N + 4200 < 2 ^ 32"
    and "img = take N (drop off (concat Bs))" and "length img = N" and "uint32 (sum_bytes img) = Checksum (FileImgHdr hdr)"
    and "a = addr - SPI_FLASH_BASE" and "custom_signed cell clean l addr (N - 8) img"
    and "line_silent rx ts" and "length nm \<le> 32"
  shows "\<exists>p' b1. ymodem_run r l cus_addr (session_events rx ts Z Bs) p = Some p' \<and> phase p' = Ended 0 (Some 0) \<and>
    filelen p' = int len \<and> opened hdr addr p' \<and>
    ym_board p' = OTA_Change l (if addr = OTA1_ADDR then OTA_INDEX_1 else OTA_INDEX_2) b1 \<and>
    cells (cell (chip b1)) a N = img"
  by (rule ota_flash.transfer_installs [OF assms(1-14,27,15-26)])

text \<open>The demonstration transfer, through the lemma behind the property.\<close>

lemma demo_silent: "line_silent (\<lambda>_ _. 0) (\<lambda>_. 50)"
  by (simp add: line_silent_def sint32_def)

lemma demo_transfer:
  "\<exists>p' b1. ymodem_run nor_rom nor_lib 0x0800B020 (session_events (\<lambda>_ _. 0) (\<lambda>_. 50) demo_name [demo_first, demo_second]) demo_start = Some p' \<and>
     phase p' = Ended 0 (Some 0) \<and> filelen p' = int 1064 \<and> opened demo_target 0x08080000 p' \<and>
     ym_board p' = OTA_Change nor_lib (if (0x08080000 :: int) = OTA1_ADDR then OTA_INDEX_1 else OTA_INDEX_2) b1 \<and>
     cells (array (chip b1)) 0x80000 1032 = demo_file_image"
  by (rule ota_flash.transfer_installs [OF nor_ota.ota_flash_axioms demo_started demo_first_time(1) demo_name_def demo_name_block demo_name_form _ _ _ _ _ demo_silent
        demo_target_fields(1,2) _ demo_target_fields(3)])
    (use demo_blocks demo_header_block demo_target_fields(4) demo_image demo_file_image_facts in
      \<open>simp_all add: demo_first_time SPI_FLASH_BASE_def\<close>)

theorem ymodem_transfer_installs_witness:
  "\<exists>p'. ymodem_run nor_rom nor_lib 0x0800B020 (session_events (\<lambda>_ _. 0) (\<lambda>_. 50) demo_name [demo_first, demo_second]) demo_start = Some p' \<and>
     phase p' = Ended 0 (Some 0) \<and> filelen p' = 1064"
  using ymodem_transfer_installs [OF nor_ota.ota_flash_axioms demo_started demo_first_time(1) demo_name_def demo_name_block
      demo_name_form, of "[demo_first, demo_second]" "0x0800B020" demo_target "0x08080000" 1032 32 demo_file_image "0x80000" "\<lambda>_ _. 0" "\<lambda>_. 50"]
    demo_blocks demo_header_block demo_target_fields demo_image demo_file_image_facts demo_silent
  by (fastforce simp: demo_first_time SPI_FLASH_BASE_def)

text \<open>
  C5: only a verified image is activated. Whatever bytes arrive on the line, in whatever order and with
  whatever pauses (in fewer than \<open>2 ^ 20\<close> events), if the receiver ends successfully on a single image of at least 1032 bytes, then at
  the moment the boot index is changed the slot holds an image with the checksum of the header that was
  received.
\<close>

theorem ymodem_only_verified_image_activated:
  assumes "ota_flash r cell clean l" and "uart_ymodem True True raw = (0, p)" and "ymodem_run r l cus_addr evs p = Some p'"
    and "length evs < 2 ^ 20" and "phase p' = Ended 0 (Some 0)" and "hd_flags p'" and "ym_target p'"
    and "a = image_address p' - SPI_FLASH_BASE" and "N = nat (IMAGE_LEN p')"
  shows "\<exists>b. ym_board p' = OTA_Change l (if image_address p' = OTA1_ADDR then OTA_INDEX_1 else OTA_INDEX_2) b \<and>
    uint32 (sum_bytes (cells (cell (chip b)) a N)) = Checksum (FileImgHdr (OtaTargetHdr p'))"
proof -
  have "\<not> under_way p'" using assms(5) by (simp add: under_way_def)
  from ota_flash.run_ended [OF assms(1-4) this assms(6-9)] show ?thesis using assms(5) by metis
qed

lemma length_session:
  assumes "\<forall>B \<in> set Bs. length B \<le> 1024"
  shows "length (session_events rx ts Z Bs) \<le> length Z + 10 + 1030 * length Bs"
  using length_block_events [OF assms, of rx ts 1] by (simp add: session_events_def)

lemma opened_target:
  assumes "opened hdr addr p" and "\<not> RdpStatus hdr" and "ImgLen (FileImgHdr hdr) = int N" and "Offset (FileImgHdr hdr) = int off"
    and "1032 \<le> N" and "off + N < 2 ^ 31" and "SPI_FLASH_BASE \<le> addr" and "addr mod 4096 = 0" and "addr + int N + 4200 < 2 ^ 32"
  shows "hd_flags p" "ym_target p" "IMAGE_LEN p = int N" "image_address p = addr" "OtaTargetHdr p = hdr"
  using assms by (auto simp: opened_def ym_target_def)

theorem ymodem_only_verified_image_activated_witness:
  "\<exists>p' b. ymodem_run nor_rom nor_lib 0x0800B020 (session_events (\<lambda>_ _. 0) (\<lambda>_. 50) demo_name [demo_first, demo_second]) demo_start = Some p' \<and>
     ym_board p' = OTA_Change nor_lib OTA_INDEX_2 b \<and> uint32 (sum_bytes (cells (array (chip b)) 0x80000 1032)) = 3762"
proof -
  obtain p' where p': "ymodem_run nor_rom nor_lib 0x0800B020 (session_events (\<lambda>_ _. 0) (\<lambda>_. 50) demo_name [demo_first, demo_second]) demo_start = Some p'"
    "phase p' = Ended 0 (Some 0)" "opened demo_target 0x08080000 p'"
    using demo_transfer by blast
  have len: "length (session_events (\<lambda>_ _. 0) (\<lambda>_. 50) demo_name [demo_first, demo_second]) < 2 ^ 20"
    using length_session [of "[demo_first, demo_second]" "\<lambda>_ _. 0" "\<lambda>_. 50" demo_name] by (simp add: demo_blocks demo_name_block)
  have t: "hd_flags p'" "ym_target p'" "IMAGE_LEN p' = int 1032" "image_address p' = 0x08080000" "OtaTargetHdr p' = demo_target"
    using opened_target [OF p'(3) demo_target_fields(1-3)] by (simp_all add: SPI_FLASH_BASE_def)
  show ?thesis
    using ymodem_only_verified_image_activated [OF nor_ota.ota_flash_axioms demo_started p'(1) len p'(2) t(1,2) refl refl]
    by (auto simp: t p'(1) demo_target_fields OTA1_ADDR_def SPI_FLASH_BASE_def)
qed





section \<open>The check of a packet\<close>

text \<open>
  C12: the loop of \<open>crc_check\<close>, a 32-bit accumulator whose upper half is never cleared, computes the
  remainder of the long division of the block, followed by sixteen zero bits, by the generator
  polynomial of CRC-16/XMODEM.
\<close>

theorem ymodem_crc_is_remainder:
  "word_bits (ucast (crc_loop data)) = remainder (message_bits data @ replicate 16 False)"
  by (rule crc_loop_remainder)

lemma crc_check_compares:
  assumes "crc_mode p \<noteq> 0" and "uart_recv_buf_index p = int j" and "j + 1 < 1028"
    and "load (uart_rcv_buf p) 0 (nat (ym_len p)) = data" and "uint32 (sum_bytes data) \<noteq> 0"
    and "uart_irq_buf p (int j) = h" and "uart_irq_buf p (int j + 1) = l"
  shows "fst (crc_check p) = (if crc_loop data = push_bit 8 (ucast h) OR ucast l then 0 else 1)"
proof -
  define q where "q = p\<lparr>uart_recv_buf_index := int (j + 1)\<rparr>"
  have r: "uart_recvbytetimeout p = (h, q)" using recv_at [OF assms(2)] assms(3,6) by (simp add: q_def)
  have "uart_recvbytetimeout q = (l, q\<lparr>uart_recv_buf_index := int (j + 2)\<rparr>)"
    using recv_at [of q "j + 1"] assms(3,7) by (simp add: q_def add.commute)
  then have i: "(if crc_mode q \<noteq> 0 then uart_recvbytetimeout q else (0, q)) = (l, q\<lparr>uart_recv_buf_index := int (j + 2)\<rparr>)"
    using assms(1) by (simp add: q_def)
  show ?thesis
    using assms(1,4,5) unfolding crc_check_def r prod.case i Let_def by (simp add: q_def)
qed

text \<open>
  C22: the check refuses every packet that was damaged within sixteen consecutive bits. If the bytes of
  the block and its check, as they were received, differ from those of a well-formed packet by a burst of
  errors within sixteen consecutive bits, then \<open>crc_check\<close> answers with an error, unless the received
  block adds up to zero, for which it skips the comparison.
\<close>

theorem ymodem_burst_refused:
  assumes "crc_mode p \<noteq> 0" and "uart_recv_buf_index p = int j" and "j + 1 < 1028"
    and "load (uart_rcv_buf p) 0 (nat (ym_len p)) = data" and "uint32 (sum_bytes data) \<noteq> 0"
    and "uart_irq_buf p (int j) = h" and "uart_irq_buf p (int j + 1) = l"
    and "length w = 16" and "True \<in> set w" and "8 * length B = i + k"
    and "message_bits (data @ [h, l]) = xor_onto (replicate i False @ w @ replicate k False) (message_bits (B @ crc_bytes B))"
  shows "fst (crc_check p) = 1"
proof -
  have two: "[crc_bytes B ! 0, crc_bytes B ! 1] = crc_bytes B" by (simp add: crc_bytes_def)
  have "remainder (message_bits (B @ crc_bytes B)) = replicate 16 False"
    using crc_accepts [of B "crc_bytes B ! 0" "crc_bytes B ! 1"] crc_bytes_accepted [of B] unfolding two by blast
  moreover have "length (message_bits (B @ crc_bytes B)) = i + 16 + k" using assms(10) by (simp add: crc_bytes_def)
  ultimately have "remainder (message_bits (data @ [h, l])) \<noteq> replicate 16 False"
    using burst_detected assms(8,9,11) by blast
  then show ?thesis using crc_check_compares [OF assms(1-7)] by (simp add: crc_accepts)
qed

definition demo_damaged :: "nor_chip ymodem" where
  "demo_damaged = demo_receiver\<lparr>crc_mode := 1, ym_len := 2, uart_recv_buf_index := 3,
     uart_rcv_buf := store 0 [1, 3] (\<lambda>_. 0), uart_irq_buf := store 3 (crc_bytes [1, 2]) (\<lambda>_. 0)\<rparr>"

lemma byte_bits_code: "byte_bits b = [bit b 7, bit b 6, bit b 5, bit b 4, bit b 3, bit b 2, bit b 1, bit b 0]"
  by (simp add: byte_bits_def upt_rec eval_nat_numeral)

lemma demo_damage: "message_bits ([1, 3] @ [h, l]) =
    xor_onto (replicate 0 False @ (replicate 15 False @ [True]) @ replicate 16 False) (message_bits ([1, 2] @ [h, l]))"
  by (simp add: message_bits_def byte_bits_code eval_nat_numeral bit_simps)

theorem ymodem_burst_refused_witness: "fst (crc_check demo_damaged) = 1"
proof (rule ymodem_burst_refused [where B = "[1, 2]" and w = "replicate 15 False @ [True]" and i = 0 and k = 16])
  show "load (uart_rcv_buf demo_damaged) 0 (nat (ym_len demo_damaged)) = [1, 3]"
    by (simp add: demo_damaged_def load_def upt_rec store_def)
  show "uart_irq_buf demo_damaged (int 3) = crc_bytes [1, 2] ! 0" "uart_irq_buf demo_damaged (int 3 + 1) = crc_bytes [1, 2] ! 1"
    by (simp_all add: demo_damaged_def store_def crc_bytes_def)
  show "message_bits ([1, 3] @ [crc_bytes [1, 2] ! 0, crc_bytes [1, 2] ! 1]) =
      xor_onto (replicate 0 False @ (replicate 15 False @ [True]) @ replicate 16 False) (message_bits ([1, 2] @ crc_bytes [1, 2]))"
    using demo_damage [of "crc_bytes [1, 2] ! 0" "crc_bytes [1, 2] ! 1"] by (simp only: crc_bytes_def nth_Cons_0 nth_Cons_Suc One_nat_def)
qed (simp_all add: demo_damaged_def sum_bytes_def uint32_def)

section \<open>The name packet\<close>

text \<open>
  C31: the receiver reads what the sender wrote. From a name packet made of a name of at most 32 bytes, its terminator, any
  number of blanks and the length printed in decimal, less than \<open>2 ^ 31\<close> and followed by a byte that is no digit,
  \<open>calc_file_name_size\<close> takes the name and the length and changes nothing else. The array for the name has 33 bytes; a longer
  name is copied past its end (\<open>ymodem_long_name_overruns\<close>).
\<close>

theorem ymodem_name_packet_read:
  assumes "at (uart_irq_buf p) i (nm @ [0] @ replicate b 32 @ decimal n @ [e])" and "0 \<notin> set nm" and "\<not> digit e" and "n < 2 ^ 31"
    and "length nm \<le> 32"
  shows "calc_file_name_size i p = Some (p\<lparr>filename := store 0 (nm @ [0]) (filename p), filelen := int n\<rparr>)"
  by (rule name_packet_read [OF assms(1-4)])

theorem ymodem_name_packet_read_witness:
  "map_option filelen (calc_file_name_size 3 (demo_receiver\<lparr>uart_irq_buf := store 3 [97, 0, 32, 52, 50, 0] (\<lambda>_. 0)\<rparr>)) = Some 42"
proof -
  have d: "decimal 42 = [52, 50]" by (simp add: decimal.simps)
  let ?p = "demo_receiver\<lparr>uart_irq_buf := store 3 [97, 0, 32, 52, 50, 0] (\<lambda>_. 0)\<rparr>"
  have "at (uart_irq_buf ?p) 3 ([97] @ [0] @ replicate 1 32 @ decimal 42 @ [0])" by (simp add: d store_def)
  then show ?thesis using ymodem_name_packet_read [of ?p 3 "[97]" 1 42 0] by (simp add: digit_def)
qed

text \<open>A name of more than 32 bytes is written past the 33 bytes of its array, here into its index 33.\<close>

theorem ymodem_long_name_overruns:
  assumes "at (uart_irq_buf p) i (nm @ [0] @ replicate b 32 @ decimal n @ [e])" and "0 \<notin> set nm" and "\<not> digit e" and "n < 2 ^ 31"
    and "33 < length nm"
  shows "\<exists>p'. calc_file_name_size i p = Some p' \<and> filename p' 33 = nm ! 33"
  using name_packet_read [OF assms(1-4)] assms(5) by (simp add: store_def nth_append)

section \<open>Ranges\<close>

text \<open>
  C21: the receiver is well typed. Whatever bytes arrive, in whatever order and number, as long as it runs
  its counters and offsets stay in the ranges of their C types, the two buffer indices point into the
  buffers, the block length is 128 or 1024 once it was set, and neither of the two buffers of 1029 bytes is
  written outside its bounds.
\<close>

theorem ymodem_state_typed:
  assumes "uart_ymodem True True raw = (0, p)" and "ymodem_run r l cus_addr evs p = Some p'"
  shows "ym_typed (uart_irq_buf raw) (uart_rcv_buf raw) p'"
  by (rule ymodem_run_typed [OF assms(2) uart_ymodem_typed [OF assms(1)]])

theorem ymodem_state_typed_witness:
  "\<exists>p'. ymodem_run nor_rom nor_lib 0x0800B020 (session_events (\<lambda>_ _. 0) (\<lambda>_. 50) demo_name [demo_first, demo_second]) demo_start = Some p' \<and>
     ym_typed (\<lambda>_. 0) (\<lambda>_. 0) p'"
proof -
  obtain p' where p': "ymodem_run nor_rom nor_lib 0x0800B020 (session_events (\<lambda>_ _. 0) (\<lambda>_. 50) demo_name [demo_first, demo_second]) demo_start = Some p'"
    using demo_transfer by blast
  then show ?thesis using ymodem_state_typed [OF demo_started p'] by (simp add: demo_receiver_def)
qed

end
