(* ===== verification/Xmodem.thy ===== *)
theory Xmodem
  imports Ota
begin

text \<open>
  The firmware update over a serial line with the XMODEM protocol, \<^verbatim>\<open>common/application/xmodem/uart_fw_update.c\<close>, the part for this
  chip. The protocol itself is a library whose code is not in the sources: it hands the frames it receives, numbered, to
  the handler \<open>xModem_Frame_Img2\<close>, in a buffer that keeps what earlier frames left. The static variables of the file are
  the record \<open>xmodem\<close>; the routines of the OTA update that the file calls are those of \<open>Ota\<close>.
\<close>

section \<open>State\<close>

record 'c xmodem =
  xMFrameBuf :: ram
  xm_OtaTargetHdr :: update_ota_target_hdr
  fw_img2_addr :: int
  flash_wr_err_cnt :: int
  xm_SigCnt :: int
  xm_signature :: ram
  xm_DownloadInfo :: "update_dw_info list"
  ImageCnt :: int
  xm_OtaFg :: bool
  RemainBytes :: int
  xm_i :: int
  xm_TempLen :: int
  OtaImgSize :: int
  xm_size :: int
  xm_board :: "'c board"

text \<open>What \<open>OTU_FW_Update\<close> clears at its start.\<close>

definition xmodem_reset :: "'c xmodem \<Rightarrow> 'c xmodem" where
  "xmodem_reset st = st\<lparr>xm_OtaTargetHdr := zero_target_hdr, fw_img2_addr := 0, flash_wr_err_cnt := 0, xm_SigCnt := 0,
     xm_signature := store 0 (replicate 9 0) (xm_signature st), xm_DownloadInfo := [], ImageCnt := 0, xm_OtaFg := False,
     RemainBytes := 0, xm_i := 0, xm_TempLen := 0, OtaImgSize := 0, xm_size := 0\<rparr>"

definition GetDownloadInfo :: "int \<Rightarrow> update_ota_target_hdr \<Rightarrow> int \<times> update_dw_info list" where
  "GetDownloadInfo addr hdr =
     (let img = \<lparr>dw_ImgId = OTA_IMAG, FlashAddr = uint32 (addr - SPI_FLASH_BASE + 8),
            ImgOffset = Offset (FileImgHdr hdr), ImageLen = uint32 (ImgLen (FileImgHdr hdr) - 8)\<rparr>;
          rdp = \<lparr>dw_ImgId = RDP_IMAG, FlashAddr = RDP_FLASH_ADDR - SPI_FLASH_BASE,
            ImgOffset = Offset (FileRdpHdr hdr), ImageLen = ImgLen (FileRdpHdr hdr)\<rparr>
      in if RdpStatus hdr
         then (2, if Offset (FileImgHdr hdr) < Offset (FileRdpHdr hdr) then [img, rdp] else [rdp, img])
         else (1, [img]))"

section \<open>A frame\<close>

definition uart_ota_target_index :: "int \<Rightarrow> ota_index" where
  "uart_ota_target_index code_addr = (case ota_get_cur_index code_addr of OTA_INDEX_1 \<Rightarrow> OTA_INDEX_2 | OTA_INDEX_2 \<Rightarrow> OTA_INDEX_1)"

text \<open>
  The first frame: the file header, the slot, the erasing; false after an error. \<open>code_addr\<close> is the address \<open>ota_get_cur_index\<close> compares.
\<close>

definition frame_start :: "'c rom \<Rightarrow> 'c ota_lib \<Rightarrow> int \<Rightarrow> int \<Rightarrow> 'c xmodem \<Rightarrow> bool \<times> 'c xmodem" where
  "frame_start r l code_addr frame_size st =
     (let index = uart_ota_target_index code_addr;
          fail = (\<lambda>st. (False, st\<lparr>flash_wr_err_cnt := uint32 (flash_wr_err_cnt st + 1)\<rparr>))
      in case get_ota_tartget_header (xMFrameBuf st) frame_size (xm_OtaTargetHdr st) (OtaImgId index) of
           None \<Rightarrow> fail st
         | Some hdr \<Rightarrow>
             (case get_ota_address r l index hdr (xm_board st) of
                (None, b) \<Rightarrow> fail (st\<lparr>xm_OtaTargetHdr := hdr, xm_board := b\<rparr>)
              | (Some addr, b) \<Rightarrow>
                  (let b = erase_ota_target_flash r addr (ImgLen (FileImgHdr hdr)) b;
                       b = (if RdpStatus hdr then flash_erase_sector r (RDP_FLASH_ADDR - SPI_FLASH_BASE) b else b);
                       (n, infos) = GetDownloadInfo addr hdr
                   in (True, st\<lparr>xm_OtaTargetHdr := hdr, fw_img2_addr := addr, xm_board := b, xm_DownloadInfo := infos, ImageCnt := n,
                               RemainBytes := sint32 (ImageLen (infos ! 0))\<rparr>))))"

text \<open>
  Which bytes of the frame belong to the image: the signature is put aside. The result is the position in the frame and
  the number of the bytes to write; \<open>None\<close> is the early return.
\<close>

definition frame_place :: "update_dw_info \<Rightarrow> int \<Rightarrow> 'c xmodem \<Rightarrow> (int \<times> int) option \<times> 'c xmodem" where
  "frame_place info read_bytes st =
     (if \<not> xm_OtaFg st
      then (let TempCnt = uint32 (xm_TempLen st - ImgOffset info); st = st\<lparr>xm_OtaFg := True\<rparr>
            in case dw_ImgId info of
                 OTA_IMAG \<Rightarrow>
                   (let st = st\<lparr>xm_SigCnt := (if TempCnt < 8 then TempCnt else 8)\<rparr>;
                        st = st\<lparr>xm_signature := store 0 (load (xMFrameBuf st) (read_bytes - TempCnt) (nat (xm_SigCnt st))) (xm_signature st)\<rparr>
                    in if xm_SigCnt st < 8 \<or> TempCnt - 8 = 0 then (None, st)
                       else (Some (read_bytes - TempCnt + 8, sint32 (TempCnt - 8)), st))
               | RDP_IMAG \<Rightarrow> (Some (read_bytes - TempCnt, sint32 TempCnt), st))
      else if dw_ImgId info = OTA_IMAG \<and> xm_SigCnt st < 8
      then (let n = 8 - xm_SigCnt st
            in if read_bytes < n
               then (None, st\<lparr>xm_signature := store (xm_SigCnt st) (load (xMFrameBuf st) 0 (nat read_bytes)) (xm_signature st),
                             xm_SigCnt := xm_SigCnt st + read_bytes\<rparr>)
               else (let st = st\<lparr>xm_signature := store (xm_SigCnt st) (load (xMFrameBuf st) 0 (nat n)) (xm_signature st), xm_SigCnt := 8\<rparr>
                     in if read_bytes - n = 0 then (None, st) else (Some (n, read_bytes - n), st)))
      else (Some (0, read_bytes), st))"

text \<open>Writing them, up to the end of the image; false after a failing write, else the number of bytes written.\<close>

definition frame_write :: "'c rom \<Rightarrow> update_dw_info \<Rightarrow> int \<Rightarrow> int \<Rightarrow> 'c xmodem \<Rightarrow> bool \<times> int \<times> 'c xmodem" where
  "frame_write r info buf read_bytes st =
     (let rem = sint32 (RemainBytes st - read_bytes);
          read_bytes = (if rem < 0 then sint32 (read_bytes - sint32 (- rem)) else read_bytes);
          st = st\<lparr>RemainBytes := rem\<rparr>
      in case flash_stream_write r (uint32 (FlashAddr info + xm_size st)) (uint32 read_bytes)
                (\<lambda>k. xMFrameBuf st (buf + int k)) (xm_board st) of
           (ret, b) \<Rightarrow>
             if ret < 0 then (False, read_bytes, st\<lparr>xm_board := b, flash_wr_err_cnt := uint32 (flash_wr_err_cnt st + 1)\<rparr>)
             else (True, read_bytes, st\<lparr>xm_board := b, xm_size := sint32 (xm_size st + read_bytes)\<rparr>))"

text \<open>
  A turn of the loop over the images, behind the counting of the frame: \<open>Inl\<close> is a return with a value, \<open>Inr\<close> the end of an image with the
  bytes of its tail.
\<close>

definition frame_turn :: "'c rom \<Rightarrow> int \<Rightarrow> int \<Rightarrow> 'c xmodem \<Rightarrow> int \<times> 'c xmodem + int \<times> 'c xmodem" where
  "frame_turn r read_bytes TailCnt st =
     (let info = xm_DownloadInfo st ! nat (xm_i st)
      in if xm_TempLen st > ImgOffset info
         then (case frame_place info read_bytes st of
                 (None, st) \<Rightarrow> Inl (0, st)
               | (Some (buf, n), st) \<Rightarrow>
                   (case frame_write r info buf n st of
                      (False, n, st) \<Rightarrow> Inl (0, st)
                    | (True, n, st) \<Rightarrow> if RemainBytes st \<le> 0 then Inr (n, st) else Inl (uint32 (n + TailCnt), st)))
         else Inl (TailCnt, st))"

definition next_image :: "'c xmodem \<Rightarrow> 'c xmodem" where
  "next_image st =
     (let st = (if dw_ImgId (xm_DownloadInfo st ! nat (xm_i st)) = OTA_IMAG then st\<lparr>OtaImgSize := xm_size st\<rparr> else st);
          i = xm_i st + 1
      in st\<lparr>xm_size := 0, xm_OtaFg := False, xm_i := i,
            RemainBytes := (if i < ImageCnt st then sint32 (ImageLen (xm_DownloadInfo st ! nat i)) else RemainBytes st)\<rparr>)"

lemma frame_turn_next: "frame_turn r n t st = Inr (m, st') \<Longrightarrow> xm_i st' = xm_i st \<and> ImageCnt st' = ImageCnt st"
  by (auto simp: frame_turn_def frame_place_def frame_write_def Let_def split: if_splits prod.splits image_kind.splits option.splits bool.splits)

function frame_loop :: "'c rom \<Rightarrow> int \<Rightarrow> bool \<Rightarrow> int \<Rightarrow> int \<Rightarrow> 'c xmodem \<Rightarrow> int \<times> 'c xmodem" where
  "frame_loop r frame_size again kept TailCnt st =
     (if xm_i st < ImageCnt st
      then if RemainBytes st > 0
           then if \<not> again \<and> sint32 frame_size \<le> 0 then (0, st)
                else let (read_bytes, st) = (if again then (kept, st)
                           else (sint32 frame_size, st\<lparr>xm_TempLen := uint32 (xm_TempLen st + frame_size)\<rparr>))
                     in (case frame_turn r read_bytes TailCnt st of
                           Inl res \<Rightarrow> res
                         | Inr (n, st) \<Rightarrow> frame_loop r frame_size True read_bytes n (next_image st))
           else (0, st)
      else (TailCnt, st))"
  by pat_completeness auto
termination
  by (relation "measure (\<lambda>(r, k, f, n, t, st). nat (ImageCnt st - xm_i st))")
     (auto simp: next_image_def Let_def split: if_splits dest!: frame_turn_next)

declare frame_loop.simps [simp del]

definition xModem_Frame_Img2 :: "'c rom \<Rightarrow> 'c ota_lib \<Rightarrow> int \<Rightarrow> int \<Rightarrow> int \<Rightarrow> 'c xmodem \<Rightarrow> int \<times> 'c xmodem" where
  "xModem_Frame_Img2 r l code_addr frame_num frame_size st =
     (if flash_wr_err_cnt st \<noteq> 0 then (0, st)
      else case (if frame_num = 1 then frame_start r l code_addr frame_size st else (True, st)) of
             (False, st) \<Rightarrow> (0, st)
           | (True, st) \<Rightarrow> frame_loop r frame_size False 0 0 st)"

section \<open>The update\<close>

definition WriteImg2Sign :: "'c rom \<Rightarrow> 'c ota_lib \<Rightarrow> 'c xmodem \<Rightarrow> int \<times> 'c board" where
  "WriteImg2Sign r l st =
     (let index = (if fw_img2_addr st = OTA1_ADDR then OTA_INDEX_1 else OTA_INDEX_2)
      in if OtaImgSize st \<le> 0 \<or> uint32 (OtaImgSize st) \<noteq> uint32 (ImgLen (FileImgHdr (xm_OtaTargetHdr st)) - 8) then (1, xm_board st)
         else (case verify_ota_checksum r l (fw_img2_addr st) (OtaImgSize st) (xm_signature st) (xm_OtaTargetHdr st) (xm_board st) of
                 (True, b) \<Rightarrow>
                   (case change_ota_signature r l (fw_img2_addr st) (xm_signature st) index b of
                      (False, b) \<Rightarrow> (1, b) | (True, b) \<Rightarrow> (0, b))
               | (False, b) \<Rightarrow> (1, flash_erase_sector r (uint32 (fw_img2_addr st - SPI_FLASH_BASE)) b)))"

text \<open>The library hands over a frame; what it makes of the handler's return value is not known here.\<close>

definition rx_frame :: "'c rom \<Rightarrow> 'c ota_lib \<Rightarrow> int \<Rightarrow> int \<times> bytes \<Rightarrow> 'c xmodem \<Rightarrow> 'c xmodem" where
  "rx_frame r l code_addr = (\<lambda>(num, bs) st.
     snd (xModem_Frame_Img2 r l code_addr num (int (length bs)) (st\<lparr>xMFrameBuf := store 0 bs (xMFrameBuf st)\<rparr>)))"

text \<open>
  The update: \<open>frames\<close> are the frames that \<open>_xModemRxBuffer\<close> hands over, \<open>wr_len\<close> its result. The result is \<open>ret\<close>, 0 for success.
\<close>

definition OTU_FW_Update :: "'c rom \<Rightarrow> 'c ota_lib \<Rightarrow> int \<Rightarrow> (int \<times> bytes) list \<Rightarrow> int \<Rightarrow> 'c xmodem \<Rightarrow> int \<times> 'c board" where
  "OTU_FW_Update r l code_addr frames wr_len st =
     (let st = fold (rx_frame r l code_addr) frames (xmodem_reset st)
      in if wr_len > 0 \<and> flash_wr_err_cnt st = 0 then WriteImg2Sign r l st else (1, xm_board st))"

end
