(* ===== verification/Xmodem_Run.thy ===== *)
theory Xmodem_Run
  imports Xmodem Ota_Sign
begin

text \<open>
  The receiving of the frames. A turn of the handler does to the state what a packet of the update from a server
  does to its download, so that the invariant of the download carries over, with the frames as the stream.
\<close>

section \<open>A frame is a packet\<close>

definition as_download :: "sock \<Rightarrow> int \<Rightarrow> 'c xmodem \<Rightarrow> 'c download" where
  "as_download s k st = \<lparr>dl_sock = s, dl_ram = xMFrameBuf st, read_bytes_buf = k, TempLen = xm_TempLen st, OtaFg = xm_OtaFg st,
     IncFg = False, SigCnt = xm_SigCnt st, dl_size = xm_size st, signature = xm_signature st, dl_board = xm_board st\<rparr>"

definition turned :: "int \<Rightarrow> 'c download \<Rightarrow> 'c xmodem \<Rightarrow> 'c xmodem" where
  "turned n d st = st\<lparr>xm_OtaFg := OtaFg d, xm_SigCnt := SigCnt d, xm_signature := signature d, RemainBytes := n,
     xm_size := dl_size d, xm_board := dl_board d\<rparr>"

lemma as_download_fields [simp]:
  "dl_sock (as_download s k st) = s" "dl_ram (as_download s k st) = xMFrameBuf st" "read_bytes_buf (as_download s k st) = k"
  "TempLen (as_download s k st) = xm_TempLen st" "OtaFg (as_download s k st) = xm_OtaFg st" "IncFg (as_download s k st) = False"
  "SigCnt (as_download s k st) = xm_SigCnt st" "dl_size (as_download s k st) = xm_size st"
  "signature (as_download s k st) = xm_signature st" "dl_board (as_download s k st) = xm_board st"
  by (simp_all add: as_download_def)

lemma stream_write_status [simp]: "fst (flash_stream_write r a n data b) = 1"
  by (simp add: flash_stream_write_def Let_def)

lemma turned_same [simp]: "turned (RemainBytes st) (as_download s k st) st = st"
  by (simp add: turned_def)

lemma turned_turned: "st1 = st\<lparr>xm_OtaFg := f, xm_SigCnt := c, xm_signature := g\<rparr> \<Longrightarrow> turned n d st1 = turned n d st"
  by (simp add: turned_def)

lemma write_packet_turn:
  assumes "write_packet r info buf n (RemainBytes st) (as_download s k st) = (rem', d')"
  shows "\<exists>m. frame_write r info buf n st = (True, m, turned rem' d' st)" and "as_download s k (turned rem' d' st) = d'"
  using assms by (auto simp: write_packet_def frame_write_def turned_def as_download_def Let_def split_beta)

lemma process_place:
  assumes "dw_ImgId info = OTA_IMAG" and "ImgOffset info < xm_TempLen st" and "0 < k" "k \<le> 1024"
    and "0 \<le> xm_SigCnt st" "xm_SigCnt st \<le> 8" and "frame_place info k st = (res, st1)"
  shows "process_packet r info k n (as_download s k st) =
      (case res of None \<Rightarrow> (n, as_download s k st1) | Some (buf, m) \<Rightarrow> write_packet r info buf m n (as_download s k st1))"
    and "\<exists>f c g. st1 = st\<lparr>xm_OtaFg := f, xm_SigCnt := c, xm_signature := g\<rparr>"
proof -
  have u: "uint32 k = k" "uint32 (8 - xm_SigCnt st) = 8 - xm_SigCnt st" "k < 8 - xm_SigCnt st \<Longrightarrow> uint32 (xm_SigCnt st + k) = xm_SigCnt st + k"
    using assms(3-6) by (simp_all add: uint32_id)
  show "process_packet r info k n (as_download s k st) =
      (case res of None \<Rightarrow> (n, as_download s k st1) | Some (buf, m) \<Rightarrow> write_packet r info buf m n (as_download s k st1))"
    using assms(1,2,7) u by (auto simp: process_packet_def frame_place_def as_download_def Let_def split: if_splits)
  show "\<exists>f c g. st1 = st\<lparr>xm_OtaFg := f, xm_SigCnt := c, xm_signature := g\<rparr>"
    using assms(1,7) unfolding frame_place_def Let_def
    by (cases st) (auto split: if_splits)
qed

lemma frame_turn_packet:
  assumes "dw_ImgId (xm_DownloadInfo st ! nat (xm_i st)) = OTA_IMAG" and "0 < RemainBytes st" and "0 < k" "k \<le> 1024"
    and "0 \<le> xm_SigCnt st" "xm_SigCnt st \<le> 8"
    and pp: "process_packet r (xm_DownloadInfo st ! nat (xm_i st)) k (RemainBytes st) (as_download s k st) = (rem', d')"
  shows "(\<exists>m. frame_turn r k t st = (if rem' \<le> 0 then Inr (m, turned rem' d' st) else Inl (m, turned rem' d' st))) \<and>
    as_download s k (turned rem' d' st) = d'"
proof (cases "ImgOffset (xm_DownloadInfo st ! nat (xm_i st)) < xm_TempLen st")
  case False
  then have "rem' = RemainBytes st" "d' = as_download s k st" using pp by (simp_all add: process_packet_def)
  then show ?thesis using False assms(2) by (simp add: frame_turn_def)
next
  case True
  let ?info = "xm_DownloadInfo st ! nat (xm_i st)"
  obtain res st1 where pl: "frame_place ?info k st = (res, st1)" by fastforce
  note place = process_place [OF assms(1) True assms(3-6) pl]
  from place(2) obtain f c g where st1: "st1 = st\<lparr>xm_OtaFg := f, xm_SigCnt := c, xm_signature := g\<rparr>" by blast
  then have rem: "RemainBytes st1 = RemainBytes st" by simp
  show ?thesis
  proof (cases res)
    case None
    then have e: "rem' = RemainBytes st" "d' = as_download s k st1" using pp place(1) [of r "RemainBytes st" s] by simp_all
    then have "turned rem' d' st = st1" using turned_turned [OF st1] turned_same [of st1 s k] rem by metis
    then show ?thesis using True None pl assms(2) e by (simp add: frame_turn_def)
  next
    case (Some bn)
    then obtain buf n where bn: "res = Some (buf, n)" by (cases bn) simp
    then have w: "write_packet r ?info buf n (RemainBytes st1) (as_download s k st1) = (rem', d')"
      using pp place(1) [of r "RemainBytes st" s] rem by simp
    note wt = write_packet_turn [OF w]
    from wt(1) obtain m where "frame_write r ?info buf n st1 = (True, m, turned rem' d' st1)" by blast
    moreover have "RemainBytes (turned rem' d' st) = rem'" by (simp add: turned_def)
    ultimately show ?thesis using True bn pl wt(2) turned_turned [OF st1, of rem' d'] by (simp add: frame_turn_def)
  qed
qed

section \<open>The invariant of the receiving\<close>

text \<open>
  \<open>v\<close> is the view of the download invariant with the frames as the stream, \<open>t\<close> the number of bytes received. Until the image is complete
  the loop's variables describe a download under way, afterwards the size is noted and later frames change nothing.
\<close>

definition receiving_frames :: "('c \<Rightarrow> int \<Rightarrow> u8) \<Rightarrow> ('c \<Rightarrow> int \<Rightarrow> bool) \<Rightarrow> dl_view \<Rightarrow> nat \<Rightarrow> 'c xmodem \<Rightarrow> bool" where
  "receiving_frames cell clean v t st \<longleftrightarrow> xm_i st = 0 \<and> OtaImgSize st = 0 \<and> 0 < RemainBytes st \<and>
     dl_inv cell clean v t (RemainBytes st) (as_download \<lparr>incoming = drop t (v_full v), schedule = []\<rparr> 0 st)"

definition received :: "('c \<Rightarrow> int \<Rightarrow> u8) \<Rightarrow> ('c \<Rightarrow> int \<Rightarrow> bool) \<Rightarrow> dl_view \<Rightarrow> 'c xmodem \<Rightarrow> bool" where
  "received cell clean v st \<longleftrightarrow> xm_i st = 1 \<and> OtaImgSize st = int (v_L v) \<and> v_off v + 8 + v_L v \<le> length (v_full v) \<and>
     cell (chip (xm_board st)) = prog (v_mem v) (v_base v) (img_part (v_full v) 0 (v_off v) (v_L v)) \<and>
     xm_signature st = store 0 (sig_part (v_full v) 0 (v_off v) 8) (v_sig v) \<and> (\<forall>x. clean (chip (xm_board st)) x)"

definition frames_inv :: "('c \<Rightarrow> int \<Rightarrow> u8) \<Rightarrow> ('c \<Rightarrow> int \<Rightarrow> bool) \<Rightarrow> dl_view \<Rightarrow> update_dw_info \<Rightarrow> int \<Rightarrow> update_ota_target_hdr \<Rightarrow>
    nat \<Rightarrow> 'c xmodem \<Rightarrow> bool" where
  "frames_inv cell clean v info addr hdr t st \<longleftrightarrow> ImageCnt st = 1 \<and> xm_DownloadInfo st = [info] \<and> flash_wr_err_cnt st = 0 \<and>
     fw_img2_addr st = addr \<and> xm_OtaTargetHdr st = hdr \<and> (receiving_frames cell clean v t st \<or> received cell clean v st)"

lemma as_download_read: "dl_inv cell clean v t rem (as_download s k st) \<longleftrightarrow> dl_inv cell clean v t rem (as_download s 0 st)"
  by (simp add: dl_inv_def Let_def)

lemma dl_inv_complete:
  assumes "dl_inv cell clean v t rem d" and "rem \<le> 0" and "dl_ok v info" and "v_H v = 0" and "0 < v_L v"
  shows "dl_size d = int (v_L v)" and "v_off v + 8 + v_L v \<le> length (v_full v)"
    and "cell (chip (dl_board d)) = prog (v_mem v) (v_base v) (img_part (v_full v) 0 (v_off v) (v_L v))"
    and "signature d = store 0 (sig_part (v_full v) 0 (v_off v) 8) (v_sig v)" and "\<forall>x. clean (chip (dl_board d)) x"
proof -
  have q: "v_L v + 8 \<le> seen 0 (v_off v) t" "t \<le> length (v_full v)" using assms(1,2,4,5) by (auto simp: dl_inv_def Let_def)
  then have m: "min (seen 0 (v_off v) t - 8) (v_L v) = v_L v" "min (seen 0 (v_off v) t) 8 = 8" by auto
  show "v_off v + 8 + v_L v \<le> length (v_full v)" using q by (simp add: seen_def)
  show "dl_size d = int (v_L v)"
    "cell (chip (dl_board d)) = prog (v_mem v) (v_base v) (img_part (v_full v) 0 (v_off v) (v_L v))"
    "signature d = store 0 (sig_part (v_full v) 0 (v_off v) 8) (v_sig v)" "\<forall>x. clean (chip (dl_board d)) x"
    using assms(1,4) m by (simp_all add: dl_inv_def Let_def sig_part_def)
qed

context nor_flash
begin

lemma frame_received:
  assumes inv: "frames_inv cell clean v info addr hdr t st" and ok: "dl_ok v info" "v_H v = 0" "0 < v_L v"
    and k: "0 < k" "k \<le> 1024" "t + k \<le> length (v_full v)"
    and m: "xMFrameBuf st = store 0 (take k (drop t (v_full v))) m"
  shows "frames_inv cell clean v info addr hdr (t + k) (snd (frame_loop r (int k) False 0 0 st))"
proof (cases "received cell clean v st")
  case True
  then have "xm_i st = 1" by (simp add: received_def)
  then have "frame_loop r (int k) False 0 0 st = (0, st)" using inv by (simp add: frame_loop.simps frames_inv_def)
  then show ?thesis using inv True by (simp add: frames_inv_def)
next
  case False
  then have go: "receiving_frames cell clean v t st" using inv by (auto simp: frames_inv_def)
  let ?s = "\<lparr>incoming = drop (t + k) (v_full v), schedule = []\<rparr>"
  let ?st = "st\<lparr>xm_TempLen := uint32 (xm_TempLen st + int k)\<rparr>"
  let ?d = "as_download \<lparr>incoming = drop t (v_full v), schedule = []\<rparr> 0 st"
  have g: "dl_inv cell clean v t (RemainBytes st) ?d" "0 < RemainBytes st" "xm_i st = 0" "OtaImgSize st = 0"
    using go by (simp_all add: receiving_frames_def)
  have st: "ImageCnt st = 1" "xm_DownloadInfo st = [info]" "dw_ImgId info = OTA_IMAG" "ImageLen info = int (v_L v)"
    using inv ok(1) by (simp_all add: frames_inv_def dl_ok_def)
  have sig: "0 \<le> xm_SigCnt st" "xm_SigCnt st \<le> 8" using g(1) by (simp_all add: dl_inv_def Let_def)
  have kk: "sint32 (int k) = int k" using k by (simp add: sint32_id)
  have d1: "as_download ?s (int k) ?st = ?d\<lparr>dl_ram := store 0 (take k (drop t (v_full v))) m, dl_sock := ?s,
      read_bytes_buf := int k, TempLen := uint32 (TempLen ?d + int k)\<rparr>"
    using m by (simp add: as_download_def)
  obtain rem' d' where pp: "process_packet r info (int k) (RemainBytes st) (as_download ?s (int k) ?st) = (rem', d')" by fastforce
  have inv': "dl_inv cell clean v (t + k) rem' d'"
    by (rule packet_inv [OF got_received [OF ok(1) g(1,2) k d1] pp]) simp
  let ?st' = "turned rem' d' ?st"
  have turn: "\<exists>n. frame_turn r (int k) 0 ?st = (if rem' \<le> 0 then Inr (n, ?st') else Inl (n, ?st'))" and dd: "as_download ?s (int k) ?st' = d'"
    using frame_turn_packet [of ?st "int k" r ?s rem' d' 0] pp st g(2,3) k sig by simp_all
  from turn obtain n where n: "frame_turn r (int k) 0 ?st = (if rem' \<le> 0 then Inr (n, ?st') else Inl (n, ?st'))" by blast
  show ?thesis
  proof (cases "rem' \<le> 0")
    case True
    have t: "xm_i ?st' = 0" "ImageCnt ?st' = 1" "xm_DownloadInfo ?st' = [info]" using g(3) st by (simp_all add: turned_def)
    have nx: "next_image ?st' = ?st'\<lparr>OtaImgSize := xm_size ?st', xm_size := 0, xm_OtaFg := False, xm_i := 1\<rparr>"
      unfolding next_image_def Let_def t by (simp add: t st(3))
    have "frame_loop r (int k) False 0 0 st = (n, next_image ?st')"
      using n True k g(2,3) st(1) kk by (subst frame_loop.simps) (simp add: frame_loop.simps [of _ _ True] nx t)
    moreover have "received cell clean v (next_image ?st')"
      unfolding received_def nx using dl_inv_complete [OF inv' True ok] by (simp add: turned_def)
    ultimately show ?thesis using inv unfolding frames_inv_def nx by (simp add: turned_def)
  next
    case False
    have "frame_loop r (int k) False 0 0 st = (n, ?st')"
      using n False k g(2,3) st(1) kk by (subst frame_loop.simps) simp
    moreover have "dl_inv cell clean v (t + k) rem' (as_download ?s 0 ?st')"
      using inv' as_download_read [of cell clean v "t + k" rem' ?s "int k" ?st'] by (simp add: dd)
    then have "receiving_frames cell clean v (t + k) ?st'"
      using False g(3,4) by (simp add: receiving_frames_def turned_def)
    ultimately show ?thesis using inv by (simp add: frames_inv_def turned_def)
  qed
qed

end

section \<open>A whole transfer\<close>

text \<open>
  Frames as the protocol delivers them: not empty, at most 1024 bytes, and only the first has number 1. The first one
  holds the file header, for the slot at \<open>addr\<close>; \<open>b1\<close> is the board after the choice of the slot.
\<close>

definition frames_ok :: "(int \<times> bytes) list \<Rightarrow> bool" where
  "frames_ok frames \<longleftrightarrow> frames \<noteq> [] \<and> fst (hd frames) = 1 \<and> list_all (\<lambda>(n, bs). n \<noteq> 1) (tl frames) \<and>
     list_all (\<lambda>(n, bs). bs \<noteq> [] \<and> length bs \<le> 1024) frames \<and> length (concat (map snd frames)) < 2 ^ 31"

definition first_frame :: "'c rom \<Rightarrow> 'c ota_lib \<Rightarrow> int \<Rightarrow> bytes \<Rightarrow> 'c xmodem \<Rightarrow> update_ota_target_hdr \<Rightarrow> int \<Rightarrow> 'c board \<Rightarrow> bool" where
  "first_frame r l code_addr bs st hdr addr b1 \<longleftrightarrow>
     get_ota_tartget_header (store 0 bs (xMFrameBuf st)) (int (length bs)) zero_target_hdr (OtaImgId (uart_ota_target_index code_addr)) = Some hdr \<and>
     get_ota_address r l (uart_ota_target_index code_addr) hdr (xm_board st) = (Some addr, b1)"

text \<open>
  A file with one image and no RDP image. The code also handles files with an RDP image, whose data it writes to the sector in
  front of the second slot: those files are excluded here.
\<close>

definition one_image :: "update_ota_target_hdr \<Rightarrow> int \<Rightarrow> nat \<Rightarrow> nat \<Rightarrow> bool" where
  "one_image hdr addr off L \<longleftrightarrow> \<not> RdpStatus hdr \<and> Offset (FileImgHdr hdr) = int off \<and> ImgLen (FileImgHdr hdr) = int L + 8 \<and>
     0 < L \<and> off < 2 ^ 32 \<and> L + 8 < 2 ^ 31 \<and> SPI_FLASH_BASE \<le> addr \<and> addr + int L + 4200 < 2 ^ 32"

definition frames_view :: "(int \<times> bytes) list \<Rightarrow> int \<Rightarrow> nat \<Rightarrow> nat \<Rightarrow> (int \<Rightarrow> u8) \<Rightarrow> ram \<Rightarrow> dl_view" where
  "frames_view frames a off L mem sig = \<lparr>v_full = concat (map snd frames), v_H = 0, v_off = off, v_L = L, v_base = a + 8,
     v_mem = mem, v_sig = sig\<rparr>"

context nor_flash
begin

lemma rest_frames:
  assumes "frames_inv cell clean v info addr hdr t st" and "dl_ok v info" and "v_H v = 0" and "0 < v_L v"
    and "list_all (\<lambda>(n, bs). n \<noteq> 1) fs" and "list_all (\<lambda>(n, bs). bs \<noteq> [] \<and> length bs \<le> 1024) fs"
    and "drop t (v_full v) = concat (map snd fs)" and "t \<le> length (v_full v)"
  shows "frames_inv cell clean v info addr hdr (length (v_full v)) (fold (rx_frame r l code_addr) fs st)"
  using assms
proof (induction fs arbitrary: t st)
  case (Cons f fs)
  obtain n bs where f: "f = (n, bs)" by fastforce
  let ?st = "st\<lparr>xMFrameBuf := store 0 bs (xMFrameBuf st)\<rparr>"
  have bs: "n \<noteq> 1" "0 < length bs" "length bs \<le> 1024" "drop t (v_full v) = bs @ concat (map snd fs)"
    using Cons.prems by (auto simp: f)
  have "length (drop t (v_full v)) = length bs + length (concat (map snd fs))" by (simp add: bs(4))
  then have t1: "t + length bs \<le> length (v_full v)" using Cons.prems(8) by (simp only: length_drop)
  have "drop (t + length bs) (v_full v) = drop (length bs) (drop t (v_full v))" by (simp add: add.commute)
  then have t: "take (length bs) (drop t (v_full v)) = bs" "drop (t + length bs) (v_full v) = concat (map snd fs)"
    by (simp_all only: bs(4)) simp_all
  have inv: "frames_inv cell clean v info addr hdr t ?st"
    using Cons.prems(1) by (simp add: frames_inv_def receiving_frames_def received_def dl_inv_def Let_def)
  then have "rx_frame r l code_addr f st = snd (frame_loop r (int (length bs)) False 0 0 ?st)"
    using bs(1) by (simp add: rx_frame_def f xModem_Frame_Img2_def frames_inv_def)
  then have "frames_inv cell clean v info addr hdr (t + length bs) (rx_frame r l code_addr f st)"
    using frame_received [OF inv Cons.prems(2-4) bs(2,3) t1, of "xMFrameBuf st"] t(1) by simp
  then show ?case using Cons.IH [OF _ Cons.prems(2-4)] Cons.prems(5,6) t1 t(2) by simp
qed simp

lemma GetDownloadInfo_single:
  assumes "one_image hdr addr off L" and "a = addr - SPI_FLASH_BASE"
  shows "GetDownloadInfo addr hdr = (1, [\<lparr>dw_ImgId = OTA_IMAG, FlashAddr = a + 8, ImgOffset = int off, ImageLen = int L\<rparr>])"
  using assms by (auto simp: GetDownloadInfo_def one_image_def uint32_id SPI_FLASH_BASE_def)

lemma frames_view_ok:
  assumes "one_image hdr addr off L" and "a = addr - SPI_FLASH_BASE" and "length (concat (map snd frames)) < 2 ^ 31"
    and "v = frames_view frames a off L mem sig"
  shows "dl_ok v \<lparr>dw_ImgId = OTA_IMAG, FlashAddr = a + 8, ImgOffset = int off, ImageLen = int L\<rparr>" "v_H v = 0" "0 < v_L v"
  using assms by (auto simp: dl_ok_def one_image_def frames_view_def SPI_FLASH_BASE_def)

text \<open>After all frames: the slot is erased and the frames are in it, as far as they belong to the image.\<close>

lemma frames_end:
  assumes fr: "frames_ok frames" and ff: "first_frame r l code_addr (snd (hd frames)) st hdr addr b1"
    and one: "one_image hdr addr off L" and a: "a = addr - SPI_FLASH_BASE"
    and be: "be = erase_ota_target_flash r addr (int L + 8) b1"
    and v: "v = frames_view frames a off L (cell (chip be)) (store 0 (replicate 9 0) (xm_signature st))"
  shows "frames_inv cell clean v \<lparr>dw_ImgId = OTA_IMAG, FlashAddr = a + 8, ImgOffset = int off, ImageLen = int L\<rparr> addr hdr
    (length (concat (map snd frames))) (fold (rx_frame r l code_addr) frames (xmodem_reset st))"
proof -
  obtain bs fs where f: "frames = (1, bs) # fs" using fr by (cases frames) (auto simp: frames_ok_def)
  let ?info = "\<lparr>dw_ImgId = OTA_IMAG, FlashAddr = a + 8, ImgOffset = int off, ImageLen = int L\<rparr>"
  let ?st = "xmodem_reset (st\<lparr>xMFrameBuf := store 0 bs (xMFrameBuf st)\<rparr>)"
  let ?s1 = "?st\<lparr>xm_OtaTargetHdr := hdr, fw_img2_addr := addr, xm_board := be, xm_DownloadInfo := [?info], ImageCnt := 1, RemainBytes := int L\<rparr>"
  have g: "0 < L" "SPI_FLASH_BASE \<le> addr" "addr + int L + 4200 < 2 ^ 32" "ImgLen (FileImgHdr hdr) = int L + 8" "\<not> RdpStatus hdr" "sint32 (int L) = int L"
    using one by (auto simp: one_image_def sint32_id)
  have al: "addr mod 4096 = 0" using ff get_ota_address_aligned(1) by (auto simp: first_frame_def)
  have bs: "0 < length bs" "length bs \<le> 1024" "list_all (\<lambda>(n, bs). n \<noteq> 1) fs" "list_all (\<lambda>(n, bs). bs \<noteq> [] \<and> length bs \<le> 1024) fs"
    "length (concat (map snd frames)) < 2 ^ 31"
    using fr by (auto simp: frames_ok_def f)
  note ok = frames_view_ok [OF one a bs(5) v]
  have full: "v_full v = bs @ concat (map snd fs)" by (simp add: v frames_view_def f)
  have start: "frame_start r l code_addr (int (length bs)) ?st = (True, ?s1)"
    using ff g(4-6) GetDownloadInfo_single [OF one a] by (simp add: frame_start_def first_frame_def f xmodem_reset_def be)
  have cl: "\<forall>x. clean (chip be) x" by (rule erase_slot(1) [OF g(1,2) al g(3) a be])
  have v0: "v_L v = L" "v_H v = 0" "seen 0 (v_off v) 0 = 0" "v_mem v = cell (chip be)" "v_sig v = store 0 (replicate 9 0) (xm_signature st)"
    by (simp_all add: v frames_view_def seen_def)
  then have inv: "frames_inv cell clean v ?info addr hdr 0 ?s1"
    using cl g(1) by (simp add: frames_inv_def receiving_frames_def dl_inv_def Let_def xmodem_reset_def sig_part_def img_part_def)
  have "rx_frame r l code_addr (1, bs) (xmodem_reset st) = snd (frame_loop r (int (length bs)) False 0 0 ?s1)"
  proof -
    have e: "(xmodem_reset st)\<lparr>xMFrameBuf := store 0 bs (xMFrameBuf (xmodem_reset st))\<rparr> = ?st" by (simp add: xmodem_reset_def)
    have "flash_wr_err_cnt ?st = 0" by (simp add: xmodem_reset_def)
    then show ?thesis unfolding rx_frame_def prod.case e xModem_Frame_Img2_def by (simp add: start)
  qed
  moreover have "xMFrameBuf ?s1 = store 0 (take (length bs) (drop 0 (v_full v))) (xMFrameBuf st)"
    by (simp add: full xmodem_reset_def)
  ultimately have "frames_inv cell clean v ?info addr hdr (length bs) (rx_frame r l code_addr (1, bs) (xmodem_reset st))"
    using frame_received [OF inv ok bs(1,2), of "xMFrameBuf st"] full by simp
  from rest_frames [OF this ok bs(3,4)] show ?thesis by (simp add: full f)
qed

end

section \<open>The end of the update\<close>

context ota_flash
begin

lemma update_end:
  assumes fr: "frames_ok frames" and ff: "first_frame r l code_addr (snd (hd frames)) st hdr addr b0"
    and one: "one_image hdr addr off L" and a: "a = addr - SPI_FLASH_BASE"
    and img: "img = take (8 + L) (drop off (concat (map snd frames)))"
    and up: "OTU_FW_Update r l code_addr frames wr_len st = (ret, b')"
  shows "ret = 0 \<Longrightarrow> 0 < wr_len \<and> length img = 8 + L \<and> uint32 (sum_bytes img) = Checksum (FileImgHdr hdr) \<and>
      (\<exists>b1. b' = OTA_Change l (if addr = OTA1_ADDR then OTA_INDEX_1 else OTA_INDEX_2) b1 \<and> cells (cell (chip b1)) a (8 + L) = img)"
    and "ret \<noteq> 0 \<Longrightarrow> a \<le> x \<Longrightarrow> x < a + 8 \<Longrightarrow> cell (chip b') x = 0xFF"
    and "0 < wr_len \<Longrightarrow> length img = 8 + L \<Longrightarrow> uint32 (sum_bytes img) = Checksum (FileImgHdr hdr) \<Longrightarrow>
      custom_signed cell clean l addr L img \<Longrightarrow> ret = 0"
proof -
  define be where "be = erase_ota_target_flash r addr (int L + 8) b0"
  define v where "v = frames_view frames a off L (cell (chip be)) (store 0 (replicate 9 0) (xm_signature st))"
  define e where "e = fold (rx_frame r l code_addr) frames (xmodem_reset st)"
  let ?full = "concat (map snd frames)" and ?idx = "if addr = OTA1_ADDR then OTA_INDEX_1 else OTA_INDEX_2"
  let ?info = "\<lparr>dw_ImgId = OTA_IMAG, FlashAddr = a + 8, ImgOffset = int off, ImageLen = int L\<rparr>"
  have g: "0 < L" "SPI_FLASH_BASE \<le> addr" "addr + int L + 4200 < 2 ^ 32" "ImgLen (FileImgHdr hdr) = int L + 8" "\<not> RdpStatus hdr"
    "a + int L + 300 < 2 ^ 32" "L + 8 < 2 ^ 31"
    using one a by (auto simp: one_image_def SPI_FLASH_BASE_def)
  have al: "addr mod 4096 = 0" using ff get_ota_address_aligned(1) by (auto simp: first_frame_def)
  note er = erase_slot [OF g(1,2) al g(3) a be_def]
  have vf: "v_full v = ?full" "v_off v = off" "v_L v = L" "v_base v = a + 8" "v_mem v = cell (chip be)" by (simp_all add: v_def frames_view_def)
  have inv: "frames_inv cell clean v ?info addr hdr (length ?full) e"
    unfolding e_def by (rule frames_end [OF fr ff one a be_def v_def])
  then have st: "flash_wr_err_cnt e = 0" "fw_img2_addr e = addr" "xm_OtaTargetHdr e = hdr" by (simp_all add: frames_inv_def)
  have len: "length img = 8 + L \<longleftrightarrow> off + 8 + L \<le> length ?full" using g(1) by (auto simp: img min_def)
  have up': "OTU_FW_Update r l code_addr frames wr_len st = (if wr_len > 0 then WriteImg2Sign r l e else (1, xm_board e))"
    by (simp add: OTU_FW_Update_def e_def [symmetric] st(1))
  have u: "uint32 (addr - SPI_FLASH_BASE) = uint32 a" by (simp add: a)
  consider (part) "receiving_frames cell clean v (length ?full) e" | (whole) "received cell clean v e"
    using inv by (auto simp: frames_inv_def)
  then have "(ret = 0 \<longrightarrow> 0 < wr_len \<and> length img = 8 + L \<and> uint32 (sum_bytes img) = Checksum (FileImgHdr hdr) \<and>
      (\<exists>b1. b' = OTA_Change l ?idx b1 \<and> cells (cell (chip b1)) a (8 + L) = img)) \<and>
    (ret \<noteq> 0 \<longrightarrow> a \<le> x \<longrightarrow> x < a + 8 \<longrightarrow> cell (chip b') x = 0xFF) \<and>
    (0 < wr_len \<longrightarrow> length img = 8 + L \<longrightarrow> uint32 (sum_bytes img) = Checksum (FileImgHdr hdr) \<longrightarrow>
      custom_signed cell clean l addr L img \<longrightarrow> ret = 0)"
  proof cases
    case part
    then have d: "OtaImgSize e = 0" "length ?full < off + 8 + L" "\<exists>q. cell (chip (xm_board e)) = prog (cell (chip be)) (a + 8) q"
      using vf by (auto simp: receiving_frames_def dl_inv_def Let_def v_def frames_view_def seen_def)
    have "(ret, b') = (1, xm_board e)" using up up' d(1) by (simp add: WriteImg2Sign_def st split: if_splits)
    moreover have "a \<le> x \<longrightarrow> x < a + 8 \<longrightarrow> cell (chip (xm_board e)) x = 0xFF" using d(3) er(2) by (auto simp: prog_outside)
    ultimately show ?thesis using d(2) len by simp
  next
    case whole
    then have w: "OtaImgSize e = int L" "off + 8 + L \<le> length ?full" "\<forall>x. clean (chip (xm_board e)) x"
      "cell (chip (xm_board e)) = prog (cell (chip be)) (a + 8) (take L (drop 8 (drop off ?full)))"
      "xm_signature e = store 0 (sig_part ?full 0 off 8) (v_sig v)"
      using vf by (simp_all add: received_def img_part_def add.commute)
    have il: "length img = 8 + L" using w(2) len by simp
    have sg: "load (xm_signature e) 0 8 = take 8 img"
      using load_store_0 [of 0 8 "take 8 img" "v_sig v"] il by (simp add: w(5) sig_part_def img)
    note slot = body_in_slot [OF er(2) img il w(4)]
    obtain ok bv where ver: "verify_ota_checksum r l addr (int L) (xm_signature e) hdr (xm_board e) = (ok, bv)" by fastforce
    note vs = verify_and_sign [OF w(3) g(5) er(4,5) g(6) a slot il sg ver]
    obtain b1 where b1: "change_ota_signature r l addr (xm_signature e) ?idx bv = (True, OTA_Change l ?idx b1)"
      "cells (cell (chip b1)) a (8 + L) = img"
      using vs(2) by blast
    have wr: "WriteImg2Sign r l e = (if ok then (0, OTA_Change l ?idx b1) else (1, flash_erase_sector r (uint32 a) bv))"
      using b1(1) ver g(1,4,7) by (simp add: WriteImg2Sign_def st w(1) u)
    have "a \<le> x \<longrightarrow> x < a + 8 \<longrightarrow> cell (chip (xm_board e)) x = 0xFF" using slot(2) by blast
    moreover have "str_eq (xip_bytes l (OTF_Mask l a (uint32 (uint32 (int L - 1) div 4096 + 1)) False (xm_board e)) (addr + IMAGE_HEADER_LEN) 32) cus_sig_demo"
      if "custom_signed cell clean l addr L img"
      using that slot(1) w(3) by (simp add: custom_signed_def a)
    ultimately show ?thesis using up up' wr b1(2) il vs(1,3) by (auto split: if_splits)
  qed
  then show "ret = 0 \<Longrightarrow> 0 < wr_len \<and> length img = 8 + L \<and> uint32 (sum_bytes img) = Checksum (FileImgHdr hdr) \<and>
      (\<exists>b1. b' = OTA_Change l ?idx b1 \<and> cells (cell (chip b1)) a (8 + L) = img)"
    and "ret \<noteq> 0 \<Longrightarrow> a \<le> x \<Longrightarrow> x < a + 8 \<Longrightarrow> cell (chip b') x = 0xFF"
    and "0 < wr_len \<Longrightarrow> length img = 8 + L \<Longrightarrow> uint32 (sum_bytes img) = Checksum (FileImgHdr hdr) \<Longrightarrow>
      custom_signed cell clean l addr L img \<Longrightarrow> ret = 0"
    by blast+
qed

end

end
