(* ===== verification/Xmodem_Props.thy ===== *)
theory Xmodem_Props
  imports Xmodem_Run Ymodem_Props
begin

text \<open>
  The properties of the firmware update over XMODEM, stated over \<^verbatim>\<open>common/application/xmodem/uart_fw_update.c\<close>. The file of the
  demonstration is the one of the YMODEM receiver.
\<close>

definition demo_xmodem :: "nor_chip xmodem" where
  "demo_xmodem = \<lparr>xMFrameBuf = (\<lambda>_. 0), xm_OtaTargetHdr = zero_target_hdr, fw_img2_addr = 0, flash_wr_err_cnt = 0, xm_SigCnt = 0,
     xm_signature = (\<lambda>_. 0), xm_DownloadInfo = [], ImageCnt = 0, xm_OtaFg = False, RemainBytes = 0, xm_i = 0, xm_TempLen = 0,
     OtaImgSize = 0, xm_size = 0, xm_board = slot_board\<rparr>"

definition demo_frames :: "(int \<times> bytes) list" where "demo_frames = [(1, demo_first), (2, demo_second)]"

lemma demo_frames_ok: "frames_ok demo_frames" "frames_ok [(1, demo_first)]"
  "snd (hd demo_frames) = demo_first" "snd (hd [(1 :: int, demo_first)]) = demo_first"
  using demo_blocks by (auto simp: frames_ok_def demo_frames_def)

lemma demo_first_frame: "\<exists>b1. first_frame nor_rom nor_lib 0x0800B020 demo_first demo_xmodem demo_target 0x08080000 b1"
proof -
  have "uart_ota_target_index = ymodem_target_index" by (auto simp: uart_ota_target_index_def ymodem_target_index_def)
  moreover have "load (store 0 demo_first m) 0 1024 = demo_first" for m
    using load_store_0 [of 0 1024 demo_first m] demo_blocks by simp
  ultimately show ?thesis
    using demo_header_block demo_blocks by (auto simp: header_block_def first_frame_def demo_xmodem_def prod_eq_iff)
qed

lemma demo_one_image: "one_image demo_target 0x08080000 32 1024"
  using demo_target_fields by (simp add: one_image_def SPI_FLASH_BASE_def)

lemma demo_frames_image: "take 1032 (drop 32 (concat (map snd demo_frames))) = demo_file_image"
  using demo_image by (simp add: demo_frames_def)

text \<open>
  C7: the update installs a good file with a single image and no RDP image. However the file is cut into frames of 1 to 1024 bytes, of
  which only the first has number 1, if the protocol reports that it received something, the first frame holds the file header,
  the frames contain the whole image, the image has the checksum of the header and carries the custom signature of the firmware,
  as the board shows it when its cache agrees with its flash,
  the update succeeds: the slot holds exactly the image, whatever is appended to fill the last frame, and
  the boot index is changed to it. Files with an RDP image, which the code also handles, are not covered.
\<close>

theorem xmodem_good_image_installed:
  assumes "ota_flash r cell clean l" and "frames_ok frames" and "first_frame r l code_addr (snd (hd frames)) st hdr addr b0"
    and "one_image hdr addr off L" and "a = addr - SPI_FLASH_BASE" and "img = take (8 + L) (drop off (concat (map snd frames)))"
    and "length img = 8 + L" and "uint32 (sum_bytes img) = Checksum (FileImgHdr hdr)" and "0 < wr_len"
    and "custom_signed cell clean l addr L img"
  shows "\<exists>b1. OTU_FW_Update r l code_addr frames wr_len st = (0, OTA_Change l (if addr = OTA1_ADDR then OTA_INDEX_1 else OTA_INDEX_2) b1) \<and>
    cells (cell (chip b1)) a (8 + L) = img"
proof -
  obtain ret b' where up: "OTU_FW_Update r l code_addr frames wr_len st = (ret, b')" by fastforce
  note e = ota_flash.update_end [OF assms(1-6) up]
  show ?thesis using up e(1) e(3) [OF assms(9,7,8,10)] by auto
qed

theorem xmodem_good_image_installed_witness:
  "\<exists>b1. OTU_FW_Update nor_rom nor_lib 0x0800B020 demo_frames 1152 demo_xmodem = (0, OTA_Change nor_lib OTA_INDEX_2 b1) \<and>
     cells (array (chip b1)) 0x80000 1032 = demo_file_image"
proof -
  obtain b0 where b0: "first_frame nor_rom nor_lib 0x0800B020 (snd (hd demo_frames)) demo_xmodem demo_target 0x08080000 b0"
    using demo_first_frame demo_frames_ok(3) by auto
  show ?thesis
    using xmodem_good_image_installed [OF nor_ota.ota_flash_axioms demo_frames_ok(1) b0 demo_one_image refl refl, of 1152]
      demo_target_fields(4) demo_file_image_facts
    by (simp add: demo_frames_image uint32_def SPI_FLASH_BASE_def OTA1_ADDR_def)
qed

text \<open>
  C19: only a verified image is activated. For a first frame whose file header announces a single image and no RDP image, and
  later frames that do not have number 1, all of 1 to 1024 bytes: whatever they hold behind the header and wherever they end, if the update succeeds then
  the protocol handed over a whole image with the checksum of the header, and at the moment the boot index
  is changed the slot holds exactly this image. (The data of an RDP image goes to the sector in front of the second
  slot and can run into it: files with one are not covered.)
\<close>

theorem xmodem_only_verified_image_activated:
  assumes "ota_flash r cell clean l" and "frames_ok frames" and "first_frame r l code_addr (snd (hd frames)) st hdr addr b0"
    and "one_image hdr addr off L" and "a = addr - SPI_FLASH_BASE" and "img = take (8 + L) (drop off (concat (map snd frames)))"
    and "OTU_FW_Update r l code_addr frames wr_len st = (0, b')"
  shows "length img = 8 + L \<and> uint32 (sum_bytes img) = Checksum (FileImgHdr hdr) \<and>
    (\<exists>b1. b' = OTA_Change l (if addr = OTA1_ADDR then OTA_INDEX_1 else OTA_INDEX_2) b1 \<and> cells (cell (chip b1)) a (8 + L) = img)"
  using ota_flash.update_end(1) [OF assms(1-7)] by simp

theorem xmodem_only_verified_image_activated_witness:
  "uint32 (sum_bytes (take (8 + 1024) (drop 32 (concat (map snd demo_frames))))) = Checksum (FileImgHdr demo_target)"
proof -
  obtain b0 where b0: "first_frame nor_rom nor_lib 0x0800B020 (snd (hd demo_frames)) demo_xmodem demo_target 0x08080000 b0"
    using demo_first_frame demo_frames_ok(3) by auto
  obtain ret b' where up: "OTU_FW_Update nor_rom nor_lib 0x0800B020 demo_frames 1152 demo_xmodem = (ret, b')" by fastforce
  have "ret = 0"
    by (rule ota_flash.update_end(3) [OF nor_ota.ota_flash_axioms demo_frames_ok(1) b0 demo_one_image refl refl up])
      (use demo_target_fields(4) demo_file_image_facts in \<open>simp_all add: demo_frames_image uint32_def\<close>)
  then show ?thesis
    using xmodem_only_verified_image_activated [OF nor_ota.ota_flash_axioms demo_frames_ok(1) b0 demo_one_image refl refl] up by blast
qed

text \<open>
  C20: an image that was not installed cannot be booted. For a first frame whose file header announces a single image and no RDP
  image, and later frames that do not have number 1, all of 1 to 1024 bytes: whatever they hold behind the header and wherever the transfer
  breaks off, if the update does not succeed the eight signature bytes at the start of the slot are blank.
\<close>

theorem xmodem_failure_leaves_no_signature:
  assumes "ota_flash r cell clean l" and "frames_ok frames" and "first_frame r l code_addr (snd (hd frames)) st hdr addr b0"
    and "one_image hdr addr off L" and "a = addr - SPI_FLASH_BASE" and "OTU_FW_Update r l code_addr frames wr_len st = (ret, b')"
    and "ret \<noteq> 0" and "a \<le> x" and "x < a + 8"
  shows "cell (chip b') x = 0xFF"
  by (rule ota_flash.update_end(2) [OF assms(1-5) refl assms(6-9)])

theorem xmodem_failure_leaves_no_signature_witness:
  "\<exists>b'. OTU_FW_Update nor_rom nor_lib 0x0800B020 [(1, demo_first)] 1024 demo_xmodem = (1, b') \<and> array (chip b') 0x80007 = 0xFF"
proof -
  obtain b0 where b0: "first_frame nor_rom nor_lib 0x0800B020 (snd (hd [(1 :: int, demo_first)])) demo_xmodem demo_target 0x08080000 b0"
    using demo_first_frame by auto
  obtain ret b' where up: "OTU_FW_Update nor_rom nor_lib 0x0800B020 [(1, demo_first)] 1024 demo_xmodem = (ret, b')" by fastforce
  have "ret \<noteq> 0" using ota_flash.update_end(1) [OF nor_ota.ota_flash_axioms demo_frames_ok(2) b0 demo_one_image refl refl up] demo_blocks by auto
  moreover have "ret = 0 \<or> ret = 1"
    using up by (auto simp: OTU_FW_Update_def WriteImg2Sign_def Let_def split: if_splits prod.splits bool.splits)
  ultimately show ?thesis
    using xmodem_failure_leaves_no_signature [OF nor_ota.ota_flash_axioms demo_frames_ok(2) b0 demo_one_image refl up, of "0x80007"] up
    by (simp add: SPI_FLASH_BASE_def)
qed

end
