(* ===== verification/Calendar.thy ===== *)
theory Calendar
  imports RTL_Prelude
begin

text \<open>
  The Gregorian calendar as the reference for \<^verbatim>\<open>rtc_api.c\<close>: lengths of years and months, the number of a
  day counted from 1 January 1970, and the two routines of the C library that the code relies on,
  \<open>localtime\<close> and \<open>mktime\<close>, without a time zone. A \<open>time_t\<close> is an integer without bounds (its width is
  the C library's), and \<open>tm\<close> is the library's structure.
\<close>

record tm =
  tm_sec :: int
  tm_min :: int
  tm_hour :: int
  tm_mday :: int
  tm_mon :: int
  tm_year :: int
  tm_wday :: int
  tm_yday :: int

section \<open>Years and months\<close>

definition leap :: "int \<Rightarrow> bool" where
  "leap y \<longleftrightarrow> y mod 4 = 0 \<and> y mod 100 \<noteq> 0 \<or> y mod 400 = 0"

definition year_len :: "int \<Rightarrow> int" where
  "year_len y = (if leap y then 366 else 365)"

text \<open>Months are counted from 0.\<close>

definition month_len :: "int \<Rightarrow> int \<Rightarrow> int" where
  "month_len y m = (if m = 1 then if leap y then 29 else 28 else if m \<in> {3, 5, 8, 10} then 30 else 31)"

definition days_before_month :: "int \<Rightarrow> int \<Rightarrow> int" where
  "days_before_month y m = sum_list (map (month_len y) [0..m - 1])"

definition days_before_year :: "int \<Rightarrow> int" where
  "days_before_year y = sum_list (map year_len [1970..y - 1])"

text \<open>The number of a day; 1 January 1970, number 0, was a Thursday.\<close>

definition day_number :: "int \<Rightarrow> int \<Rightarrow> int \<Rightarrow> int" where
  "day_number y m d = days_before_year y + days_before_month y m + d - 1"

definition weekday :: "int \<Rightarrow> int" where
  "weekday n = (n + 4) mod 7"

lemma year_len_pos [simp]: "0 < year_len y" "365 \<le> year_len y" "year_len y \<le> 366"
  by (simp_all add: year_len_def)

lemma month_len_pos [simp]: "0 < month_len y m" "28 \<le> month_len y m" "month_len y m \<le> 31"
  by (simp_all add: month_len_def)

lemma upto_Suc: "a \<le> b \<Longrightarrow> [a..b] = [a..b - 1] @ [b]" for a b :: int
  by (simp add: upto_rec2)

lemma days_before_month_0 [simp]: "days_before_month y 0 = 0"
  by (simp add: days_before_month_def)

lemma days_before_month_Suc: "0 \<le> m \<Longrightarrow> days_before_month y (m + 1) = days_before_month y m + month_len y m"
  by (simp add: days_before_month_def upto_Suc)

lemma days_before_month_values:
  "days_before_month y 1 = 31" "days_before_month y 2 = 59 + (if leap y then 1 else 0)"
  "days_before_month y 3 = 90 + (if leap y then 1 else 0)" "days_before_month y 4 = 120 + (if leap y then 1 else 0)"
  "days_before_month y 5 = 151 + (if leap y then 1 else 0)" "days_before_month y 6 = 181 + (if leap y then 1 else 0)"
  "days_before_month y 7 = 212 + (if leap y then 1 else 0)" "days_before_month y 8 = 243 + (if leap y then 1 else 0)"
  "days_before_month y 9 = 273 + (if leap y then 1 else 0)" "days_before_month y 10 = 304 + (if leap y then 1 else 0)"
  "days_before_month y 11 = 334 + (if leap y then 1 else 0)" "days_before_month y 12 = year_len y"
  using days_before_month_Suc [of 0 y] days_before_month_Suc [of 1 y] days_before_month_Suc [of 2 y] days_before_month_Suc [of 3 y]
    days_before_month_Suc [of 4 y] days_before_month_Suc [of 5 y] days_before_month_Suc [of 6 y] days_before_month_Suc [of 7 y]
    days_before_month_Suc [of 8 y] days_before_month_Suc [of 9 y] days_before_month_Suc [of 10 y] days_before_month_Suc [of 11 y]
  by (simp_all add: month_len_def year_len_def)

lemma days_before_month_mono:
  assumes "0 \<le> m" and "m \<le> n"
  shows "days_before_month y m \<le> days_before_month y n"
  using assms(2)
proof (induction n rule: int_ge_induct)
  case (step i)
  then have "days_before_month y (i + 1) = days_before_month y i + month_len y i" using assms(1) by (intro days_before_month_Suc) simp
  then show ?case using step month_len_pos(1) [of y i] by linarith
qed simp

lemma days_before_month_nonneg: "0 \<le> m \<Longrightarrow> 0 \<le> days_before_month y m"
  using days_before_month_mono [of 0 m y] by simp

lemma days_before_year_1970 [simp]: "days_before_year 1970 = 0"
  by (simp add: days_before_year_def)

lemma days_before_year_Suc: "1970 \<le> y \<Longrightarrow> days_before_year (y + 1) = days_before_year y + year_len y"
  by (simp add: days_before_year_def upto_Suc)

lemma days_before_year_mono:
  assumes "1970 \<le> x" and "x \<le> y"
  shows "days_before_year x + 365 * (y - x) \<le> days_before_year y"
  using assms(2)
proof (induction y rule: int_ge_induct)
  case (step i)
  then have "days_before_year (i + 1) = days_before_year i + year_len i" using assms(1) by (intro days_before_year_Suc) simp
  then show ?case using step(2) year_len_pos(2) [of i] by (simp add: algebra_simps del: year_len_pos)
qed simp

text \<open>The rule of the leap years as a count.\<close>

lemma div_step:
  fixes y k :: int
  assumes "0 < k"
  shows "y div k = (y - 1) div k + (if y mod k = 0 then 1 else 0)"
proof (cases "y mod k = 0")
  case True
  have "(y - 1) div k = y div k - 1"
    by (rule int_div_pos_eq [where r = "k - 1"]) (use assms True mult_div_mod_eq [of k y] in \<open>auto simp: algebra_simps\<close>)
  then show ?thesis using True by simp
next
  case False
  have "0 \<le> y mod k" "y mod k < k" using assms by simp_all
  then have "(y - 1) div k = y div k"
    by (intro int_div_pos_eq [where r = "y mod k - 1"]) (use False mult_div_mod_eq [of k y] in auto)
  then show ?thesis using False by simp
qed

lemma hundreds: "i mod 100 = 0 \<Longrightarrow> i mod 4 = 0" "i mod 400 = 0 \<Longrightarrow> i mod 100 = 0" for i :: int
proof -
  have "100 dvd i \<Longrightarrow> 4 dvd i" "400 dvd i \<Longrightarrow> 100 dvd i" by (erule dvd_trans [rotated]; simp)+
  then show "i mod 100 = 0 \<Longrightarrow> i mod 4 = 0" "i mod 400 = 0 \<Longrightarrow> i mod 100 = 0" by (simp_all only: mod_eq_0_iff_dvd)
qed

lemma leap_count:
  "(B \<Longrightarrow> A) \<Longrightarrow> (C \<Longrightarrow> B) \<Longrightarrow>
     (if A \<and> \<not> B \<or> C then 366 else 365 :: int) = 365 + (if A then 1 else 0) - (if B then 1 else 0) + (if C then 1 else 0)"
  by auto

lemma closed_step:
  fixes a b :: int
  assumes "a = 365 * (i - 1970) + A - B + C - 477" and "l = 365 + x - y + z" and "b = a + l" and "A' = A + x" and "B' = B + y" and "C' = C + z"
  shows "b = 365 * (i + 1 - 1970) + A' - B' + C' - 477"
  using assms by simp

lemma days_before_year_closed:
  "1970 \<le> y \<Longrightarrow> days_before_year y = 365 * (y - 1970) + (y - 1) div 4 - (y - 1) div 100 + (y - 1) div 400 - 477"
proof (induction y rule: int_ge_induct)
  case (step i)
  have d: "i div 4 = (i - 1) div 4 + (if i mod 4 = 0 then 1 else 0)" "i div 100 = (i - 1) div 100 + (if i mod 100 = 0 then 1 else 0)"
    "i div 400 = (i - 1) div 400 + (if i mod 400 = 0 then 1 else 0)"
    by (rule div_step; simp)+
  have "year_len i = 365 + (if i mod 4 = 0 then 1 else 0) - (if i mod 100 = 0 then 1 else 0) + (if i mod 400 = 0 then 1 else 0)"
    unfolding year_len_def leap_def by (rule leap_count [OF hundreds])
  then have "days_before_year (i + 1) = 365 * (i + 1 - 1970) + i div 4 - i div 100 + i div 400 - 477"
    by (rule closed_step [OF step(2) _ days_before_year_Suc [OF step(1)] d])
  then show ?case by (simp only: add_diff_cancel_right')
qed simp

section \<open>\<open>localtime\<close> and \<open>mktime\<close>\<close>

text \<open>The year and the month of a day; \<open>d\<close> counts from the first day of the year or month at hand.\<close>

function year_of :: "int \<Rightarrow> int \<Rightarrow> int \<times> int" where
  "year_of y d = (if d < year_len y then (y, d) else year_of (y + 1) (d - year_len y))"
  by pat_completeness auto
termination
  by (relation "measure (\<lambda>(y, d). nat d)") (auto, smt (verit) year_len_pos)

function month_of :: "int \<Rightarrow> int \<Rightarrow> int \<Rightarrow> int \<times> int" where
  "month_of y m d = (if d < month_len y m then (m, d) else month_of y (m + 1) (d - month_len y m))"
  by pat_completeness auto
termination
  by (relation "measure (\<lambda>(y, m, d). nat d)") (auto, smt (verit) month_len_pos)

declare year_of.simps [simp del] month_of.simps [simp del]

text \<open>For times from 1970 on.\<close>

definition localtime :: "int \<Rightarrow> tm" where
  "localtime t =
     (let (y, yd) = year_of 1970 (t div 86400); (m, d) = month_of y 0 yd
      in \<lparr>tm_sec = t mod 60, tm_min = t div 60 mod 60, tm_hour = t div 3600 mod 24, tm_mday = d + 1, tm_mon = m,
          tm_year = y - 1900, tm_wday = weekday (t div 86400), tm_yday = yd\<rparr>)"

definition mktime :: "tm \<Rightarrow> int" where
  "mktime tm = 86400 * day_number (tm_year tm + 1900) (tm_mon tm) (tm_mday tm) + 3600 * tm_hour tm + 60 * tm_min tm + tm_sec tm"

lemma year_of_spec:
  "year_of y d = (y', d') \<Longrightarrow> 0 \<le> d \<Longrightarrow> 1970 \<le> y \<Longrightarrow>
     y \<le> y' \<and> 0 \<le> d' \<and> d' < year_len y' \<and> days_before_year y' + d' = days_before_year y + d"
proof (induction y d rule: year_of.induct)
  case (1 y d)
  show ?case
  proof (cases "d < year_len y")
    case False
    then have "y + 1 \<le> y' \<and> 0 \<le> d' \<and> d' < year_len y' \<and> days_before_year y' + d' = days_before_year (y + 1) + (d - year_len y)"
      using 1 by (subst (asm) year_of.simps) simp
    then show ?thesis using days_before_year_Suc [OF "1.prems"(3)] by simp
  qed (use 1 in \<open>simp add: year_of.simps\<close>)
qed

lemma month_of_spec:
  "month_of y m d = (m', d') \<Longrightarrow> 0 \<le> d \<Longrightarrow> 0 \<le> m \<Longrightarrow> m \<le> 11 \<Longrightarrow> days_before_month y m + d < year_len y \<Longrightarrow>
     m \<le> m' \<and> m' \<le> 11 \<and> 0 \<le> d' \<and> d' < month_len y m' \<and> days_before_month y m' + d' = days_before_month y m + d"
proof (induction y m d rule: month_of.induct)
  case (1 y m d)
  show ?case
  proof (cases "d < month_len y m")
    case False
    have suc: "days_before_month y (m + 1) = days_before_month y m + month_len y m" using "1.prems"(3) by (rule days_before_month_Suc)
    have "m \<noteq> 11" using "1.prems"(5) False suc days_before_month_values(12) [of y] by auto
    then have "m + 1 \<le> m' \<and> m' \<le> 11 \<and> 0 \<le> d' \<and> d' < month_len y m' \<and>
        days_before_month y m' + d' = days_before_month y (m + 1) + (d - month_len y m)"
      using 1 False suc by (intro "1.IH") (auto simp: month_of.simps [of y m d])
    then show ?thesis using suc by simp
  qed (use 1 in \<open>simp add: month_of.simps\<close>)
qed

lemma mod_div_split: "0 < c \<Longrightarrow> 0 < b \<Longrightarrow> t div b mod c = t mod (b * c) div b" for b c t :: int
  by (simp add: zmod_zmult2_eq)

lemma mult_num: "3600 * 24 = (86400 :: int)" "60 * 60 = (3600 :: int)"
  by simp_all

lemma localtime_spec:
  assumes "0 \<le> t"
  shows "70 \<le> tm_year (localtime t)" "0 \<le> tm_mon (localtime t)" "tm_mon (localtime t) \<le> 11" "1 \<le> tm_mday (localtime t)"
    "tm_mday (localtime t) \<le> month_len (tm_year (localtime t) + 1900) (tm_mon (localtime t))"
    "tm_yday (localtime t) = days_before_month (tm_year (localtime t) + 1900) (tm_mon (localtime t)) + tm_mday (localtime t) - 1"
    "0 \<le> tm_yday (localtime t)" "tm_yday (localtime t) < year_len (tm_year (localtime t) + 1900)"
    "day_number (tm_year (localtime t) + 1900) (tm_mon (localtime t)) (tm_mday (localtime t)) = t div 86400"
    "tm_wday (localtime t) = weekday (t div 86400)"
    "tm_hour (localtime t) = t mod 86400 div 3600" "tm_min (localtime t) = t mod 3600 div 60" "tm_sec (localtime t) = t mod 60"
proof -
  obtain y yd m d where yd: "year_of 1970 (t div 86400) = (y, yd)" "month_of y 0 yd = (m, d)" by fastforce
  have y: "1970 \<le> y" "0 \<le> yd" "yd < year_len y" "days_before_year y + yd = t div 86400"
    using year_of_spec [OF yd(1)] assms by simp_all
  have m: "0 \<le> m" "m \<le> 11" "0 \<le> d" "d < month_len y m" "days_before_month y m + d = yd"
    using month_of_spec [OF yd(2)] y(2,3) by simp_all
  have h: "t div 3600 mod 24 = t mod 86400 div 3600" "t div 60 mod 60 = t mod 3600 div 60"
    using mod_div_split [of 24 3600 t] mod_div_split [of 60 60 t] by (simp_all only: mult_num zero_less_numeral)
  have y': "y - 1900 + 1900 = y" by simp
  have lt: "localtime t = \<lparr>tm_sec = t mod 60, tm_min = t mod 3600 div 60, tm_hour = t mod 86400 div 3600, tm_mday = d + 1, tm_mon = m,
      tm_year = y - 1900, tm_wday = weekday (t div 86400), tm_yday = yd\<rparr>"
    unfolding localtime_def yd Let_def prod.case h ..
  show "70 \<le> tm_year (localtime t)" "0 \<le> tm_mon (localtime t)" "tm_mon (localtime t) \<le> 11" "1 \<le> tm_mday (localtime t)"
    "tm_mday (localtime t) \<le> month_len (tm_year (localtime t) + 1900) (tm_mon (localtime t))"
    "tm_yday (localtime t) = days_before_month (tm_year (localtime t) + 1900) (tm_mon (localtime t)) + tm_mday (localtime t) - 1"
    "0 \<le> tm_yday (localtime t)" "tm_yday (localtime t) < year_len (tm_year (localtime t) + 1900)"
    "day_number (tm_year (localtime t) + 1900) (tm_mon (localtime t)) (tm_mday (localtime t)) = t div 86400"
    "tm_wday (localtime t) = weekday (t div 86400)"
    "tm_hour (localtime t) = t mod 86400 div 3600" "tm_min (localtime t) = t mod 3600 div 60" "tm_sec (localtime t) = t mod 60"
    unfolding lt tm.select_convs y' day_number_def
    by ((insert y(1) m(3,4,5) y(4))[1], (linarith | rule m y refl)[1])+
qed

lemma hms: "86400 * (t div 86400) + 3600 * (t mod 86400 div 3600) + 60 * (t mod 3600 div 60) + t mod 60 = t" for t :: int
proof -
  have d: "(3600 :: int) dvd 86400" "(60 :: int) dvd 3600" by simp_all
  have "t mod 86400 mod 3600 = t mod 3600" "t mod 3600 mod 60 = t mod 60" by (rule mod_mod_cancel, rule d)+
  then show ?thesis
    using mult_div_mod_eq [of 86400 t] mult_div_mod_eq [of 3600 "t mod 86400"] mult_div_mod_eq [of 60 "t mod 3600"] by linarith
qed

lemma mktime_localtime: "0 \<le> t \<Longrightarrow> mktime (localtime t) = t"
  by (simp only: mktime_def localtime_spec(9,11,12,13) hms)

lemma day_number_year: "day_number y 0 1 = days_before_year y"
  by (simp add: day_number_def)

end
