(* ===== verification/Rtc.thy ===== *)
theory Rtc
  imports Calendar "HOL-Library.Signed_Division"
begin

text \<open>
  The real-time clock, \<^verbatim>\<open>component/common/mbed/targets/hal/rtl8711b/rtc_api.c\<close>. The peripheral counts days,
  hours, minutes and seconds; the year, the month and the day of the month are kept by the software in
  \<open>rtc_timeinfo\<close> and corrected when the clock is read. Before a software reset the year goes to a backup register.

  The peripheral, its interrupt and the backup register 0 are reached through ROM routines, which are the
  fields of \<open>rtc_rom\<close> over a hardware state \<open>'c\<close>. Also here: the initialisation at boot in
  \<^verbatim>\<open>soc/realtek/8711b/fwlib/ram_lib/startup.c\<close> and the software reset in \<^verbatim>\<open>sys_api.c\<close>.
\<close>

record RTC_TimeTypeDef =
  RTC_Days :: int
  RTC_Hours :: int
  RTC_Minutes :: int
  RTC_Seconds :: int
  RTC_H12_PMAM :: int

record RTC_AlarmTypeDef =
  RTC_AlarmTime :: RTC_TimeTypeDef
  RTC_AlarmMask :: u32
  RTC_Alarm2Mask :: u32

record alarm =
  alarm_yday :: int
  alarm_hour :: int
  alarm_min :: int
  alarm_sec :: int

definition RTC_H12_AM :: int where "RTC_H12_AM = 0"
definition RTC_AlarmMask_None :: u32 where "RTC_AlarmMask_None = 0"
definition RTC_Alarm2Mask_None :: u32 where "RTC_Alarm2Mask_None = 0"
definition RTC_AlarmMask_Hours :: u32 where "RTC_AlarmMask_Hours = 0x00800000"
definition RTC_AlarmMask_Minutes :: u32 where "RTC_AlarmMask_Minutes = 0x00008000"
definition RTC_Alarm2Mask_Days :: u32 where "RTC_Alarm2Mask_Days = 0x00000200"
definition BIT_RTC_RESTORE :: u32 where "BIT_RTC_RESTORE = 4"
definition BIT_RTC_BACKUP :: u32 where "BIT_RTC_BACKUP = 0xFF00"

record 'c rtc_rom =
  RTC_Start :: "'c \<Rightarrow> 'c"
  RTC_SetTime :: "RTC_TimeTypeDef \<Rightarrow> 'c \<Rightarrow> 'c"
  RTC_GetTime :: "'c \<Rightarrow> RTC_TimeTypeDef"
  RTC_SetAlarm :: "RTC_AlarmTypeDef \<Rightarrow> 'c \<Rightarrow> 'c"
  RTC_AlarmCmd :: "bool \<Rightarrow> 'c \<Rightarrow> 'c"
  RTC_AlarmClear :: "'c \<Rightarrow> 'c"
  RTC_IrqEnable :: "'c \<Rightarrow> 'c"
  RTC_IrqDisable :: "'c \<Rightarrow> 'c"
  BKUP_Read :: "'c \<Rightarrow> u32"
  BKUP_Write :: "u32 \<Rightarrow> 'c \<Rightarrow> 'c"
  BKUP_Set :: "u32 \<Rightarrow> 'c \<Rightarrow> 'c"
  BKUP_Clear :: "u32 \<Rightarrow> 'c \<Rightarrow> 'c"

text \<open>The static variables and the hardware. Alarm handlers are functions of the application, known by a number.\<close>

record 'c rtc =
  rtc_timeinfo :: tm
  rtc_en :: int
  rtc_alarm_handler :: "nat option"
  rtc_dev :: 'c

abbreviation map_dev :: "('c \<Rightarrow> 'c) \<Rightarrow> 'c rtc \<Rightarrow> 'c rtc" where
  "map_dev f st \<equiv> st\<lparr>rtc_dev := f (rtc_dev st)\<rparr>"

section \<open>The calendar of the code\<close>

definition dim :: "int list" where
  "dim = [31, 0, 31, 30, 31, 30, 31, 31, 30, 31, 30, 31]"

definition is_leap_year :: "int \<Rightarrow> bool" where
  "is_leap_year year =
     (let full_year = uint32 (year + 1900)
      in full_year mod 4 = 0 \<and> full_year mod 100 \<noteq> 0 \<or> full_year mod 400 = 0)"

text \<open>The arguments are bytes; \<open>None\<close>: an access outside the table.\<close>

definition days_in_month :: "int \<Rightarrow> int \<Rightarrow> int option" where
  "days_in_month month year =
     (let month = uint8 month; year = uint8 year
      in if 12 \<le> month then None
         else (let ret = dim ! nat month in Some (if ret = 0 then if is_leap_year year then 29 else 28 else ret)))"

partial_function (option) mday_loop :: "int \<Rightarrow> int \<Rightarrow> int \<Rightarrow> (int \<times> int) option" where
  "mday_loop year t_mon t_yday =
     (if t_yday > 0
      then (case days_in_month (t_mon + 1) year of
              None \<Rightarrow> None
            | Some n \<Rightarrow> mday_loop year (t_mon + 1) (t_yday - n))
      else Some (t_mon, t_yday))"

definition rtc_calculate_mday :: "int \<Rightarrow> int \<Rightarrow> (int \<times> int) option" where
  "rtc_calculate_mday year yday =
     (case mday_loop year (- 1) (yday + 1) of
        None \<Rightarrow> None
      | Some (t_mon, t_yday) \<Rightarrow> map_option (\<lambda>n. (t_mon, t_yday + n)) (days_in_month t_mon year))"

function raise_week :: "int \<Rightarrow> int" where
  "raise_week week = (if week < 0 then raise_week (week + 7) else week)"
  by pat_completeness auto
termination by (relation "measure (\<lambda>w. nat (- w))") auto

declare raise_week.simps [simp del]

definition rtc_calculate_wday :: "int \<Rightarrow> int \<Rightarrow> int \<Rightarrow> int" where
  "rtc_calculate_wday year mon mday =
     (let t_year = year + 1900; t_mon = mon + 1;
          (t_year, t_mon) = (if t_mon = 1 \<or> t_mon = 2 then (t_year - 1, t_mon + 12) else (t_year, t_mon));
          c = t_year sdiv 100; y = t_year smod 100;
          week = (c sdiv 4) - 2 * c + (y + y sdiv 4) + (26 * (t_mon + 1) sdiv 10) + mday - 1
      in raise_week week smod 7)"

section \<open>Reading and setting the clock\<close>

text \<open>After a reset: the year is in the backup register, the rest is worked out from the day count.\<close>

definition rtc_restore_timeinfo :: "'c rtc_rom \<Rightarrow> 'c rtc \<Rightarrow> 'c rtc option" where
  "rtc_restore_timeinfo r st =
     (let ts = RTC_GetTime r (rtc_dev st);
          value = BKUP_Read r (rtc_dev st);
          year = uint (drop_bit 8 (value AND BIT_RTC_BACKUP));
          yday = RTC_Days ts;
          days_in_year = (if is_leap_year year then 366 else 365);
          (year, yday, st) =
            (if uint32 yday > days_in_year - 1
             then (let yday = sint32 (yday - days_in_year)
                   in (year + 1, yday, map_dev (RTC_SetTime r (ts\<lparr>RTC_Days := uint16 yday\<rparr>)) st))
             else (year, yday, st))
      in (case rtc_calculate_mday year yday of
            None \<Rightarrow> None
          | Some (mon, mday) \<Rightarrow>
              Some (st\<lparr>rtc_timeinfo := \<lparr>tm_sec = RTC_Seconds ts, tm_min = RTC_Minutes ts, tm_hour = RTC_Hours ts,
                 tm_mday = mday, tm_mon = mon, tm_year = year, tm_wday = rtc_calculate_wday year mon mday, tm_yday = yday\<rparr>\<rparr>)))"

definition rtc_backup_timeinfo :: "'c rtc_rom \<Rightarrow> 'c rtc \<Rightarrow> 'c rtc" where
  "rtc_backup_timeinfo r st =
     (let value = BKUP_Read r (rtc_dev st);
          value = (value AND NOT BIT_RTC_BACKUP) OR push_bit 8 (word_of_int (tm_year (rtc_timeinfo st)))
      in map_dev (BKUP_Set r BIT_RTC_RESTORE) (map_dev (BKUP_Write r value) st))"

definition rtc_init :: "'c rtc_rom \<Rightarrow> 'c rtc \<Rightarrow> 'c rtc" where
  "rtc_init r st = (map_dev (RTC_Start r) st)\<lparr>rtc_en := 1\<rparr>"

definition rtc_free :: "'c rtc \<Rightarrow> 'c rtc" where
  "rtc_free st = st\<lparr>rtc_en := 0, rtc_alarm_handler := None\<rparr>"

definition rtc_isenabled :: "'c rtc \<Rightarrow> int" where
  "rtc_isenabled st = rtc_en st"

definition rtc_write :: "'c rtc_rom \<Rightarrow> int \<Rightarrow> 'c rtc \<Rightarrow> 'c rtc" where
  "rtc_write r t st =
     (let timeinfo = localtime t;
          ts = \<lparr>RTC_Days = uint16 (tm_yday timeinfo), RTC_Hours = uint8 (tm_hour timeinfo), RTC_Minutes = uint8 (tm_min timeinfo),
                RTC_Seconds = uint8 (tm_sec timeinfo), RTC_H12_PMAM = RTC_H12_AM\<rparr>
      in (map_dev (RTC_SetTime r ts) st)\<lparr>rtc_timeinfo := timeinfo\<rparr>)"

text \<open>
  The loop of \<open>rtc_read\<close> that carries days into months and months into years; \<open>ts\<close> is the time read from
  the peripheral, in which the day is corrected when a year is over.
\<close>

partial_function (option) read_loop :: "'c rtc_rom \<Rightarrow> tm \<Rightarrow> RTC_TimeTypeDef \<Rightarrow> 'c rtc \<Rightarrow> (tm \<times> 'c rtc) option" where
  "read_loop r tm ts st =
     (case days_in_month (tm_mon tm) (tm_year tm) of
        None \<Rightarrow> None
      | Some n \<Rightarrow>
          if tm_mday tm > n
          then (let tm = tm\<lparr>tm_mday := tm_mday tm - n, tm_mon := tm_mon tm + 1\<rparr>
                in if tm_mon tm \<ge> 12
                   then (let tm = tm\<lparr>tm_mon := tm_mon tm - 12,
                                     tm_yday := tm_yday tm - (if is_leap_year (tm_year tm) then 366 else 365),
                                     tm_year := tm_year tm + 1\<rparr>;
                             ts = ts\<lparr>RTC_Days := uint16 (tm_yday tm)\<rparr>
                         in read_loop r tm ts ((map_dev (RTC_SetTime r ts) st)\<lparr>rtc_timeinfo := tm\<rparr>))
                   else read_loop r tm ts st)
          else Some (tm, st))"

definition rtc_read :: "'c rtc_rom \<Rightarrow> 'c rtc \<Rightarrow> (int \<times> 'c rtc) option" where
  "rtc_read r st =
     (case (if BKUP_Read r (rtc_dev st) AND BIT_RTC_RESTORE \<noteq> 0
            then map_option (map_dev (BKUP_Clear r BIT_RTC_RESTORE)) (rtc_restore_timeinfo r st) else Some st) of
        None \<Rightarrow> None
      | Some st \<Rightarrow>
          (let ts = RTC_GetTime r (rtc_dev st);
               tm = (rtc_timeinfo st)\<lparr>tm_sec := RTC_Seconds ts, tm_min := RTC_Minutes ts, tm_hour := RTC_Hours ts\<rparr>;
               delta_days = uint32 (RTC_Days ts - tm_yday tm);
               wday = sint32 (tm_wday tm + delta_days);
               tm = tm\<lparr>tm_wday := if wday \<ge> 7 then wday smod 7 else wday,
                       tm_yday := sint32 (tm_yday tm + delta_days), tm_mday := sint32 (tm_mday tm + delta_days)\<rparr>
           in map_option (\<lambda>(tm, st). (mktime tm, st)) (read_loop r tm ts st)))"

section \<open>The alarm\<close>

definition rtc_disable_alarm :: "'c rtc_rom \<Rightarrow> 'c rtc \<Rightarrow> 'c rtc" where
  "rtc_disable_alarm r st = (map_dev (RTC_AlarmCmd r False) (map_dev (RTC_IrqDisable r) st))\<lparr>rtc_alarm_handler := None\<rparr>"

text \<open>\<open>handlers\<close> are the application's functions, which may call the routines of this file themselves.\<close>

definition rtc_alarm_intr_handler :: "'c rtc_rom \<Rightarrow> (nat \<Rightarrow> 'c rtc \<Rightarrow> 'c rtc) \<Rightarrow> 'c rtc \<Rightarrow> 'c rtc" where
  "rtc_alarm_intr_handler r handlers st =
     (let st = map_dev (RTC_AlarmClear r) st;
          st = (case rtc_alarm_handler st of None \<Rightarrow> st | Some h \<Rightarrow> handlers h st)
      in rtc_disable_alarm r st)"

definition rtc_set_alarm :: "'c rtc_rom \<Rightarrow> alarm \<Rightarrow> nat option \<Rightarrow> 'c rtc \<Rightarrow> int \<times> 'c rtc" where
  "rtc_set_alarm r alrm alarmHandler st =
     (let st = st\<lparr>rtc_alarm_handler := alarmHandler\<rparr>;
          a = \<lparr>RTC_AlarmTime = \<lparr>RTC_Days = uint16 (alarm_yday alrm), RTC_Hours = uint8 (alarm_hour alrm),
                 RTC_Minutes = uint8 (alarm_min alrm), RTC_Seconds = uint8 (alarm_sec alrm), RTC_H12_PMAM = RTC_H12_AM\<rparr>,
               RTC_AlarmMask = RTC_AlarmMask_None, RTC_Alarm2Mask = RTC_Alarm2Mask_None\<rparr>
      in (1, map_dev (RTC_IrqEnable r) (map_dev (RTC_AlarmCmd r True) (map_dev (RTC_SetAlarm r a) st))))"

section \<open>Reset and boot\<close>

text \<open>\<open>BOOT_RTC_Init\<close> of \<^verbatim>\<open>startup.c\<close>; the structures start from the documented defaults, all zero.\<close>

definition BOOT_RTC_Init :: "'c rtc_rom \<Rightarrow> 'c rtc \<Rightarrow> 'c rtc" where
  "BOOT_RTC_Init r st =
     (let st = map_dev (RTC_Start r) st;
          ts = RTC_GetTime r (rtc_dev st);
          zero = \<lparr>RTC_Days = 0, RTC_Hours = 0, RTC_Minutes = 0, RTC_Seconds = 0, RTC_H12_PMAM = RTC_H12_AM\<rparr>;
          st = (if RTC_Seconds ts = 0 \<and> RTC_Minutes ts = 0 then map_dev (RTC_SetTime r zero) st else st);
          a = \<lparr>RTC_AlarmTime = zero\<lparr>RTC_Days := 1, RTC_Hours := 1, RTC_Minutes := 1, RTC_Seconds := 30\<rparr>,
               RTC_AlarmMask = RTC_AlarmMask_Hours OR RTC_AlarmMask_Minutes, RTC_Alarm2Mask = RTC_Alarm2Mask_Days\<rparr>
      in map_dev (RTC_AlarmCmd r False) (map_dev (RTC_SetAlarm r a) st))"

text \<open>The static variables after the start of the program.\<close>

definition clear_statics :: "'c rtc \<Rightarrow> 'c rtc" where
  "clear_statics st = st\<lparr>rtc_timeinfo := \<lparr>tm_sec = 0, tm_min = 0, tm_hour = 0, tm_mday = 0, tm_mon = 0, tm_year = 0,
     tm_wday = 0, tm_yday = 0\<rparr>, rtc_en := 0, rtc_alarm_handler := None\<rparr>"

definition sys_reset :: "'c rtc_rom \<Rightarrow> 'c rtc \<Rightarrow> 'c rtc" where
  "sys_reset r st = BOOT_RTC_Init r (clear_statics (rtc_backup_timeinfo r st))"

end
