(* ===== verification/Rtc_Calendar.thy ===== *)
theory Rtc_Calendar
  imports Rtc
begin

text \<open>
  The calendar arithmetic of the code agrees with the reference: leap years, months, the day of the
  month from the day of the year, and the day of the week.
\<close>

lemma is_leap_year_leap: "0 \<le> y \<Longrightarrow> y < 2 ^ 31 \<Longrightarrow> is_leap_year y = leap (y + 1900)"
  by (simp add: is_leap_year_def leap_def uint32_id Let_def)

lemma year_days: "0 \<le> y \<Longrightarrow> y < 2 ^ 31 \<Longrightarrow> (if is_leap_year y then 366 else 365) = year_len (y + 1900)"
  by (simp add: is_leap_year_leap year_len_def)

lemma month_cases:
  assumes "0 \<le> (m :: int)" and "m \<le> 11"
  obtains "m = 0" | "m = 1" | "m = 2" | "m = 3" | "m = 4" | "m = 5" | "m = 6" | "m = 7" | "m = 8" | "m = 9" | "m = 10" | "m = 11"
proof -
  have "m = 0 \<or> m = 1 \<or> m = 2 \<or> m = 3 \<or> m = 4 \<or> m = 5 \<or> m = 6 \<or> m = 7 \<or> m = 8 \<or> m = 9 \<or> m = 10 \<or> m = 11"
    using assms by arith
  then show ?thesis using that by blast
qed

lemma dim_values:
  "dim ! 0 = 31" "dim ! Suc 0 = 0" "dim ! 2 = 31" "dim ! 3 = 30" "dim ! 4 = 31" "dim ! 5 = 30" "dim ! 6 = 31" "dim ! 7 = 31"
  "dim ! 8 = 30" "dim ! 9 = 31" "dim ! 10 = 30" "dim ! 11 = 31"
  by (simp_all add: dim_def)

lemma days_in_month_len:
  assumes "0 \<le> m" and "m \<le> 11" and "0 \<le> y" and "y \<le> 255"
  shows "days_in_month m y = Some (month_len (y + 1900) m)"
proof -
  have u: "uint8 m = m" "uint8 y = y" using assms by (simp_all add: uint8_def)
  have l: "is_leap_year y = leap (y + 1900)" using assms by (simp add: is_leap_year_leap)
  show ?thesis
    using assms(1,2) unfolding days_in_month_def u Let_def l
    by (cases rule: month_cases) (simp_all add: dim_values month_len_def)
qed

section \<open>The day of the month\<close>

lemma mday_loop_spec:
  assumes "0 \<le> m" and "m \<le> 11" and "0 \<le> y" and "y \<le> 255" and "0 < d" and "days_before_month (y + 1900) m + d \<le> year_len (y + 1900)"
  shows "\<exists>m' d'. mday_loop y (m - 1) d = Some (m', d') \<and> m \<le> m' \<and> m' \<le> 11 \<and> d' \<le> 0 \<and> - month_len (y + 1900) m' < d' \<and>
    days_before_month (y + 1900) (m' + 1) + d' = days_before_month (y + 1900) m + d"
  using assms
proof (induction "nat (11 - m)" arbitrary: m d rule: less_induct)
  case less
  let ?l = "month_len (y + 1900) m"
  have suc: "days_before_month (y + 1900) (m + 1) = days_before_month (y + 1900) m + ?l" using less.prems(1) by (rule days_before_month_Suc)
  have dm: "days_in_month m y = Some ?l" using less.prems by (intro days_in_month_len)
  then have step: "mday_loop y (m - 1) d = mday_loop y m (d - ?l)" using less.prems(5) by (subst mday_loop.simps) simp
  show ?case
  proof (cases "d \<le> ?l")
    case True
    then have "mday_loop y m (d - ?l) = Some (m, d - ?l)" by (subst mday_loop.simps) simp
    then show ?thesis using step True less.prems suc by auto
  next
    case False
    have "m \<noteq> 11" using False less.prems(6) suc days_before_month_values(12) [of "y + 1900"] by auto
    then have m: "0 \<le> m + 1" "m + 1 \<le> 11" "nat (11 - (m + 1)) < nat (11 - m)" using less.prems(1,2) by auto
    have "0 < d - ?l" "days_before_month (y + 1900) (m + 1) + (d - ?l) \<le> year_len (y + 1900)" using False less.prems(6) suc by auto
    then obtain m' d' where "mday_loop y (m + 1 - 1) (d - ?l) = Some (m', d')" "m + 1 \<le> m'" "m' \<le> 11" "d' \<le> 0"
      "- month_len (y + 1900) m' < d'"
      "days_before_month (y + 1900) (m' + 1) + d' = days_before_month (y + 1900) (m + 1) + (d - ?l)"
      using less.hyps [OF m(3,1,2) less.prems(3,4)] by blast
    then show ?thesis using step suc by auto
  qed
qed

lemma rtc_calculate_mday_spec:
  assumes "0 \<le> y" and "y \<le> 255" and "0 \<le> yd" and "yd < year_len (y + 1900)"
  shows "\<exists>mon mday. rtc_calculate_mday y yd = Some (mon, mday) \<and> 0 \<le> mon \<and> mon \<le> 11 \<and> 1 \<le> mday \<and>
    mday \<le> month_len (y + 1900) mon \<and> days_before_month (y + 1900) mon + mday - 1 = yd"
proof -
  have "days_before_month (y + 1900) 0 + (yd + 1) \<le> year_len (y + 1900)" using assms(4) by simp
  moreover have "(0 :: int) \<le> 0" "(0 :: int) \<le> 11" "0 < yd + 1" using assms(3) by auto
  ultimately obtain m d where m: "mday_loop y (0 - 1) (yd + 1) = Some (m, d)" "0 \<le> m" "m \<le> 11" "d \<le> 0" "- month_len (y + 1900) m < d"
    "days_before_month (y + 1900) (m + 1) + d = days_before_month (y + 1900) 0 + (yd + 1)"
    using mday_loop_spec [of 0 y "yd + 1"] assms(1,2) by blast
  have "rtc_calculate_mday y yd = Some (m, d + month_len (y + 1900) m)"
    using m(1) days_in_month_len [OF m(2,3) assms(1,2)] by (simp add: rtc_calculate_mday_def)
  then show ?thesis using m days_before_month_Suc [OF m(2), of "y + 1900"] by auto
qed

section \<open>The day of the week\<close>

lemma raise_week_mod: "0 \<le> raise_week w \<and> raise_week w mod 7 = w mod 7"
proof (induction w rule: raise_week.induct)
  case (1 w)
  then show ?case by (subst (1 2) raise_week.simps) simp
qed

text \<open>The congruence behind the formula: \<open>c\<close> is the century, \<open>y\<close> the year in it, both from March on.\<close>

lemma zeller_year:
  fixes Y :: int
  assumes "0 \<le> Y"
  shows "(Y div 100 div 4 - 2 * (Y div 100) + (Y mod 100 + Y mod 100 div 4)) mod 7 = (Y + Y div 4 - Y div 100 + Y div 400) mod 7"
proof -
  define c y where "c = Y div 100" and "y = Y mod 100"
  have Y: "Y = 4 * (25 * c) + y" by (simp add: c_def y_def)
  have "Y div 4 = 25 * c + y div 4" unfolding Y by simp
  moreover have "Y div 400 = c div 4" using zdiv_zmult2_eq [of 4 Y 100] by (simp add: c_def)
  moreover have "Y div 100 = c" by (simp add: c_def)
  ultimately have "Y + Y div 4 - Y div 100 + Y div 400 = (c div 4 - 2 * c + (y + y div 4)) + 7 * (18 * c)" using Y by linarith
  then have "(Y + Y div 4 - Y div 100 + Y div 400) mod 7 = (c div 4 - 2 * c + (y + y div 4)) mod 7"
    by (simp only: mod_mult_self2)
  then show ?thesis unfolding c_def y_def by (rule sym)
qed

lemma leap_years_before:
  "Z div 4 - Z div 100 + Z div 400 = (Z - 1) div 4 - (Z - 1) div 100 + (Z - 1) div 400 + (if leap Z then 1 else 0)" for Z :: int
proof -
  have d: "Z div 4 = (Z - 1) div 4 + (if Z mod 4 = 0 then 1 else 0)" "Z div 100 = (Z - 1) div 100 + (if Z mod 100 = 0 then 1 else 0)"
    "Z div 400 = (Z - 1) div 400 + (if Z mod 400 = 0 then 1 else 0)"
    by (rule div_step; simp)+
  show ?thesis unfolding d leap_def using hundreds [of Z] by auto
qed

lemma rtc_calculate_wday_spec:
  assumes "70 \<le> year" and "0 \<le> mon" and "mon \<le> 11"
  shows "rtc_calculate_wday year mon mday = weekday (day_number (year + 1900) mon mday)"
proof -
  define Y M where "Y = (if mon \<le> 1 then year + 1899 else year + 1900)" and "M = (if mon \<le> 1 then mon + 13 else mon + 1)"
  define week where "week = Y div 100 div 4 - 2 * (Y div 100) + (Y mod 100 + Y mod 100 div 4) + 26 * (M + 1) div 10 + mday - 1"
  have Y: "0 \<le> Y" and M: "0 \<le> M" using assms by (auto simp: Y_def M_def)
  have "rtc_calculate_wday year mon mday = raise_week week mod 7"
  proof -
    have "(if mon + 1 = 1 \<or> mon + 1 = 2 then (year + 1900 - 1, mon + 1 + 12) else (year + 1900, mon + 1)) = (Y, M)"
      using assms(2) by (auto simp: Y_def M_def)
    moreover have "Y sdiv 100 = Y div 100" "Y smod 100 = Y mod 100" "Y div 100 sdiv 4 = Y div 100 div 4" "Y mod 100 sdiv 4 = Y mod 100 div 4"
      "26 * (M + 1) sdiv 10 = 26 * (M + 1) div 10" "raise_week week smod 7 = raise_week week mod 7"
      using Y M raise_week_mod [of week]
      by (auto simp: signed_divide_int_def signed_modulo_int_def sgn_if modulo_int_def abs_if minus_mult_div_eq_mod pos_imp_zdiv_nonneg_iff)
    ultimately show ?thesis unfolding rtc_calculate_wday_def Let_def prod.case week_def by (simp only: prod.case)
  qed
  also have "\<dots> = week mod 7" using raise_week_mod by simp
  also have "\<dots> = (Y + Y div 4 - Y div 100 + Y div 400 + (26 * (M + 1) div 10 + mday - 1)) mod 7"
    using mod_add_cong [OF zeller_year [OF Y] refl, of "26 * (M + 1) div 10 + mday - 1"] by (simp add: week_def algebra_simps)
  finally have code: "rtc_calculate_wday year mon mday = \<dots>" .
  define Z S where "Z = year + 1900" and "S = Y div 4 - Y div 100 + Y div 400"
  have Z: "1970 \<le> Z" using assms(1) by (simp add: Z_def)
  define e k l where "e = (if mon \<le> 1 then 1 else 0 :: int)" and "k = 26 * (M + 1) div 10"
    and "l = (if mon \<le> 1 then days_before_month Z mon else days_before_month Z mon - (if leap Z then 1 else 0))"
  have YZ: "Y = Z - e" by (simp add: Y_def Z_def e_def)
  have K: "days_before_year Z + days_before_month Z mon = 365 * (Z - 1970) + S - 477 + l"
  proof -
    define D where "D = (Z - 1) div 4 - (Z - 1) div 100 + (Z - 1) div 400"
    have "days_before_year Z = 365 * (Z - 1970) + D - 477" using days_before_year_closed [OF Z] by (simp only: D_def add_diff_eq add.assoc diff_add_eq)
    moreover have "S = D + (if mon \<le> 1 then 0 else if leap Z then 1 else 0)"
    proof (cases "mon \<le> 1")
      case True
      then show ?thesis by (simp only: S_def YZ e_def D_def if_True)
    next
      case False
      then have "S = Z div 4 - Z div 100 + Z div 400" by (simp only: S_def YZ e_def if_False diff_zero)
      then show ?thesis using False leap_years_before [of Z] by (simp only: D_def if_False)
    qed
    ultimately show ?thesis by (simp add: l_def)
  qed
  have "(l + e - k) mod 7 = 0"
    using assms(2,3) by (cases rule: month_cases) (simp_all add: e_def k_def l_def M_def days_before_month_values)
  then obtain q where q: "l + e - k = 7 * q" by (metis mod_0_imp_dvd dvdE)
  have "days_before_year Z + days_before_month Z mon + mday - 1 + 4 = (Y + S + (k + mday - 1)) + 7 * (52 * Z - 102789 + q)"
    unfolding K YZ using q by (simp add: algebra_simps)
  then have "(Y + S + (26 * (M + 1) div 10 + mday - 1)) mod 7 = (days_before_year Z + days_before_month Z mon + mday - 1 + 4) mod 7"
    by (simp only: k_def mod_mult_self2)
  then show ?thesis unfolding code S_def weekday_def day_number_def Z_def by (simp add: algebra_simps)
qed

end
