(* ===== verification/Rtc_Clock.thy ===== *)
theory Rtc_Clock
  imports Rtc_Calendar
begin

text \<open>
  The clock as a whole. The contract of the peripheral is the locale \<open>rtc_device\<close>: a counter of seconds
  below 512 days, which \<open>elapse\<close> advances, and a backup register, both untouched by a reset. The lemmas
  show that the software keeps the true time through readings, settings and resets.
\<close>

section \<open>The peripheral\<close>

abbreviation day :: int where "day \<equiv> 86400"

definition time_at :: "int \<Rightarrow> RTC_TimeTypeDef" where
  "time_at s = \<lparr>RTC_Days = s div day, RTC_Hours = s mod day div 3600, RTC_Minutes = s mod day mod 3600 div 60,
     RTC_Seconds = s mod day mod 60, RTC_H12_PMAM = RTC_H12_AM\<rparr>"

lemma time_at_days: "(time_at s)\<lparr>RTC_Days := d\<rparr> = time_at (day * d + s mod day)"
  by (simp add: time_at_def)

lemma time_at_fields: "3600 * RTC_Hours (time_at s) + 60 * RTC_Minutes (time_at s) + RTC_Seconds (time_at s) = s mod day"
proof -
  have "(60 :: int) dvd 3600" by simp
  then have "s mod day mod 3600 mod 60 = s mod day mod 60" by (rule mod_mod_cancel)
  then show ?thesis
    unfolding time_at_def RTC_TimeTypeDef.select_convs
    using mult_div_mod_eq [of 3600 "s mod day"] mult_div_mod_eq [of 60 "s mod day mod 3600"] by linarith
qed

locale rtc_device =
  fixes r :: "'c rtc_rom" and clock :: "'c \<Rightarrow> int" and bkup :: "'c \<Rightarrow> u32" and elapse :: "nat \<Rightarrow> 'c \<Rightarrow> 'c"
  assumes clock_range: "0 \<le> clock c" "clock c < 512 * day"
    and get: "RTC_GetTime r c = time_at (clock c)"
    and set_clock: "0 \<le> s \<Longrightarrow> s < 512 * day \<Longrightarrow> clock (RTC_SetTime r (time_at s) c) = s"
    and start_clock [simp]: "clock (RTC_Start r c) = clock c"
    and alarm_clock [simp]: "clock (RTC_SetAlarm r a c) = clock c" "clock (RTC_AlarmCmd r e c) = clock c"
    and bkup_clock [simp]: "clock (BKUP_Write r v c) = clock c" "clock (BKUP_Set r m c) = clock c" "clock (BKUP_Clear r m c) = clock c"
    and elapse_clock: "clock c + int n < 512 * day \<Longrightarrow> clock (elapse n c) = clock c + int n"
    and rtc_bkup [simp]: "bkup (RTC_Start r c) = bkup c" "bkup (RTC_SetTime r t c) = bkup c" "bkup (RTC_SetAlarm r a c) = bkup c"
      "bkup (RTC_AlarmCmd r e c) = bkup c" "bkup (elapse n c) = bkup c"
    and bkup_read [simp]: "BKUP_Read r c = bkup c" "bkup (BKUP_Write r v c) = v" "bkup (BKUP_Set r m c) = bkup c OR m"
      "bkup (BKUP_Clear r m c) = bkup c AND NOT m"

section \<open>What the software knows\<close>

definition tm_ok :: "tm \<Rightarrow> bool" where
  "tm_ok tm \<longleftrightarrow> 70 \<le> tm_year tm \<and> 0 \<le> tm_mon tm \<and> tm_mon tm \<le> 11 \<and> 1 \<le> tm_mday tm \<and>
     tm_yday tm = days_before_month (tm_year tm + 1900) (tm_mon tm) + tm_mday tm - 1 \<and>
     tm_wday tm = weekday (day_number (tm_year tm + 1900) (tm_mon tm) (tm_mday tm))"

text \<open>The true time \<open>T\<close> from \<open>rtc_timeinfo\<close> and the counter, and from the backup register and the counter.\<close>

definition known :: "('c \<Rightarrow> int) \<Rightarrow> 'c rtc \<Rightarrow> int \<Rightarrow> bool" where
  "known clock st T \<longleftrightarrow> tm_ok (rtc_timeinfo st) \<and> tm_yday (rtc_timeinfo st) \<le> clock (rtc_dev st) div day \<and>
     T = day * days_before_year (tm_year (rtc_timeinfo st) + 1900) + clock (rtc_dev st)"

definition saved_year :: "u32 \<Rightarrow> int" where
  "saved_year v = uint (drop_bit 8 (v AND BIT_RTC_BACKUP))"

definition saved :: "('c \<Rightarrow> int) \<Rightarrow> ('c \<Rightarrow> u32) \<Rightarrow> 'c rtc \<Rightarrow> int \<Rightarrow> bool" where
  "saved clock bkup st T \<longleftrightarrow> 70 \<le> saved_year (bkup (rtc_dev st)) \<and>
     T = day * days_before_year (saved_year (bkup (rtc_dev st)) + 1900) + clock (rtc_dev st)"

text \<open>The end of the year 2155, the last one whose number fits the code's byte.\<close>

definition end_of_time :: int where "end_of_time = day * days_before_year 2156"

lemma year_bound:
  assumes "day * days_before_year (y + 1900) \<le> T" and "T < end_of_time" and "70 \<le> y"
  shows "y \<le> 255"
proof (rule ccontr)
  assume "\<not> y \<le> 255"
  then have "days_before_year 2156 + 365 * (y + 1900 - 2156) \<le> days_before_year (y + 1900)" by (intro days_before_year_mono) auto
  then show False using assms(1,2) \<open>\<not> y \<le> 255\<close> by (simp add: end_of_time_def)
qed

lemma yday_nonneg: "tm_ok tm \<Longrightarrow> 0 \<le> tm_yday tm \<and> tm_mday tm \<le> tm_yday tm + 1"
  using days_before_month_nonneg [of "tm_mon tm" "tm_year tm + 1900"] by (auto simp: tm_ok_def)

text \<open>A date with the day within its month has its day within the year.\<close>

lemma yday_year:
  assumes "tm_ok tm" and "tm_mday tm \<le> month_len (tm_year tm + 1900) (tm_mon tm)"
  shows "tm_yday tm < year_len (tm_year tm + 1900)"
proof -
  have "days_before_month (tm_year tm + 1900) (tm_mon tm + 1) \<le> days_before_month (tm_year tm + 1900) 12"
    using assms(1) by (intro days_before_month_mono) (auto simp: tm_ok_def)
  then show ?thesis
    using assms days_before_month_Suc [of "tm_mon tm" "tm_year tm + 1900"] days_before_month_values(12) [of "tm_year tm + 1900"]
    by (auto simp: tm_ok_def)
qed

lemma mktime_ok: "tm_ok tm \<Longrightarrow> mktime tm = day * (days_before_year (tm_year tm + 1900) + tm_yday tm) + 3600 * tm_hour tm + 60 * tm_min tm + tm_sec tm"
  by (simp add: mktime_def day_number_def tm_ok_def)

text \<open>The two steps of the loop of \<open>rtc_read\<close>: into the next month, and into the next year.\<close>

lemma next_month:
  assumes "tm_ok tm" and "tm_mon tm < 11" and "month_len (tm_year tm + 1900) (tm_mon tm) < tm_mday tm"
  shows "tm_ok (tm\<lparr>tm_mday := tm_mday tm - month_len (tm_year tm + 1900) (tm_mon tm), tm_mon := tm_mon tm + 1\<rparr>)"
  using assms days_before_month_Suc [of "tm_mon tm" "tm_year tm + 1900"] by (auto simp: tm_ok_def day_number_def algebra_simps)

lemma next_year:
  assumes "tm_ok tm" and "tm_mon tm = 11" and "month_len (tm_year tm + 1900) (tm_mon tm) < tm_mday tm"
  shows "tm_ok (tm\<lparr>tm_mday := tm_mday tm - month_len (tm_year tm + 1900) (tm_mon tm), tm_mon := 0,
    tm_yday := tm_yday tm - year_len (tm_year tm + 1900), tm_year := tm_year tm + 1\<rparr>)"
  using assms days_before_month_Suc [of 11 "tm_year tm + 1900"] days_before_month_values(12) [of "tm_year tm + 1900"]
    days_before_year_Suc [of "tm_year tm + 1900"]
  by (auto simp: tm_ok_def day_number_def add.commute add.left_commute)

section \<open>Reading\<close>

context rtc_device
begin

lemma read_loop_spec:
  assumes "tm_ok tm" and "tm_yday tm = clock (rtc_dev st) div day" and "ts = time_at (clock (rtc_dev st))"
    and "T = day * days_before_year (tm_year tm + 1900) + clock (rtc_dev st)" and "T < end_of_time" and "known clock st T"
  shows "\<exists>tm' st'. read_loop r tm ts st = Some (tm', st') \<and> tm_ok tm' \<and> tm_mday tm' \<le> month_len (tm_year tm' + 1900) (tm_mon tm') \<and>
    tm_yday tm' = clock (rtc_dev st') div day \<and> T = day * days_before_year (tm_year tm' + 1900) + clock (rtc_dev st') \<and>
    (tm_hour tm', tm_min tm', tm_sec tm') = (tm_hour tm, tm_min tm, tm_sec tm) \<and>
    clock (rtc_dev st') mod day = clock (rtc_dev st) mod day \<and> known clock st' T \<and> bkup (rtc_dev st') = bkup (rtc_dev st)"
  using assms
proof (induction "nat (tm_mday tm)" arbitrary: tm ts st rule: less_induct)
  case less
  let ?c = "clock (rtc_dev st)"
  have ok: "70 \<le> tm_year tm" "0 \<le> tm_mon tm" "tm_mon tm \<le> 11" "1 \<le> tm_mday tm" using less.prems(1) by (auto simp: tm_ok_def)
  have y: "tm_year tm \<le> 255" using year_bound [OF _ less.prems(5) ok(1)] less.prems(4) clock_range(1) by simp
  define n where "n = month_len (tm_year tm + 1900) (tm_mon tm)"
  have dm: "days_in_month (tm_mon tm) (tm_year tm) = Some n" using days_in_month_len ok y by (simp add: n_def)
  have n: "0 < n" by (simp add: n_def)
  show ?case
  proof (cases "tm_mday tm \<le> n")
    case True
    then have "read_loop r tm ts st = Some (tm, st)" by (subst read_loop.simps) (simp add: dm)
    then show ?thesis using less.prems True by (simp add: n_def)
  next
    case False
    then have lt: "n < tm_mday tm" "nat (tm_mday tm - n) < nat (tm_mday tm)" using n ok(4) by auto
    show ?thesis
    proof (cases "tm_mon tm = 11")
      case False
      let ?tm = "tm\<lparr>tm_mday := tm_mday tm - n, tm_mon := tm_mon tm + 1\<rparr>"
      have "tm_ok ?tm" using next_month [OF less.prems(1)] False ok(3) lt(1) by (simp add: n_def)
      moreover have "read_loop r tm ts st = read_loop r ?tm ts st"
        using lt(1) False ok(3) by (subst read_loop.simps) (simp add: dm)
      ultimately show ?thesis using less.hyps [of ?tm st ts] lt(2) less.prems(2-6) by simp
    next
      case True
      let ?l = "year_len (tm_year tm + 1900)" and ?tm = "tm\<lparr>tm_mday := tm_mday tm - n, tm_mon := 0,
        tm_yday := tm_yday tm - year_len (tm_year tm + 1900), tm_year := tm_year tm + 1\<rparr>"
      have ok': "tm_ok ?tm" using next_year [OF less.prems(1) True] lt(1) by (simp add: n_def)
      then have yd: "0 \<le> tm_yday tm - ?l" using yday_nonneg by fastforce
      have yu: "tm_yday tm - ?l < 512" using less.prems(2) clock_range(2) [of "rtc_dev st"] year_len_pos(1) [of "tm_year tm + 1900"] by linarith
      define c where "c = day * (tm_yday tm - ?l) + ?c mod day"
      have c: "0 \<le> c" "c < 512 * day" using yd yu pos_mod_sign [of day ?c] pos_mod_bound [of day ?c] by (simp_all add: c_def)
      let ?ts = "ts\<lparr>RTC_Days := uint16 (tm_yday ?tm)\<rparr>"
      let ?st = "(map_dev (RTC_SetTime r ?ts) st)\<lparr>rtc_timeinfo := ?tm\<rparr>"
      have ts: "?ts = time_at c" using yd yu less.prems(3) by (simp add: uint16_def time_at_days c_def)
      have cs: "clock (rtc_dev ?st) = c" using set_clock [OF c] ts by simp
      have leap: "(if is_leap_year (tm_year tm) then 366 else 365) = ?l" using year_days [of "tm_year tm"] ok(1) y by simp
      have step: "read_loop r tm ts st = read_loop r ?tm ?ts ?st"
        using lt(1) True by (subst read_loop.simps) (simp add: dm [unfolded True] Let_def leap)
      have "day * ?l + c = ?c" using less.prems(2) mult_div_mod_eq [of day ?c] by (simp add: c_def algebra_simps)
      then have T: "T = day * days_before_year (tm_year ?tm + 1900) + clock (rtc_dev ?st)"
        using less.prems(4) days_before_year_Suc [of "tm_year tm + 1900"] ok(1) unfolding cs by (simp add: algebra_simps)
      have yday: "tm_yday ?tm = clock (rtc_dev ?st) div day" unfolding cs by (simp add: c_def)
      have k: "known clock ?st T" using ok' yday T by (simp add: known_def)
      have sz: "nat (tm_mday ?tm) < nat (tm_mday tm)" using lt(2) by simp
      have "clock (rtc_dev ?st) mod day = ?c mod day" "bkup (rtc_dev ?st) = bkup (rtc_dev st)" unfolding cs c_def by (simp_all only: mod_mult_self4 mod_mod_trivial) simp
      then show ?thesis
        using less.hyps [OF sz ok' yday _ T less.prems(5) k, of ?ts] ts unfolding step cs by simp
    qed
  qed
qed

text \<open>The days that passed are added to the date kept; then the loop brings it back into its month.\<close>

lemma add_days:
  assumes "tm_ok tm" and "0 \<le> d" and "d < 512" and "tm_mday tm \<le> 512" and "tm_yday tm \<le> 511"
  shows "tm_ok (tm\<lparr>tm_wday := if sint32 (tm_wday tm + d) \<ge> 7 then sint32 (tm_wday tm + d) smod 7 else sint32 (tm_wday tm + d),
    tm_yday := sint32 (tm_yday tm + d), tm_mday := sint32 (tm_mday tm + d)\<rparr>)"
proof -
  define w where "w = day_number (tm_year tm + 1900) (tm_mon tm) (tm_mday tm)"
  have w: "tm_wday tm = (w + 4) mod 7" using assms(1) by (simp add: tm_ok_def weekday_def w_def)
  then have wr: "0 \<le> tm_wday tm" "tm_wday tm < 7" by simp_all
  have wd: "sint32 (tm_wday tm + d) = tm_wday tm + d" using wr assms(2,3) by (simp add: sint32_id)
  have y: "0 \<le> tm_yday tm" using yday_nonneg [OF assms(1)] by simp
  have m: "1 \<le> tm_mday tm" using assms(1) by (simp add: tm_ok_def)
  have s: "sint32 (tm_yday tm + d) = tm_yday tm + d" "sint32 (tm_mday tm + d) = tm_mday tm + d"
    using y m assms(2-5) by (simp_all add: sint32_id)
  have "(if tm_wday tm + d \<ge> 7 then (tm_wday tm + d) smod 7 else tm_wday tm + d) = (tm_wday tm + d) mod 7"
    using wr assms(2) by (simp add: signed_modulo_int_def)
  also have "\<dots> = weekday (w + d)" unfolding w weekday_def mod_add_left_eq by (simp add: ac_simps)
  finally show ?thesis using assms(1) m assms(2) unfolding wd s by (simp add: tm_ok_def w_def day_number_def algebra_simps)
qed

lemma rtc_read_known:
  assumes "known clock st T" and "T < end_of_time" and "bkup (rtc_dev st) AND BIT_RTC_RESTORE = 0"
  shows "\<exists>st'. rtc_read r st = Some (T, st') \<and> known clock st' T \<and> bkup (rtc_dev st') = bkup (rtc_dev st) \<and>
    clock (rtc_dev st') < 366 * day"
proof -
  let ?c = "clock (rtc_dev st)" and ?ti = "rtc_timeinfo st"
  define ts where "ts = time_at ?c"
  define tm0 where "tm0 = ?ti\<lparr>tm_sec := RTC_Seconds ts, tm_min := RTC_Minutes ts, tm_hour := RTC_Hours ts\<rparr>"
  define d where "d = ?c div day - tm_yday ?ti"
  have ok0: "tm_ok tm0" using assms(1) by (simp add: known_def tm_ok_def tm0_def)
  have f0: "tm_yday tm0 = tm_yday ?ti" "tm_year tm0 = tm_year ?ti" by (simp_all add: tm0_def)
  have y: "0 \<le> tm_yday tm0" "tm_mday tm0 \<le> tm_yday tm0 + 1" using yday_nonneg [OF ok0] by simp_all
  have cd: "?c div day < 512" using clock_range(2) [of "rtc_dev st"] by simp
  have d: "0 \<le> d" "d < 512" "tm_yday tm0 \<le> 511" "tm_mday tm0 \<le> 512"
    using assms(1) cd y f0 by (auto simp: known_def d_def)
  define tm1 where "tm1 = tm0\<lparr>tm_wday := if sint32 (tm_wday tm0 + d) \<ge> 7 then sint32 (tm_wday tm0 + d) smod 7 else sint32 (tm_wday tm0 + d),
    tm_yday := sint32 (tm_yday tm0 + d), tm_mday := sint32 (tm_mday tm0 + d)\<rparr>"
  have ok1: "tm_ok tm1" unfolding tm1_def by (rule add_days [OF ok0 d(1,2,4,3)])
  have y1: "tm_yday tm1 = ?c div day" using y(1) cd d f0 by (simp add: tm1_def d_def sint32_id)
  have T1: "T = day * days_before_year (tm_year tm1 + 1900) + ?c" using assms(1) by (simp add: known_def tm1_def f0)
  obtain tm2 st2 where l: "read_loop r tm1 ts st = Some (tm2, st2)" "tm_ok tm2" "tm_mday tm2 \<le> month_len (tm_year tm2 + 1900) (tm_mon tm2)"
    "tm_yday tm2 = clock (rtc_dev st2) div day" "T = day * days_before_year (tm_year tm2 + 1900) + clock (rtc_dev st2)"
    "(tm_hour tm2, tm_min tm2, tm_sec tm2) = (tm_hour tm1, tm_min tm1, tm_sec tm1)"
    "clock (rtc_dev st2) mod day = ?c mod day" "known clock st2 T" "bkup (rtc_dev st2) = bkup (rtc_dev st)"
    using read_loop_spec [OF ok1 y1 ts_def T1 assms(2,1)] by blast
  have "3600 * tm_hour tm2 + 60 * tm_min tm2 + tm_sec tm2 = clock (rtc_dev st2) mod day"
    using l(6,7) time_at_fields [of ?c] by (simp add: tm1_def tm0_def ts_def)
  then have T: "mktime tm2 = T"
    using mult_div_mod_eq [of day "clock (rtc_dev st2)"] unfolding mktime_ok [OF l(2)] l(4) l(5) distrib_left by linarith
  have rd: "rtc_read r st = Some (T, st2)"
  proof -
    have dd: "uint32 (RTC_Days ts - tm_yday ?ti) = d" using d by (simp add: d_def ts_def time_at_def uint32_id)
    have "rtc_read r st = map_option (\<lambda>(tm, st). (mktime tm, st)) (read_loop r tm1 ts st)"
      using assms(3) unfolding rtc_read_def bkup_read(1) by (simp add: Let_def get ts_def [symmetric] dd tm1_def tm0_def)
    then show ?thesis by (simp add: l(1) T)
  qed
  have "clock (rtc_dev st2) div day < 366" using yday_year [OF l(2,3)] l(4) year_len_pos(3) [of "tm_year tm2 + 1900"] by linarith
  then have "clock (rtc_dev st2) < 366 * day" by simp
  then show ?thesis using rd l(8,9) by blast
qed

end

section \<open>The backup register\<close>

lemma bit_backup: "bit BIT_RTC_BACKUP n \<longleftrightarrow> 8 \<le> n \<and> n < 16"
proof -
  have b: "BIT_RTC_BACKUP = push_bit 8 (mask 8)" by (simp add: BIT_RTC_BACKUP_def mask_eq_exp_minus_1)
  show ?thesis unfolding b by (simp only: bit_push_bit_iff bit_mask_iff) auto
qed

lemma bit_restore: "bit BIT_RTC_RESTORE n \<longleftrightarrow> n = 2"
proof -
  have b: "BIT_RTC_RESTORE = push_bit 2 1" by (simp add: BIT_RTC_RESTORE_def)
  show ?thesis unfolding b by (simp only: bit_push_bit_iff bit_1_iff) auto
qed

lemma saved_year_range: "0 \<le> saved_year v \<and> saved_year v \<le> 255"
proof -
  have "drop_bit 8 (v AND BIT_RTC_BACKUP) = take_bit 8 (drop_bit 8 v)"
    by (rule bit_word_eqI) (auto simp: bit_simps bit_backup)
  then have "saved_year v = take_bit 8 (uint (drop_bit 8 v))" by (simp add: saved_year_def unsigned_take_bit_eq)
  then show ?thesis by (simp add: take_bit_eq_mod)
qed

lemma saved_year_written:
  assumes "0 \<le> y" and "y \<le> 255"
  shows "saved_year (((v AND NOT BIT_RTC_BACKUP) OR push_bit 8 (word_of_int y)) OR BIT_RTC_RESTORE) = y"
proof -
  define z where "z = (word_of_int y :: u32)"
  have z: "uint z = y" using assms by (simp add: z_def word_of_int_inverse)
  have "z = take_bit 8 z"
  proof (rule word_uint_eqI)
    show "uint z = uint (take_bit 8 z)" using assms unfolding unsigned_take_bit_eq z by (simp add: take_bit_eq_mod)
  qed
  then have hi: "bit z n \<Longrightarrow> n < 8" for n by (metis bit_take_bit_iff)
  have "drop_bit 8 ((((v AND NOT BIT_RTC_BACKUP) OR push_bit 8 z) OR BIT_RTC_RESTORE) AND BIT_RTC_BACKUP) = z"
    by (rule bit_word_eqI) (auto simp: bit_simps bit_backup bit_restore dest: hi bit_imp_le_length)
  then show ?thesis by (simp add: saved_year_def z flip: z_def)
qed

lemma restore_bit: "(v OR BIT_RTC_RESTORE) AND BIT_RTC_RESTORE \<noteq> 0" "(v AND NOT BIT_RTC_RESTORE) AND BIT_RTC_RESTORE = 0"
proof -
  have "(v OR BIT_RTC_RESTORE) AND BIT_RTC_RESTORE = BIT_RTC_RESTORE" by (rule bit_word_eqI) (auto simp: bit_simps)
  then show "(v OR BIT_RTC_RESTORE) AND BIT_RTC_RESTORE \<noteq> 0" by (simp add: BIT_RTC_RESTORE_def)
  show "(v AND NOT BIT_RTC_RESTORE) AND BIT_RTC_RESTORE = 0" by (rule bit_word_eqI) (auto simp: bit_simps)
qed

section \<open>Setting, resetting and restoring\<close>

context rtc_device
begin

lemma rtc_write_known:
  assumes "0 \<le> t"
  shows "known clock (rtc_write r t st) t" "clock (rtc_dev (rtc_write r t st)) < 366 * day"
    "bkup (rtc_dev (rtc_write r t st)) = bkup (rtc_dev st)"
proof -
  let ?l = "localtime t"
  note l = localtime_spec [OF assms]
  have yd: "0 \<le> tm_yday ?l" "tm_yday ?l < 366" using l(7,8) year_len_pos(3) [of "tm_year ?l + 1900"] by linarith+
  define c where "c = day * tm_yday ?l + t mod day"
  have c: "0 \<le> c" "c < 366 * day" using yd pos_mod_sign [of day t] pos_mod_bound [of day t] by (simp_all add: c_def)
  have cm: "c div day = tm_yday ?l" "c mod day = t mod day" by (simp_all add: c_def)
  have d: "(3600 :: int) dvd day" "(60 :: int) dvd day" by simp_all
  have mm: "t mod day mod 3600 = t mod 3600" "t mod day mod 60 = t mod 60" by (rule mod_mod_cancel, rule d)+
  have r: "0 \<le> t mod day div 3600" "t mod day div 3600 < 24" "0 \<le> t mod 3600 div 60" "t mod 3600 div 60 < 60"
    using pos_mod_bound [of day t] pos_mod_bound [of 3600 t] by auto
  have ts: "\<lparr>RTC_Days = uint16 (tm_yday ?l), RTC_Hours = uint8 (tm_hour ?l), RTC_Minutes = uint8 (tm_min ?l),
      RTC_Seconds = uint8 (tm_sec ?l), RTC_H12_PMAM = RTC_H12_AM\<rparr> = time_at c"
    using yd r unfolding time_at_def cm mm l(11,12,13) uint16_def uint8_def by simp
  have cs: "clock (rtc_dev (rtc_write r t st)) = c" using set_clock [of c] c ts by (simp add: rtc_write_def Let_def)
  show "clock (rtc_dev (rtc_write r t st)) < 366 * day" using cs c by simp
  show "bkup (rtc_dev (rtc_write r t st)) = bkup (rtc_dev st)" by (simp add: rtc_write_def Let_def)
  have ti: "rtc_timeinfo (rtc_write r t st) = ?l" by (simp add: rtc_write_def Let_def)
  have ok: "tm_ok ?l" using l by (simp add: tm_ok_def)
  have "days_before_year (tm_year ?l + 1900) + tm_yday ?l = t div day" using l(6,9) by (simp add: day_number_def)
  then have "t = day * days_before_year (tm_year ?l + 1900) + c"
    using mult_div_mod_eq [of day t] unfolding c_def by (metis distrib_left add.assoc)
  then show "known clock (rtc_write r t st) t" unfolding known_def ti cs cm using ok by simp
qed

lemma rtc_restore_known:
  assumes "saved clock bkup st T" and "T < end_of_time"
  shows "\<exists>st'. rtc_restore_timeinfo r st = Some st' \<and> known clock st' T \<and> bkup (rtc_dev st') = bkup (rtc_dev st)"
proof -
  let ?c = "clock (rtc_dev st)"
  define y where "y = saved_year (bkup (rtc_dev st))"
  define ts where "ts = time_at ?c"
  have y: "70 \<le> y" "y \<le> 255" "T = day * days_before_year (y + 1900) + ?c"
    using assms(1) saved_year_range by (auto simp: saved_def y_def)
  have yu: "uint (drop_bit 8 (bkup (rtc_dev st) AND BIT_RTC_BACKUP)) = y" by (simp add: y_def saved_year_def)
  have days: "RTC_Days ts = ?c div day" "0 \<le> ?c div day" "?c div day < 512"
    using clock_range [of "rtc_dev st"] by (simp_all add: ts_def time_at_def)
  let ?l = "year_len (y + 1900)"
  have leap: "(if is_leap_year y then 366 else 365) = ?l" using year_days y by simp
  define over where "over = (?c div day > ?l - 1)"
  define y' yd where "y' = (if over then y + 1 else y)" and "yd = (if over then ?c div day - ?l else ?c div day)"
  define c where "c = day * yd + ?c mod day"
  define st1 where "st1 = (if over then map_dev (RTC_SetTime r (time_at c)) st else st)"
  have yl: "365 \<le> ?l" "?l \<le> 366" by simp_all
  then have "?c div day - ?l < 365" using days(3) by linarith
  then have yd: "0 \<le> yd" "yd < 365 \<or> \<not> over \<and> yd < ?l" using days by (auto simp: yd_def over_def)
  then have "0 \<le> yd" "yd < 512" using yl(2) by linarith+
  then have c: "0 \<le> c" "c < 512 * day" using pos_mod_sign [of day ?c] pos_mod_bound [of day ?c] unfolding c_def by linarith+
  have c1: "clock (rtc_dev st1) = c"
  proof (cases over)
    case False
    then show ?thesis using mult_div_mod_eq [of day ?c] by (simp add: st1_def c_def yd_def)
  qed (use set_clock [OF c] in \<open>simp add: st1_def\<close>)
  have T: "T = day * days_before_year (y' + 1900) + c"
    using y(1,3) days_before_year_Suc [of "y + 1900"] mult_div_mod_eq [of day ?c]
    by (auto simp: y'_def c_def yd_def algebra_simps)
  have "days_before_year (y' + 1900) * day \<le> T" using T c by simp
  then have y'r: "70 \<le> y'" "y' \<le> 255" using year_bound [of y' T] assms(2) y(1) by (auto simp: y'_def mult.commute)
  have ydl: "yd < year_len (y' + 1900)"
  proof (cases over)
    case True
    then show ?thesis using yd(2) year_len_pos(2) [of "y' + 1900"] by (auto simp del: year_len_pos)
  qed (use yd(2) year_len_pos(2) [of "y' + 1900"] in \<open>auto simp: y'_def simp del: year_len_pos\<close>)
  obtain mon mday where m: "rtc_calculate_mday y' yd = Some (mon, mday)" "0 \<le> mon" "mon \<le> 11" "1 \<le> mday"
    "days_before_month (y' + 1900) mon + mday - 1 = yd"
    using rtc_calculate_mday_spec [of y' yd] y'r yd(1) ydl by auto
  have w: "rtc_calculate_wday y' mon mday = weekday (day_number (y' + 1900) mon mday)" using rtc_calculate_wday_spec y'r(1) m(2,3) by blast
  let ?ti = "\<lparr>tm_sec = RTC_Seconds ts, tm_min = RTC_Minutes ts, tm_hour = RTC_Hours ts, tm_mday = mday, tm_mon = mon, tm_year = y',
    tm_wday = rtc_calculate_wday y' mon mday, tm_yday = yd\<rparr>"
  have "rtc_restore_timeinfo r st = Some (st1\<lparr>rtc_timeinfo := ?ti\<rparr>)"
  proof -
    have "over \<Longrightarrow> ?c div day - ?l = yd" by (simp add: yd_def)
    then have u16: "over \<Longrightarrow> uint16 (?c div day - ?l) = yd" using \<open>yd < 512\<close> yd(1) by (simp add: uint16_def)
    have "uint32 (?c div day) = ?c div day" using days by (simp add: uint32_id)
    moreover have "sint32 (?c div day - ?l) = ?c div day - ?l" using days yl by (intro sint32_id) (simp_all del: year_len_pos)
    moreover have "over \<Longrightarrow> ts\<lparr>RTC_Days := uint16 (?c div day - ?l)\<rparr> = time_at c"
      by (simp only: u16 ts_def time_at_days c_def)
    ultimately have "(if uint32 (RTC_Days ts) > (if is_leap_year y then 366 else 365) - 1
        then let yday = sint32 (RTC_Days ts - (if is_leap_year y then 366 else 365))
             in (y + 1, yday, map_dev (RTC_SetTime r (ts\<lparr>RTC_Days := uint16 yday\<rparr>)) st)
        else (y, RTC_Days ts, st)) = (y', yd, st1)"
      unfolding leap days(1) Let_def by (auto simp: over_def y'_def yd_def st1_def)
    then show ?thesis
      unfolding rtc_restore_timeinfo_def bkup_read(1) yu get ts_def [symmetric] Let_def by (simp add: m(1))
  qed
  moreover have "known clock (st1\<lparr>rtc_timeinfo := ?ti\<rparr>) T"
    using m(2-5) w y'r(1) T c1 by (simp add: known_def tm_ok_def c_def)
  ultimately show ?thesis by (simp add: st1_def)
qed

lemma rtc_read_saved:
  assumes "saved clock bkup st T" and "T < end_of_time" and "bkup (rtc_dev st) AND BIT_RTC_RESTORE \<noteq> 0"
  shows "\<exists>st'. rtc_read r st = Some (T, st') \<and> known clock st' T \<and> bkup (rtc_dev st') AND BIT_RTC_RESTORE = 0 \<and>
    clock (rtc_dev st') < 366 * day"
proof -
  obtain st1 where st1: "rtc_restore_timeinfo r st = Some st1" "known clock st1 T" "bkup (rtc_dev st1) = bkup (rtc_dev st)"
    using rtc_restore_known [OF assms(1,2)] by blast
  define st2 where "st2 = map_dev (BKUP_Clear r BIT_RTC_RESTORE) st1"
  have k: "known clock st2 T" using st1(2) by (simp add: st2_def known_def)
  have b: "bkup (rtc_dev st2) AND BIT_RTC_RESTORE = 0" by (simp add: st2_def restore_bit)
  have "rtc_read r st = rtc_read r st2"
    using assms(3) st1(1) b unfolding rtc_read_def by (simp add: st2_def [symmetric])
  then show ?thesis using rtc_read_known [OF k assms(2) b] b by auto
qed

lemma sys_reset_saved:
  assumes "known clock st T" and "T < end_of_time" and "T mod 3600 \<noteq> 0"
  shows "saved clock bkup (sys_reset r st) T" "bkup (rtc_dev (sys_reset r st)) AND BIT_RTC_RESTORE \<noteq> 0"
    "clock (rtc_dev (sys_reset r st)) = clock (rtc_dev st)"
proof -
  let ?c = "clock (rtc_dev st)" and ?y = "tm_year (rtc_timeinfo st)"
  have k: "70 \<le> ?y" "T = day * days_before_year (?y + 1900) + ?c" using assms(1) by (auto simp: known_def tm_ok_def)
  have y: "?y \<le> 255" using year_bound [OF _ assms(2) k(1)] k(2) clock_range(1) by simp
  have "T mod 3600 = ?c mod 3600"
  proof -
    have "T = 3600 * (24 * days_before_year (?y + 1900)) + ?c" using k(2) by simp
    then show ?thesis by (simp only: mod_mult_self4)
  qed
  then have no: "\<not> (RTC_Seconds (time_at ?c) = 0 \<and> RTC_Minutes (time_at ?c) = 0)"
  proof (intro notI)
    assume "RTC_Seconds (time_at ?c) = 0 \<and> RTC_Minutes (time_at ?c) = 0"
    then have "?c mod day = 3600 * RTC_Hours (time_at ?c)" using time_at_fields [of ?c] by simp
    then have "?c mod day mod 3600 = 0" by (simp only: mod_mult_self1_is_0)
    moreover have "?c mod day mod 3600 = ?c mod 3600" by (rule mod_mod_cancel) simp
    ultimately show False using assms(3) \<open>T mod 3600 = ?c mod 3600\<close> by simp
  qed
  define st1 where "st1 = clear_statics (rtc_backup_timeinfo r st)"
  have c1: "clock (rtc_dev st1) = ?c" by (simp add: st1_def clear_statics_def rtc_backup_timeinfo_def Let_def)
  have b1: "bkup (rtc_dev st1) = ((bkup (rtc_dev st) AND NOT BIT_RTC_BACKUP) OR push_bit 8 (word_of_int ?y)) OR BIT_RTC_RESTORE"
    by (simp add: st1_def clear_statics_def rtc_backup_timeinfo_def Let_def)
  have s: "sys_reset r st = BOOT_RTC_Init r st1" by (simp add: sys_reset_def st1_def)
  have cb: "clock (rtc_dev (BOOT_RTC_Init r st1)) = ?c" "bkup (rtc_dev (BOOT_RTC_Init r st1)) = bkup (rtc_dev st1)"
    using no by (auto simp: BOOT_RTC_Init_def Let_def get c1)
  have sy: "saved_year (bkup (rtc_dev (sys_reset r st))) = ?y"
    unfolding s cb(2) b1 using k(1) y by (intro saved_year_written) auto
  show "saved clock bkup (sys_reset r st) T" unfolding saved_def sy using k by (simp add: s cb)
  show "bkup (rtc_dev (sys_reset r st)) AND BIT_RTC_RESTORE \<noteq> 0" unfolding s cb(2) b1 by (rule restore_bit)
  show "clock (rtc_dev (sys_reset r st)) = ?c" by (simp add: s cb)
qed

end

end
