(* ===== verification/Rtc_Props.thy ===== *)
theory Rtc_Props
  imports Rtc_Clock
begin

text \<open>
  The properties of the real-time clock, over \<^verbatim>\<open>rtc_api.c\<close>, \<open>sys_reset\<close> and \<open>BOOT_RTC_Init\<close>, and a model of
  the peripheral on which its contract holds.
\<close>

section \<open>A peripheral\<close>

record rtc_chip =
  counter :: int
  backup :: u32
  alarm_set :: RTC_AlarmTypeDef
  alarm_on :: bool

definition chip_clock :: "rtc_chip \<Rightarrow> int" where
  "chip_clock c = counter c mod (512 * day)"

definition chip_rom :: "rtc_chip rtc_rom" where
  "chip_rom = \<lparr>RTC_Start = (\<lambda>c. c),
     RTC_SetTime = (\<lambda>t c. c\<lparr>counter := day * RTC_Days t + 3600 * RTC_Hours t + 60 * RTC_Minutes t + RTC_Seconds t\<rparr>),
     RTC_GetTime = (\<lambda>c. time_at (chip_clock c)), RTC_SetAlarm = (\<lambda>a c. c\<lparr>alarm_set := a\<rparr>), RTC_AlarmCmd = (\<lambda>e c. c\<lparr>alarm_on := e\<rparr>),
     RTC_AlarmClear = (\<lambda>c. c), RTC_IrqEnable = (\<lambda>c. c), RTC_IrqDisable = (\<lambda>c. c), BKUP_Read = backup,
     BKUP_Write = (\<lambda>v c. c\<lparr>backup := v\<rparr>), BKUP_Set = (\<lambda>m c. c\<lparr>backup := backup c OR m\<rparr>),
     BKUP_Clear = (\<lambda>m c. c\<lparr>backup := backup c AND NOT m\<rparr>)\<rparr>"

definition chip_elapse :: "nat \<Rightarrow> rtc_chip \<Rightarrow> rtc_chip" where
  "chip_elapse n c = c\<lparr>counter := counter c + int n\<rparr>"

lemma time_at_counter:
  "day * RTC_Days (time_at s) + 3600 * RTC_Hours (time_at s) + 60 * RTC_Minutes (time_at s) + RTC_Seconds (time_at s) = s"
proof -
  have "day * RTC_Days (time_at s) + s mod day = s" using mult_div_mod_eq [of day s] by (simp add: time_at_def)
  then show ?thesis using time_at_fields [of s] by linarith
qed

interpretation rtc_hw: rtc_device chip_rom chip_clock backup chip_elapse
proof (unfold_locales, goal_cases)
  case (11 c n)
  have "(counter c + int n) mod (512 * day) = (chip_clock c + int n) mod (512 * day)"
    by (simp only: chip_clock_def mod_add_left_eq)
  also have "\<dots> = chip_clock c + int n" using 11 by (intro mod_pos_pos_trivial) (simp_all add: chip_clock_def)
  finally show ?case by (simp add: chip_clock_def chip_elapse_def)
next
  case (4 s c)
  then show ?case by (simp add: chip_rom_def chip_clock_def time_at_counter)
qed (simp_all add: chip_rom_def chip_clock_def chip_elapse_def)

section \<open>Keeping the time\<close>

text \<open>What can happen: time passes, the clock is read or set, the system is reset.\<close>

datatype rtc_event = Elapse nat | Read | Write int | Reset

text \<open>The values that the readings return.\<close>

fun rtc_run :: "'c rtc_rom \<Rightarrow> (nat \<Rightarrow> 'c \<Rightarrow> 'c) \<Rightarrow> rtc_event list \<Rightarrow> 'c rtc \<Rightarrow> int list option" where
  "rtc_run r elapse [] st = Some []"
| "rtc_run r elapse (Elapse n # es) st = rtc_run r elapse es (map_dev (elapse n) st)"
| "rtc_run r elapse (Read # es) st =
     (case rtc_read r st of None \<Rightarrow> None | Some (t, st) \<Rightarrow> map_option ((#) t) (rtc_run r elapse es st))"
| "rtc_run r elapse (Write t # es) st = rtc_run r elapse es (rtc_write r t st)"
| "rtc_run r elapse (Reset # es) st = rtc_run r elapse es (sys_reset r st)"

text \<open>The specification: a clock is a number.\<close>

fun true_times :: "int \<Rightarrow> rtc_event list \<Rightarrow> int list" where
  "true_times t [] = []"
| "true_times t (Elapse n # es) = true_times (t + int n) es"
| "true_times t (Read # es) = t # true_times t es"
| "true_times t (Write u # es) = true_times u es"
| "true_times t (Reset # es) = true_times t es"

text \<open>
  The use the code supports. \<open>fresh\<close>: the clock was read or set since the last reset; \<open>g\<close>: all the seconds
  since the last reading or setting, at most 146 days in total, a reset does not start them anew; no reset in the first second of an hour, none before the clock was
  read after the one before, and no setting between a reset and the first reading.
\<close>

fun supported :: "bool \<Rightarrow> int \<Rightarrow> int \<Rightarrow> rtc_event list \<Rightarrow> bool" where
  "supported fresh g t [] \<longleftrightarrow> True"
| "supported fresh g t (Elapse n # es) \<longleftrightarrow> g + int n \<le> 146 * day \<and> t + int n < end_of_time \<and> supported fresh (g + int n) (t + int n) es"
| "supported fresh g t (Read # es) \<longleftrightarrow> supported True 0 t es"
| "supported fresh g t (Write u # es) \<longleftrightarrow> fresh \<and> 0 \<le> u \<and> u < end_of_time \<and> supported True 0 u es"
| "supported fresh g t (Reset # es) \<longleftrightarrow> fresh \<and> t mod 3600 \<noteq> 0 \<and> supported False g t es"

context rtc_device
begin

definition in_step :: "bool \<Rightarrow> int \<Rightarrow> int \<Rightarrow> 'c rtc \<Rightarrow> bool" where
  "in_step fresh g T st \<longleftrightarrow> T < end_of_time \<and> clock (rtc_dev st) < 366 * day + g \<and>
     (if fresh then bkup (rtc_dev st) AND BIT_RTC_RESTORE = 0 \<and> known clock st T
      else bkup (rtc_dev st) AND BIT_RTC_RESTORE \<noteq> 0 \<and> saved clock bkup st T)"

lemma in_step_elapse:
  assumes "in_step fresh g T st" and "g + int n \<le> 146 * day" and "T + int n < end_of_time"
  shows "in_step fresh (g + int n) (T + int n) (map_dev (elapse n) st)"
proof -
  have c: "clock (elapse n (rtc_dev st)) = clock (rtc_dev st) + int n"
    using assms(1,2) by (intro elapse_clock) (auto simp: in_step_def)
  have "clock (rtc_dev st) div day \<le> (clock (rtc_dev st) + int n) div day" by (intro zdiv_mono1) simp_all
  then show ?thesis using assms(1,3) by (auto simp: in_step_def c known_def saved_def)
qed

lemma in_step_read:
  assumes "in_step fresh g T st"
  shows "\<exists>st'. rtc_read r st = Some (T, st') \<and> in_step True 0 T st'"
  using assms rtc_read_known [of st T] rtc_read_saved [of st T] unfolding in_step_def by (cases fresh) auto

lemma run_true:
  "in_step fresh g T st \<Longrightarrow> supported fresh g T es \<Longrightarrow> rtc_run r elapse es st = Some (true_times T es)"
proof (induction fresh g T es arbitrary: st rule: supported.induct)
  case (2 fresh g t n es)
  then show ?case using in_step_elapse by simp
next
  case (3 fresh g t es)
  obtain st' where "rtc_read r st = Some (t, st')" "in_step True 0 t st'" using in_step_read [OF "3.prems"(1)] by blast
  then show ?case using 3 by simp
next
  case (4 fresh g t u es)
  have "in_step True 0 u (rtc_write r u st)" using 4 rtc_write_known [of u st] by (auto simp: in_step_def)
  then show ?case using 4 by simp
next
  case (5 fresh g t es)
  then have "in_step False g t (sys_reset r st)" using sys_reset_saved [of st t] by (auto simp: in_step_def)
  then show ?case using 5 by simp
qed simp

end

text \<open>
  C9: the clock keeps the time. From a setting of the clock on that is made while no restoration of the date is pending
  (the flag in the backup register is clear), in every sequence of readings, settings,
  software resets and pauses, each reading returns the true time, across the
  ends of months and years, although the peripheral counts days only and everything else is lost in a
  reset but the year in the backup register. Between one reading or setting and the next at most 146 days may pass in
  total, the pauses before and after a reset counted together: the peripheral's day counter has nine bits. The sequence
  must not reset in the first second of an hour, nor
  twice without a reading in between, nor set the clock between a reset and the first reading; all times
  lie from 1970 on and before 2156. Times are seconds since 1970 without a bound (a \<open>time_t\<close> of 32 bits with sign would end in
  2038), and \<open>localtime\<close> and \<open>mktime\<close> are taken without a time zone.
\<close>

theorem rtc_keeps_time:
  assumes "rtc_device r clock bkup elapse" and "0 \<le> t" and "t < end_of_time" and "bkup (rtc_dev st) AND BIT_RTC_RESTORE = 0"
    and "supported True 0 t es"
  shows "rtc_run r elapse es (rtc_write r t st) = Some (true_times t es)"
proof -
  show ?thesis using rtc_device.run_true [OF assms(1) _ assms(5)] rtc_device.rtc_write_known [OF assms(1,2), of st] assms(3,4)
    by (auto simp: rtc_device.in_step_def [OF assms(1)])
qed

definition demo_clock :: "rtc_chip rtc" where
  "demo_clock = \<lparr>rtc_timeinfo = localtime 0, rtc_en = 1, rtc_alarm_handler = None,
     rtc_dev = \<lparr>counter = 0, backup = 0, alarm_set = \<lparr>RTC_AlarmTime = time_at 0, RTC_AlarmMask = 0, RTC_Alarm2Mask = 0\<rparr>, alarm_on = False\<rparr>\<rparr>"

lemma end_of_time_value: "end_of_time = 5869584000"
  by (simp add: end_of_time_def days_before_year_closed)

text \<open>From 31 December 2023, 12:00:01, over the end of the year and through a reset in the leap year.\<close>

theorem rtc_keeps_time_witness:
  "rtc_run chip_rom chip_elapse [Elapse 86400, Read, Reset, Elapse 10000000, Read] (rtc_write chip_rom 1704024001 demo_clock) =
     Some [1704110401, 1714110401]"
  using rtc_keeps_time [OF rtc_hw.rtc_device_axioms, of 1704024001 demo_clock "[Elapse 86400, Read, Reset, Elapse 10000000, Read]"]
  by (simp add: end_of_time_value demo_clock_def)

text \<open>
  Two resets without a reading in between lose the year. The first reset saves the year and clears
  the static variables; the second one saves the cleared year, 0, whatever it was, so that the next
  reading restores a date of 1900 or 1901.
\<close>

theorem rtc_second_reset_loses_year:
  assumes "rtc_device r clock bkup elapse" and "rtc_restore_timeinfo r (sys_reset r (sys_reset r st)) = Some st'"
  shows "saved_year (bkup (rtc_dev (sys_reset r (sys_reset r st)))) = 0 \<and> tm_year (rtc_timeinfo st') \<in> {0, 1}"
proof -
  have b: "bkup (rtc_dev (sys_reset r s)) =
      ((bkup (rtc_dev s) AND NOT BIT_RTC_BACKUP) OR push_bit 8 (word_of_int (tm_year (rtc_timeinfo s)))) OR BIT_RTC_RESTORE" for s
    by (simp add: sys_reset_def BOOT_RTC_Init_def clear_statics_def rtc_backup_timeinfo_def Let_def rtc_device.rtc_bkup [OF assms(1)]
        rtc_device.bkup_read [OF assms(1)])
  have "tm_year (rtc_timeinfo (sys_reset r st)) = 0"
    by (simp add: sys_reset_def BOOT_RTC_Init_def clear_statics_def Let_def)
  then have y: "saved_year (bkup (rtc_dev (sys_reset r (sys_reset r st)))) = 0"
    unfolding b [of "sys_reset r st"] using saved_year_written [of 0] by simp
  moreover have "tm_year (rtc_timeinfo st') \<in> {0, 1}"
    using y assms(2) unfolding rtc_restore_timeinfo_def rtc_device.bkup_read(1) [OF assms(1)] saved_year_def [symmetric]
    by (auto simp: Let_def split: option.splits if_splits)
  ultimately show ?thesis ..
qed

theorem rtc_second_reset_loses_year_witness:
  "\<exists>st'. rtc_restore_timeinfo chip_rom (sys_reset chip_rom (sys_reset chip_rom (rtc_write chip_rom 1704024001 demo_clock))) = Some st' \<and>
     tm_year (rtc_timeinfo st') \<in> {0, 1}"
proof -
  let ?s = "sys_reset chip_rom (sys_reset chip_rom (rtc_write chip_rom 1704024001 demo_clock))"
  have m: "rtc_calculate_mday 0 364 \<noteq> None" using rtc_calculate_mday_spec [of 0 364] by (auto simp: year_len_def leap_def)
  have "(case rtc_restore_timeinfo chip_rom ?s of None \<Rightarrow> False | Some _ \<Rightarrow> True)"
    by (code_simp, use m in \<open>auto simp: rtc_calculate_mday_def split: option.splits\<close>)
  then have "rtc_restore_timeinfo chip_rom ?s \<noteq> None" by (cases "rtc_restore_timeinfo chip_rom ?s") auto
  then show ?thesis using rtc_second_reset_loses_year [OF rtc_hw.rtc_device_axioms] by blast
qed

section \<open>The calendar\<close>

text \<open>
  C13: the day of the week is right. The congruence with century and year of the century that
  \<open>rtc_calculate_wday\<close> computes gives for every date from 1970 on the weekday that counting the days from
  Thursday, 1 January 1970 gives, with the leap years of the Gregorian calendar.
\<close>

theorem rtc_wday_is_weekday:
  assumes "70 \<le> year" and "0 \<le> mon" and "mon \<le> 11"
  shows "rtc_calculate_wday year mon mday = weekday (day_number (year + 1900) mon mday)"
  by (rule rtc_calculate_wday_spec [OF assms])

theorem rtc_wday_is_weekday_witness: "rtc_calculate_wday 124 1 29 = 4"
  using rtc_wday_is_weekday [of 124 1 29]
  by (simp add: weekday_def day_number_def days_before_year_closed days_before_month_values)

text \<open>
  The date comes back from the day of the year. For every date of the years 1900 to 2155 the
  subtraction of month lengths in \<open>rtc_calculate_mday\<close>, started with the number of days before the date in
  its year, ends inside the table of months with the month and the day.
\<close>

theorem rtc_mday_of_yday:
  assumes "0 \<le> y" and "y \<le> 255" and "0 \<le> mon" and "mon \<le> 11" and "1 \<le> mday" and "mday \<le> month_len (y + 1900) mon"
  shows "rtc_calculate_mday y (days_before_month (y + 1900) mon + mday - 1) = Some (mon, mday)"
proof -
  let ?b = "days_before_month (y + 1900)"
  have nxt: "?b (m + 1) = ?b m + month_len (y + 1900) m" "?b 12 = year_len (y + 1900)" if "0 \<le> m" for m
    using that by (simp_all add: days_before_month_Suc days_before_month_values)
  have mono: "?b (m + 1) \<le> ?b n" if "0 \<le> m" "m < n" for m n using that by (intro days_before_month_mono) auto
  have "?b (mon + 1) \<le> ?b 12" using assms(3,4) by (intro days_before_month_mono) auto
  then have "0 \<le> ?b mon + mday - 1" "?b mon + mday - 1 < year_len (y + 1900)"
    using nxt [OF assms(3)] assms(5,6) days_before_month_nonneg [OF assms(3), of "y + 1900"] by linarith+
  then obtain m d where m: "rtc_calculate_mday y (?b mon + mday - 1) = Some (m, d)" "0 \<le> m" "m \<le> 11" "1 \<le> d"
    "d \<le> month_len (y + 1900) m" "?b m + d = ?b mon + mday"
    using rtc_calculate_mday_spec [OF assms(1,2)] by fastforce
  have "\<not> m < mon" using mono [of m mon] nxt(1) [OF m(2)] m(2,5,6) assms(5) by auto
  moreover have "\<not> mon < m" using mono [of mon m] nxt(1) [OF assms(3)] m(4,6) assms(3,6) by auto
  ultimately show ?thesis using m(1,6) by simp
qed

theorem rtc_mday_of_yday_witness: "rtc_calculate_mday 124 59 = Some (1, 29)"
  using rtc_mday_of_yday [of 124 1 29] by (simp add: days_before_month_values month_len_def leap_def)

end
