(* ===== verification/At_Log.thy ===== *)
theory At_Log
  imports Memory
begin

text \<open>
  The log service, \<^verbatim>\<open>component/common/api/at_cmd/log_service.c\<close>, which takes the AT commands typed on the
  console: the table of commands, hashed by name, the dispatch of a line to the action of its command,
  and the splitting of the parameters. The configuration is the one of \<^verbatim>\<open>project/inc/platform_opts.h\<close>
  (lines of 100 characters, no history, no interactive mode) and GNU C (\<open>char\<close> unsigned, \<open>_strsep\<close>).

  Strings are lists of characters without the terminator. Actions are functions of the other command
  files, known by a number. The buckets are the intrusive lists of \<^verbatim>\<open>dlist.h\<close>, as lists of items.
\<close>

definition ATC_INDEX_NUM :: nat where "ATC_INDEX_NUM = 32"
definition LOG_SERVICE_BUFLEN :: nat where "LOG_SERVICE_BUFLEN = 100"
definition MAX_ARGC :: nat where "MAX_ARGC = 12"

record log_item =
  log_cmd :: bytes
  at_act :: nat

type_synonym log_table = "nat \<Rightarrow> log_item list"

section \<open>The table of commands\<close>

definition hash_index :: "bytes \<Rightarrow> nat" where
  "hash_index str = unat (foldl (\<lambda>hash c. hash * 131 + ucast c) (0 :: u32) str AND 0x7FFFFFFF)"

definition log_add_new_command :: "log_item \<Rightarrow> log_table \<Rightarrow> log_table" where
  "log_add_new_command new log_hash =
     (let index = hash_index (log_cmd new) mod ATC_INDEX_NUM
      in log_hash(index := new # log_hash index))"

definition log_service_add_table :: "log_item list \<Rightarrow> log_table \<Rightarrow> log_table" where
  "log_service_add_table tbl log_hash = fold log_add_new_command tbl log_hash"

text \<open>The tables of this file and of the other ones, in the order of \<open>log_init_table\<close>; \<open>leave\<close> is \<open>fAT_exit\<close>.\<close>

definition at_log_items :: "nat \<Rightarrow> log_item list" where
  "at_log_items leave = [\<lparr>log_cmd = [65, 84, 45, 45], at_act = leave\<rparr>, \<lparr>log_cmd = [65, 84, 120, 120], at_act = leave\<rparr>]"

definition log_service_init :: "log_item list \<Rightarrow> log_item list \<Rightarrow> nat \<Rightarrow> log_item list list \<Rightarrow> log_table" where
  "log_service_init wifi_items sys_items leave others =
     fold log_service_add_table ([wifi_items, sys_items, at_log_items leave] @ others) (\<lambda>_. [])"

definition log_action :: "bytes \<Rightarrow> log_table \<Rightarrow> nat option" where
  "log_action cmd log_hash =
     map_option at_act (find (\<lambda>item. log_cmd item = cmd) (log_hash (hash_index cmd mod ATC_INDEX_NUM)))"

section \<open>Dispatch\<close>

text \<open>\<open>_strsep\<close> with one delimiter: the token and, behind a delimiter, the rest.\<close>

definition strsep :: "u8 \<Rightarrow> bytes \<Rightarrow> bytes \<times> bytes option" where
  "strsep d s = (takeWhile (\<lambda>c. c \<noteq> d) s, if d \<in> set s then Some (tl (dropWhile (\<lambda>c. c \<noteq> d) s)) else None)"

text \<open>The action to call and its parameter, a pointer into the copy of the line.\<close>

definition log_handler :: "bytes \<Rightarrow> log_table \<Rightarrow> (nat \<times> bytes option) option" where
  "log_handler cmd log_hash =
     (let copy = take (LOG_SERVICE_BUFLEN - 1) cmd;
          (token, param) = strsep 61 copy
      in if length token \<le> 4 then map_option (\<lambda>action. (action, param)) (log_action token log_hash) else None)"

text \<open>The standard's \<open>strtok\<close> with a blank: the first word and the rest, without the blanks in front of the first word.\<close>

definition strtok_blank :: "bytes \<Rightarrow> (bytes \<times> bytes option) option" where
  "strtok_blank s =
     (let s = dropWhile (\<lambda>c. c = 32) s
      in if s = [] then None
         else Some (case strsep 32 s of (w, None) \<Rightarrow> (w, None) | (w, Some r) \<Rightarrow> (w, if r = [] then None else Some r)))"

text \<open>The command is compared with the buffer's start, not with the token: blanks in front are kept there.\<close>

definition mp_commnad_handler :: "bytes \<Rightarrow> bytes option option" where
  "mp_commnad_handler cmd =
     (let buf = take 63 cmd
      in case strtok_blank buf of
           None \<Rightarrow> None
         | Some (w, r) \<Rightarrow> (if takeWhile (\<lambda>c. c = 32) buf @ w = [105, 119, 112, 114, 105, 118] then Some r else None))"

definition print_help_handler :: "bytes \<Rightarrow> bool" where
  "print_help_handler cmd \<longleftrightarrow> cmd = [104, 101, 108, 112]"

text \<open>One turn of \<open>log_service\<close>: what is done with the line in \<open>log_buf\<close>; the line is cleared afterwards.\<close>

datatype log_answer = Action nat "bytes option" | Private_command "bytes option" | Help | Unknown bytes

definition log_service :: "log_table \<Rightarrow> bytes \<Rightarrow> log_answer \<times> bytes" where
  "log_service log_hash log_buf =
     ((case log_handler log_buf log_hash of
         Some (action, param) \<Rightarrow> Action action param
       | None \<Rightarrow>
           (case mp_commnad_handler log_buf of
              Some token \<Rightarrow> Private_command token
            | None \<Rightarrow> if print_help_handler log_buf then Help else Unknown log_buf)), [])"

text \<open>The level and the mask of the debug messages.\<close>

record at_debug =
  gDbgLevel :: u8
  gDbgFlag :: u32

definition at_set_debug_level :: "u8 \<Rightarrow> at_debug \<Rightarrow> at_debug" where
  "at_set_debug_level newDbgLevel d = d\<lparr>gDbgLevel := newDbgLevel\<rparr>"

definition at_set_debug_mask :: "u32 \<Rightarrow> at_debug \<Rightarrow> at_debug" where
  "at_set_debug_mask newDbgFlag d = d\<lparr>gDbgFlag := newDbgFlag\<rparr>"

section \<open>Parameters\<close>

text \<open>
  The variables of \<open>parse_param\<close>: the argument count, the array of pointers, the memory of the buffer and
  the pointer into it. \<open>None\<close> in the array is \<open>NULL\<close>; the array has \<open>MAX_ARGC\<close> elements in every caller.
\<close>

record parser =
  p_argc :: nat
  p_argv :: "nat \<Rightarrow> int option"
  p_mem :: ram
  p_buf :: int

definition separator :: "u8 \<Rightarrow> bool" where
  "separator c \<longleftrightarrow> c = 44 \<or> c = 91 \<or> c = 93"

definition clear_char :: "parser \<Rightarrow> parser" where
  "clear_char p = p\<lparr>p_mem := (p_mem p)(p_buf p := 0)\<rparr>"

partial_function (option) skip_separators :: "parser \<Rightarrow> parser option" where
  "skip_separators p =
     (if separator (p_mem p (p_buf p))
      then (let p = (if p_mem p (p_buf p) = 44 \<and> p_mem p (p_buf p + 1) = 44
                     then p\<lparr>p_argv := (p_argv p)(p_argc p := None), p_argc := p_argc p + 1\<rparr> else p);
                p = clear_char p
            in skip_separators (p\<lparr>p_buf := p_buf p + 1\<rparr>))
      else Some p)"

text \<open>
  Up to the closing quote; \<open>str_buf\<close> collects the characters without the backslashes. In the code it is an array of
  \<open>LOG_SERVICE_BUFLEN\<close> bytes that is filled without a check; here it has no end. The lines of the log service are shorter than
  that, so that the characters between two quotes fit.
\<close>

partial_function (option) read_quoted :: "ram \<Rightarrow> int \<Rightarrow> ram \<Rightarrow> nat \<Rightarrow> nat \<Rightarrow> (int \<times> ram \<times> nat) option" where
  "read_quoted m buf str_buf str_count buf_cnt =
     (if m buf \<noteq> 34 \<and> m buf \<noteq> 0
      then (let (buf, buf_cnt) = (if m buf = 92 then (buf + 1, buf_cnt + 1) else (buf, buf_cnt))
            in read_quoted m (buf + 1) (str_buf(int str_count := m buf)) (str_count + 1) (buf_cnt + 1))
      else Some (buf, str_buf, buf_cnt))"

partial_function (option) skip_rest :: "ram \<Rightarrow> int \<Rightarrow> int option" where
  "skip_rest m buf = (if \<not> separator (m buf) \<and> m buf \<noteq> 0 then skip_rest m (buf + 1) else Some buf)"

text \<open>
  The argument at the pointer, up to the end of the loop's body; the flag says that the loop is left.
\<close>

definition parse_argument :: "parser \<Rightarrow> (bool \<times> parser) option" where
  "parse_argument p =
     (let finish = (\<lambda>p. map_option (\<lambda>b. (False, p\<lparr>p_argc := p_argc p + 1, p_buf := b\<rparr>)) (skip_rest (p_mem p) (p_buf p + 1)))
      in if p_mem p (p_buf p) = 0 then Some (True, p)
         else if p_mem p (p_buf p) = 34
         then (let p = clear_char p; p = p\<lparr>p_buf := p_buf p + 1\<rparr>
               in if p_mem p (p_buf p) = 0 then Some (True, p)
                  else (let p = p\<lparr>p_argv := (p_argv p)(p_argc p \<mapsto> p_buf p)\<rparr>
                        in case read_quoted (p_mem p) (p_buf p) (\<lambda>_. 0) 0 0 of
                             None \<Rightarrow> None
                           | Some (b, str_buf, buf_cnt) \<Rightarrow>
                               (let p = clear_char (p\<lparr>p_buf := b\<rparr>)
                                in finish (p\<lparr>p_mem := store (b - int buf_cnt) (load str_buf 0 buf_cnt) (p_mem p)\<rparr>))))
         else finish (p\<lparr>p_argv := (p_argv p)(p_argc p \<mapsto> p_buf p)\<rparr>))"

partial_function (option) parse_arguments :: "parser \<Rightarrow> parser option" where
  "parse_arguments p =
     (if p_argc p < MAX_ARGC \<and> p_mem p (p_buf p) \<noteq> 0
      then (case skip_separators p of
              None \<Rightarrow> None
            | Some p \<Rightarrow>
                (case parse_argument p of
                   None \<Rightarrow> None
                 | Some (leave, p) \<Rightarrow> if leave then Some p else parse_arguments p))
      else Some p)"

text \<open>The caller's array is cleared; the first argument is number 1.\<close>

definition parse_param :: "(ram \<times> int) option \<Rightarrow> (nat \<Rightarrow> int option) \<Rightarrow> parser option" where
  "parse_param buf argv =
     (case buf of
        None \<Rightarrow> Some \<lparr>p_argc = 1, p_argv = argv, p_mem = (\<lambda>_. 0), p_buf = 0\<rparr>
      | Some (m, b) \<Rightarrow> parse_arguments \<lparr>p_argc = 1, p_argv = argv, p_mem = m, p_buf = b\<rparr>)"

end
