(* ===== verification/At_Parse.thy ===== *)
theory At_Parse
  imports At_Log
begin

text \<open>
  The table of commands as a finite map, and the splitting of the parameters as the inverse of the way
  they are spelled on the command line.
\<close>

section \<open>The table\<close>

text \<open>A table in which a command is looked up by name, the last one added first.\<close>

locale command_table =
  fixes add :: "log_item \<Rightarrow> 't \<Rightarrow> 't" and lookup :: "bytes \<Rightarrow> 't \<Rightarrow> nat option"
  assumes lookup_add: "lookup cmd (add item t) = (if log_cmd item = cmd then Some (at_act item) else lookup cmd t)"
begin

lemma lookup_fold:
  "lookup cmd (fold add items t) =
     (case find (\<lambda>item. log_cmd item = cmd) (rev items) of None \<Rightarrow> lookup cmd t | Some item \<Rightarrow> Some (at_act item))"
  by (induction items arbitrary: t) (simp_all add: lookup_add find_append split: option.splits)

lemma lookup_last:
  assumes "log_cmd item = cmd" and "\<forall>i \<in> set later. log_cmd i \<noteq> cmd"
  shows "lookup cmd (fold add (earlier @ item # later) t) = Some (at_act item)"
proof -
  have "find (\<lambda>item. log_cmd item = cmd) (rev later) = None" using assms(2) by (simp add: find_None_iff)
  then show ?thesis using assms(1) unfolding lookup_fold by (simp add: find_append)
qed

end

interpretation log_commands: command_table log_add_new_command log_action
proof
  fix cmd item and t :: log_table
  show "log_action cmd (log_add_new_command item t) = (if log_cmd item = cmd then Some (at_act item) else log_action cmd t)"
    by (auto simp: log_action_def log_add_new_command_def Let_def)
qed

lemma tables_flat: "fold log_service_add_table ts t = fold log_add_new_command (concat ts) t"
  by (induction ts arbitrary: t) (simp_all add: log_service_add_table_def)

section \<open>Spelling\<close>

text \<open>
  An argument as it is typed: left out, as it stands, or between quotes with a backslash in front of
  quotes and backslashes.
\<close>

datatype at_arg = Missing | Plain bytes | Quoted bytes

definition escape :: "bytes \<Rightarrow> bytes" where
  "escape s = concat (map (\<lambda>c. if c = 34 \<or> c = 92 then [92, c] else [c]) s)"

fun spell :: "at_arg \<Rightarrow> bytes" where
  "spell Missing = []"
| "spell (Plain s) = s"
| "spell (Quoted s) = [34] @ escape s @ [34]"

fun at_arg_ok :: "at_arg \<Rightarrow> bool" where
  "at_arg_ok Missing \<longleftrightarrow> True"
| "at_arg_ok (Plain s) \<longleftrightarrow> s \<noteq> [] \<and> hd s \<noteq> 34 \<and> (\<forall>c \<in> set s. c \<noteq> 0 \<and> \<not> separator c)"
| "at_arg_ok (Quoted s) \<longleftrightarrow> 0 \<notin> set s"

text \<open>The arguments of a line, with a comma in front of each.\<close>

definition spell_rest :: "at_arg list \<Rightarrow> bytes" where
  "spell_rest as = concat (map (\<lambda>a. 44 # spell a) as)"

text \<open>What the caller finds in its array for an argument.\<close>

fun holds :: "ram \<Rightarrow> int option \<Rightarrow> at_arg \<Rightarrow> bool" where
  "holds m p Missing \<longleftrightarrow> p = None"
| "holds m p (Plain s) \<longleftrightarrow> (\<exists>i. p = Some i \<and> at m i (s @ [0]))"
| "holds m p (Quoted s) \<longleftrightarrow> (\<exists>i. p = Some i \<and> at m i (s @ [0]))"

section \<open>Scanning\<close>

lemma skip_rest_at:
  assumes "at m b s" and "\<forall>c \<in> set s. c \<noteq> 0 \<and> \<not> separator c" and "m (b + int (length s)) = 0 \<or> separator (m (b + int (length s)))"
  shows "skip_rest m b = Some (b + int (length s))"
  using assms
proof (induction s arbitrary: b)
  case (Cons c s)
  then show ?case using Cons.IH [of "b + 1"] by (subst skip_rest.simps) (simp add: ac_simps)
qed (subst skip_rest.simps, auto)

lemma skip_separators_none: "\<not> separator (p_mem p (p_buf p)) \<Longrightarrow> skip_separators p = Some p"
  by (simp add: skip_separators.simps)

text \<open>A run of commas: one missing argument for each but the last.\<close>

lemma skip_commas:
  assumes "at (p_mem p) (p_buf p) (replicate k 44 @ [44, c])" and "\<not> separator c"
  shows "skip_separators p = Some (p\<lparr>p_argc := p_argc p + k, p_argv := (\<lambda>j. if p_argc p \<le> j \<and> j < p_argc p + k then None else p_argv p j),
    p_mem := store (p_buf p) (replicate (Suc k) 0) (p_mem p), p_buf := p_buf p + int k + 1\<rparr>)"
  using assms(1)
proof (induction k arbitrary: p)
  case 0
  let ?m = "p_mem p" and ?b = "p_buf p"
  have m: "?m ?b = 44" "?m (?b + 1) = c" using "0.prems" by simp_all
  have c: "c \<noteq> 44" using assms(2) by (auto simp: separator_def)
  have st: "store ?b [0] ?m = ?m(?b := 0)" by (auto simp: store_def fun_eq_iff)
  have "skip_separators p = skip_separators (clear_char p\<lparr>p_buf := ?b + 1\<rparr>)"
    using m c by (subst skip_separators.simps) (simp add: separator_def Let_def clear_char_def)
  also have "\<dots> = Some (clear_char p\<lparr>p_buf := ?b + 1\<rparr>)"
    using m(2) assms(2) by (intro skip_separators_none) (simp add: clear_char_def)
  finally have "skip_separators p = Some (clear_char p\<lparr>p_buf := ?b + 1\<rparr>)" .
  moreover have "(\<lambda>j. if p_argc p \<le> j \<and> j < p_argc p + 0 then None else p_argv p j) = p_argv p" by (rule ext) auto
  ultimately show ?case using st by (simp add: clear_char_def fun_upd_def)
next
  case (Suc k)
  let ?m = "p_mem p" and ?b = "p_buf p"
  have m: "?m ?b = 44" "?m (?b + 1) = 44" using Suc.prems by (simp, cases k) simp_all
  let ?q = "p\<lparr>p_argv := (p_argv p)(p_argc p := None), p_argc := p_argc p + 1, p_mem := ?m(?b := 0), p_buf := ?b + 1\<rparr>"
  have "skip_separators p = skip_separators ?q"
    using m by (subst skip_separators.simps) (simp add: separator_def Let_def clear_char_def)
  also have "skip_separators ?q = Some (?q\<lparr>p_argc := p_argc ?q + k,
      p_argv := (\<lambda>j. if p_argc ?q \<le> j \<and> j < p_argc ?q + k then None else p_argv ?q j),
      p_mem := store (p_buf ?q) (replicate (Suc k) 0) (p_mem ?q), p_buf := p_buf ?q + int k + 1\<rparr>)"
  proof (rule Suc.IH)
    show "at (p_mem ?q) (p_buf ?q) (replicate k 44 @ [44, c])" using Suc.prems by (auto intro: at_agree [where m = ?m])
  qed
  also have "(\<lambda>j. if p_argc ?q \<le> j \<and> j < p_argc ?q + k then None else p_argv ?q j) =
      (\<lambda>j. if p_argc p \<le> j \<and> j < p_argc p + Suc k then None else p_argv p j)"
    by (auto simp: fun_eq_iff)
  also have "store (p_buf ?q) (replicate (Suc k) 0) (p_mem ?q) = store ?b (replicate (Suc (Suc k)) 0) ?m"
    by (auto simp: store_def fun_eq_iff nth_Cons' simp del: replicate.simps)
  finally show ?case by (simp add: ac_simps del: replicate.simps)
qed

lemma escape_Cons: "escape (c # s) = (if c = 34 \<or> c = 92 then [92, c] else [c]) @ escape s"
  by (simp add: escape_def)

lemma length_escape: "length s \<le> length (escape s)"
  by (induction s) (auto simp: escape_def)

text \<open>Between quotes the collected characters are the string without its escapes.\<close>

lemma read_quoted_at:
  assumes "at m b (escape s @ [34])" and "0 \<notin> set s"
  shows "read_quoted m b sb n k = Some (b + int (length (escape s)), store (int n) s sb, k + length (escape s))"
  using assms
proof (induction s arbitrary: b sb n k)
  case Nil
  then show ?case by (subst read_quoted.simps) (simp add: escape_def)
next
  case (Cons c s)
  have c: "c \<noteq> 0" "0 \<notin> set s" using Cons.prems(2) by auto
  have st: "store (int (n + 1)) s (sb(int n := c)) = store (int n) (c # s) sb"
    by (auto simp: store_def fun_eq_iff nth_Cons' intro!: arg_cong [where f = "(!) s"])
  show ?case
  proof (cases "c = 34 \<or> c = 92")
    case True
    then have m: "m b = 92" "m (b + 1) = c" "at m (b + 2) (escape s @ [34])" using Cons.prems(1) by (auto simp: escape_Cons add.assoc)
    have "read_quoted m b sb n k = read_quoted m (b + 2) (sb(int n := c)) (n + 1) (k + 2)"
      using m by (subst read_quoted.simps) (simp add: add.assoc)
    also have "\<dots> = Some (b + 2 + int (length (escape s)), store (int n) (c # s) sb, k + 2 + length (escape s))"
      unfolding st [symmetric] by (rule Cons.IH [OF m(3) c(2)])
    finally show ?thesis using True by (simp add: escape_Cons add.assoc)
  next
    case False
    then have m: "m b = c" "at m (b + 1) (escape s @ [34])" using Cons.prems(1) by (auto simp: escape_Cons)
    have "read_quoted m b sb n k = read_quoted m (b + 1) (sb(int n := c)) (n + 1) (k + 1)"
      using m False c by (subst read_quoted.simps) simp
    also have "\<dots> = Some (b + 1 + int (length (escape s)), store (int n) (c # s) sb, k + 1 + length (escape s))"
      unfolding st [symmetric] by (rule Cons.IH [OF m(2) c(2)])
    finally show ?thesis using False by (simp add: escape_Cons add.assoc)
  qed
qed

section \<open>One argument\<close>

text \<open>The argument is in place as soon as a zero ends it at \<open>b\<close> and nothing before is changed.\<close>

definition pending :: "ram \<Rightarrow> int option \<Rightarrow> at_arg \<Rightarrow> int \<Rightarrow> bool" where
  "pending m ptr a b \<longleftrightarrow> (\<forall>m'. (\<forall>x < b. m' x = m x) \<longrightarrow> m' b = 0 \<longrightarrow> holds m' ptr a)"

lemma spell_hd:
  assumes "a \<noteq> Missing" and "at_arg_ok a"
  shows "spell a = hd (spell a) # tl (spell a)" and "\<not> separator (hd (spell a))" and "hd (spell a) \<noteq> 0"
  using assms by (cases a; auto simp: separator_def)+

lemma parse_argument_at:
  assumes "a \<noteq> Missing" and ok: "at_arg_ok a" and "at (p_mem p) (p_buf p) (spell a @ [e])" and e: "e = 0 \<or> separator e"
  shows "\<exists>p'. parse_argument p = Some (False, p') \<and> p_argc p' = p_argc p + 1 \<and> p_buf p' = p_buf p + int (length (spell a)) \<and>
    (\<forall>x. x < p_buf p \<or> p_buf p' \<le> x \<longrightarrow> p_mem p' x = p_mem p x) \<and> (\<forall>j. j \<noteq> p_argc p \<longrightarrow> p_argv p' j = p_argv p j) \<and>
    pending (p_mem p') (p_argv p' (p_argc p)) a (p_buf p')"
proof (cases a)
  case Missing
  then show ?thesis using assms(1) by simp
next
  case (Plain s)
  let ?m = "p_mem p" and ?b = "p_buf p"
  obtain c cs where s: "s = c # cs" using ok Plain by (cases s) auto
  have c: "?m ?b = c" "c \<noteq> 0" "c \<noteq> 34" "at ?m (?b + 1) cs" "\<forall>c \<in> set cs. c \<noteq> 0 \<and> \<not> separator c" "?m (?b + 1 + int (length cs)) = e"
    using assms(3) ok Plain s by (auto simp: at_append ac_simps)
  have r: "skip_rest ?m (?b + 1) = Some (?b + int (length s))" using skip_rest_at [OF c(4,5)] c(6) e s by (auto simp: ac_simps)
  have "parse_argument p = Some (False, p\<lparr>p_argv := (p_argv p)(p_argc p \<mapsto> ?b), p_argc := p_argc p + 1, p_buf := ?b + int (length s)\<rparr>)"
    using c(1-3) r by (simp add: parse_argument_def Let_def)
  moreover have "pending ?m (Some ?b) a (?b + int (length s))"
    using c(1,4) s unfolding pending_def Plain by (auto simp: at_append ac_simps intro: at_agree [where m = ?m])
  ultimately show ?thesis using Plain by auto
next
  case (Quoted s)
  let ?m = "p_mem p" and ?b = "p_buf p" and ?n = "length (escape s)"
  let ?m1 = "?m(?b := 0)"
  have m: "?m ?b = 34" "at ?m (?b + 1) (escape s @ [34])" "?m (?b + int ?n + 2) = e" using assms(3) Quoted by (auto simp: at_append ac_simps)
  have z: "0 \<notin> set s" using ok Quoted by simp
  have m1: "at ?m1 (?b + 1) (escape s @ [34])" using m(2) by (rule at_agree [rotated]) auto
  have n1: "?m1 (?b + 1) \<noteq> 0"
  proof (cases s)
    case (Cons c cs)
    then show ?thesis using m1 z by (auto simp: escape_Cons split: if_splits)
  qed (use m1 in \<open>simp add: escape_def\<close>)
  have rq: "read_quoted ?m1 (?b + 1) (\<lambda>_. 0) 0 0 = Some (?b + 1 + int ?n, store 0 s (\<lambda>_. 0), ?n)"
    using read_quoted_at [OF m1 z, of "\<lambda>_. 0" 0 0] by simp
  define m2 where "m2 = store (?b + 1) (load (store 0 s (\<lambda>_. 0)) 0 ?n) (?m1(?b + 1 + int ?n := 0))"
  have out: "m2 x = ?m x" if "x < ?b \<or> ?b + int ?n + 2 \<le> x" for x using that by (auto simp: m2_def store_def)
  have m2: "at m2 (?b + 1) (s @ [0])"
  proof -
    have "m2 (?b + 1 + int k) = (s @ [0]) ! k" if "k \<le> length s" for k
      using that length_escape [of s] by (cases "k < ?n") (auto simp: m2_def store_def nth_append)
    then show ?thesis by (auto simp: at_nth)
  qed
  have "m2 (?b + 1 + int ?n + 1) = e" using out [of "?b + 1 + int ?n + 1"] m(3) by (simp add: ac_simps)
  then have r: "skip_rest m2 (?b + 1 + int ?n + 1) = Some (?b + 1 + int ?n + 1)"
    using skip_rest_at [of m2 "?b + 1 + int ?n + 1" "[]"] e by auto
  let ?p = "p\<lparr>p_argv := (p_argv p)(p_argc p \<mapsto> ?b + 1), p_mem := m2, p_argc := p_argc p + 1, p_buf := ?b + 1 + int ?n + 1\<rparr>"
  have "parse_argument p = Some (False, ?p)"
    using m(1) n1 r unfolding parse_argument_def by (simp add: Let_def clear_char_def rq m2_def [symmetric])
  moreover have "pending m2 (Some (?b + 1)) a (?b + 1 + int ?n + 1)"
    using m2 length_escape [of s] unfolding pending_def Quoted by (auto intro: at_agree [where m = m2])
  ultimately show ?thesis using out Quoted by (intro exI [of _ ?p]) (simp add: ac_simps)
qed

section \<open>All arguments\<close>

lemma missing_prefix:
  assumes "as \<noteq> []" and "last as \<noteq> Missing"
  obtains k a rest where "as = replicate k Missing @ a # rest" and "a \<noteq> Missing" and "rest = [] \<or> last rest \<noteq> Missing"
  using assms
proof (induction as arbitrary: thesis)
  case (Cons x xs)
  show ?case
  proof (cases "x = Missing")
    case True
    then have xs: "xs \<noteq> []" "last xs \<noteq> Missing" using Cons.prems(3) by (cases "xs = []"; simp)+
    obtain k a rest where "xs = replicate k Missing @ a # rest" "a \<noteq> Missing" "rest = [] \<or> last rest \<noteq> Missing"
      using Cons.IH [OF _ xs] by blast
    then show ?thesis using Cons.prems(1) [of "Suc k" a rest] True by simp
  next
    case False
    then show ?thesis using Cons.prems(1) [of 0 x xs] Cons.prems(3) by (cases "xs = []") auto
  qed
qed simp

lemma parse_rest_at:
  assumes "at (p_mem p) (p_buf p) (spell_rest as @ [0])" and "\<forall>a \<in> set as. at_arg_ok a" and "as = [] \<or> last as \<noteq> Missing"
    and "p_argc p + length as \<le> MAX_ARGC"
  shows "\<exists>p'. parse_arguments p = Some p' \<and> p_argc p' = p_argc p + length as \<and> (\<forall>j < p_argc p. p_argv p' j = p_argv p j) \<and>
    (\<forall>x < p_buf p. p_mem p' x = p_mem p x) \<and> p_mem p' (p_buf p) = 0 \<and>
    (\<forall>i < length as. holds (p_mem p') (p_argv p' (p_argc p + i)) (as ! i))"
  using assms
proof (induction "length as" arbitrary: as p rule: less_induct)
  case less
  show ?case
  proof (cases "as = []")
    case True
    then have "p_mem p (p_buf p) = 0" using less.prems(1) by (simp add: spell_rest_def)
    then show ?thesis using True by (subst parse_arguments.simps) simp
  next
    case False
    then obtain k a rest where as: "as = replicate k Missing @ a # rest" "a \<noteq> Missing" "rest = [] \<or> last rest \<noteq> Missing"
      using missing_prefix less.prems(3) by metis
    let ?b = "p_buf p" and ?m = "p_mem p"
    have oks: "at_arg_ok a" "\<forall>a \<in> set rest. at_arg_ok a" using less.prems(2) as(1) by auto
    have "concat (map (\<lambda>a. 44 # spell a) (replicate k Missing)) = replicate k 44" by (induction k) simp_all
    then have sp: "spell_rest as = replicate k 44 @ 44 # spell a @ spell_rest rest" by (simp add: spell_rest_def as(1))
    note hd = spell_hd [OF as(2) oks(1)]
    have tx: "at ?m ?b (replicate k 44 @ [44, hd (spell a)])" "at ?m (?b + int k + 1) (spell a @ spell_rest rest @ [0])"
    proof -
      have "at ?m ?b (replicate k 44 @ [44, hd (spell a)] @ tl (spell a) @ spell_rest rest @ [0])"
        using less.prems(1) unfolding sp by (subst (asm) hd(1)) simp
      then show "at ?m ?b (replicate k 44 @ [44, hd (spell a)])" by (simp add: at_append)
      show "at ?m (?b + int k + 1) (spell a @ spell_rest rest @ [0])" using less.prems(1) by (simp add: sp at_append ac_simps)
    qed
    define p1 where "p1 = p\<lparr>p_argc := p_argc p + k, p_argv := (\<lambda>j. if p_argc p \<le> j \<and> j < p_argc p + k then None else p_argv p j),
      p_mem := store ?b (replicate (Suc k) 0) ?m, p_buf := ?b + int k + 1\<rparr>"
    have ss: "skip_separators p = Some p1" unfolding p1_def by (rule skip_commas [OF tx(1) hd(2)])
    have m1: "p_mem p1 x = ?m x" if "x < ?b \<or> ?b + int k + 1 \<le> x" for x using that by (auto simp: p1_def store_def)
    have z1: "p_mem p1 ?b = 0" by (simp add: p1_def store_def)
    have t1: "at (p_mem p1) (p_buf p1) (spell a @ spell_rest rest @ [0])"
    proof (rule at_agree)
      show "at ?m (p_buf p1) (spell a @ spell_rest rest @ [0])" using tx(2) by (simp add: p1_def)
      show "p_mem p1 x = ?m x" if "p_buf p1 \<le> x" for x using that by (intro m1) (simp add: p1_def)
    qed
    obtain e es where e: "spell_rest rest @ [0] = e # es" "e = 0 \<or> separator e"
      by (cases rest) (auto simp: spell_rest_def separator_def)
    have "at (p_mem p1) (p_buf p1) (spell a @ [e])" using t1 unfolding e(1) by (simp add: at_append)
    then obtain p2 where p2: "parse_argument p1 = Some (False, p2)" "p_argc p2 = p_argc p1 + 1"
      "p_buf p2 = p_buf p1 + int (length (spell a))" "\<forall>x. x < p_buf p1 \<or> p_buf p2 \<le> x \<longrightarrow> p_mem p2 x = p_mem p1 x"
      "\<forall>j. j \<noteq> p_argc p1 \<longrightarrow> p_argv p2 j = p_argv p1 j" "pending (p_mem p2) (p_argv p2 (p_argc p1)) a (p_buf p2)"
      using parse_argument_at [OF as(2) oks(1) _ e(2)] by blast
    have t2: "at (p_mem p2) (p_buf p2) (spell_rest rest @ [0])"
    proof (rule at_agree)
      show "at (p_mem p1) (p_buf p2) (spell_rest rest @ [0])" using t1 by (simp add: at_append p2(3))
    qed (use p2(4) in simp)
    have len: "length rest < length as" "p_argc p2 + length rest \<le> MAX_ARGC" using as(1) less.prems(4) p2(2) by (simp_all add: p1_def)
    obtain p' where p': "parse_arguments p2 = Some p'" "p_argc p' = p_argc p2 + length rest" "\<forall>j < p_argc p2. p_argv p' j = p_argv p2 j"
      "\<forall>x < p_buf p2. p_mem p' x = p_mem p2 x" "p_mem p' (p_buf p2) = 0"
      "\<forall>i < length rest. holds (p_mem p') (p_argv p' (p_argc p2 + i)) (rest ! i)"
      using less.hyps [OF len(1) t2 oks(2) as(3) len(2)] by blast
    have guard: "p_argc p < MAX_ARGC \<and> ?m ?b \<noteq> 0"
      using less.prems(4) as(1) tx(1) by (cases k) auto
    have run: "parse_arguments p = Some p'" using guard ss p2(1) p'(1) by (subst parse_arguments.simps) simp
    have b: "p_buf p1 = ?b + int k + 1" "p_argc p1 = p_argc p + k" by (simp_all add: p1_def)
    have below: "p_mem p' x = p_mem p1 x" if "x < p_buf p1" for x using that p'(4) p2(3,4) by auto
    have args: "holds (p_mem p') (p_argv p' (p_argc p + i)) (as ! i)" if i: "i < length as" for i
    proof -
      consider "i < k" | "i = k" | "k < i" by linarith
      then show ?thesis
      proof cases
        case 1
        then have "p_argv p' (p_argc p + i) = None" using p'(3) p2(2,5) b by (simp add: p1_def)
        then show ?thesis using 1 by (simp add: as(1) nth_append)
      next
        case 2
        have "holds (p_mem p') (p_argv p2 (p_argc p1)) a" using p2(6) p'(4,5) by (simp add: pending_def)
        then show ?thesis using 2 p'(3) p2(2) b by (simp add: as(1) nth_append)
      next
        case 3
        then obtain j where j: "i = Suc (k + j)" using less_imp_Suc_add by blast
        then have "holds (p_mem p') (p_argv p' (p_argc p2 + j)) (rest ! j)" using p'(6) i as(1) by simp
        then show ?thesis using j p2(2) b by (simp add: as(1) nth_append ac_simps)
      qed
    qed
    have "\<forall>j < p_argc p. p_argv p' j = p_argv p j" using p'(3) p2(2,5) b by (simp add: p1_def)
    moreover have "\<forall>x < ?b. p_mem p' x = ?m x" "p_mem p' ?b = 0" using below m1 z1 b by simp_all
    moreover have "p_argc p' = p_argc p + length as" using p'(2) p2(2) b as(1) by simp
    ultimately show ?thesis using run args by blast
  qed
qed

end
