(* ===== verification/At_Props.thy ===== *)
theory At_Props
  imports At_Parse
begin

text \<open>
  The properties of the log service: commands reach the action registered last under their name, the
  parameters reach it as they were typed, and the count of missing ones is not bounded.
\<close>

definition spell_line :: "at_arg list \<Rightarrow> bytes" where
  "spell_line as = (case as of [] \<Rightarrow> [] | a # as \<Rightarrow> spell a @ spell_rest as)"

text \<open>
  C11: the parameters are read as they were typed. A line of at most eleven arguments, each as it
  stands, or between quotes with quotes and backslashes escaped, or, in the middle, left out, is split
  in place into exactly these arguments: entry \<open>i + 1\<close> of the caller's array points at the argument's
  characters with a terminator, whatever commas and brackets stood between the quotes, and is null for
  an argument left out. The model's buffer for a quoted argument has no end; the code's has
  \<open>LOG_SERVICE_BUFLEN\<close> bytes, which the lines of the log service do not exceed.
\<close>

theorem at_params_roundtrip:
  assumes "at m b (spell_line as @ [0])" and "\<forall>a \<in> set as. at_arg_ok a" and "as = [] \<or> hd as \<noteq> Missing \<and> last as \<noteq> Missing"
    and "length as < MAX_ARGC"
  shows "\<exists>p'. parse_param (Some (m, b)) argv = Some p' \<and> p_argc p' = 1 + length as \<and>
    (\<forall>i < length as. holds (p_mem p') (p_argv p' (1 + i)) (as ! i))"
proof (cases as)
  case Nil
  then show ?thesis using assms(1) by (simp add: parse_param_def spell_line_def) (subst parse_arguments.simps, simp)
next
  case (Cons a rest)
  let ?p = "\<lparr>p_argc = 1, p_argv = argv, p_mem = m, p_buf = b\<rparr>"
  have a: "a \<noteq> Missing" "at_arg_ok a" using assms(2,3) Cons by auto
  have t: "at m b (spell a @ spell_rest rest @ [0])" using assms(1) Cons by (simp add: spell_line_def)
  obtain e es where e: "spell_rest rest @ [0] = e # es" "e = 0 \<or> separator e"
    by (cases rest) (auto simp: spell_rest_def separator_def)
  have "at (p_mem ?p) (p_buf ?p) (spell a @ [e])" using t unfolding e(1) by (simp add: at_append)
  then obtain p2 where p2: "parse_argument ?p = Some (False, p2)" "p_argc p2 = p_argc ?p + 1" "p_buf p2 = p_buf ?p + int (length (spell a))"
    "\<forall>x. x < p_buf ?p \<or> p_buf p2 \<le> x \<longrightarrow> p_mem p2 x = p_mem ?p x" "pending (p_mem p2) (p_argv p2 (p_argc ?p)) a (p_buf p2)"
    using parse_argument_at [OF a _ e(2)] by blast
  have "at m (p_buf p2) (spell_rest rest @ [0])" using t by (simp add: at_append p2(3))
  then have t2: "at (p_mem p2) (p_buf p2) (spell_rest rest @ [0])" by (rule at_agree [rotated]) (use p2(4) in simp)
  have pre: "\<forall>a \<in> set rest. at_arg_ok a" "rest = [] \<or> last rest \<noteq> Missing" "p_argc p2 + length rest \<le> MAX_ARGC"
    using assms(2-4) Cons p2(2) by (auto split: if_splits)
  obtain p' where p': "parse_arguments p2 = Some p'" "p_argc p' = p_argc p2 + length rest" "\<forall>j < p_argc p2. p_argv p' j = p_argv p2 j"
    "\<forall>x < p_buf p2. p_mem p' x = p_mem p2 x" "p_mem p' (p_buf p2) = 0"
    "\<forall>i < length rest. holds (p_mem p') (p_argv p' (p_argc p2 + i)) (rest ! i)"
    using parse_rest_at [OF t2 pre] by blast
  have c: "m b = hd (spell a)" using t by (subst (asm) spell_hd(1) [OF a]) simp
  have "parse_arguments ?p = Some p'"
    using spell_hd(2,3) [OF a] c p2(1) p'(1) assms(4) Cons
    by (subst parse_arguments.simps) (simp add: skip_separators_none)
  moreover have "holds (p_mem p') (p_argv p2 1) a" using p2(5) p'(4,5) by (simp add: pending_def)
  moreover have "holds (p_mem p') (p_argv p' (1 + i)) (as ! i)" if "i < length as" for i
    using that p'(3,6) p2(2) calculation(2) Cons by (cases i) auto
  ultimately show ?thesis using p'(2) p2(2) Cons by (auto simp: parse_param_def)
qed

definition demo_args :: "at_arg list" where
  "demo_args = [Plain [115, 115], Missing, Quoted [112, 44, 34]]"

theorem at_params_roundtrip_witness:
  "\<exists>p' i. parse_param (Some (store 0 (spell_line demo_args @ [0]) (\<lambda>_. 255), 0)) (\<lambda>_. None) = Some p' \<and> p_argc p' = 4 \<and>
     p_argv p' 2 = None \<and> p_argv p' 3 = Some i \<and> at (p_mem p') i [112, 44, 34, 0]"
proof -
  have "\<exists>p'. parse_param (Some (store 0 (spell_line demo_args @ [0]) (\<lambda>_. 255), 0)) (\<lambda>_. None) = Some p' \<and> p_argc p' = 1 + length demo_args \<and>
      (\<forall>i < length demo_args. holds (p_mem p') (p_argv p' (1 + i)) (demo_args ! i))"
    by (rule at_params_roundtrip) (simp_all add: at_store demo_args_def separator_def MAX_ARGC_def)
  then obtain p' where p: "parse_param (Some (store 0 (spell_line demo_args @ [0]) (\<lambda>_. 255), 0)) (\<lambda>_. None) = Some p'"
    "p_argc p' = 1 + length demo_args" "\<forall>i < length demo_args. holds (p_mem p') (p_argv p' (1 + i)) (demo_args ! i)"
    by blast
  have h: "holds (p_mem p') (p_argv p' (1 + 1)) (demo_args ! 1)" "holds (p_mem p') (p_argv p' (1 + 2)) (demo_args ! 2)"
    by (rule p(3) [rule_format], simp add: demo_args_def)+
  have "demo_args ! 1 = Missing" "demo_args ! 2 = Quoted [112, 44, 34]" "1 + 1 = (2 :: nat)" "1 + 2 = (3 :: nat)"
    by (simp_all add: demo_args_def)
  then have "p_argv p' 2 = None" "\<exists>i. p_argv p' 3 = Some i \<and> at (p_mem p') i ([112, 44, 34] @ [0])"
    using h by (simp_all only: holds.simps)
  moreover have "p_argc p' = 4" using p(2) by (simp add: demo_args_def)
  ultimately show ?thesis using p(1) by auto
qed

lemma strsep_at: "d \<notin> set w \<Longrightarrow> strsep d (w @ d # r) = (w, Some r)"
  by (induction w) (auto simp: strsep_def)

text \<open>
  C29: a command reaches its action. Whatever the tables of the command files hold, the line
  \<open>cmd=params\<close> with a name of at most four characters, within the length of the buffer, is answered by
  calling the action that was registered last under this name, and no other, with the parameters.
\<close>

theorem at_command_dispatched:
  assumes "concat ([wifi_items, sys_items, at_log_items leave] @ others) = earlier @ item # later"
    and "\<forall>i \<in> set later. log_cmd i \<noteq> log_cmd item"
    and "61 \<notin> set (log_cmd item)" and "length (log_cmd item) \<le> 4" and "length (log_cmd item) + 1 + length params < LOG_SERVICE_BUFLEN"
  shows "log_service (log_service_init wifi_items sys_items leave others) (log_cmd item @ [61] @ params) =
    (Action (at_act item) (Some params), [])"
proof -
  let ?line = "log_cmd item @ [61] @ params"
  have "log_action (log_cmd item) (log_service_init wifi_items sys_items leave others) = Some (at_act item)"
    unfolding log_service_init_def tables_flat assms(1) by (rule log_commands.lookup_last [OF refl assms(2)])
  moreover have "strsep 61 ?line = (log_cmd item, Some params)"
    using strsep_at [OF assms(3), of params] by simp
  moreover have "take (LOG_SERVICE_BUFLEN - 1) ?line = ?line" using assms(5) by simp
  ultimately show ?thesis using assms(4) unfolding log_service_def log_handler_def Let_def by (simp only: prod.case if_True) simp
qed

theorem at_command_dispatched_witness:
  "log_service (log_service_init [\<lparr>log_cmd = [65, 84, 87, 48], at_act = 7\<rparr>] [] 1 []) [65, 84, 87, 48, 61, 97] = (Action 7 (Some [97]), [])"
  using at_command_dispatched [of "[\<lparr>log_cmd = [65, 84, 87, 48], at_act = 7\<rparr>]" "[]" 1 "[]" "[]" "\<lparr>log_cmd = [65, 84, 87, 48], at_act = 7\<rparr>"
      "at_log_items 1" "[97]"]
  by (simp add: at_log_items_def LOG_SERVICE_BUFLEN_def)

text \<open>
  Commas overrun the caller's array. The number of missing arguments in a run of commas is not
  compared with the size of the array: \<open>k + 1\<close> commas store \<open>k\<close> null pointers, the last ones behind the
  twelve elements when \<open>k\<close> is at least twelve.
\<close>

theorem at_commas_overrun:
  assumes "at m b (replicate (Suc k) 44 @ [0])" and "MAX_ARGC \<le> k"
  shows "\<exists>p'. parse_param (Some (m, b)) argv = Some p' \<and> p_argc p' = 1 + k \<and> p_argv p' k = None"
proof -
  let ?p = "\<lparr>p_argc = 1, p_argv = argv, p_mem = m, p_buf = b\<rparr>"
  define q where "q = ?p\<lparr>p_argc := p_argc ?p + k, p_argv := (\<lambda>j. if p_argc ?p \<le> j \<and> j < p_argc ?p + k then None else p_argv ?p j),
    p_mem := store (p_buf ?p) (replicate (Suc k) 0) (p_mem ?p), p_buf := p_buf ?p + int k + 1\<rparr>"
  have t: "at m b (replicate k 44 @ [44, 0])" using assms(1) by (simp add: replicate_app_Cons_same)
  then have s: "skip_separators ?p = Some q" unfolding q_def by (intro skip_commas [where c = 0]) (simp_all add: separator_def)
  have "m (b + int (Suc k)) = 0" using t by (simp add: at_append ac_simps)
  then have "p_mem q (p_buf q) = 0" by (simp add: q_def store_def ac_simps)
  then have a: "parse_argument q = Some (True, q)" by (simp add: parse_argument_def Let_def)
  have "m b \<noteq> 0" using assms(1) by simp
  then have "parse_arguments ?p = Some q" using s a by (subst parse_arguments.simps) (simp add: MAX_ARGC_def)
  then show ?thesis using assms(2) by (auto simp: parse_param_def q_def MAX_ARGC_def)
qed

theorem at_commas_overrun_witness:
  "\<exists>p'. parse_param (Some (store 0 (replicate 20 44 @ [0]) (\<lambda>_. 0), 0)) (\<lambda>j. if j < 12 then None else Some 99) = Some p' \<and>
     p_argc p' = 20 \<and> p_argv p' 19 = None"
  using at_commas_overrun [of "store 0 (replicate 20 44 @ [0]) (\<lambda>_. 0)" 0 19 "\<lambda>j. if j < 12 then None else Some 99"]
    at_store [of 0 "replicate 20 44 @ [0]" "\<lambda>_. 0"]
  by (simp add: MAX_ARGC_def)

end
