(* ===== verification/Sdio.thy ===== *)
theory Sdio
  imports RTL_Prelude
begin

text \<open>
  The SDIO device, \<^verbatim>\<open>common/mbed/targets/hal/rtl8711b/spdio_api.c\<close>: two rings of buffer descriptors that the
  software shares with a DMA engine. Over the ring of RX descriptors the device sends packets to the host (\<open>spdio_tx\<close>,
  \<open>SPDIO_Recycle_Rx_BD\<close>), over the ring of TX descriptors it gets packets from the host
  (\<open>SPDIO_TX_FIFO_DataReady\<close>). The arrays are functions of the index, a handle's links \<open>pRXBD\<close> and
  \<open>pRXDESC\<close>, which the initialisation sets once, are its index. The registers of the engine and the routines
  in ROM that read and write them are the record \<open>sdio_rom\<close>; the user's callbacks belong to \<open>spdio_t\<close>. Register reads whose
  value is dropped or only printed are left out. \<open>calls\<close> lists the calls to the user.
\<close>

section \<open>Data\<close>

record SPDIO_RX_BD =
  BuffSize :: int
  LS :: bool
  FS :: bool
  Seq :: int
  PhyAddr :: int

record INIC_RX_DESC =
  pkt_len :: int
  desc_offset :: int
  desc_type :: int

record INIC_TX_DESC =
  txpktsize :: int
  tx_offset :: int
  tx_type :: int

record SPDIO_RX_BD_HANDLE =
  priv :: int
  isPktEnd :: bool
  isFree :: bool

record spdio_buf_t =
  buf_addr :: int
  buf_size :: int
  buf_type :: int

text \<open>The user's callback for a packet from the host may put another buffer in the place of the one it was given.\<close>

record 'u spdio_t =
  tx_bd_num :: int
  rx_bd_num :: int
  rx_bd_bufsz :: int
  rx_done_cb :: "int \<Rightarrow> int \<Rightarrow> int \<Rightarrow> int \<Rightarrow> (int \<Rightarrow> spdio_buf_t) \<times> 'u \<Rightarrow> u8 \<times> (int \<Rightarrow> spdio_buf_t) \<times> 'u"
  tx_done_cb :: "int \<Rightarrow> 'u \<Rightarrow> 'u"

record HAL_SPDIO_ADAPTER =
  pTXBD :: "int \<Rightarrow> int"
  TXBDWPtr :: int
  TXBDRPtr :: int
  TXBDRPtrReg :: int
  TxOverFlow :: int
  pRXBD :: "int \<Rightarrow> SPDIO_RX_BD"
  pRXDESCAddrAligned :: int
  pRXDESC :: "int \<Rightarrow> INIC_RX_DESC"
  pRXBDHdl :: "int \<Rightarrow> SPDIO_RX_BD_HANDLE"
  RXBDWPtr :: int
  RXBDRPtr :: int

record SDIO_InitTypeDef =
  TXBD_RING_SIZE :: int
  TX_BUFFER_SIZE :: int
  RXBD_RING_SIZE :: int
  RXBD_FREE_TH :: int

record 'h sdio_rom =
  SDIO_Init :: "SDIO_InitTypeDef \<Rightarrow> 'h \<Rightarrow> 'h"
  SDIO_RXBD_RPTR_Get :: "'h \<Rightarrow> int"
  SDIO_RXBD_WPTR_Set :: "int \<Rightarrow> 'h \<Rightarrow> 'h"
  SDIO_TXBD_WPTR_Get :: "'h \<Rightarrow> int"
  SDIO_TXBD_RPTR_Set :: "int \<Rightarrow> 'h \<Rightarrow> 'h"
  SDIO_INTConfig :: "u16 \<Rightarrow> bool \<Rightarrow> 'h \<Rightarrow> 'h"
  HAL_SDIO_READ16 :: "int \<Rightarrow> 'h \<Rightarrow> u16"
  HAL_SDIO_WRITE16 :: "int \<Rightarrow> u16 \<Rightarrow> 'h \<Rightarrow> 'h"
  HAL_SDIO_READ8 :: "int \<Rightarrow> 'h \<Rightarrow> u8"
  HAL_SDIO_WRITE8 :: "int \<Rightarrow> u8 \<Rightarrow> 'h \<Rightarrow> 'h"
  SDIO_CPWM2_Set :: "u16 \<Rightarrow> bool \<Rightarrow> 'h \<Rightarrow> 'h"
  SDIO_DMA_Reset :: "'h \<Rightarrow> 'h"

datatype spdio_call = TxDone int | RxDone int int int int u8

record ('h, 'u) spdio =
  adapter :: HAL_SPDIO_ADAPTER
  rx_buf :: "int \<Rightarrow> spdio_buf_t"
  tx_desc_at :: "int \<Rightarrow> INIC_TX_DESC"
  hw :: 'h
  user :: 'u
  calls :: "spdio_call list"

definition SPDIO_TX_BUF_SZ_UNIT :: int where "SPDIO_TX_BUF_SZ_UNIT = 64"
definition RX_BD_FREE_TH :: int where "RX_BD_FREE_TH = 5"
definition MIN_RX_BD_SEND_PKT :: int where "MIN_RX_BD_SEND_PKT = 2"
definition MAX_RX_BD_BUF_SIZE :: int where "MAX_RX_BD_BUF_SIZE = 16380"
definition sizeof_INIC_RX_DESC :: int where "sizeof_INIC_RX_DESC = 16"

definition REG_SPDIO_HCI_RX_REQ :: int where "REG_SPDIO_HCI_RX_REQ = 0xBA"
definition BIT_HCI_RX_REQ :: u8 where "BIT_HCI_RX_REQ = 1"
definition REG_SPDIO_CPU_INT_STAS :: int where "REG_SPDIO_CPU_INT_STAS = 0xC2"
definition REG_SPDIO_CPU_INT_MASK :: int where "REG_SPDIO_CPU_INT_MASK = 0xC0"
definition REG_SPDIO_CPU_IND :: int where "REG_SPDIO_CPU_IND = 0xC5"
definition BIT_SYSTEM_TRX_RDY_IND :: u8 where "BIT_SYSTEM_TRX_RDY_IND = 1"
definition CPWM2_ACT_BIT :: u16 where "CPWM2_ACT_BIT = 1"
definition BIT_TXFIFO_H2C_OVF :: u16 where "BIT_TXFIFO_H2C_OVF = 1"
definition BIT_H2C_DMA_OK :: u16 where "BIT_H2C_DMA_OK = 4"
definition BIT_C2H_DMA_OK :: u16 where "BIT_C2H_DMA_OK = 8"

text \<open>\<open>BIT_H2C_DMA_OK\<close>, \<open>BIT_C2H_DMA_OK\<close>, \<open>BIT_H2C_MSG_INT\<close>, \<open>BIT_RPWM1_INT\<close>, \<open>BIT_RPWM2_INT\<close>, \<open>BIT_H2C_BUS_RES_FAIL\<close>, \<open>BIT_RXBD_FLAG_ERR_INT\<close>.\<close>

definition SDIO_INIT_INT_MASK :: u16 where "SDIO_INIT_INT_MASK = 0x17E"

definition SPDIO_SUCCESS :: u8 where "SPDIO_SUCCESS = 0"

section \<open>Sending to the host\<close>

text \<open>The next descriptor of a ring of \<open>n\<close>.\<close>

definition next_bd :: "int \<Rightarrow> int \<Rightarrow> int" where
  "next_bd n i = (let i = uint16 (i + 1) in if i \<ge> n then uint16 (i - n) else i)"

definition no_rx_bd :: "int \<Rightarrow> int \<Rightarrow> int \<Rightarrow> bool" where
  "no_rx_bd n RxBdRdPtr WPtr \<longleftrightarrow> RxBdRdPtr \<noteq> WPtr \<and>
     (if WPtr > RxBdRdPtr then WPtr - RxBdRdPtr \<ge> uint32 (n - MIN_RX_BD_SEND_PKT)
      else RxBdRdPtr - WPtr \<le> MIN_RX_BD_SEND_PKT)"

definition rx_desc_addr :: "HAL_SPDIO_ADAPTER \<Rightarrow> int \<Rightarrow> int" where
  "rx_desc_addr d i = pRXDESCAddrAligned d + sizeof_INIC_RX_DESC * i"

definition put_header :: "int \<Rightarrow> spdio_buf_t \<Rightarrow> HAL_SPDIO_ADAPTER \<Rightarrow> HAL_SPDIO_ADAPTER" where
  "put_header n pbuf d =
     (let w = RXBDWPtr d
      in d\<lparr>pRXDESC := (pRXDESC d)(w := (pRXDESC d w)\<lparr>desc_type := uint8 (buf_type pbuf), pkt_len := uint16 (buf_size pbuf),
             desc_offset := sizeof_INIC_RX_DESC\<rparr>),
           pRXBD := (pRXBD d)(w := (pRXBD d w)\<lparr>FS := True, LS := False, PhyAddr := rx_desc_addr d w,
             BuffSize := sizeof_INIC_RX_DESC\<rparr>),
           pRXBDHdl := (pRXBDHdl d)(w := (pRXBDHdl d w)\<lparr>isFree := False, isPktEnd := False\<rparr>),
           RXBDWPtr := next_bd n w\<rparr>)"

definition put_payload :: "int \<Rightarrow> int \<Rightarrow> spdio_buf_t \<Rightarrow> int \<Rightarrow> int \<Rightarrow> HAL_SPDIO_ADAPTER \<Rightarrow> int \<times> HAL_SPDIO_ADAPTER" where
  "put_payload n p pbuf pkt_size Offset d =
     (let w = RXBDWPtr d;
          size = pkt_size mod 2 ^ 14;
          Offset' = uint32 (Offset + size)
      in (Offset',
          d\<lparr>pRXBD := (pRXBD d)(w := (pRXBD d w)\<lparr>FS := False, PhyAddr := uint32 (buf_addr pbuf + Offset), BuffSize := size,
               LS := if Offset' \<ge> pkt_size then True else LS (pRXBD d w)\<rparr>),
            pRXBDHdl := (pRXBDHdl d)(w := (pRXBDHdl d w)\<lparr>isFree := False, priv := p, isPktEnd := True\<rparr>),
            RXBDWPtr := next_bd n w\<rparr>))"

partial_function (option) payload_loop ::
  "int \<Rightarrow> int \<Rightarrow> spdio_buf_t \<Rightarrow> int \<Rightarrow> int \<Rightarrow> HAL_SPDIO_ADAPTER \<Rightarrow> HAL_SPDIO_ADAPTER option" where
  "payload_loop n p pbuf pkt_size Offset d =
     (let pkt_size = (if pkt_size > MAX_RX_BD_BUF_SIZE then MAX_RX_BD_BUF_SIZE else pkt_size);
          (Offset, d) = put_payload n p pbuf pkt_size Offset d
      in if Offset < pkt_size then payload_loop n p pbuf pkt_size Offset d else Some d)"

text \<open>\<open>p\<close> is the address of the buffer structure, \<open>pbuf\<close> its contents; the result is \<open>_TRUE\<close> or \<open>_FALSE\<close>.\<close>

definition spdio_tx :: "'u spdio_t \<Rightarrow> 'h sdio_rom \<Rightarrow> int \<Rightarrow> spdio_buf_t \<Rightarrow> ('h, 'u) spdio \<Rightarrow> (bool \<times> ('h, 'u) spdio) option" where
  "spdio_tx obj r p pbuf s =
     (let d = adapter s
      in if no_rx_bd (tx_bd_num obj) (RXBDRPtr d) (RXBDWPtr d) then Some (False, s)
         else map_option
           (\<lambda>d. (True, s\<lparr>adapter := d, hw := HAL_SDIO_WRITE8 r REG_SPDIO_HCI_RX_REQ BIT_HCI_RX_REQ
              (SDIO_RXBD_WPTR_Set r (RXBDWPtr d) (hw s))\<rparr>))
           (payload_loop (tx_bd_num obj) p pbuf (uint16 (buf_size pbuf)) 0 (put_header (tx_bd_num obj) pbuf d)))"

section \<open>Recycling what the host has read\<close>

definition spdio_tx_done_cb :: "'u spdio_t \<Rightarrow> int \<Rightarrow> ('h, 'u) spdio \<Rightarrow> ('h, 'u) spdio" where
  "spdio_tx_done_cb obj p s = s\<lparr>user := tx_done_cb obj p (user s), calls := calls s @ [TxDone p]\<rparr>"

definition recycle_one :: "'u spdio_t \<Rightarrow> ('h, 'u) spdio \<Rightarrow> ('h, 'u) spdio" where
  "recycle_one obj s =
     (let i = RXBDRPtr (adapter s); hdl = pRXBDHdl (adapter s) i;
          s = (if isFree hdl then s
               else let s = (if isPktEnd hdl then spdio_tx_done_cb obj (priv hdl) s else s); d = adapter s
                    in s\<lparr>adapter := d\<lparr>
                         pRXDESC := (pRXDESC d)(i := \<lparr>pkt_len = 0, desc_offset = 0, desc_type = 0\<rparr>),
                         pRXBD := (pRXBD d)(i := \<lparr>BuffSize = 0, LS = False, FS = False, Seq = 0, PhyAddr = 0\<rparr>),
                         pRXBDHdl := (pRXBDHdl d)(i := (pRXBDHdl d i)\<lparr>isPktEnd := False, isFree := True\<rparr>)\<rparr>\<rparr>)
      in s\<lparr>adapter := (adapter s)\<lparr>RXBDRPtr := next_bd (tx_bd_num obj) i\<rparr>\<rparr>)"

partial_function (option) recycle_loop :: "'u spdio_t \<Rightarrow> 'h sdio_rom \<Rightarrow> ('h, 'u) spdio \<Rightarrow> ('h, 'u) spdio option" where
  "recycle_loop obj r s =
     (if SDIO_RXBD_RPTR_Get r (hw s) \<noteq> RXBDRPtr (adapter s) then recycle_loop obj r (recycle_one obj s) else Some s)"

definition SPDIO_Recycle_Rx_BD :: "'u spdio_t \<Rightarrow> 'h sdio_rom \<Rightarrow> ('h, 'u) spdio \<Rightarrow> ('h, 'u) spdio option" where
  "SPDIO_Recycle_Rx_BD obj r s =
     map_option (\<lambda>s. s\<lparr>hw := SDIO_INTConfig r BIT_C2H_DMA_OK True (hw s)\<rparr>)
       (recycle_loop obj r (s\<lparr>hw := SDIO_INTConfig r BIT_C2H_DMA_OK False (hw s)\<rparr>))"

section \<open>Receiving from the host\<close>

definition spdio_rx_done_cb :: "'u spdio_t \<Rightarrow> int \<Rightarrow> int \<Rightarrow> int \<Rightarrow> int \<Rightarrow> ('h, 'u) spdio \<Rightarrow> u8 \<times> ('h, 'u) spdio" where
  "spdio_rx_done_cb obj i offs pktsize ty s =
     (let pdata = uint32 (buf_addr (rx_buf s i) + offs)
      in case rx_done_cb obj i pdata pktsize ty (rx_buf s, user s) of
        (ret, b, u) \<Rightarrow> (ret, s\<lparr>rx_buf := b, user := u, calls := calls s @ [RxDone i pdata pktsize ty ret]\<rparr>))"

text \<open>The body of the loop of \<open>SPDIO_TX_FIFO_DataReady\<close>, up to the break.\<close>

definition data_ready_one :: "'u spdio_t \<Rightarrow> 'h sdio_rom \<Rightarrow> ('h, 'u) spdio \<Rightarrow> bool \<times> ('h, 'u) spdio" where
  "data_ready_one obj r s =
     (let i = TXBDRPtr (adapter s); desc = tx_desc_at s (pTXBD (adapter s) i);
          (ret, s) =
            (if txpktsize desc + tx_offset desc \<le> rx_bd_bufsz obj
             then case spdio_rx_done_cb obj i (tx_offset desc) (txpktsize desc) (tx_type desc) s of
               (ret, s) \<Rightarrow> (ret, s\<lparr>adapter := (adapter s)\<lparr>pTXBD := (pTXBD (adapter s))(i := buf_addr (rx_buf s i))\<rparr>\<rparr>)
             else (SPDIO_SUCCESS, s))
      in if ret \<noteq> SPDIO_SUCCESS then (False, s)
         else let i = uint16 (i + 1); i = (if i \<ge> rx_bd_num obj then 0 else i)
              in (True, s\<lparr>adapter := (adapter s)\<lparr>TXBDRPtr := i, TXBDRPtrReg := i\<rparr>,
                          hw := SDIO_TXBD_RPTR_Set r i (hw s)\<rparr>))"

partial_function (option) data_ready_loop :: "'u spdio_t \<Rightarrow> 'h sdio_rom \<Rightarrow> ('h, 'u) spdio \<Rightarrow> ('h, 'u) spdio option" where
  "data_ready_loop obj r s =
     (let (more, s) = data_ready_one obj r s
      in if more \<and> TXBDRPtr (adapter s) \<noteq> SDIO_TXBD_WPTR_Get r (hw s) then data_ready_loop obj r s else Some s)"

definition SPDIO_TX_FIFO_DataReady :: "'u spdio_t \<Rightarrow> 'h sdio_rom \<Rightarrow> ('h, 'u) spdio \<Rightarrow> ('h, 'u) spdio option" where
  "SPDIO_TX_FIFO_DataReady obj r s =
     (if SDIO_TXBD_WPTR_Get r (hw s) = TXBDRPtr (adapter s)
      then if TxOverFlow (adapter s) \<noteq> 0 then data_ready_loop obj r (s\<lparr>adapter := (adapter s)\<lparr>TxOverFlow := 0\<rparr>\<rparr>)
           else Some s
      else data_ready_loop obj r s)"

section \<open>The interrupt task\<close>

text \<open>A turn of the endless loop, after the semaphore.\<close>

definition SPDIO_IRQ_Handler_BH :: "'u spdio_t \<Rightarrow> 'h sdio_rom \<Rightarrow> ('h, 'u) spdio \<Rightarrow> ('h, 'u) spdio option" where
  "SPDIO_IRQ_Handler_BH obj r s =
     (let IntStatus = HAL_SDIO_READ16 r REG_SPDIO_CPU_INT_STAS (hw s);
          s = s\<lparr>hw := HAL_SDIO_WRITE16 r REG_SPDIO_CPU_INT_STAS IntStatus (hw s)\<rparr>
      in Option.bind (if IntStatus AND BIT_C2H_DMA_OK \<noteq> 0 then SPDIO_Recycle_Rx_BD obj r s else Some s)
           (\<lambda>s. Option.bind
              (if IntStatus AND BIT_H2C_DMA_OK \<noteq> 0
               then map_option (\<lambda>s. s\<lparr>hw := SDIO_INTConfig r BIT_H2C_DMA_OK True (hw s)\<rparr>)
                      (SPDIO_TX_FIFO_DataReady obj r (s\<lparr>hw := SDIO_INTConfig r BIT_H2C_DMA_OK False (hw s)\<rparr>))
               else Some s)
              (\<lambda>s. Some (if IntStatus AND BIT_TXFIFO_H2C_OVF \<noteq> 0 then s\<lparr>adapter := (adapter s)\<lparr>TxOverFlow := 1\<rparr>\<rparr> else s))))"

section \<open>Initialisation\<close>

definition SPDIO_RX_BUFSZ_ALIGN :: "int \<Rightarrow> int" where "SPDIO_RX_BUFSZ_ALIGN x = ((x - 1) div 64 + 1) * 64"

text \<open>The example settings; the user sets the callbacks afterwards.\<close>

definition spdio_structinit :: "'u spdio_t \<Rightarrow> 'u spdio_t" where
  "spdio_structinit obj = obj\<lparr>rx_bd_bufsz := SPDIO_RX_BUFSZ_ALIGN (2048 + 24), rx_bd_num := 24, tx_bd_num := 24\<rparr>"

definition spdio_init_struct :: "'u spdio_t \<Rightarrow> SDIO_InitTypeDef" where
  "spdio_init_struct obj =
     \<lparr>TXBD_RING_SIZE = rx_bd_num obj, TX_BUFFER_SIZE = (uint32 (rx_bd_bufsz obj - 1) div SPDIO_TX_BUF_SZ_UNIT + 1) mod 2 ^ 8,
      RXBD_RING_SIZE = tx_bd_num obj, RXBD_FREE_TH = RX_BD_FREE_TH\<rparr>"

text \<open>The last steps: the interrupts are enabled and the host is told.\<close>

definition spdio_enable :: "'h sdio_rom \<Rightarrow> 'h \<Rightarrow> 'h" where
  "spdio_enable r h =
     (let h = HAL_SDIO_WRITE16 r REG_SPDIO_CPU_INT_STAS SDIO_INIT_INT_MASK h;
          h = HAL_SDIO_WRITE16 r REG_SPDIO_CPU_INT_MASK SDIO_INIT_INT_MASK h;
          h = SDIO_CPWM2_Set r CPWM2_ACT_BIT True h
      in HAL_SDIO_WRITE8 r REG_SPDIO_CPU_IND (HAL_SDIO_READ8 r REG_SPDIO_CPU_IND h OR BIT_SYSTEM_TRX_RDY_IND) h)"

text \<open>
  The arrays in the state are the ones allocated, \<open>pRXDESCAddrAligned\<close> is the address of the packet descriptors; allocations and
  the creation of semaphore and task are taken to succeed, the clocks and the interrupt controller are left out. \<open>None\<close> is the exit
  \<open>SDIO_INIT_ERR\<close>, which releases the arrays.
\<close>

definition SPDIO_Device_Init :: "'u spdio_t \<Rightarrow> 'h sdio_rom \<Rightarrow> ('h, 'u) spdio \<Rightarrow> ('h, 'u) spdio option" where
  "SPDIO_Device_Init obj r s =
     (let h = SDIO_Init r (spdio_init_struct obj) (hw s); w = SDIO_TXBD_WPTR_Get r h; rd = SDIO_RXBD_RPTR_Get r h;
          addr = (\<lambda>i. buf_addr (rx_buf s i)); d = adapter s
      in if list_ex (\<lambda>i. addr i mod 4 \<noteq> 0 \<or> addr i = 0) [0..rx_bd_num obj - 1] then None
         else Some (s\<lparr>hw := spdio_enable r h, adapter := d\<lparr>TXBDWPtr := w, TXBDRPtr := w, TXBDRPtrReg := w, RXBDWPtr := rd, RXBDRPtr := rd,
           pTXBD := (\<lambda>i. if 0 \<le> i \<and> i < rx_bd_num obj then addr i else pTXBD d i),
           pRXDESC := (\<lambda>i. if 0 \<le> i \<and> i < tx_bd_num obj then \<lparr>pkt_len = 0, desc_offset = 0, desc_type = 0\<rparr> else pRXDESC d i),
           pRXBDHdl := (\<lambda>i. if 0 \<le> i \<and> i < tx_bd_num obj then \<lparr>priv = 0, isPktEnd = False, isFree = True\<rparr>
                            else pRXBDHdl d i)\<rparr>\<rparr>))"

definition spdio_init :: "'u spdio_t \<Rightarrow> 'h sdio_rom \<Rightarrow> ('h, 'u) spdio \<Rightarrow> ('h, 'u) spdio option" where
  "spdio_init obj r s =
     (if rx_bd_num obj = 0 \<or> rx_bd_bufsz obj = 0 \<or> rx_bd_bufsz obj mod 64 \<noteq> 0 \<or> tx_bd_num obj = 0 \<or> tx_bd_num obj mod 2 \<noteq> 0
      then None else SPDIO_Device_Init obj r s)"

text \<open>The end of the service; the arrays are released and no longer used.\<close>

definition SPDIO_Device_DeInit :: "'u spdio_t \<Rightarrow> 'h sdio_rom \<Rightarrow> ('h, 'u) spdio \<Rightarrow> ('h, 'u) spdio" where
  "SPDIO_Device_DeInit obj r s =
     (let h = SDIO_CPWM2_Set r CPWM2_ACT_BIT False (hw s);
          h = SDIO_INTConfig r 0xffff False h;
          h = HAL_SDIO_WRITE16 r REG_SPDIO_CPU_INT_STAS 0xffff h
      in s\<lparr>hw := SDIO_DMA_Reset r h,
           adapter := (adapter s)\<lparr>pTXBD := (\<lambda>i. if 0 \<le> i \<and> i < rx_bd_num obj then 0 else pTXBD (adapter s) i)\<rparr>\<rparr>)"

end
