(* ===== verification/Sdio_Ring.thy ===== *)
theory Sdio_Ring
  imports Sdio
begin

text \<open>
  The device and its surroundings. The contract of the DMA engine is the locale \<open>sdio_device\<close>, stated over the
  registers \<open>engine\<close>: it fetches the descriptors between its read pointer and the write pointer the software set, in
  order, and stores packets of the host behind its own write pointer while a descriptor is free. A run
  interleaves atomic turns of the user, the engine and the interrupt task in any order. The lemmas on each direction show an
  invariant that relates the ring to the list of all the packets so far.
\<close>

section \<open>The engine\<close>

text \<open>What the host gets for a descriptor: the packet descriptor, or bytes of memory; with the mark of the last segment.\<close>

datatype segment = Header bool INIC_RX_DESC | Payload bool int int

record engine =
  rx_rptr :: int
  rx_wptr :: int
  rx_size :: int
  tx_wptr :: int
  tx_pending :: int
  tx_size :: int
  int_status :: u16
  to_host :: "segment list"

definition segment_of :: "HAL_SPDIO_ADAPTER \<Rightarrow> int \<Rightarrow> segment" where
  "segment_of d i =
     (let bd = pRXBD d i
      in if FS bd then Header (LS bd) (pRXDESC d ((PhyAddr bd - pRXDESCAddrAligned d) div sizeof_INIC_RX_DESC))
         else Payload (LS bd) (PhyAddr bd) (BuffSize bd))"

text \<open>The engine's own steps: fetching a descriptor, storing a packet, raising bits of the interrupt status.\<close>

record 'h sdio_dma =
  dma_fetch :: "(int \<Rightarrow> segment) \<Rightarrow> 'h \<Rightarrow> 'h"
  dma_room :: "'h \<Rightarrow> bool"
  dma_store :: "'h \<Rightarrow> 'h"
  dma_raise :: "u16 \<Rightarrow> 'h \<Rightarrow> 'h"

locale sdio_device =
  fixes r :: "'h sdio_rom" and dma :: "'h sdio_dma" and view :: "'h \<Rightarrow> engine"
  assumes rptr_get [simp]: "SDIO_RXBD_RPTR_Get r h = rx_rptr (view h)"
    and wptr_get [simp]: "SDIO_TXBD_WPTR_Get r h = tx_wptr (view h)"
    and status_get [simp]: "HAL_SDIO_READ16 r REG_SPDIO_CPU_INT_STAS h = int_status (view h)"
    and wptr_set [simp]: "view (SDIO_RXBD_WPTR_Set r v h) = (view h)\<lparr>rx_wptr := v\<rparr>"
    and rptr_set [simp]: "view (SDIO_TXBD_RPTR_Set r v h) = (view h)\<lparr>tx_pending := (tx_wptr (view h) - v) mod tx_size (view h)\<rparr>"
    and int_config [simp]: "view (SDIO_INTConfig r m e h) = view h"
    and request [simp]: "view (HAL_SDIO_WRITE8 r REG_SPDIO_HCI_RX_REQ b h) = view h"
    and indicate [simp]: "view (HAL_SDIO_WRITE8 r REG_SPDIO_CPU_IND b h) = view h" "view (SDIO_CPWM2_Set r m e h) = view h"
      "view (HAL_SDIO_WRITE16 r REG_SPDIO_CPU_INT_MASK m h) = view h"
    and status_clear [simp]: "view (HAL_SDIO_WRITE16 r REG_SPDIO_CPU_INT_STAS m h) = (view h)\<lparr>int_status := int_status (view h) AND NOT m\<rparr>"
    and init: "0 < RXBD_RING_SIZE c \<Longrightarrow> 0 < TXBD_RING_SIZE c \<Longrightarrow> \<exists>p q. 0 \<le> p \<and> p < RXBD_RING_SIZE c \<and> 0 \<le> q \<and> q < TXBD_RING_SIZE c \<and>
        view (SDIO_Init r c h) = \<lparr>rx_rptr = p, rx_wptr = p, rx_size = RXBD_RING_SIZE c, tx_wptr = q, tx_pending = 0,
          tx_size = TXBD_RING_SIZE c, int_status = 0, to_host = []\<rparr>"
    and fetch [simp]: "view (dma_fetch dma f h) =
        (if rx_rptr (view h) = rx_wptr (view h) then view h
         else (view h)\<lparr>rx_rptr := (rx_rptr (view h) + 1) mod rx_size (view h), to_host := to_host (view h) @ [f (rx_rptr (view h))]\<rparr>)"
    and room [simp]: "dma_room dma h \<longleftrightarrow> tx_pending (view h) < tx_size (view h)"
    and store [simp]: "view (dma_store dma h) = (view h)\<lparr>tx_wptr := (tx_wptr (view h) + 1) mod tx_size (view h), tx_pending := tx_pending (view h) + 1\<rparr>"
    and raise [simp]: "view (dma_raise dma m h) = (view h)\<lparr>int_status := int_status (view h) OR m\<rparr>"

section \<open>Runs\<close>

text \<open>
  \<open>Send\<close> is a call of \<open>spdio_tx\<close>, \<open>Irq\<close> a turn of the interrupt task, \<open>Fetch\<close>, \<open>Store\<close> and \<open>Raise\<close> are steps of the engine: a
  packet of the host is stored if there is room.
\<close>

datatype spdio_event = Send int spdio_buf_t | Fetch | Store INIC_TX_DESC | Raise u16 | Irq

fun spdio_step :: "'u spdio_t \<Rightarrow> 'h sdio_rom \<Rightarrow> 'h sdio_dma \<Rightarrow> spdio_event \<Rightarrow> ('h, 'u) spdio \<Rightarrow> ('h, 'u) spdio option" where
  "spdio_step obj r dma (Send p b) s = map_option snd (spdio_tx obj r p b s)"
| "spdio_step obj r dma Fetch s = Some (s\<lparr>hw := dma_fetch dma (segment_of (adapter s)) (hw s)\<rparr>)"
| "spdio_step obj r dma (Store d) s = Some
     (if dma_room dma (hw s)
      then s\<lparr>tx_desc_at := (tx_desc_at s)(pTXBD (adapter s) (SDIO_TXBD_WPTR_Get r (hw s)) := d), hw := dma_store dma (hw s)\<rparr>
      else s)"
| "spdio_step obj r dma (Raise m) s = Some (s\<lparr>hw := dma_raise dma m (hw s)\<rparr>)"
| "spdio_step obj r dma Irq s = SPDIO_IRQ_Handler_BH obj r s"

text \<open>The packets an event puts into a ring: one that \<open>spdio_tx\<close> accepted, one of the host that found room, with the address of its buffer.\<close>

fun sent :: "'u spdio_t \<Rightarrow> 'h sdio_rom \<Rightarrow> spdio_event \<Rightarrow> ('h, 'u) spdio \<Rightarrow> (int \<times> spdio_buf_t) list" where
  "sent obj r (Send p b) s = (case spdio_tx obj r p b s of Some (True, s') \<Rightarrow> [(p, b)] | _ \<Rightarrow> [])"
| "sent obj r e s = []"

fun stored :: "'h sdio_rom \<Rightarrow> 'h sdio_dma \<Rightarrow> spdio_event \<Rightarrow> ('h, 'u) spdio \<Rightarrow> (int \<times> INIC_TX_DESC) list" where
  "stored r dma (Store d) s = (if dma_room dma (hw s) then [(pTXBD (adapter s) (SDIO_TXBD_WPTR_Get r (hw s)), d)] else [])"
| "stored r dma e s = []"

fun spdio_run :: "'u spdio_t \<Rightarrow> 'h sdio_rom \<Rightarrow> 'h sdio_dma \<Rightarrow> spdio_event list \<Rightarrow> ('h, 'u) spdio \<Rightarrow>
    ((int \<times> spdio_buf_t) list \<times> (int \<times> INIC_TX_DESC) list \<times> ('h, 'u) spdio) option" where
  "spdio_run obj r dma [] s = Some ([], [], s)"
| "spdio_run obj r dma (e # es) s =
     Option.bind (spdio_step obj r dma e s)
       (\<lambda>s'. map_option (\<lambda>(A, Q, s''). (sent obj r e s @ A, stored r dma e s @ Q, s'')) (spdio_run obj r dma es s'))"

section \<open>Positions in a ring\<close>

text \<open>The place of the \<open>k\<close>-th descriptor of all, in a ring of \<open>n\<close> that started at \<open>p\<close>.\<close>

definition slot :: "int \<Rightarrow> int \<Rightarrow> nat \<Rightarrow> int" where
  "slot n p k = (p + int k) mod n"

lemma slot_range: "0 < n \<Longrightarrow> 0 \<le> slot n p k" "0 < n \<Longrightarrow> slot n p k < n"
  by (simp_all add: slot_def)

lemma slot_start: "0 \<le> p \<Longrightarrow> p < n \<Longrightarrow> slot n p 0 = p"
  by (simp add: slot_def)

lemma slot_Suc: "(slot n p k + 1) mod n = slot n p (Suc k)"
  by (simp add: slot_def mod_add_left_eq add.assoc add.commute [of 1])

lemma mod_below_twice: "0 < n \<Longrightarrow> 0 \<le> x \<Longrightarrow> x < 2 * n \<Longrightarrow> x mod n = (if x < n then x else x - n)" for x n :: int
  using mod_pos_pos_trivial [of "x - n" n] by (auto simp: mod_pos_pos_trivial)

lemma slot_diff:
  assumes "0 < n" and "k \<le> l" and "int (l - k) < n"
  shows "slot n p l = (if slot n p k + int (l - k) < n then slot n p k + int (l - k) else slot n p k + int (l - k) - n)"
proof -
  have "p + int l = p + int k + int (l - k)" using assms(2) by simp
  then have "slot n p l = (slot n p k + int (l - k)) mod n" by (simp only: slot_def mod_add_left_eq)
  then show ?thesis using mod_below_twice [of n "slot n p k + int (l - k)"] slot_range [of n p k] assms(1,3) by simp
qed

lemma slot_wrap: "0 < n \<Longrightarrow> slot n p (Suc k) = (if slot n p k + 1 = n then 0 else slot n p k + 1)"
  using mod_below_twice [of n "slot n p k + 1"] slot_range [of n p k] unfolding slot_Suc [symmetric] by auto

lemma slot_eq_iff:
  assumes "0 < n" and "k \<le> l" and "int (l - k) < n"
  shows "slot n p l = slot n p k \<longleftrightarrow> k = l"
  using slot_diff [OF assms, of p] assms(2,3) by (auto split: if_splits)

lemma next_bd_slot:
  assumes "0 < n" and "n < 2 ^ 16"
  shows "next_bd n (slot n p k) = slot n p (Suc k)"
proof -
  have "uint16 (slot n p k + 1) = slot n p k + 1" using slot_range [OF assms(1), of p k] assms by (simp add: uint16_def)
  moreover have "uint16 0 = 0" by (simp add: uint16_def)
  ultimately show ?thesis using slot_range [OF assms(1), of p k] slot_wrap [OF assms(1), of p k] by (auto simp: next_bd_def Let_def)
qed

lemma slot_minus:
  assumes "0 < n" and "k \<le> l" and "int (l - k) < n"
  shows "(slot n p l - slot n p k) mod n = int (l - k)"
proof -
  have "p + int l - (p + int k) = int (l - k)" using assms(2) by simp
  then have "(slot n p l - slot n p k) mod n = int (l - k) mod n" by (simp only: slot_def mod_diff_eq)
  then show ?thesis using assms(3) by simp
qed

lemma next_tx_bd_slot:
  assumes "0 < n" and "n < 2 ^ 16"
  shows "(if uint16 (slot n p k + 1) \<ge> n then 0 else uint16 (slot n p k + 1)) = slot n p (Suc k)"
proof -
  have "uint16 (slot n p k + 1) = slot n p k + 1" using slot_range [OF assms(1), of p k] assms by (simp add: uint16_def)
  then show ?thesis using slot_range [OF assms(1), of p k] slot_wrap [OF assms(1), of p k] by auto
qed

text \<open>The test of \<open>spdio_tx\<close>: two descriptors must be free, and a third, since a full ring would look empty.\<close>

lemma no_rx_bd_slot:
  assumes "2 < n" and "n < 2 ^ 16" and "k \<le> l" and "int (l - k) < n"
  shows "no_rx_bd n (slot n p k) (slot n p l) \<longleftrightarrow> n \<le> int (l - k) + 2"
proof -
  define x y u where "x = slot n p k" and "y = slot n p l" and "u = int (l - k)"
  have "0 < n" using assms(1) by simp
  then have "0 \<le> x" "x < n" "y = (if x + u < n then x + u else x + u - n)"
    using slot_diff [of n k l p] slot_range [of n p k] assms(3,4) by (simp_all add: x_def y_def u_def)
  moreover have "0 \<le> u" "u < n" using assms(4) by (simp_all add: u_def)
  moreover have "uint32 (n - 2) = n - 2" using assms(1,2) by (intro uint32_id) auto
  ultimately show ?thesis
    using assms(1) unfolding x_def [symmetric] y_def [symmetric] u_def [symmetric] no_rx_bd_def MIN_RX_BD_SEND_PKT_def
    by (cases "x + u < n") auto
qed

section \<open>What is on its way to the host\<close>

text \<open>A packet goes out as its descriptor and its bytes, of which one buffer descriptor can hold \<open>MAX_RX_BD_BUF_SIZE\<close>.\<close>

definition packet_desc :: "spdio_buf_t \<Rightarrow> INIC_RX_DESC" where
  "packet_desc b = \<lparr>pkt_len = uint16 (buf_size b), desc_offset = sizeof_INIC_RX_DESC, desc_type = uint8 (buf_type b)\<rparr>"

text \<open>
  What the code sends of a packet: the size in its descriptor has 16 bits, and more than 16380 bytes do not fit into one
  block descriptor and are cut off, while the header keeps the size.
\<close>

definition payload_size :: "spdio_buf_t \<Rightarrow> int" where
  "payload_size b = min (uint16 (buf_size b)) MAX_RX_BD_BUF_SIZE"

definition segments :: "int \<times> spdio_buf_t \<Rightarrow> segment list" where
  "segments = (\<lambda>(p, b). [Header False (packet_desc b), Payload True (uint32 (buf_addr b)) (payload_size b)])"

definition wire :: "(int \<times> spdio_buf_t) list \<Rightarrow> segment list" where
  "wire A = concat (map segments A)"

lemma length_segments [simp]: "length (segments pb) = 2"
  by (simp add: segments_def split: prod.splits)

lemma length_wire [simp]: "length (wire A) = 2 * length A"
  by (induction A) (auto simp: wire_def)

lemma wire_append [simp]: "wire (A @ B) = wire A @ wire B" and wire_single [simp]: "wire [pb] = segments pb"
  by (simp_all add: wire_def)

text \<open>The descriptor at slot \<open>i\<close> holds the \<open>k\<close>-th segment of all, and its handle says so.\<close>

definition live :: "HAL_SPDIO_ADAPTER \<Rightarrow> (int \<times> spdio_buf_t) list \<Rightarrow> nat \<Rightarrow> int \<Rightarrow> bool" where
  "live d A k i \<longleftrightarrow> \<not> isFree (pRXBDHdl d i) \<and> segment_of d i = wire A ! k \<and>
     (FS (pRXBD d i) \<longrightarrow> PhyAddr (pRXBD d i) = rx_desc_addr d i) \<and>
     (if even k then \<not> isPktEnd (pRXBDHdl d i) else isPktEnd (pRXBDHdl d i) \<and> priv (pRXBDHdl d i) = fst (A ! (k div 2)))"

fun tx_dones :: "spdio_call list \<Rightarrow> int list" where
  "tx_dones [] = []"
| "tx_dones (TxDone p # cs) = p # tx_dones cs"
| "tx_dones (RxDone i a n t ret # cs) = tx_dones cs"

lemma tx_dones_append [simp]: "tx_dones (cs @ ds) = tx_dones cs @ tx_dones ds"
  by (induction cs rule: tx_dones.induct) auto

text \<open>
  The invariant, where \<open>A\<close> are the packets accepted so far, \<open>H\<close> segments were fetched, \<open>R\<close> were recycled.
\<close>

definition sending :: "int \<Rightarrow> int \<Rightarrow> (int \<times> spdio_buf_t) list \<Rightarrow> nat \<Rightarrow> nat \<Rightarrow> HAL_SPDIO_ADAPTER \<Rightarrow> engine \<Rightarrow> spdio_call list \<Rightarrow> bool" where
  "sending n p A H R d e cs \<longleftrightarrow>
     R \<le> H \<and> H \<le> 2 * length A \<and> int (2 * length A - R) < n \<and>
     RXBDWPtr d = slot n p (2 * length A) \<and> rx_wptr e = RXBDWPtr d \<and> rx_rptr e = slot n p H \<and> RXBDRPtr d = slot n p R \<and>
     rx_size e = n \<and> to_host e = take H (wire A) \<and> tx_dones cs = map fst (take (R div 2) A) \<and>
     (\<forall>k. R \<le> k \<and> k < 2 * length A \<longrightarrow> live d A k (slot n p k))"

lemma live_frame:
  assumes "live d A k i" and "k < 2 * length A" and "pRXBD d' i = pRXBD d i" and "pRXDESC d' i = pRXDESC d i"
    and "pRXBDHdl d' i = pRXBDHdl d i" and "pRXDESCAddrAligned d' = pRXDESCAddrAligned d"
  shows "live d' (A @ B) k i"
proof -
  have "(A @ B) ! (k div 2) = A ! (k div 2)" "wire (A @ B) ! k = wire A ! k" using assms(2) by (auto simp: nth_append)
  then show ?thesis
    using assms(1) by (auto simp: live_def segment_of_def rx_desc_addr_def sizeof_INIC_RX_DESC_def Let_def assms(3-6))
qed

lemma live_frame_same:
  assumes "live d A k i" and "k < 2 * length A" and "pRXBD d' i = pRXBD d i" and "pRXDESC d' i = pRXDESC d i"
    and "pRXBDHdl d' i = pRXBDHdl d i" and "pRXDESCAddrAligned d' = pRXDESCAddrAligned d"
  shows "live d' A k i"
  using live_frame [OF assms, of "[]"] by simp

subsection \<open>Sending\<close>

lemma payload_loop_once:
  assumes "0 \<le> sz" and "sz < 2 ^ 16"
  shows "payload_loop n p b sz 0 d = Some (snd (put_payload n p b (min sz MAX_RX_BD_BUF_SIZE) 0 d))"
proof -
  let ?m = "min sz MAX_RX_BD_BUF_SIZE"
  have m: "(if sz > MAX_RX_BD_BUF_SIZE then MAX_RX_BD_BUF_SIZE else sz) = ?m" by simp
  have "fst (put_payload n p b ?m 0 d) = uint32 (?m mod 2 ^ 14)" by (simp add: put_payload_def Let_def)
  moreover have "?m mod 2 ^ 14 = ?m" using assms by (simp add: MAX_RX_BD_BUF_SIZE_def)
  moreover have "uint32 ?m = ?m" using assms by (intro uint32_id) (auto simp: MAX_RX_BD_BUF_SIZE_def)
  ultimately obtain d' where "put_payload n p b ?m 0 d = (?m, d')" by (metis prod.collapse)
  then show ?thesis by (subst payload_loop.simps) (simp add: m Let_def del: min_less_iff_conj)
qed

lemma put_header_live:
  assumes "d' = put_header n b d" and "w = RXBDWPtr d"
  shows "live d' (A @ [(p, b)]) (2 * length A) w" "RXBDWPtr d' = next_bd n w"
    "i \<noteq> w \<Longrightarrow> pRXBD d' i = pRXBD d i" "i \<noteq> w \<Longrightarrow> pRXDESC d' i = pRXDESC d i" "i \<noteq> w \<Longrightarrow> pRXBDHdl d' i = pRXBDHdl d i"
    "pRXDESCAddrAligned d' = pRXDESCAddrAligned d" "RXBDRPtr d' = RXBDRPtr d"
  by (simp_all add: assms put_header_def live_def segment_of_def rx_desc_addr_def sizeof_INIC_RX_DESC_def Let_def
      nth_append segments_def packet_desc_def)

lemma put_payload_live:
  assumes "d' = snd (put_payload n p b (min (uint16 (buf_size b)) MAX_RX_BD_BUF_SIZE) 0 d)" and "w = RXBDWPtr d"
  shows "live d' (A @ [(p, b)]) (Suc (2 * length A)) w" "RXBDWPtr d' = next_bd n w"
    "i \<noteq> w \<Longrightarrow> pRXBD d' i = pRXBD d i" "pRXDESC d' = pRXDESC d" "i \<noteq> w \<Longrightarrow> pRXBDHdl d' i = pRXBDHdl d i"
    "pRXDESCAddrAligned d' = pRXDESCAddrAligned d" "RXBDRPtr d' = RXBDRPtr d"
proof -
  let ?m = "min (uint16 (buf_size b)) MAX_RX_BD_BUF_SIZE"
  have m: "0 \<le> ?m" "?m < 2 ^ 14" by (auto simp: MAX_RX_BD_BUF_SIZE_def uint16_def min_def)
  then have "?m mod 2 ^ 14 = ?m" "uint32 ?m = ?m" by (simp, intro uint32_id) auto
  then show "live d' (A @ [(p, b)]) (Suc (2 * length A)) w" "RXBDWPtr d' = next_bd n w"
    "i \<noteq> w \<Longrightarrow> pRXBD d' i = pRXBD d i" "pRXDESC d' = pRXDESC d" "i \<noteq> w \<Longrightarrow> pRXBDHdl d' i = pRXBDHdl d i"
    "pRXDESCAddrAligned d' = pRXDESCAddrAligned d" "RXBDRPtr d' = RXBDRPtr d"
    by (simp_all add: assms put_payload_def live_def segment_of_def Let_def nth_append segments_def payload_size_def)
qed

text \<open>A packet is accepted exactly if three descriptors are free, and joins the end of the line.\<close>

context sdio_device
begin

lemma spdio_tx_sending:
  assumes "sending n p A H R (adapter s) (view (hw s)) (calls s)" and "n = tx_bd_num obj" and "2 < n" and "n < 2 ^ 16"
  shows "n \<le> int (2 * length A - R) + 2 \<Longrightarrow> spdio_tx obj r q b s = Some (False, s)"
    and "int (2 * length A - R) + 2 < n \<Longrightarrow> \<exists>d h. spdio_tx obj r q b s = Some (True, s\<lparr>adapter := d, hw := h\<rparr>) \<and>
      sending n p (A @ [(q, b)]) H R d (view h) (calls s)"
proof -
  let ?d = "adapter s" and ?l = "2 * length A"
  have n: "0 < n" using assms(3) by simp
  have inv: "R \<le> H" "H \<le> ?l" "int (?l - R) < n" "RXBDWPtr ?d = slot n p ?l" "rx_rptr (view (hw s)) = slot n p H"
    "RXBDRPtr ?d = slot n p R" "rx_size (view (hw s)) = n" "to_host (view (hw s)) = take H (wire A)"
    "tx_dones (calls s) = map fst (take (R div 2) A)"
    and lv: "R \<le> k \<Longrightarrow> k < ?l \<Longrightarrow> live ?d A k (slot n p k)" for k
    using assms(1) by (auto simp: sending_def)
  have room: "no_rx_bd n (RXBDRPtr ?d) (RXBDWPtr ?d) \<longleftrightarrow> n \<le> int (?l - R) + 2"
    unfolding inv(4,6) using no_rx_bd_slot [OF assms(3,4), of R ?l p] inv(1-3) by simp
  show "spdio_tx obj r q b s = Some (False, s)" if "n \<le> int (?l - R) + 2"
    using that room assms(2) by (simp add: spdio_tx_def Let_def)
  assume free: "int (?l - R) + 2 < n"
  define d1 d2 where "d1 = put_header n b ?d" and "d2 = snd (put_payload n q b (min (uint16 (buf_size b)) MAX_RX_BD_BUF_SIZE) 0 d1)"
  note h = put_header_live [OF d1_def refl] and y = put_payload_live [OF d2_def refl]
  have w1: "RXBDWPtr ?d = slot n p ?l" "RXBDWPtr d1 = slot n p (Suc ?l)" "RXBDWPtr d2 = slot n p (Suc (Suc ?l))"
    using inv(4) h(2) y(2) next_bd_slot [OF n assms(4)] by simp_all
  have ne: "slot n p k \<noteq> slot n p l'" if "R \<le> k" "k < l'" "l' \<le> Suc ?l" for k l'
  proof -
    have "int (l' - k) < n" using that free by linarith
    then show ?thesis using slot_eq_iff [OF n, of k l' p] that by auto
  qed
  have "live d2 (A @ [(q, b)]) k (slot n p k)" if k: "R \<le> k" "k < ?l + 2" for k
  proof -
    consider "k < ?l" | "k = ?l" | "k = Suc ?l" using k(2) by linarith
    then show ?thesis
    proof cases
      case 1
      then have ne': "slot n p k \<noteq> slot n p ?l" "slot n p k \<noteq> slot n p (Suc ?l)" using ne [of k ?l] ne [of k "Suc ?l"] k(1) by auto
      have "live d1 (A @ [(q, b)]) k (slot n p k)"
        by (rule live_frame [OF lv [OF k(1) 1] 1]) (use ne'(1) in \<open>simp_all add: h w1\<close>)
      then show ?thesis by (rule live_frame_same) (use ne'(2) 1 in \<open>simp_all add: y w1\<close>)
    next
      case 2
      then have "slot n p k \<noteq> slot n p (Suc ?l)" using ne [of k "Suc ?l"] k(1) by auto
      moreover have "live d1 (A @ [(q, b)]) k (slot n p k)" using h(1) [of A q] 2 w1 by simp
      ultimately show ?thesis by - (rule live_frame_same, assumption, use 2 in \<open>simp_all add: y w1\<close>)
    next
      case 3
      then show ?thesis using y(1) by (simp add: w1)
    qed
  qed
  moreover define h' where "h' = HAL_SDIO_WRITE8 r REG_SPDIO_HCI_RX_REQ BIT_HCI_RX_REQ (SDIO_RXBD_WPTR_Set r (RXBDWPtr d2) (hw s))"
  moreover have "int (?l + 2 - R) < n" using free inv(1,2) by linarith
  ultimately have "sending n p (A @ [(q, b)]) H R d2 (view h') (calls s)"
    using inv h(7) y(7) w1 by (simp add: sending_def)
  moreover have "spdio_tx obj r q b s = Some (True, s\<lparr>adapter := d2, hw := h'\<rparr>)"
    using room free assms(2) by (simp add: spdio_tx_def Let_def payload_loop_once uint16_def d1_def d2_def h'_def)
  ultimately show "\<exists>d h. spdio_tx obj r q b s = Some (True, s\<lparr>adapter := d, hw := h\<rparr>) \<and>
      sending n p (A @ [(q, b)]) H R d (view h) (calls s)" by blast
qed

end

lemma recycle_one_hw [simp]: "hw (recycle_one obj s) = hw s"
  by (simp add: recycle_one_def spdio_tx_done_cb_def Let_def)

text \<open>The engine fetches the next segment; recycling gives back a descriptor that was fetched.\<close>

context sdio_device
begin

lemma fetch_sending:
  assumes "sending n p A H R d (view h) cs" and "0 < n"
  shows "sending n p A (min (Suc H) (2 * length A)) R d (view (dma_fetch dma (segment_of d) h)) cs"
proof (cases "H = 2 * length A")
  case True
  then show ?thesis using assms(1) by (auto simp: sending_def)
next
  case False
  then have H: "H < 2 * length A" "R \<le> H" "int (2 * length A - H) < n" using assms(1) by (auto simp: sending_def)
  then have "slot n p (2 * length A) \<noteq> slot n p H" using slot_eq_iff [OF assms(2), of H "2 * length A" p] by simp
  moreover have "segment_of d (slot n p H) = wire A ! H" using assms(1) H by (auto simp: sending_def live_def)
  moreover have "min (Suc H) (2 * length A) = Suc H" using H(1) by simp
  ultimately show ?thesis using assms(1) H(1) by (auto simp: sending_def slot_Suc take_Suc_conv_app_nth)
qed

lemma recycle_one_sending:
  assumes "sending n p A H R (adapter s) e (calls s)" and "n = tx_bd_num obj" and "0 < n" and "n < 2 ^ 16" and "R < H"
  shows "sending n p A H (Suc R) (adapter (recycle_one obj s)) e (calls (recycle_one obj s))"
proof -
  let ?i = "slot n p R" and ?s = "recycle_one obj s"
  have R: "R < 2 * length A" "int (2 * length A - R) < n" "RXBDRPtr (adapter s) = ?i" using assms(1,5) by (auto simp: sending_def)
  have lv: "live (adapter s) A R ?i" using assms(1,5) R(1) by (auto simp: sending_def)
  have "live (adapter ?s) A k (slot n p k)" if k: "Suc R \<le> k" "k < 2 * length A" for k
  proof -
    have "int (k - R) < n" using k R(2) by linarith
    then have "slot n p k \<noteq> ?i" using slot_eq_iff [OF assms(3), of R k p] k by auto
    moreover have "live (adapter s) A k (slot n p k)" using assms(1) k by (auto simp: sending_def)
    ultimately show ?thesis
      using k(2) by - (rule live_frame_same, assumption, simp_all add: recycle_one_def spdio_tx_done_cb_def R(3) Let_def)
  qed
  moreover have "RXBDRPtr (adapter ?s) = slot n p (Suc R)" "RXBDWPtr (adapter ?s) = RXBDWPtr (adapter s)"
    using next_bd_slot [OF assms(3,4)] assms(2) R(3) by (simp_all add: recycle_one_def spdio_tx_done_cb_def Let_def)
  moreover have "tx_dones (calls ?s) = map fst (take (Suc R div 2) A)"
  proof (cases "even R")
    case True
    then show ?thesis
      using lv R(3) assms(1) by (auto simp: recycle_one_def spdio_tx_done_cb_def live_def sending_def Let_def)
  next
    case False
    then obtain j where j: "R = Suc (2 * j)" by (auto elim: oddE)
    then have "j < length A" using R(1) by simp
    then show ?thesis
      using False lv R(3) assms(1) j by (auto simp: recycle_one_def spdio_tx_done_cb_def live_def sending_def Let_def take_Suc_conv_app_nth)
  qed
  ultimately show ?thesis using assms(1,5) by (auto simp: sending_def)
qed

lemma recycle_loop_sending:
  assumes "sending n p A H R (adapter s) (view (hw s)) (calls s)" and "n = tx_bd_num obj" and "0 < n" and "n < 2 ^ 16"
  shows "\<exists>s'. recycle_loop obj r s = Some s' \<and> s' = (recycle_one obj ^^ (H - R)) s \<and>
    sending n p A H H (adapter s') (view (hw s')) (calls s')"
  using assms
proof (induction "H - R" arbitrary: R s)
  case 0
  then have "R = H" by (auto simp: sending_def)
  then show ?case using 0 by (subst recycle_loop.simps) (auto simp: sending_def)
next
  case (Suc j)
  then have R: "R < H" "H - R = Suc (H - Suc R)" "int (H - R) < n" by (auto simp: sending_def)
  then have "slot n p H \<noteq> slot n p R" using slot_eq_iff [OF Suc.prems(3), of R H p] by simp
  then have go: "recycle_loop obj r s = recycle_loop obj r (recycle_one obj s)"
    using Suc.prems(1) by (subst recycle_loop.simps) (simp add: sending_def)
  have "sending n p A H (Suc R) (adapter (recycle_one obj s)) (view (hw (recycle_one obj s))) (calls (recycle_one obj s))"
    using recycle_one_sending [OF Suc.prems R(1)] by simp
  then show ?case using Suc.hyps(1) [of "Suc R" "recycle_one obj s"] Suc.hyps(2) Suc.prems(2-4) unfolding go R(2) by (simp add: funpow_swap1)
qed

end

end
