(* ===== verification/Sdio_Run.thy ===== *)
theory Sdio_Run
  imports Sdio_Ring
begin

text \<open>
  The other direction, packets of the host, and the runs of both. The lemmas on the whole device put the two invariants through
  every turn: the two rings share no state.
\<close>

section \<open>What came from the host\<close>

fun delivered :: "spdio_call list \<Rightarrow> (int \<times> int \<times> int \<times> int) list" where
  "delivered [] = []"
| "delivered (TxDone p # cs) = delivered cs"
| "delivered (RxDone i a n t ret # cs) = (if ret = SPDIO_SUCCESS then (i, a, n, t) # delivered cs else delivered cs)"

lemma delivered_append [simp]: "delivered (cs @ ds) = delivered cs @ delivered ds"
  by (induction cs rule: delivered.induct) auto

definition fits :: "'u spdio_t \<Rightarrow> INIC_TX_DESC \<Rightarrow> bool" where
  "fits obj d \<longleftrightarrow> txpktsize d + tx_offset d \<le> rx_bd_bufsz obj"

text \<open>The calls the user has to get for the packets \<open>Q\<close>, each with the address it was stored at.\<close>

definition deliveries :: "'u spdio_t \<Rightarrow> int \<Rightarrow> (int \<times> INIC_TX_DESC) list \<Rightarrow> (int \<times> int \<times> int \<times> int) list" where
  "deliveries obj q Q = map (\<lambda>k. (slot (rx_bd_num obj) q k, uint32 (fst (Q ! k) + tx_offset (snd (Q ! k))), txpktsize (snd (Q ! k)), tx_type (snd (Q ! k))))
     (filter (\<lambda>k. fits obj (snd (Q ! k))) [0..<length Q])"

lemma deliveries_Suc:
  assumes "P < length Q"
  shows "deliveries obj q (take (Suc P) Q) = deliveries obj q (take P Q) @
    (if fits obj (snd (Q ! P)) then [(slot (rx_bd_num obj) q P, uint32 (fst (Q ! P) + tx_offset (snd (Q ! P))), txpktsize (snd (Q ! P)), tx_type (snd (Q ! P)))] else [])"
proof -
  have "filter (\<lambda>k. fits obj (snd (take P Q ! k))) [0..<P] = filter (\<lambda>k. fits obj (snd (take (Suc P) Q ! k))) [0..<P]"
    by (rule filter_cong) auto
  then show ?thesis using assms by (simp add: deliveries_def)
qed

text \<open>The user leaves the buffers of the other descriptors alone and gives back a buffer that no other descriptor has;
  with a packet that it refuses it keeps the buffer.\<close>

definition keeps_buffers :: "'u spdio_t \<Rightarrow> bool" where
  "keeps_buffers obj \<longleftrightarrow> (\<forall>i a n t b u. 0 \<le> i \<and> i < rx_bd_num obj \<and> inj_on (\<lambda>j. buf_addr (b j)) {0..<rx_bd_num obj} \<longrightarrow>
     (case rx_done_cb obj i a n t (b, u) of (ret, b', u') \<Rightarrow>
        inj_on (\<lambda>j. buf_addr (b' j)) {0..<rx_bd_num obj} \<and> (\<forall>j. j \<noteq> i \<longrightarrow> b' j = b j) \<and>
        (ret \<noteq> SPDIO_SUCCESS \<longrightarrow> buf_addr (b' i) = buf_addr (b i))))"

definition receiving :: "'u spdio_t \<Rightarrow> int \<Rightarrow> (int \<times> INIC_TX_DESC) list \<Rightarrow> nat \<Rightarrow> HAL_SPDIO_ADAPTER \<Rightarrow> engine \<Rightarrow>
    (int \<Rightarrow> spdio_buf_t) \<Rightarrow> (int \<Rightarrow> INIC_TX_DESC) \<Rightarrow> spdio_call list \<Rightarrow> bool" where
  "receiving obj q Q P d e b m cs \<longleftrightarrow> (let n = rx_bd_num obj in
     P \<le> length Q \<and> int (length Q - P) \<le> n \<and> TXBDRPtr d = slot n q P \<and> tx_wptr e = slot n q (length Q) \<and>
     tx_pending e = int (length Q - P) \<and> tx_size e = n \<and> inj_on (\<lambda>i. buf_addr (b i)) {0..<n} \<and>
     (\<forall>i. 0 \<le> i \<and> i < n \<longrightarrow> pTXBD d i = buf_addr (b i)) \<and>
     (\<forall>k. P \<le> k \<and> k < length Q \<longrightarrow> Q ! k = (buf_addr (b (slot n q k)), m (buf_addr (b (slot n q k))))) \<and>
     delivered cs = deliveries obj q (take P Q))"

text \<open>The part of the state that the other direction uses.\<close>

definition rx_part :: "HAL_SPDIO_ADAPTER \<Rightarrow> engine \<Rightarrow> spdio_call list \<Rightarrow>
    ((int \<Rightarrow> SPDIO_RX_BD) \<times> (int \<Rightarrow> INIC_RX_DESC) \<times> (int \<Rightarrow> SPDIO_RX_BD_HANDLE) \<times> int \<times> int \<times> int) \<times>
    (int \<times> int \<times> int \<times> segment list) \<times> int list" where
  "rx_part d e cs = ((pRXBD d, pRXDESC d, pRXBDHdl d, pRXDESCAddrAligned d, RXBDWPtr d, RXBDRPtr d),
     (rx_rptr e, rx_wptr e, rx_size e, to_host e), tx_dones cs)"

lemma rx_part_sending:
  assumes "rx_part d e cs = rx_part d' e' cs'"
  shows "sending n p A H R d e cs = sending n p A H R d' e' cs'"
  using assms by (simp add: rx_part_def sending_def live_def segment_of_def rx_desc_addr_def Let_def)

context sdio_device
begin

lemma store_receiving:
  assumes "receiving obj q Q P d (view h) b m cs" and "0 < rx_bd_num obj" and "dma_room dma h"
    and "a = pTXBD d (SDIO_TXBD_WPTR_Get r h)"
  shows "receiving obj q (Q @ [(a, desc)]) P d (view (dma_store dma h)) b (m(a := desc)) cs"
proof -
  let ?n = "rx_bd_num obj"
  have inv: "P \<le> length Q" "int (length Q - P) < ?n" "tx_wptr (view h) = slot ?n q (length Q)" "inj_on (\<lambda>i. buf_addr (b i)) {0..<?n}"
    using assms(1,3) by (auto simp: receiving_def Let_def)
  have a: "a = buf_addr (b (slot ?n q (length Q)))"
    using assms(1,4) inv(3) slot_range [OF assms(2), of q "length Q"] by (simp add: receiving_def Let_def)
  have "buf_addr (b (slot ?n q k)) \<noteq> a" if "P \<le> k" "k < length Q" for k
  proof -
    have "int (length Q - k) < ?n" using that inv(2) by linarith
    then have "slot ?n q (length Q) \<noteq> slot ?n q k" using slot_eq_iff [OF assms(2), of k "length Q" q] that by simp
    then show ?thesis using inj_onD [OF inv(4)] slot_range [OF assms(2)] a by (metis atLeastLessThan_iff)
  qed
  then show ?thesis
    using assms(1) inv(1,2) a by (auto simp: receiving_def Let_def slot_Suc nth_append less_Suc_eq)
qed

lemma data_ready_one_receiving:
  assumes "receiving obj q Q P (adapter s) (view (hw s)) (rx_buf s) (tx_desc_at s) (calls s)" and "P < length Q"
    and "0 < rx_bd_num obj" and "rx_bd_num obj < 2 ^ 16" and "keeps_buffers obj" and "data_ready_one obj r s = (go, s')"
  shows "receiving obj q Q (if go then Suc P else P) (adapter s') (view (hw s')) (rx_buf s') (tx_desc_at s') (calls s')"
proof -
  let ?n = "rx_bd_num obj" and ?i = "slot (rx_bd_num obj) q P" and ?b = "rx_buf s"
  have rg: "0 \<le> ?i" "?i < ?n" using slot_range [OF assms(3)] by auto
  have inv: "int (length Q - P) \<le> ?n" "TXBDRPtr (adapter s) = ?i" "pTXBD (adapter s) ?i = buf_addr (?b ?i)"
    "Q ! P = (buf_addr (?b ?i), tx_desc_at s (buf_addr (?b ?i)))" "inj_on (\<lambda>i. buf_addr (?b i)) {0..<?n}"
    using assms(1,2) rg by (auto simp: receiving_def Let_def)
  define desc where "desc = tx_desc_at s (buf_addr (?b ?i))"
  have QP: "Q ! P = (buf_addr (?b ?i), desc)" using inv(4) by (simp add: desc_def)
  have nx: "(if uint16 (?i + 1) \<ge> ?n then 0 else uint16 (?i + 1)) = slot ?n q (Suc P)" by (rule next_tx_bd_slot [OF assms(3,4)])
  have pend: "(slot ?n q (length Q) - slot ?n q (Suc P)) mod ?n = int (length Q - Suc P)"
    using slot_minus [OF assms(3), of "Suc P" "length Q" q] assms(2) inv(1) by simp
  have ne: "slot ?n q k \<noteq> ?i" if "Suc P \<le> k" "k < length Q" for k
    using slot_eq_iff [OF assms(3), of P k q] that inv(1) by auto
  show ?thesis
  proof (cases "fits obj desc")
    case False
    then have s': "go" "s' = s\<lparr>adapter := (adapter s)\<lparr>TXBDRPtr := slot ?n q (Suc P), TXBDRPtrReg := slot ?n q (Suc P)\<rparr>,
        hw := SDIO_TXBD_RPTR_Set r (slot ?n q (Suc P)) (hw s)\<rparr>"
      using assms(6) nx by (auto simp: data_ready_one_def inv(2,3) desc_def fits_def Let_def)
    show ?thesis
      using assms(1,2) pend False by (simp add: s' receiving_def Let_def deliveries_Suc QP)
  next
    case True
    let ?pd = "uint32 (buf_addr (?b ?i) + tx_offset desc)"
    obtain ret b' u' where cb: "rx_done_cb obj ?i ?pd (txpktsize desc) (tx_type desc) (?b, user s) = (ret, b', u')"
      by (metis prod_cases3)
    then have b': "inj_on (\<lambda>j. buf_addr (b' j)) {0..<?n}" "\<And>j. j \<noteq> ?i \<Longrightarrow> b' j = ?b j"
      "ret \<noteq> SPDIO_SUCCESS \<Longrightarrow> buf_addr (b' ?i) = buf_addr (?b ?i)"
      using assms(5) rg inv(5) unfolding keeps_buffers_def by (fastforce split: prod.splits)+
    let ?d = "(adapter s)\<lparr>pTXBD := (pTXBD (adapter s))(?i := buf_addr (b' ?i))\<rparr>"
    let ?cs = "calls s @ [RxDone ?i ?pd (txpktsize desc) (tx_type desc) ret]"
    have bd: "\<forall>i. 0 \<le> i \<and> i < ?n \<longrightarrow> pTXBD ?d i = buf_addr (b' i)" using assms(1) b'(2) by (auto simp: receiving_def Let_def)
    show ?thesis
    proof (cases "ret = SPDIO_SUCCESS")
      case False
      then have s': "\<not> go" "s' = s\<lparr>rx_buf := b', user := u', calls := ?cs, adapter := ?d\<rparr>"
        using assms(6) True cb by (auto simp: data_ready_one_def spdio_rx_done_cb_def inv(2,3) desc_def [symmetric] fits_def Let_def)
      have same: "buf_addr (b' j) = buf_addr (?b j)" for j using b'(2) [of j] b'(3) [OF False] by (cases "j = ?i") auto
      then show ?thesis using assms(1) bd False s'(1) by (auto simp: s'(2) receiving_def Let_def)
    next
      case ok: True
      then have s': "go" "s' = s\<lparr>rx_buf := b', user := u', calls := ?cs,
          adapter := ?d\<lparr>TXBDRPtr := slot ?n q (Suc P), TXBDRPtrReg := slot ?n q (Suc P)\<rparr>,
          hw := SDIO_TXBD_RPTR_Set r (slot ?n q (Suc P)) (hw s)\<rparr>"
        using assms(6) True cb nx by (auto simp: data_ready_one_def spdio_rx_done_cb_def inv(2,3) desc_def [symmetric] fits_def Let_def)
      have "Q ! k = (buf_addr (b' (slot ?n q k)), tx_desc_at s (buf_addr (b' (slot ?n q k))))" if "Suc P \<le> k" "k < length Q" for k
        using assms(1) b'(2) ne [OF that] that by (auto simp: receiving_def Let_def)
      then show ?thesis
        using assms(1,2) pend b'(1) bd True ok by (simp add: s' receiving_def Let_def deliveries_Suc QP)
    qed
  qed
qed

text \<open>
  The turn always ends, and it leaves alone what belongs to the other direction.
\<close>

lemma data_ready_one_frame:
  "rx_part (adapter (snd (data_ready_one obj r s))) (view (hw (snd (data_ready_one obj r s)))) (calls (snd (data_ready_one obj r s)))
     = rx_part (adapter s) (view (hw s)) (calls s)"
  "TxOverFlow (adapter (snd (data_ready_one obj r s))) = TxOverFlow (adapter s)"
  "int_status (view (hw (snd (data_ready_one obj r s)))) = int_status (view (hw s))"
  "tx_wptr (view (hw (snd (data_ready_one obj r s)))) = tx_wptr (view (hw s))"
  "tx_size (view (hw (snd (data_ready_one obj r s)))) = tx_size (view (hw s))"
  "\<exists>cs. calls (snd (data_ready_one obj r s)) = calls s @ cs"
  by (auto simp: data_ready_one_def spdio_rx_done_cb_def rx_part_def Let_def split: prod.splits)

lemma data_ready_one_ptr:
  assumes "0 \<le> TXBDRPtr (adapter s)" and "TXBDRPtr (adapter s) < rx_bd_num obj" and "rx_bd_num obj < 2 ^ 16"
  shows "TXBDRPtr (adapter (snd (data_ready_one obj r s))) =
    (if fst (data_ready_one obj r s) then (TXBDRPtr (adapter s) + 1) mod rx_bd_num obj else TXBDRPtr (adapter s))"
proof -
  let ?i = "TXBDRPtr (adapter s)"
  have "uint16 (?i + 1) = ?i + 1" using assms by (simp add: uint16_def)
  moreover have "(?i + 1) mod rx_bd_num obj = (if ?i + 1 \<ge> rx_bd_num obj then 0 else ?i + 1)"
    using mod_below_twice [of "rx_bd_num obj" "?i + 1"] assms(1,2) by auto
  ultimately show ?thesis by (auto simp: data_ready_one_def spdio_rx_done_cb_def Let_def split: prod.splits)
qed

lemma data_ready_loop_total:
  assumes "0 \<le> TXBDRPtr (adapter s)" and "TXBDRPtr (adapter s) < rx_bd_num obj" and "rx_bd_num obj < 2 ^ 16"
    and "0 \<le> tx_wptr (view (hw s))" and "tx_wptr (view (hw s)) < rx_bd_num obj"
  shows "\<exists>s'. data_ready_loop obj r s = Some s' \<and>
    rx_part (adapter s') (view (hw s')) (calls s') = rx_part (adapter s) (view (hw s)) (calls s) \<and>
    TxOverFlow (adapter s') = TxOverFlow (adapter s) \<and> int_status (view (hw s')) = int_status (view (hw s)) \<and>
    0 \<le> TXBDRPtr (adapter s') \<and> TXBDRPtr (adapter s') < rx_bd_num obj \<and> tx_wptr (view (hw s')) = tx_wptr (view (hw s)) \<and>
    tx_size (view (hw s')) = tx_size (view (hw s)) \<and> (\<exists>cs. calls s' = calls s @ cs)"
  using assms
proof (induction "nat ((tx_wptr (view (hw s)) - TXBDRPtr (adapter s) - 1) mod rx_bd_num obj)" arbitrary: s rule: less_induct)
  case less
  let ?m = "rx_bd_num obj" and ?w = "tx_wptr (view (hw s))" and ?i = "TXBDRPtr (adapter s)"
  obtain go s1 where one: "data_ready_one obj r s = (go, s1)" by (cases "data_ready_one obj r s")
  note fr = data_ready_one_frame [of obj s, unfolded one snd_conv]
  note ptr = data_ready_one_ptr [OF less.prems(1-3), unfolded one fst_conv snd_conv]
  have m: "0 < ?m" using less.prems by linarith
  have rg: "0 \<le> TXBDRPtr (adapter s1)" "TXBDRPtr (adapter s1) < ?m" using ptr less.prems(1,2) m by auto
  show ?case
  proof (cases "go \<and> TXBDRPtr (adapter s1) \<noteq> ?w")
    case False
    then have "data_ready_loop obj r s = Some s1" using one fr(4) by (subst data_ready_loop.simps) auto
    then show ?thesis using fr rg by auto
  next
    case True
    then have i1: "TXBDRPtr (adapter s1) = (?i + 1) mod ?m" "(?i + 1) mod ?m \<noteq> ?w" using ptr by auto
    define x where "x = (?w - ?i - 1) mod ?m"
    have "x \<noteq> 0"
    proof
      assume "x = 0"
      then have "(?w - (?i + 1)) mod ?m = 0" by (simp add: x_def algebra_simps)
      then have "?w mod ?m = (?i + 1) mod ?m" by (simp only: mod_eq_dvd_iff flip: dvd_eq_mod_eq_0)
      then show False using i1(2) less.prems(4,5) by simp
    qed
    moreover have "0 \<le> x" "x < ?m" using m by (simp_all add: x_def)
    moreover have "(?w - (?i + 1) mod ?m - 1) mod ?m = (x - 1) mod ?m"
    proof -
      have "(?w - (?i + 1) mod ?m - 1) mod ?m = (?w - 1 - (?i + 1) mod ?m) mod ?m" by (simp add: algebra_simps)
      also have "\<dots> = (?w - 1 - (?i + 1)) mod ?m" by (rule mod_diff_right_eq)
      also have "\<dots> = ((?w - ?i - 1) - 1) mod ?m" by (simp add: algebra_simps)
      also have "\<dots> = (x - 1) mod ?m" unfolding x_def by (simp only: mod_diff_left_eq)
      finally show ?thesis .
    qed
    ultimately have "nat ((?w - (?i + 1) mod ?m - 1) mod ?m) < nat x" by simp
    moreover have "data_ready_loop obj r s = data_ready_loop obj r s1" using one fr(4) True by (subst data_ready_loop.simps) auto
    ultimately show ?thesis using less.hyps [of s1] fr i1(1) rg less.prems(3-5) by (fastforce simp: x_def)
  qed
qed

text \<open>A turn of the task passes on what is there, up to the first packet that the user refuses.\<close>

lemma data_ready_loop_receiving:
  assumes "receiving obj q Q P (adapter s) (view (hw s)) (rx_buf s) (tx_desc_at s) (calls s)" and "P < length Q"
    and "int (length Q - P) < rx_bd_num obj"
    and "0 < rx_bd_num obj" and "rx_bd_num obj < 2 ^ 16" and "keeps_buffers obj"
  shows "\<exists>s' P'. data_ready_loop obj r s = Some s' \<and> P \<le> P' \<and>
    receiving obj q Q P' (adapter s') (view (hw s')) (rx_buf s') (tx_desc_at s') (calls s') \<and>
    (P' = length Q \<or> (\<exists>s1. data_ready_one obj r s1 = (False, s')))"
  using assms
proof (induction "length Q - P" arbitrary: P s)
  case (Suc j)
  obtain go s1 where one: "data_ready_one obj r s = (go, s1)" by (cases "data_ready_one obj r s")
  note inv = data_ready_one_receiving [OF Suc.prems(1,2,4-6) one]
  show ?case
  proof (cases go)
    case False
    then show ?thesis using inv one by (subst data_ready_loop.simps) auto
  next
    case True
    then have ptr: "TXBDRPtr (adapter s1) = slot (rx_bd_num obj) q (Suc P)" "tx_wptr (view (hw s1)) = slot (rx_bd_num obj) q (length Q)"
      using inv by (auto simp: receiving_def Let_def)
    show ?thesis
    proof (cases "Suc P = length Q")
      case e: True
      then have "data_ready_loop obj r s = Some s1" using one ptr by (subst data_ready_loop.simps) simp
      then show ?thesis using inv True e Suc.prems(2) by (auto intro!: exI [of _ "length Q"])
    next
      case False
      then have lt: "Suc P < length Q" "int (length Q - Suc P) < rx_bd_num obj" using Suc.prems(2,3) by auto
      then have "slot (rx_bd_num obj) q (length Q) \<noteq> slot (rx_bd_num obj) q (Suc P)"
        using slot_eq_iff [OF Suc.prems(4), of "Suc P" "length Q" q] by simp
      then have "data_ready_loop obj r s = data_ready_loop obj r s1"
        using one ptr True by (subst data_ready_loop.simps) simp
      moreover have j: "j = length Q - Suc P" using Suc.hyps(2) by simp
      have "receiving obj q Q (Suc P) (adapter s1) (view (hw s1)) (rx_buf s1) (tx_desc_at s1) (calls s1)" using inv True by simp
      from Suc.hyps(1) [OF j this lt Suc.prems(4-6)] obtain s' P' where "data_ready_loop obj r s1 = Some s'" "Suc P \<le> P'"
        "receiving obj q Q P' (adapter s') (view (hw s')) (rx_buf s') (tx_desc_at s') (calls s')"
        "P' = length Q \<or> (\<exists>s1. data_ready_one obj r s1 = (False, s'))" by blast
      ultimately show ?thesis by (intro exI [of _ s'] exI [of _ P']) auto
    qed
  qed
qed simp

lemma data_ready_receiving:
  assumes "receiving obj q Q P (adapter s) (view (hw s)) (rx_buf s) (tx_desc_at s) (calls s)"
    and "0 < rx_bd_num obj" and "rx_bd_num obj < 2 ^ 16" and "keeps_buffers obj" and "TxOverFlow (adapter s) = 0"
  shows "\<exists>s' P'. SPDIO_TX_FIFO_DataReady obj r s = Some s' \<and> P \<le> P' \<and>
    receiving obj q Q P' (adapter s') (view (hw s')) (rx_buf s') (tx_desc_at s') (calls s')"
proof -
  have inv: "P \<le> length Q" "int (length Q - P) \<le> rx_bd_num obj" "TXBDRPtr (adapter s) = slot (rx_bd_num obj) q P"
    "tx_wptr (view (hw s)) = slot (rx_bd_num obj) q (length Q)" using assms(1) by (auto simp: receiving_def Let_def)
  show ?thesis
  proof (cases "tx_wptr (view (hw s)) = TXBDRPtr (adapter s)")
    case True
    then show ?thesis using assms(1,5) by (auto simp: SPDIO_TX_FIFO_DataReady_def)
  next
    case False
    then have "P \<noteq> length Q" using inv(3,4) by auto
    moreover have "int (length Q - P) \<noteq> rx_bd_num obj"
    proof
      assume "int (length Q - P) = rx_bd_num obj"
      then have "q + int (length Q) = q + int P + rx_bd_num obj" using inv(1) by simp
      then have "slot (rx_bd_num obj) q (length Q) = slot (rx_bd_num obj) q P" by (simp only: slot_def mod_add_self2)
      then show False using False inv(3,4) by simp
    qed
    ultimately have lt: "P < length Q" "int (length Q - P) < rx_bd_num obj" using inv(1,2) by auto
    show ?thesis
      using data_ready_loop_receiving [OF assms(1) lt assms(2-4)] False by (auto simp: SPDIO_TX_FIFO_DataReady_def)
  qed
qed

end

section \<open>Turns of the whole device\<close>

definition tx_part :: "HAL_SPDIO_ADAPTER \<Rightarrow> engine \<Rightarrow> spdio_call list \<Rightarrow>
    ((int \<Rightarrow> int) \<times> int \<times> int) \<times> (int \<times> int \<times> int \<times> u16) \<times> (int \<times> int \<times> int \<times> int) list" where
  "tx_part d e cs = ((pTXBD d, TXBDRPtr d, TxOverFlow d), (tx_wptr e, tx_pending e, tx_size e, int_status e), delivered cs)"

lemma tx_part_receiving:
  "tx_part d e cs = tx_part d' e' cs' \<Longrightarrow> receiving obj q Q P d e b m cs = receiving obj q Q P d' e' b m cs'"
  by (simp add: tx_part_def receiving_def Let_def)

definition tx_ptrs :: "'u spdio_t \<Rightarrow> HAL_SPDIO_ADAPTER \<Rightarrow> engine \<Rightarrow> bool" where
  "tx_ptrs obj d e \<longleftrightarrow> 0 \<le> TXBDRPtr d \<and> TXBDRPtr d < rx_bd_num obj \<and> 0 \<le> tx_wptr e \<and> tx_wptr e < rx_bd_num obj \<and> tx_size e = rx_bd_num obj"

text \<open>
  The sizes of the rings for which the queue works: \<open>spdio_init\<close> also accepts two descriptors towards the host, with which
  nothing is delivered.
\<close>

definition rings_ok :: "'u spdio_t \<Rightarrow> bool" where
  "rings_ok obj \<longleftrightarrow> 2 < tx_bd_num obj \<and> tx_bd_num obj < 2 ^ 16 \<and> 0 < rx_bd_num obj \<and> rx_bd_num obj < 2 ^ 16"

lemma recycle_one_tx_part:
  "tx_part (adapter (recycle_one obj s)) e (calls (recycle_one obj s)) = tx_part (adapter s) e (calls s)"
  "rx_buf (recycle_one obj s) = rx_buf s" "tx_desc_at (recycle_one obj s) = tx_desc_at s"
  by (simp_all add: recycle_one_def spdio_tx_done_cb_def tx_part_def Let_def)

lemma recycle_many_tx_part:
  "tx_part (adapter ((recycle_one obj ^^ k) s)) (view (hw ((recycle_one obj ^^ k) s))) (calls ((recycle_one obj ^^ k) s))
     = tx_part (adapter s) (view (hw s)) (calls s) \<and>
   rx_buf ((recycle_one obj ^^ k) s) = rx_buf s \<and> tx_desc_at ((recycle_one obj ^^ k) s) = tx_desc_at s"
proof (induction k)
  case (Suc k)
  then show ?case using Suc recycle_one_tx_part [of obj "(recycle_one obj ^^ k) s"] by simp
qed simp

context sdio_device
begin

lemma spdio_tx_tx_part:
  assumes "spdio_tx obj r p b s = Some (ok, s')"
  shows "tx_part (adapter s') (view (hw s')) (calls s') = tx_part (adapter s) (view (hw s)) (calls s) \<and>
    rx_buf s' = rx_buf s \<and> tx_desc_at s' = tx_desc_at s"
proof -
  let ?n = "tx_bd_num obj" and ?sz = "min (uint16 (buf_size b)) MAX_RX_BD_BUF_SIZE"
  have pl: "payload_loop ?n p b (uint16 (buf_size b)) 0 d = Some (snd (put_payload ?n p b ?sz 0 d))" for d
    by (intro payload_loop_once) (simp_all add: uint16_def)
  have part: "tx_part (snd (put_payload ?n p b ?sz 0 (put_header ?n b d))) e c = tx_part d e c" for d e c
    by (simp add: put_payload_def put_header_def tx_part_def Let_def)
  show ?thesis
  proof (cases "no_rx_bd ?n (RXBDRPtr (adapter s)) (RXBDWPtr (adapter s))")
    case True
    then show ?thesis using assms by (simp add: spdio_tx_def Let_def)
  next
    case False
    then have "s' = s\<lparr>adapter := snd (put_payload ?n p b ?sz 0 (put_header ?n b (adapter s))), hw := hw s'\<rparr>" and
      "tx_part d (view (hw s')) c = tx_part d (view (hw s)) c" for d c
      using assms by (auto simp: spdio_tx_def pl Let_def tx_part_def)
    then show ?thesis using part by (metis spdio.select_convs spdio.surjective spdio.update_convs)
  qed
qed

lemma recycle_turn:
  assumes "sending n p A H R (adapter s) (view (hw s)) (calls s)" and "n = tx_bd_num obj" and "rings_ok obj"
  shows "\<exists>s'. SPDIO_Recycle_Rx_BD obj r s = Some s' \<and> sending n p A H H (adapter s') (view (hw s')) (calls s') \<and>
    tx_part (adapter s') (view (hw s')) (calls s') = tx_part (adapter s) (view (hw s)) (calls s) \<and>
    rx_buf s' = rx_buf s \<and> tx_desc_at s' = tx_desc_at s"
proof -
  let ?s = "s\<lparr>hw := SDIO_INTConfig r BIT_C2H_DMA_OK False (hw s)\<rparr>"
  have "sending n p A H R (adapter ?s) (view (hw ?s)) (calls ?s)" "0 < n" "n < 2 ^ 16" using assms by (auto simp: rings_ok_def)
  from recycle_loop_sending [OF this(1) assms(2) this(2,3)] obtain s' where s': "recycle_loop obj r ?s = Some s'"
    "s' = (recycle_one obj ^^ (H - R)) ?s" "sending n p A H H (adapter s') (view (hw s')) (calls s')" by blast
  then show ?thesis using recycle_many_tx_part [of "H - R" obj ?s] by (auto simp: SPDIO_Recycle_Rx_BD_def)
qed

lemma data_ready_total:
  assumes "tx_ptrs obj (adapter s) (view (hw s))" and "rings_ok obj"
  shows "\<exists>s'. SPDIO_TX_FIFO_DataReady obj r s = Some s' \<and> tx_ptrs obj (adapter s') (view (hw s')) \<and>
    rx_part (adapter s') (view (hw s')) (calls s') = rx_part (adapter s) (view (hw s)) (calls s) \<and>
    (TxOverFlow (adapter s) = 0 \<longrightarrow> TxOverFlow (adapter s') = 0) \<and> int_status (view (hw s')) = int_status (view (hw s))"
proof -
  have "\<exists>s'. data_ready_loop obj r t = Some s' \<and> tx_ptrs obj (adapter s') (view (hw s')) \<and>
    rx_part (adapter s') (view (hw s')) (calls s') = rx_part (adapter t) (view (hw t)) (calls t) \<and>
    TxOverFlow (adapter s') = TxOverFlow (adapter t) \<and> int_status (view (hw s')) = int_status (view (hw t))"
    if "tx_ptrs obj (adapter t) (view (hw t))" for t :: "('h, 'a) spdio"
    using data_ready_loop_total [of t obj] that assms(2) by (auto simp: tx_ptrs_def rings_ok_def)
  note loop = this [of s] this [of "s\<lparr>adapter := (adapter s)\<lparr>TxOverFlow := 0\<rparr>\<rparr>"]
  have "tx_ptrs obj (adapter (s\<lparr>adapter := (adapter s)\<lparr>TxOverFlow := 0\<rparr>\<rparr>)) (view (hw s))" using assms(1) by (simp add: tx_ptrs_def)
  then show ?thesis using loop assms(1) by (auto simp: SPDIO_TX_FIFO_DataReady_def rx_part_def)
qed

text \<open>A turn of the interrupt task, seen from both directions.\<close>

lemma recycle_stage:
  assumes "sending n p A H R (adapter s) (view (hw s)) (calls s)" and "n = tx_bd_num obj" and "rings_ok obj"
  obtains s' where "(if c then SPDIO_Recycle_Rx_BD obj r s else Some s) = Some s'"
    and "sending n p A H (if c then H else R) (adapter s') (view (hw s')) (calls s')"
    and "tx_part (adapter s') (view (hw s')) (calls s') = tx_part (adapter s) (view (hw s)) (calls s)"
    and "rx_buf s' = rx_buf s" and "tx_desc_at s' = tx_desc_at s"
  using recycle_turn [OF assms] assms(1) that by (cases c) auto

lemma data_ready_stage:
  assumes "tx_ptrs obj (adapter s) (view (hw s))" and "rings_ok obj"
  obtains s' where "(if c then map_option (\<lambda>s. s\<lparr>hw := SDIO_INTConfig r m True (hw s)\<rparr>)
        (SPDIO_TX_FIFO_DataReady obj r (s\<lparr>hw := SDIO_INTConfig r m False (hw s)\<rparr>)) else Some s) = Some s'"
    and "rx_part (adapter s') (view (hw s')) (calls s') = rx_part (adapter s) (view (hw s)) (calls s)"
    and "tx_ptrs obj (adapter s') (view (hw s'))" and "int_status (view (hw s')) = int_status (view (hw s))"
    and "TxOverFlow (adapter s) = 0 \<Longrightarrow> TxOverFlow (adapter s') = 0"
    and "\<And>q Q P. receiving obj q Q P (adapter s) (view (hw s)) (rx_buf s) (tx_desc_at s) (calls s) \<Longrightarrow> keeps_buffers obj \<Longrightarrow>
      TxOverFlow (adapter s) = 0 \<Longrightarrow> \<exists>P'\<ge>P. receiving obj q Q P' (adapter s') (view (hw s')) (rx_buf s') (tx_desc_at s') (calls s')"
proof (cases c)
  case False
  then show ?thesis using that [of s] assms(1) by auto
next
  case True
  let ?s = "s\<lparr>hw := SDIO_INTConfig r m False (hw s)\<rparr>"
  have "tx_ptrs obj (adapter ?s) (view (hw ?s))" using assms(1) by simp
  from data_ready_total [OF this assms(2)] obtain t where t: "SPDIO_TX_FIFO_DataReady obj r ?s = Some t"
    "tx_ptrs obj (adapter t) (view (hw t))"
    "rx_part (adapter t) (view (hw t)) (calls t) = rx_part (adapter s) (view (hw s)) (calls s)"
    "TxOverFlow (adapter s) = 0 \<Longrightarrow> TxOverFlow (adapter t) = 0" "int_status (view (hw t)) = int_status (view (hw s))" by auto
  have "\<exists>P'\<ge>P. receiving obj q Q P' (adapter t) (view (hw t)) (rx_buf t) (tx_desc_at t) (calls t)"
    if "receiving obj q Q P (adapter s) (view (hw s)) (rx_buf s) (tx_desc_at s) (calls s)" "keeps_buffers obj" "TxOverFlow (adapter s) = 0"
    for q Q P
    using data_ready_receiving [of obj q Q P ?s] that assms(2) t(1) by (auto simp: rings_ok_def)
  then show ?thesis using that [of "t\<lparr>hw := SDIO_INTConfig r m True (hw t)\<rparr>"] True t by simp
qed

lemma irq_turn:
  assumes "sending n p A H R (adapter s) (view (hw s)) (calls s)" and "n = tx_bd_num obj" and "rings_ok obj"
    and "tx_ptrs obj (adapter s) (view (hw s))"
  obtains s' where "SPDIO_IRQ_Handler_BH obj r s = Some s'"
    and "sending n p A H (if int_status (view (hw s)) AND BIT_C2H_DMA_OK \<noteq> 0 then H else R) (adapter s') (view (hw s')) (calls s')"
    and "tx_ptrs obj (adapter s') (view (hw s'))" and "int_status (view (hw s')) = 0"
    and "TxOverFlow (adapter s) = 0 \<Longrightarrow> int_status (view (hw s)) AND BIT_TXFIFO_H2C_OVF = 0 \<Longrightarrow> TxOverFlow (adapter s') = 0"
    and "\<And>q Q P. receiving obj q Q P (adapter s) (view (hw s)) (rx_buf s) (tx_desc_at s) (calls s) \<Longrightarrow> keeps_buffers obj \<Longrightarrow>
      TxOverFlow (adapter s) = 0 \<Longrightarrow> \<exists>P'\<ge>P. receiving obj q Q P' (adapter s') (view (hw s')) (rx_buf s') (tx_desc_at s') (calls s')"
proof -
  let ?st = "int_status (view (hw s))"
  define s0 where "s0 = s\<lparr>hw := HAL_SDIO_WRITE16 r REG_SPDIO_CPU_INT_STAS ?st (hw s)\<rparr>"
  have st0: "?st AND NOT ?st = 0" by (rule bit_word_eqI) (auto simp: bit_simps)
  have i0: "sending n p A H R (adapter s0) (view (hw s0)) (calls s0)" "int_status (view (hw s0)) = 0"
    using assms(1) st0 by (auto simp: s0_def sending_def)
  from recycle_stage [OF i0(1) assms(2,3), of "?st AND BIT_C2H_DMA_OK \<noteq> 0"] obtain s1 where
    s1: "(if ?st AND BIT_C2H_DMA_OK \<noteq> 0 then SPDIO_Recycle_Rx_BD obj r s0 else Some s0) = Some s1"
    "sending n p A H (if ?st AND BIT_C2H_DMA_OK \<noteq> 0 then H else R) (adapter s1) (view (hw s1)) (calls s1)"
    "tx_part (adapter s1) (view (hw s1)) (calls s1) = tx_part (adapter s0) (view (hw s0)) (calls s0)"
    "rx_buf s1 = rx_buf s0" "tx_desc_at s1 = tx_desc_at s0" by blast
  have p1: "tx_ptrs obj (adapter s1) (view (hw s1))" "int_status (view (hw s1)) = 0" "TxOverFlow (adapter s1) = TxOverFlow (adapter s)"
    using s1(3) assms(4) i0(2) by (simp_all add: tx_part_def tx_ptrs_def s0_def)
  have r1: "receiving obj q Q P (adapter s1) (view (hw s1)) (rx_buf s1) (tx_desc_at s1) (calls s1)"
    if "receiving obj q Q P (adapter s) (view (hw s)) (rx_buf s) (tx_desc_at s) (calls s)" for q Q P
    using that unfolding s1(4,5) tx_part_receiving [OF s1(3)] by (auto simp: s0_def receiving_def Let_def)
  obtain s2 where s2: "(if ?st AND BIT_H2C_DMA_OK \<noteq> 0
      then map_option (\<lambda>s. s\<lparr>hw := SDIO_INTConfig r BIT_H2C_DMA_OK True (hw s)\<rparr>)
        (SPDIO_TX_FIFO_DataReady obj r (s1\<lparr>hw := SDIO_INTConfig r BIT_H2C_DMA_OK False (hw s1)\<rparr>)) else Some s1) = Some s2"
    "rx_part (adapter s2) (view (hw s2)) (calls s2) = rx_part (adapter s1) (view (hw s1)) (calls s1)"
    "tx_ptrs obj (adapter s2) (view (hw s2))" "int_status (view (hw s2)) = int_status (view (hw s1))"
    "TxOverFlow (adapter s1) = 0 \<Longrightarrow> TxOverFlow (adapter s2) = 0"
    and r2: "\<And>q Q P. receiving obj q Q P (adapter s1) (view (hw s1)) (rx_buf s1) (tx_desc_at s1) (calls s1) \<Longrightarrow> keeps_buffers obj \<Longrightarrow>
      TxOverFlow (adapter s1) = 0 \<Longrightarrow> \<exists>P'\<ge>P. receiving obj q Q P' (adapter s2) (view (hw s2)) (rx_buf s2) (tx_desc_at s2) (calls s2)"
  proof (rule data_ready_stage [OF p1(1) assms(3), of "?st AND BIT_H2C_DMA_OK \<noteq> 0" BIT_H2C_DMA_OK], goal_cases)
    case (1 s')
    show ?case by (rule 1(1) [OF 1(2-5)]) (rule 1(6), assumption, rule 1(7))
  qed
  let ?s3 = "if ?st AND BIT_TXFIFO_H2C_OVF \<noteq> 0 then s2\<lparr>adapter := (adapter s2)\<lparr>TxOverFlow := 1\<rparr>\<rparr> else s2"
  have rp: "rx_part (adapter ?s3) (view (hw ?s3)) (calls ?s3) = rx_part (adapter s1) (view (hw s1)) (calls s1)"
    unfolding s2(2) [symmetric] by (simp add: rx_part_def)
  have a: "sending n p A H (if ?st AND BIT_C2H_DMA_OK \<noteq> 0 then H else R) (adapter ?s3) (view (hw ?s3)) (calls ?s3)"
    unfolding rx_part_sending [OF rp] by (rule s1(2))
  have b: "SPDIO_IRQ_Handler_BH obj r s = Some ?s3"
    unfolding SPDIO_IRQ_Handler_BH_def Let_def status_get s0_def [symmetric] s1(1) bind.bind_lunit s2(1) by (rule refl)
  have c: "tx_ptrs obj (adapter ?s3) (view (hw ?s3))" using s2(3) by (simp add: tx_ptrs_def)
  have d: "int_status (view (hw ?s3)) = 0" using s2(4) p1(2) by simp
  have e: "TxOverFlow (adapter ?s3) = 0" if "TxOverFlow (adapter s) = 0" "?st AND BIT_TXFIFO_H2C_OVF = 0" using that s2(5) p1(3) by simp
  have f: "\<exists>P'\<ge>P. receiving obj q Q P' (adapter ?s3) (view (hw ?s3)) (rx_buf ?s3) (tx_desc_at ?s3) (calls ?s3)"
    if "receiving obj q Q P (adapter s) (view (hw s)) (rx_buf s) (tx_desc_at s) (calls s)" "keeps_buffers obj" "TxOverFlow (adapter s) = 0" for q Q P
    using r2 [OF r1 [OF that(1)] that(2)] that(3) p1(3) by (auto simp: receiving_def Let_def)
  show thesis
  proof (rule that [OF b a c d], goal_cases)
    case 1
    then show ?case by (rule e)
  next
    case (2 q Q P)
    then show ?case by (rule f)
  qed
qed

end

section \<open>Runs\<close>

text \<open>Both invariants, of a state.\<close>

definition sends :: "('h \<Rightarrow> engine) \<Rightarrow> 'u spdio_t \<Rightarrow> int \<Rightarrow> (int \<times> spdio_buf_t) list \<Rightarrow> nat \<Rightarrow> nat \<Rightarrow> ('h, 'u) spdio \<Rightarrow> bool" where
  "sends view obj p A H R s \<longleftrightarrow>
     sending (tx_bd_num obj) p A H R (adapter s) (view (hw s)) (calls s) \<and> tx_ptrs obj (adapter s) (view (hw s))"

definition receives :: "('h \<Rightarrow> engine) \<Rightarrow> 'u spdio_t \<Rightarrow> int \<Rightarrow> (int \<times> INIC_TX_DESC) list \<Rightarrow> nat \<Rightarrow> ('h, 'u) spdio \<Rightarrow> bool" where
  "receives view obj q Q P s \<longleftrightarrow>
     receiving obj q Q P (adapter s) (view (hw s)) (rx_buf s) (tx_desc_at s) (calls s) \<and>
     TxOverFlow (adapter s) = 0 \<and> int_status (view (hw s)) AND BIT_TXFIFO_H2C_OVF = 0"

fun no_overflow :: "spdio_event \<Rightarrow> bool" where
  "no_overflow (Raise m) = (m AND BIT_TXFIFO_H2C_OVF = 0)"
| "no_overflow e = True"

context sdio_device
begin

lemma send_step:
  assumes "sends view obj p A H R s" and "rings_ok obj"
  obtains s' where "spdio_step obj r dma (Send a b) s = Some s'" and "sends view obj p (A @ sent obj r (Send a b) s) H R s'"
    and "\<And>q Q P. receives view obj q Q P s \<Longrightarrow> receives view obj q Q P s'"
proof -
  let ?n = "tx_bd_num obj"
  have s: "sending ?n p A H R (adapter s) (view (hw s)) (calls s)" "2 < ?n" "?n < 2 ^ 16"
    using assms by (auto simp: sends_def rings_ok_def)
  note tx = spdio_tx_sending [OF s(1) refl s(2,3), of a b]
  obtain ok s' where t: "spdio_tx obj r a b s = Some (ok, s')" "sending ?n p (A @ (if ok then [(a, b)] else [])) H R (adapter s') (view (hw s')) (calls s')"
  proof (cases "?n \<le> int (2 * length A - R) + 2")
    case True
    then show ?thesis using tx(1) s(1) that [of False s] by simp
  next
    case False
    then obtain d h where "spdio_tx obj r a b s = Some (True, s\<lparr>adapter := d, hw := h\<rparr>)"
      "sending ?n p (A @ [(a, b)]) H R d (view h) (calls s)" using tx(2) by auto
    then show ?thesis using that [of True "s\<lparr>adapter := d, hw := h\<rparr>"] by simp
  qed
  note tp = spdio_tx_tx_part [OF t(1)]
  have "tx_ptrs obj (adapter s') (view (hw s'))" using assms(1) tp by (simp add: sends_def tx_ptrs_def tx_part_def)
  moreover have "sent obj r (Send a b) s = (if ok then [(a, b)] else [])" using t(1) by (cases ok) simp_all
  moreover have "receives view obj q Q P s \<Longrightarrow> receives view obj q Q P s'" for q Q P
    using tp by (simp add: receives_def tx_part_receiving [OF conjunct1 [OF tp]]) (simp add: tx_part_def)
  ultimately show ?thesis using that [of s'] t by (simp add: sends_def)
qed

lemma run_step:
  assumes "sends view obj p A H R s" and "rings_ok obj"
  obtains s' H' R' where "spdio_step obj r dma e s = Some s'" and "sends view obj p (A @ sent obj r e s) H' R' s'" and "H \<le> H'" and "R \<le> R'"
    and "\<And>q Q P. receives view obj q Q P s \<Longrightarrow> keeps_buffers obj \<Longrightarrow> no_overflow e \<Longrightarrow>
      \<exists>P'\<ge>P. receives view obj q (Q @ stored r dma e s) P' s'"
proof -
  let ?n = "tx_bd_num obj"
  have s: "sending ?n p A H R (adapter s) (view (hw s)) (calls s)" "tx_ptrs obj (adapter s) (view (hw s))" "0 < ?n" "0 < rx_bd_num obj"
    using assms by (auto simp: sends_def rings_ok_def)
  show ?thesis
  proof (cases e)
    case (Send a b)
    obtain s' where t: "spdio_step obj r dma (Send a b) s = Some s'" "sends view obj p (A @ sent obj r (Send a b) s) H R s'"
      "\<And>q Q P. receives view obj q Q P s \<Longrightarrow> receives view obj q Q P s'" using send_step [OF assms] by blast
    show ?thesis by (rule that [of s' H R]) (use t in \<open>auto simp: Send\<close>)
  next
    case Fetch
    let ?s = "s\<lparr>hw := dma_fetch dma (segment_of (adapter s)) (hw s)\<rparr>"
    have "sends view obj p A (min (Suc H) (2 * length A)) R ?s"
      using fetch_sending [OF s(1,3)] s(2) by (simp add: sends_def tx_ptrs_def)
    moreover have "H \<le> min (Suc H) (2 * length A)" using s(1) by (simp add: sending_def)
    moreover have "receives view obj q Q P s \<Longrightarrow> receives view obj q Q P ?s" for q Q P by (auto simp: receives_def receiving_def Let_def)
    ultimately show ?thesis by - (rule that [of ?s "min (Suc H) (2 * length A)" R], auto simp: Fetch simp del: fetch)
  next
    case (Store d)
    obtain s' where t: "spdio_step obj r dma e s = Some s'" by (simp add: Store)
    have "sends view obj p A H R s'"
      using t s(2,4) assms(1) by (auto simp: Store sends_def sending_def tx_ptrs_def split: if_splits)
    moreover have "receives view obj q (Q @ stored r dma e s) P s'" if "receives view obj q Q P s" for q Q P
      using store_receiving [of obj q Q P "adapter s" "hw s" "rx_buf s" "tx_desc_at s" "calls s", OF _ s(4) _ refl] t that
      by (auto simp: Store receives_def split: if_splits)
    ultimately show ?thesis using t by - (rule that [of s' H R], auto simp: Store)
  next
    case (Raise m)
    let ?s = "s\<lparr>hw := dma_raise dma m (hw s)\<rparr>"
    have "sends view obj p A H R ?s" using assms(1) by (auto simp: sends_def sending_def tx_ptrs_def)
    moreover have "receives view obj q Q P s \<Longrightarrow> no_overflow e \<Longrightarrow> receives view obj q Q P ?s" for q Q P
      by (auto simp: Raise receives_def receiving_def Let_def bit.conj_disj_distrib2)
    ultimately show ?thesis by - (rule that [of ?s H R], auto simp: Raise)
  next
    case Irq
    obtain s' R' where t: "SPDIO_IRQ_Handler_BH obj r s = Some s'" "sending ?n p A H R' (adapter s') (view (hw s')) (calls s')"
      "R' = H \<or> R' = R" "tx_ptrs obj (adapter s') (view (hw s'))" "int_status (view (hw s')) = 0"
      "TxOverFlow (adapter s) = 0 \<Longrightarrow> int_status (view (hw s)) AND BIT_TXFIFO_H2C_OVF = 0 \<Longrightarrow> TxOverFlow (adapter s') = 0"
      and rc: "\<And>q Q P. receiving obj q Q P (adapter s) (view (hw s)) (rx_buf s) (tx_desc_at s) (calls s) \<Longrightarrow> keeps_buffers obj \<Longrightarrow>
        TxOverFlow (adapter s) = 0 \<Longrightarrow> \<exists>P'\<ge>P. receiving obj q Q P' (adapter s') (view (hw s')) (rx_buf s') (tx_desc_at s') (calls s')"
    proof (rule irq_turn [OF s(1) refl assms(2) s(2)], goal_cases)
      case (1 s')
      show ?case by (rule 1(1) [OF 1(2,3) _ 1(4,5)]) (simp, rule 1(6), assumption+, rule 1(7))
    qed
    have "R \<le> R'" using t(3) s(1) by (auto simp: sending_def)
    moreover have "\<exists>P'\<ge>P. receives view obj q Q P' s'" if "receives view obj q Q P s" "keeps_buffers obj" for q Q P
      using rc [of q Q P] that t(5,6) by (auto simp: receives_def)
    ultimately show ?thesis using t by - (rule that [of s' H R'], auto simp: Irq sends_def)
  qed
qed

lemma run_sends:
  assumes "sends view obj p A H R s" and "rings_ok obj"
  shows "\<exists>A' Q' s' H' R'. spdio_run obj r dma es s = Some (A', Q', s') \<and> sends view obj p (A @ A') H' R' s'"
  using assms(1)
proof (induction es arbitrary: A H R s)
  case (Cons e es)
  obtain s1 H1 R1 where 1: "spdio_step obj r dma e s = Some s1" "sends view obj p (A @ sent obj r e s) H1 R1 s1"
    using run_step [OF Cons.prems assms(2), of e] by metis
  from Cons.IH [OF 1(2)] show ?case using 1(1) by fastforce
qed auto

lemma run_receives:
  assumes "sends view obj p A H R s" and "rings_ok obj" and "receives view obj q Q P s" and "keeps_buffers obj"
    and "list_all no_overflow es" and "spdio_run obj r dma es s = Some (A', Q', s')"
  shows "\<exists>P'. receives view obj q (Q @ Q') P' s'"
  using assms(1,3,5,6)
proof (induction es arbitrary: A H R s Q P A' Q')
  case (Cons e es)
  obtain s1 H1 R1 where 1: "spdio_step obj r dma e s = Some s1" "sends view obj p (A @ sent obj r e s) H1 R1 s1"
    "\<And>q Q P. receives view obj q Q P s \<Longrightarrow> keeps_buffers obj \<Longrightarrow> no_overflow e \<Longrightarrow> \<exists>P'\<ge>P. receives view obj q (Q @ stored r dma e s) P' s1"
    by (rule run_step [OF Cons.prems(1) assms(2), of e]) blast
  have "no_overflow e" using Cons.prems(3) by simp
  then obtain P1 where "receives view obj q (Q @ stored r dma e s) P1 s1" using 1(3) [OF Cons.prems(2) assms(4)] by blast
  moreover obtain A2 Q2 where "spdio_run obj r dma es s1 = Some (A2, Q2, s')" "Q' = stored r dma e s @ Q2"
    using Cons.prems(4) 1(1) by (auto split: prod.splits)
  ultimately show ?case using Cons.IH [OF 1(2)] Cons.prems(3) by fastforce
qed auto

text \<open>Once the engine has fetched all there is, a turn of the task gives back all the buffers.\<close>

lemma run_append:
  assumes "spdio_run obj r dma es s = Some (A, Q, s1)" and "spdio_run obj r dma fs s1 = Some (B, S, s2)"
  shows "spdio_run obj r dma (es @ fs) s = Some (A @ B, Q @ S, s2)"
  using assms
proof (induction es arbitrary: s A Q)
  case (Cons e es)
  then obtain t A' Q' where "spdio_step obj r dma e s = Some t" "spdio_run obj r dma es t = Some (A', Q', s1)"
    "A = sent obj r e s @ A'" "Q = stored r dma e s @ Q'" by (auto simp: bind_eq_Some_conv)
  then show ?case using Cons.IH Cons.prems(2) by simp
qed simp

lemma fetch_all:
  assumes "sends view obj p A H R s" and "rings_ok obj"
  shows "\<exists>s'. spdio_run obj r dma (replicate k Fetch) s = Some ([], [], s') \<and> sends view obj p A (min (H + k) (2 * length A)) R s'"
  using assms(1)
proof (induction k arbitrary: H s)
  case 0
  then show ?case by (auto simp: sends_def sending_def min_def)
next
  case (Suc k)
  let ?s = "s\<lparr>hw := dma_fetch dma (segment_of (adapter s)) (hw s)\<rparr>"
  have "0 < tx_bd_num obj" using assms(2) by (simp add: rings_ok_def)
  then have "sends view obj p A (min (Suc H) (2 * length A)) R ?s"
    using fetch_sending Suc.prems by (simp add: sends_def tx_ptrs_def)
  from Suc.IH [OF this] obtain s' where "spdio_run obj r dma (replicate k Fetch) ?s = Some ([], [], s')"
    "sends view obj p A (min (min (Suc H) (2 * length A) + k) (2 * length A)) R s'" by blast
  moreover have "min (min (Suc H) (2 * length A) + k) (2 * length A) = min (H + Suc k) (2 * length A)" by (simp add: min_def)
  ultimately show ?case by simp
qed

lemma drain:
  assumes "sends view obj p A H R s" and "rings_ok obj" and "tx_bd_num obj \<le> int k"
  shows "\<exists>s'. spdio_run obj r dma (replicate k Fetch @ [Raise BIT_C2H_DMA_OK, Irq]) s = Some ([], [], s') \<and>
    sends view obj p A (2 * length A) (2 * length A) s'"
proof -
  let ?n = "2 * length A"
  have "H + k \<ge> ?n" using assms(1,3) by (auto simp: sends_def sending_def)
  then obtain s1 where s1: "spdio_run obj r dma (replicate k Fetch) s = Some ([], [], s1)" "sends view obj p A ?n R s1"
    using fetch_all [OF assms(1,2), of k] by (auto simp: min_def split: if_splits)
  let ?s2 = "s1\<lparr>hw := dma_raise dma BIT_C2H_DMA_OK (hw s1)\<rparr>"
  have s2: "sending (tx_bd_num obj) p A ?n R (adapter ?s2) (view (hw ?s2)) (calls ?s2)" "tx_ptrs obj (adapter ?s2) (view (hw ?s2))"
    using s1(2) by (auto simp: sends_def sending_def tx_ptrs_def)
  have "(x OR BIT_C2H_DMA_OK) AND BIT_C2H_DMA_OK = BIT_C2H_DMA_OK" for x by (rule bit_word_eqI) (auto simp: bit_simps)
  then have "int_status (view (hw ?s2)) AND BIT_C2H_DMA_OK \<noteq> 0" by (simp add: BIT_C2H_DMA_OK_def)
  then obtain s3 where "SPDIO_IRQ_Handler_BH obj r ?s2 = Some s3" "sends view obj p A ?n ?n s3"
    by - (rule irq_turn [OF s2(1) refl assms(2) s2(2)], simp add: sends_def)
  then show ?thesis using run_append [OF s1(1)] by simp
qed

lemma send_all:
  assumes "sends view obj p A H 0 s" and "even (tx_bd_num obj)" and "rings_ok obj"
  shows "\<exists>s'. spdio_run obj r dma (map (\<lambda>(p, b). Send p b) ps) s = Some (take (nat (tx_bd_num obj) div 2 - 1 - length A) ps, [], s')"
  using assms(1)
proof (induction ps arbitrary: A s)
  case (Cons pb ps)
  obtain a b where ab: "pb = (a, b)" by (cases pb)
  have s: "sending (tx_bd_num obj) p A H 0 (adapter s) (view (hw s)) (calls s)" "2 < tx_bd_num obj" "tx_bd_num obj < 2 ^ 16"
    using Cons.prems assms(3) by (auto simp: sends_def rings_ok_def)
  obtain j where j: "tx_bd_num obj = 2 * int j" "nat (tx_bd_num obj) div 2 = j"
  proof -
    obtain m where m: "tx_bd_num obj = 2 * m" using assms(2) by (auto elim: evenE)
    then have "m = int (nat m)" "nat (tx_bd_num obj) div 2 = nat m" using s(2) by (simp_all add: nat_mult_distrib)
    then show ?thesis using that [of "nat m"] m by simp
  qed
  note tx = spdio_tx_sending [OF s(1) refl s(2,3), of a b]
  show ?case
  proof (cases "length A + 1 < j")
    case True
    then have "int (2 * length A - 0) + 2 < tx_bd_num obj" using j(1) by simp
    then obtain d h where t: "spdio_tx obj r a b s = Some (True, s\<lparr>adapter := d, hw := h\<rparr>)"
      "sending (tx_bd_num obj) p (A @ [(a, b)]) H 0 d (view h) (calls s)" using tx(2) by blast
    have "tx_ptrs obj d (view h)" using spdio_tx_tx_part [OF t(1)] Cons.prems by (simp add: sends_def tx_ptrs_def tx_part_def)
    then have "sends view obj p (A @ [(a, b)]) H 0 (s\<lparr>adapter := d, hw := h\<rparr>)" using t(2) by (simp add: sends_def)
    from Cons.IH [OF this] obtain s' where "spdio_run obj r dma (map (\<lambda>(p, b). Send p b) ps) (s\<lparr>adapter := d, hw := h\<rparr>)
        = Some (take (j - 1 - Suc (length A)) ps, [], s')" using j(2) by auto
    moreover have "j - 1 - length A = Suc (j - 1 - Suc (length A))" using True by simp
    ultimately show ?thesis using t(1) j(2) by (simp add: ab)
  next
    case False
    then have "spdio_tx obj r a b s = Some (False, s)" using tx(1) j(1) by simp
    moreover obtain s' where "spdio_run obj r dma (map (\<lambda>(p, b). Send p b) ps) s = Some ([], [], s')"
      using Cons.IH [OF Cons.prems] False j(2) by auto
    ultimately show ?thesis using False j(2) by (simp add: ab)
  qed
qed simp

end

end
