(* ===== verification/Sdio_Props.thy ===== *)
theory Sdio_Props
  imports Sdio_Run
begin

text \<open>
  The properties of the SDIO device, over \<^verbatim>\<open>common/mbed/targets/hal/rtl8711b/spdio_api.c\<close>, and a model of the engine on which
  its contract holds.
\<close>

section \<open>An engine\<close>

definition engine_rom :: "engine sdio_rom" where
  "engine_rom = \<lparr>
     SDIO_Init = (\<lambda>c e. \<lparr>rx_rptr = 0, rx_wptr = 0, rx_size = RXBD_RING_SIZE c, tx_wptr = 0, tx_pending = 0,
       tx_size = TXBD_RING_SIZE c, int_status = 0, to_host = []\<rparr>),
     SDIO_RXBD_RPTR_Get = rx_rptr,
     SDIO_RXBD_WPTR_Set = (\<lambda>v e. e\<lparr>rx_wptr := v\<rparr>),
     SDIO_TXBD_WPTR_Get = tx_wptr,
     SDIO_TXBD_RPTR_Set = (\<lambda>v e. e\<lparr>tx_pending := (tx_wptr e - v) mod tx_size e\<rparr>),
     SDIO_INTConfig = (\<lambda>m c e. e),
     HAL_SDIO_READ16 = (\<lambda>a e. int_status e),
     HAL_SDIO_WRITE16 = (\<lambda>a m e. if a = REG_SPDIO_CPU_INT_STAS then e\<lparr>int_status := int_status e AND NOT m\<rparr> else e),
     HAL_SDIO_READ8 = (\<lambda>a e. 0), HAL_SDIO_WRITE8 = (\<lambda>a b e. e), SDIO_CPWM2_Set = (\<lambda>m c e. e), SDIO_DMA_Reset = (\<lambda>e. e)\<rparr>"

definition engine_dma :: "engine sdio_dma" where
  "engine_dma = \<lparr>
     dma_fetch = (\<lambda>f e. if rx_rptr e = rx_wptr e then e
       else e\<lparr>rx_rptr := (rx_rptr e + 1) mod rx_size e, to_host := to_host e @ [f (rx_rptr e)]\<rparr>),
     dma_room = (\<lambda>e. tx_pending e < tx_size e),
     dma_store = (\<lambda>e. e\<lparr>tx_wptr := (tx_wptr e + 1) mod tx_size e, tx_pending := tx_pending e + 1\<rparr>),
     dma_raise = (\<lambda>m e. e\<lparr>int_status := int_status e OR m\<rparr>)\<rparr>"

interpretation sdio_hw: sdio_device engine_rom engine_dma "\<lambda>e. e"
  by unfold_locales (auto simp: engine_rom_def engine_dma_def REG_SPDIO_CPU_INT_STAS_def REG_SPDIO_CPU_INT_MASK_def)

text \<open>A user with a ring of \<open>n\<close> descriptors to the host and two of its own, who takes every packet and keeps the buffers.\<close>

definition example_user :: "int \<Rightarrow> unit spdio_t" where
  "example_user n = \<lparr>tx_bd_num = n, rx_bd_num = 2, rx_bd_bufsz = 64, rx_done_cb = (\<lambda>i a k t bu. (SPDIO_SUCCESS, bu)), tx_done_cb = (\<lambda>p u. u)\<rparr>"

definition example_device :: "(engine, unit) spdio" where
  "example_device =
     \<lparr>adapter = \<lparr>pTXBD = (\<lambda>i. 0), TXBDWPtr = 0, TXBDRPtr = 0, TXBDRPtrReg = 0, TxOverFlow = 0,
        pRXBD = (\<lambda>i. \<lparr>BuffSize = 0, LS = False, FS = False, Seq = 0, PhyAddr = 0\<rparr>), pRXDESCAddrAligned = 4096,
        pRXDESC = (\<lambda>i. \<lparr>pkt_len = 0, desc_offset = 0, desc_type = 0\<rparr>), pRXBDHdl = (\<lambda>i. \<lparr>priv = 0, isPktEnd = False, isFree = False\<rparr>),
        RXBDWPtr = 0, RXBDRPtr = 0\<rparr>,
      rx_buf = (\<lambda>i. \<lparr>buf_addr = 64 * i + 64, buf_size = 64, buf_type = 0\<rparr>), tx_desc_at = (\<lambda>a. \<lparr>txpktsize = 10, tx_offset = 16, tx_type = 0x83\<rparr>),
      hw = \<lparr>rx_rptr = 0, rx_wptr = 0, rx_size = 0, tx_wptr = 0, tx_pending = 0, tx_size = 0, int_status = 0, to_host = []\<rparr>,
      user = (), calls = []\<rparr>"

definition example_started :: "int \<Rightarrow> (engine, unit) spdio" where
  "example_started n = the (spdio_init (example_user n) engine_rom example_device)"

lemma example_init: "0 < n \<Longrightarrow> even n \<Longrightarrow> spdio_init (example_user n) engine_rom example_device = Some (example_started n)"
  by (simp add: example_started_def spdio_init_def SPDIO_Device_Init_def example_user_def example_device_def Let_def even_iff_mod_2_eq_zero upto.simps)

lemma example_rings: "2 < n \<Longrightarrow> n < 2 ^ 16 \<Longrightarrow> rings_ok (example_user n)" "calls example_device = []"
  by (simp_all add: rings_ok_def example_user_def example_device_def)

lemma example_buffers: "inj_on (\<lambda>i. buf_addr (rx_buf example_device i)) A" "TxOverFlow (adapter example_device) = 0" "keeps_buffers (example_user n)"
  by (auto simp: example_device_def keeps_buffers_def example_user_def inj_on_def)

section \<open>The start\<close>

context sdio_device
begin

lemma spdio_enable_view: "view (spdio_enable r h) = (view h)\<lparr>int_status := int_status (view h) AND NOT SDIO_INIT_INT_MASK\<rparr>"
  by (simp add: spdio_enable_def Let_def)

lemma init_sends:
  assumes "spdio_init obj r s0 = Some s" and "rings_ok obj" and "calls s0 = []"
  shows "\<exists>p. sends view obj p [] 0 0 s"
    and "inj_on (\<lambda>i. buf_addr (rx_buf s0 i)) {0..<rx_bd_num obj} \<Longrightarrow> TxOverFlow (adapter s0) = 0 \<Longrightarrow> receives view obj (TXBDRPtr (adapter s)) [] 0 s"
proof -
  let ?h = "SDIO_Init r (spdio_init_struct obj) (hw s0)"
  have n: "0 < tx_bd_num obj" "0 < rx_bd_num obj" using assms(2) by (auto simp: rings_ok_def)
  then obtain p q where pq: "0 \<le> p" "p < tx_bd_num obj" "0 \<le> q" "q < rx_bd_num obj"
    "view ?h = \<lparr>rx_rptr = p, rx_wptr = p, rx_size = tx_bd_num obj, tx_wptr = q, tx_pending = 0, tx_size = rx_bd_num obj, int_status = 0, to_host = []\<rparr>"
    using init [of "spdio_init_struct obj" "hw s0"] by (auto simp: spdio_init_struct_def)
  have s: "hw s = spdio_enable r ?h" "RXBDWPtr (adapter s) = p" "RXBDRPtr (adapter s) = p" "TXBDRPtr (adapter s) = q" "calls s = []"
    "rx_buf s = rx_buf s0" "\<And>i. 0 \<le> i \<Longrightarrow> i < rx_bd_num obj \<Longrightarrow> pTXBD (adapter s) i = buf_addr (rx_buf s0 i)"
    "TxOverFlow (adapter s) = TxOverFlow (adapter s0)"
    using assms(1,3) pq(5) by (auto simp: spdio_init_def SPDIO_Device_Init_def Let_def split: if_splits)
  have "sends view obj p [] 0 0 s"
    using pq s n slot_start [of p "tx_bd_num obj"] by (simp add: sends_def sending_def tx_ptrs_def spdio_enable_view wire_def)
  then show "\<exists>p. sends view obj p [] 0 0 s" ..
  show "receives view obj (TXBDRPtr (adapter s)) [] 0 s"
    if "inj_on (\<lambda>i. buf_addr (rx_buf s0 i)) {0..<rx_bd_num obj}" "TxOverFlow (adapter s0) = 0"
    using pq s n that slot_start [of q "rx_bd_num obj"]
    by (simp add: receives_def receiving_def spdio_enable_view deliveries_def)
qed

end

section \<open>Sending\<close>

text \<open>
  C6: the device is a queue towards the host, on rings of fewer than 65536 descriptors, more than two of them towards the host. However
  the calls of \<open>spdio_tx\<close>, the engine, the host and the interrupt
  task interleave, every turn ends; the segments the host has got are a beginning of those of the packets accepted, in order, each
  packet with its descriptor and its bytes, cut to 16380; the buffers given back to the user are the first of the accepted ones, each
  once and in order; and no buffer is given back before the host has got its last segment.
\<close>

theorem spdio_packets_in_order:
  assumes "sdio_device r dma view" and "spdio_init obj r s0 = Some s" and "rings_ok obj" and "calls s0 = []"
  shows "\<exists>A Q s' H R. spdio_run obj r dma es s = Some (A, Q, s') \<and> to_host (view (hw s')) = take H (concat (map segments A)) \<and>
    tx_dones (calls s') = map fst (take (R div 2) A) \<and> R \<le> H \<and> H \<le> 2 * length A"
proof -
  obtain p where "sends view obj p [] 0 0 s" using sdio_device.init_sends(1) [OF assms] by blast
  from sdio_device.run_sends [OF assms(1) this assms(3), of es] obtain A Q s' H R where
    "spdio_run obj r dma es s = Some (A, Q, s')" "sends view obj p A H R s'" by auto
  then show ?thesis unfolding sends_def sending_def wire_def by blast
qed

theorem spdio_packets_in_order_witness:
  "\<exists>A Q s' H R. spdio_run (example_user 4) engine_rom engine_dma [Send 1 \<lparr>buf_addr = 512, buf_size = 10, buf_type = 0x82\<rparr>, Fetch, Irq] (example_started 4) =
     Some (A, Q, s') \<and> to_host (hw s') = take H (concat (map segments A)) \<and>
     tx_dones (calls s') = map fst (take (R div 2) A) \<and> R \<le> H \<and> H \<le> 2 * length A"
  by (rule spdio_packets_in_order [OF sdio_hw.sdio_device_axioms example_init example_rings]) simp_all

text \<open>
  C17: nothing is lost and no buffer is kept, on a ring of more than two and fewer than 65536 descriptors. After any run, once the engine has
  fetched as many descriptors as the ring has and the
  task has seen the end of the transfer, the host has got exactly the segments of all the packets accepted, and every
  buffer was given back. The segments of a packet are its header and its data cut to 16380 bytes, as the code does. A ring
  of two descriptors, which \<open>spdio_init\<close> accepts, is excluded: there nothing is delivered (C40).
\<close>

theorem spdio_all_delivered:
  assumes "sdio_device r dma view" and "spdio_init obj r s0 = Some s" and "rings_ok obj" and "calls s0 = []" and "tx_bd_num obj \<le> int k"
  shows "\<exists>A Q s'. spdio_run obj r dma (es @ replicate k Fetch @ [Raise BIT_C2H_DMA_OK, Irq]) s = Some (A, Q, s') \<and>
    to_host (view (hw s')) = concat (map segments A) \<and> tx_dones (calls s') = map fst A"
proof -
  obtain p where "sends view obj p [] 0 0 s" using sdio_device.init_sends(1) [OF assms(1-4)] by blast
  from sdio_device.run_sends [OF assms(1) this assms(3), of es] obtain A Q s1 H R where
    1: "spdio_run obj r dma es s = Some (A, Q, s1)" "sends view obj p A H R s1" by auto
  from sdio_device.drain [OF assms(1) 1(2) assms(3,5)] obtain s2 where
    "spdio_run obj r dma (replicate k Fetch @ [Raise BIT_C2H_DMA_OK, Irq]) s1 = Some ([], [], s2)"
    "sends view obj p A (2 * length A) (2 * length A) s2" by blast
  then show ?thesis using sdio_device.run_append [OF assms(1) 1(1)] by (auto simp: sends_def sending_def simp flip: wire_def)
qed

theorem spdio_all_delivered_witness:
  "\<exists>A Q s'. spdio_run (example_user 4) engine_rom engine_dma
       ([Send 1 \<lparr>buf_addr = 512, buf_size = 10, buf_type = 0x82\<rparr>] @ replicate 4 Fetch @ [Raise BIT_C2H_DMA_OK, Irq]) (example_started 4) = Some (A, Q, s') \<and>
     to_host (hw s') = concat (map segments A) \<and> tx_dones (calls s') = map fst A"
  by (rule spdio_all_delivered [OF sdio_hw.sdio_device_axioms example_init example_rings]) (simp_all add: example_user_def)

text \<open>
  C39: without an interrupt a freshly started ring of \<open>n\<close> descriptors, \<open>n\<close> even and more than two and less than 65536, takes
  exactly the first \<open>n div 2 - 1\<close> of the packets sent, and the others are refused. (A ring of two descriptors takes every packet
  and delivers none, C40.)
\<close>

theorem spdio_ring_capacity:
  assumes "sdio_device r dma view" and "spdio_init obj r s0 = Some s" and "rings_ok obj" and "calls s0 = []"
  shows "\<exists>s'. spdio_run obj r dma (map (\<lambda>(p, b). Send p b) ps) s = Some (take (nat (tx_bd_num obj) div 2 - 1) ps, [], s')"
proof -
  obtain p where "sends view obj p [] 0 0 s" using sdio_device.init_sends(1) [OF assms(1-4)] by blast
  have "even (tx_bd_num obj)" using assms(2) by (auto simp: spdio_init_def even_iff_mod_2_eq_zero split: if_splits)
  from sdio_device.send_all [OF assms(1) \<open>sends view obj p [] 0 0 s\<close> this assms(3), of ps] show ?thesis by simp
qed

theorem spdio_ring_capacity_witness:
  "\<exists>s'. spdio_run (example_user 4) engine_rom engine_dma (map (\<lambda>(p, b). Send p b)
       [(1, \<lparr>buf_addr = 512, buf_size = 10, buf_type = 0x82\<rparr>), (2, \<lparr>buf_addr = 1024, buf_size = 20, buf_type = 0x82\<rparr>)]) (example_started 4) =
     Some ([(1, \<lparr>buf_addr = 512, buf_size = 10, buf_type = 0x82\<rparr>)], [], s')"
  using spdio_ring_capacity [OF sdio_hw.sdio_device_axioms example_init example_rings, of 4
      "[(1, \<lparr>buf_addr = 512, buf_size = 10, buf_type = 0x82\<rparr>), (2, \<lparr>buf_addr = 1024, buf_size = 20, buf_type = 0x82\<rparr>)]"]
  by (simp add: example_user_def)

section \<open>Receiving\<close>

text \<open>
  C14: packets of the host reach the user in order, on rings as in C6. As long as the engine does not report an overflow, every turn ends and
  the calls of the user's callback that it answered with success are for the first of the packets stored, each once and in order, with
  the address of its data in the buffer where the engine put it, its length and its type; the packets too long for
  a buffer are left out, and a packet the user refuses is offered again. The user may exchange the buffer it
  was given for one that is not in use.
\<close>

theorem spdio_received_in_order:
  assumes "sdio_device r dma view" and "spdio_init obj r s0 = Some s" and "rings_ok obj" and "calls s0 = []"
    and "inj_on (\<lambda>i. buf_addr (rx_buf s0 i)) {0..<rx_bd_num obj}" and "TxOverFlow (adapter s0) = 0"
    and "keeps_buffers obj" and "list_all no_overflow es"
  shows "\<exists>A Q s' P. spdio_run obj r dma es s = Some (A, Q, s') \<and> P \<le> length Q \<and>
    delivered (calls s') = deliveries obj (TXBDRPtr (adapter s)) (take P Q)"
proof -
  obtain p where 0: "sends view obj p [] 0 0 s" using sdio_device.init_sends(1) [OF assms(1-4)] by blast
  have q: "receives view obj (TXBDRPtr (adapter s)) [] 0 s" by (rule sdio_device.init_sends(2) [OF assms(1-6)])
  from sdio_device.run_sends [OF assms(1) 0 assms(3), of es] obtain A Q s' where run: "spdio_run obj r dma es s = Some (A, Q, s')" by auto
  from sdio_device.run_receives [OF assms(1) 0 assms(3) q assms(7,8) run] show ?thesis
    using run by (auto simp: receives_def receiving_def Let_def)
qed

theorem spdio_received_in_order_witness:
  "\<exists>A Q s' P. spdio_run (example_user 4) engine_rom engine_dma
       [Store \<lparr>txpktsize = 10, tx_offset = 16, tx_type = 0x83\<rparr>, Raise BIT_H2C_DMA_OK, Irq] (example_started 4) = Some (A, Q, s') \<and> P \<le> length Q \<and>
     delivered (calls s') = deliveries (example_user 4) (TXBDRPtr (adapter (example_started 4))) (take P Q)"
  by (rule spdio_received_in_order [OF sdio_hw.sdio_device_axioms example_init example_rings example_buffers])
    (simp_all add: BIT_H2C_DMA_OK_def BIT_TXFIFO_H2C_OVF_def)

section \<open>What the code does at the edges\<close>

text \<open>A ring of two descriptors: a packet fills it, and a full ring looks like an empty one.\<close>

definition looks_empty :: "('h \<Rightarrow> engine) \<Rightarrow> ('h, 'u) spdio \<Rightarrow> bool" where
  "looks_empty view s \<longleftrightarrow> RXBDWPtr (adapter s) \<in> {0, 1} \<and> RXBDRPtr (adapter s) = RXBDWPtr (adapter s) \<and>
     rx_rptr (view (hw s)) = RXBDWPtr (adapter s) \<and> rx_wptr (view (hw s)) = RXBDWPtr (adapter s) \<and> to_host (view (hw s)) = []"

fun packets :: "spdio_event list \<Rightarrow> (int \<times> spdio_buf_t) list" where
  "packets [] = []"
| "packets (Send p b # es) = (p, b) # packets es"
| "packets (e # es) = packets es"

fun send_or_fetch :: "spdio_event \<Rightarrow> bool" where
  "send_or_fetch (Send p b) = True"
| "send_or_fetch Fetch = True"
| "send_or_fetch e = False"

context sdio_device
begin

lemma looks_empty_run:
  assumes "looks_empty view s" and "tx_bd_num obj = 2" and "list_all send_or_fetch es"
  shows "\<exists>s'. spdio_run obj r dma es s = Some (packets es, [], s') \<and> looks_empty view s'"
  using assms(1,3)
proof (induction es arbitrary: s)
  case (Cons e es)
  have nx: "next_bd 2 0 = 1" "next_bd 2 1 = 0" by (simp_all add: next_bd_def uint16_def)
  have "\<exists>s'. spdio_step obj r dma e s = Some s' \<and> looks_empty view s' \<and> stored r dma e s = [] \<and> sent obj r e s @ packets es = packets (e # es)"
  proof (cases e)
    case (Send p b)
    have pl: "payload_loop 2 p b (uint16 x) 0 d = Some (snd (put_payload 2 p b (min (uint16 x) MAX_RX_BD_BUF_SIZE) 0 d))" for d x
      by (intro payload_loop_once) (simp_all add: uint16_def)
    have "\<not> no_rx_bd 2 (RXBDRPtr (adapter s)) (RXBDWPtr (adapter s))" using Cons.prems(1) by (simp add: looks_empty_def no_rx_bd_def)
    then show ?thesis using Cons.prems(1) assms(2) nx
      by (auto simp: Send spdio_tx_def pl put_payload_def put_header_def looks_empty_def Let_def)
  next
    case Fetch
    then show ?thesis using Cons.prems(1) by (simp add: looks_empty_def)
  qed (use Cons.prems(2) in simp_all)
  then obtain s' where s': "spdio_step obj r dma e s = Some s'" "looks_empty view s'" "stored r dma e s = []"
    "sent obj r e s @ packets es = packets (e # es)" by blast
  then show ?case using Cons.IH [OF s'(2)] Cons.prems(2) by auto
qed simp

end

text \<open>
  C40: with two descriptors, a size that the initialisation accepts, the device is mute: every packet is accepted, however many are
  sent, and however often the engine looks for descriptors, the host gets nothing.
\<close>

theorem spdio_two_descriptors_mute:
  assumes "sdio_device r dma view" and "spdio_init obj r s0 = Some s" and "tx_bd_num obj = 2" and "0 < rx_bd_num obj"
    and "list_all send_or_fetch es"
  shows "\<exists>s'. spdio_run obj r dma es s = Some (packets es, [], s') \<and> to_host (view (hw s')) = []"
proof -
  let ?h = "SDIO_Init r (spdio_init_struct obj) (hw s0)"
  obtain p q where pq: "0 \<le> p" "p < 2"
    "view ?h = \<lparr>rx_rptr = p, rx_wptr = p, rx_size = tx_bd_num obj, tx_wptr = q, tx_pending = 0, tx_size = rx_bd_num obj, int_status = 0, to_host = []\<rparr>"
    using sdio_device.init [OF assms(1), of "spdio_init_struct obj" "hw s0"] assms(3,4) by (auto simp: spdio_init_struct_def)
  then have "p \<in> {0, 1}" by auto
  moreover have "hw s = spdio_enable r ?h" "RXBDWPtr (adapter s) = SDIO_RXBD_RPTR_Get r ?h" "RXBDRPtr (adapter s) = SDIO_RXBD_RPTR_Get r ?h"
    using assms(2) by (auto simp: spdio_init_def SPDIO_Device_Init_def Let_def split: if_splits)
  ultimately have "looks_empty view s"
    using sdio_device.spdio_enable_view [OF assms(1)] sdio_device.rptr_get [OF assms(1)] pq(3) by (simp add: looks_empty_def)
  from sdio_device.looks_empty_run [OF assms(1) this assms(3,5)] show ?thesis by (auto simp: looks_empty_def)
qed

theorem spdio_two_descriptors_mute_witness:
  "\<exists>s'. spdio_run (example_user 2) engine_rom engine_dma [Send 1 \<lparr>buf_addr = 512, buf_size = 10, buf_type = 0x82\<rparr>, Fetch] (example_started 2) =
     Some ([(1, \<lparr>buf_addr = 512, buf_size = 10, buf_type = 0x82\<rparr>)], [], s') \<and> to_host (hw s') = []"
  using spdio_two_descriptors_mute [OF sdio_hw.sdio_device_axioms example_init, of 2 "[Send 1 \<lparr>buf_addr = 512, buf_size = 10, buf_type = 0x82\<rparr>, Fetch]"]
  by (simp add: example_user_def)

text \<open>
  When the host has filled the ring, its write pointer has caught up with the read pointer, and the turn of the task that sees
  this together with the overflow takes the ring for empty: it passes on nothing and only sets a flag that no
  later turn looks at before the next packet arrives, for which there is no room.
\<close>

theorem spdio_full_ring_passed_over:
  assumes "sdio_device r dma view" and "tx_wptr (view (hw s)) = TXBDRPtr (adapter s)" and "TxOverFlow (adapter s) = 0"
    and "int_status (view (hw s)) AND BIT_C2H_DMA_OK = 0"
  shows "\<exists>s'. SPDIO_IRQ_Handler_BH obj r s = Some s' \<and> calls s' = calls s \<and> TXBDRPtr (adapter s') = TXBDRPtr (adapter s) \<and>
    tx_pending (view (hw s')) = tx_pending (view (hw s)) \<and>
    TxOverFlow (adapter s') = (if int_status (view (hw s)) AND BIT_TXFIFO_H2C_OVF = 0 then 0 else 1)"
  using assms(2-4) sdio_device.status_get [OF assms(1)] sdio_device.status_clear [OF assms(1)] sdio_device.int_config [OF assms(1)]
    sdio_device.wptr_get [OF assms(1)]
  by (simp add: SPDIO_IRQ_Handler_BH_def SPDIO_TX_FIFO_DataReady_def Let_def)

theorem spdio_full_ring_passed_over_witness:
  "let s = example_device\<lparr>hw := (hw example_device)\<lparr>tx_pending := 2, tx_size := 2, int_status := BIT_H2C_DMA_OK OR BIT_TXFIFO_H2C_OVF\<rparr>\<rparr>
   in \<exists>s'. SPDIO_IRQ_Handler_BH (example_user 4) engine_rom s = Some s' \<and> calls s' = [] \<and> TXBDRPtr (adapter s') = 0 \<and>
     tx_pending (hw s') = 2 \<and> TxOverFlow (adapter s') = 1"
  using spdio_full_ring_passed_over [OF sdio_hw.sdio_device_axioms, of
      "example_device\<lparr>hw := (hw example_device)\<lparr>tx_pending := 2, tx_size := 2, int_status := BIT_H2C_DMA_OK OR BIT_TXFIFO_H2C_OVF\<rparr>\<rparr>" "example_user 4"]
  by (simp add: example_device_def BIT_H2C_DMA_OK_def BIT_TXFIFO_H2C_OVF_def BIT_C2H_DMA_OK_def)

text \<open>
  The flag outlives the overflow. When it is still set at a turn that finds nothing new, the loop runs over the whole ring: the
  user gets the packet that lies in the next descriptor, which was passed on before, once more.
\<close>

theorem spdio_overflow_repeats:
  assumes "sdio_device r dma view" and "tx_ptrs obj (adapter s) (view (hw s))" and "rings_ok obj"
    and "tx_wptr (view (hw s)) = TXBDRPtr (adapter s)" and "TxOverFlow (adapter s) \<noteq> 0"
    and "i = TXBDRPtr (adapter s)" and "d = tx_desc_at s (pTXBD (adapter s) i)" and "fits obj d"
  shows "\<exists>s' ret cs. SPDIO_TX_FIFO_DataReady obj r s = Some s' \<and>
    calls s' = calls s @ RxDone i (uint32 (buf_addr (rx_buf s i) + tx_offset d)) (txpktsize d) (tx_type d) ret # cs"
proof -
  let ?s = "s\<lparr>adapter := (adapter s)\<lparr>TxOverFlow := 0\<rparr>\<rparr>"
  let ?a = "uint32 (buf_addr (rx_buf s i) + tx_offset d)"
  obtain go s1 where one: "data_ready_one obj r ?s = (go, s1)" by (cases "data_ready_one obj r ?s")
  obtain ret b u where cb: "rx_done_cb obj i ?a (txpktsize d) (tx_type d) (rx_buf s, user s) = (ret, b, u)" by (metis prod_cases3)
  have c1: "calls s1 = calls s @ [RxDone i ?a (txpktsize d) (tx_type d) ret]"
    using one cb assms(6-8) by (auto simp: data_ready_one_def spdio_rx_done_cb_def fits_def Let_def split: if_splits)
  note fr = sdio_device.data_ready_one_frame [OF assms(1), of obj ?s, unfolded one snd_conv]
  note ptr = sdio_device.data_ready_one_ptr [OF assms(1), of ?s obj, unfolded one fst_conv snd_conv]
  have "\<exists>s'. data_ready_loop obj r ?s = Some s' \<and> (\<exists>cs. calls s' = calls s1 @ cs)"
  proof (cases "go \<and> TXBDRPtr (adapter s1) \<noteq> tx_wptr (view (hw s))")
    case False
    then have "data_ready_loop obj r ?s = Some s1"
      using one fr(4) sdio_device.wptr_get [OF assms(1)] by (subst data_ready_loop.simps) auto
    then show ?thesis by simp
  next
    case True
    then have "data_ready_loop obj r ?s = data_ready_loop obj r s1"
      using one fr(4) sdio_device.wptr_get [OF assms(1)] by (subst data_ready_loop.simps) auto
    moreover have "0 \<le> TXBDRPtr (adapter s1)" "TXBDRPtr (adapter s1) < rx_bd_num obj" "rx_bd_num obj < 2 ^ 16"
      "0 \<le> tx_wptr (view (hw s1))" "tx_wptr (view (hw s1)) < rx_bd_num obj"
      using ptr fr(4) assms(2,3) True by (auto simp: tx_ptrs_def rings_ok_def)
    ultimately show ?thesis using sdio_device.data_ready_loop_total [OF assms(1), of s1 obj] by auto
  qed
  then show ?thesis
    using assms(4,5) sdio_device.wptr_get [OF assms(1)] c1 by (auto simp: SPDIO_TX_FIFO_DataReady_def)
qed

theorem spdio_overflow_repeats_witness:
  "let s = example_device\<lparr>hw := (hw example_device)\<lparr>tx_size := 2\<rparr>, adapter := (adapter example_device)\<lparr>TxOverFlow := 1\<rparr>\<rparr>
   in \<exists>s' ret cs. SPDIO_TX_FIFO_DataReady (example_user 4) engine_rom s = Some s' \<and> calls s' = RxDone 0 80 10 0x83 ret # cs"
  using spdio_overflow_repeats [OF sdio_hw.sdio_device_axioms, of "example_user 4"
      "example_device\<lparr>hw := (hw example_device)\<lparr>tx_size := 2\<rparr>, adapter := (adapter example_device)\<lparr>TxOverFlow := 1\<rparr>\<rparr>", OF _ example_rings(1) _ _ refl refl]
  by (simp add: example_device_def example_user_def tx_ptrs_def fits_def uint32_def)

end
