(* ===== verification/Us_Ticker.thy ===== *)
theory Us_Ticker
  imports RTL_Prelude
begin

text \<open>
  The microsecond ticker, \<^verbatim>\<open>common/mbed/targets/hal/rtl8711b/us_ticker_api.c\<close> and \<^verbatim>\<open>us_ticker.c\<close>: a list of events linked through
  the callers' structures, ordered by time, and a hardware timer set for the first of them. \<open>events\<close> is the memory at the
  callers' structures, by address. The functions on the timers are in ROM; with the conversion of microseconds to ticks, which is done
  in floating point, they are the record \<open>ticker_rom\<close>. \<open>call\<close> stands for the code behind a handler's pointer: it may
  change the list. \<open>ticks_called\<close> lists the calls of the handler.
\<close>

type_synonym u64 = "64 word"

record ticker_event_t =
  timestamp :: u64
  ev_id :: u32
  ev_next :: "nat option"

record 'h ticker_rom =
  SYSTIMER_TickGet :: "'h \<Rightarrow> u32"
  RTIM_TimeBaseInit :: "int \<Rightarrow> u32 \<Rightarrow> 'h \<Rightarrow> 'h"
  RTIM_Cmd :: "int \<Rightarrow> bool \<Rightarrow> 'h \<Rightarrow> 'h"
  RTIM_ChangePeriod :: "int \<Rightarrow> u32 \<Rightarrow> 'h \<Rightarrow> 'h"
  RTIM_INTClear :: "int \<Rightarrow> 'h \<Rightarrow> 'h"
  us_to_ticks :: "u32 \<Rightarrow> u32"

record ('h, 'f) ticker =
  event_handler :: "'f option"
  head :: "nat option"
  events :: "nat \<Rightarrow> ticker_event_t"
  us_ticker_inited :: bool
  timers :: 'h
  ticks_called :: "u32 list"

definition SYS_TIM_ID :: int where "SYS_TIM_ID = 0"
definition APP_TIM_ID :: int where "APP_TIM_ID = 1"
definition TIMER_TICK_US :: u32 where "TIMER_TICK_US = 31"

section \<open>The timer\<close>

definition us_ticker_read :: "'h ticker_rom \<Rightarrow> 'h \<Rightarrow> u32" where
  "us_ticker_read r h = (SYSTIMER_TickGet r h * 1000000) div 32768"

definition us_ticker_set_interrupt :: "'h ticker_rom \<Rightarrow> u64 \<Rightarrow> 'h \<Rightarrow> 'h" where
  "us_ticker_set_interrupt r ts h =
     (let cur_time_us = us_ticker_read r h;
          duration_us = (if ucast ts \<ge> cur_time_us then ucast ts - cur_time_us else 0xffffffff - cur_time_us + ucast ts);
          duration_us = (if duration_us < TIMER_TICK_US then TIMER_TICK_US else duration_us)
      in RTIM_ChangePeriod r APP_TIM_ID (us_to_ticks r duration_us) h)"

definition us_ticker_disable_interrupt :: "'h ticker_rom \<Rightarrow> 'h \<Rightarrow> 'h" where
  "us_ticker_disable_interrupt r h = RTIM_Cmd r APP_TIM_ID False h"

definition us_ticker_clear_interrupt :: "'h ticker_rom \<Rightarrow> 'h \<Rightarrow> 'h" where
  "us_ticker_clear_interrupt r h = RTIM_INTClear r APP_TIM_ID h"

definition us_ticker_init :: "'h ticker_rom \<Rightarrow> ('h, 'f) ticker \<Rightarrow> ('h, 'f) ticker" where
  "us_ticker_init r s =
     (if us_ticker_inited s then s
      else s\<lparr>us_ticker_inited := True, timers := RTIM_Cmd r SYS_TIM_ID True (RTIM_TimeBaseInit r APP_TIM_ID 0xffffffff (timers s))\<rparr>)"

definition us_ticker_set_handler :: "'h ticker_rom \<Rightarrow> 'f option \<Rightarrow> ('h, 'f) ticker \<Rightarrow> ('h, 'f) ticker" where
  "us_ticker_set_handler r f s = (us_ticker_init r s)\<lparr>event_handler := f\<rparr>"

section \<open>The list of events\<close>

text \<open>\<open>(int)(a - b) <= 0\<close> for times of 64 bits: the difference is cut to 32.\<close>

definition not_after :: "u64 \<Rightarrow> u64 \<Rightarrow> bool" where
  "not_after a b \<longleftrightarrow> sint (ucast (a - b) :: u32) \<le> 0"

partial_function (option) insert_walk ::
  "(nat \<Rightarrow> ticker_event_t) \<Rightarrow> u64 \<Rightarrow> nat option \<Rightarrow> nat option \<Rightarrow> (nat option \<times> nat option) option" where
  "insert_walk ev ts prev p =
     (case p of None \<Rightarrow> Some (prev, p)
      | Some e \<Rightarrow> if not_after ts (timestamp (ev e)) then Some (prev, p) else insert_walk ev ts p (ev_next (ev e)))"

definition us_ticker_insert_event :: "'h ticker_rom \<Rightarrow> nat \<Rightarrow> u64 \<Rightarrow> u32 \<Rightarrow> ('h, 'f) ticker \<Rightarrow> ('h, 'f) ticker option" where
  "us_ticker_insert_event r obj ts i s =
     (let ev = (events s)(obj := (events s obj)\<lparr>timestamp := ts, ev_id := i\<rparr>)
      in case insert_walk ev ts None (head s) of
           None \<Rightarrow> None
         | Some (prev, p) \<Rightarrow>
             (let s = (case prev of
                         None \<Rightarrow> s\<lparr>events := ev, head := Some obj, timers := us_ticker_set_interrupt r ts (timers s)\<rparr>
                       | Some q \<Rightarrow> s\<lparr>events := ev(q := (ev q)\<lparr>ev_next := Some obj\<rparr>)\<rparr>)
              in Some (s\<lparr>events := (events s)(obj := (events s obj)\<lparr>ev_next := p\<rparr>)\<rparr>)))"

partial_function (option) remove_walk :: "(nat \<Rightarrow> ticker_event_t) \<Rightarrow> nat \<Rightarrow> nat option \<Rightarrow> (nat \<Rightarrow> ticker_event_t) option" where
  "remove_walk ev obj p =
     (case p of None \<Rightarrow> Some ev
      | Some e \<Rightarrow> if ev_next (ev e) = Some obj then Some (ev(e := (ev e)\<lparr>ev_next := ev_next (ev obj)\<rparr>))
                  else remove_walk ev obj (ev_next (ev e)))"

definition us_ticker_remove_event :: "'h ticker_rom \<Rightarrow> nat \<Rightarrow> ('h, 'f) ticker \<Rightarrow> ('h, 'f) ticker option" where
  "us_ticker_remove_event r obj s =
     (if head s = Some obj
      then (let p = ev_next (events s obj)
            in Some (s\<lparr>head := p, timers := (case p of None \<Rightarrow> us_ticker_disable_interrupt r (timers s)
                                             | Some e \<Rightarrow> us_ticker_set_interrupt r (timestamp (events s e)) (timers s))\<rparr>))
      else map_option (\<lambda>ev. s\<lparr>events := ev\<rparr>) (remove_walk (events s) obj (head s)))"

section \<open>The interrupt\<close>

definition call_handler :: "('f \<Rightarrow> u32 \<Rightarrow> ('h, 'f) ticker \<Rightarrow> ('h, 'f) ticker option) \<Rightarrow> nat \<Rightarrow> ('h, 'f) ticker \<Rightarrow> ('h, 'f) ticker option" where
  "call_handler call p s =
     (case event_handler s of None \<Rightarrow> Some s
      | Some f \<Rightarrow> call f (ev_id (events s p)) (s\<lparr>ticks_called := ticks_called s @ [ev_id (events s p)]\<rparr>))"

partial_function (option) irq_loop ::
  "'h ticker_rom \<Rightarrow> ('f \<Rightarrow> u32 \<Rightarrow> ('h, 'f) ticker \<Rightarrow> ('h, 'f) ticker option) \<Rightarrow> ('h, 'f) ticker \<Rightarrow> ('h, 'f) ticker option" where
  "irq_loop r call s =
     (case head s of
        None \<Rightarrow> Some (s\<lparr>timers := us_ticker_disable_interrupt r (timers s)\<rparr>)
      | Some p \<Rightarrow>
          if not_after (timestamp (events s p)) (ucast (us_ticker_read r (timers s)))
          then Option.bind (call_handler call p (s\<lparr>head := ev_next (events s p)\<rparr>)) (irq_loop r call)
          else Some (s\<lparr>timers := us_ticker_set_interrupt r (timestamp (events s p)) (timers s)\<rparr>))"

definition us_ticker_irq_handler ::
  "'h ticker_rom \<Rightarrow> ('f \<Rightarrow> u32 \<Rightarrow> ('h, 'f) ticker \<Rightarrow> ('h, 'f) ticker option) \<Rightarrow> ('h, 'f) ticker \<Rightarrow> ('h, 'f) ticker option" where
  "us_ticker_irq_handler r call s = irq_loop r call (s\<lparr>timers := us_ticker_clear_interrupt r (timers s)\<rparr>)"

end
