(* ===== verification/Us_Ticker_Queue.thy ===== *)
theory Us_Ticker_Queue
  imports Us_Ticker
begin

text \<open>
  The list of events as a queue ordered by time. Times are compared by the sign of a difference of 32 bits; inside a window
  of \<open>2 ^ 31\<close> microseconds from \<open>b\<close> on this is the order of the distances from \<open>b\<close>, and the operations are those of
  a sorted list.
\<close>

section \<open>Times in a window\<close>

definition since :: "u64 \<Rightarrow> u64 \<Rightarrow> nat" where
  "since b ts = unat (ucast (ts - b) :: u32)"

definition in_window :: "u64 \<Rightarrow> u64 \<Rightarrow> bool" where
  "in_window b ts \<longleftrightarrow> since b ts < 2 ^ 31"

lemma ucast_diff: "(ucast (x - y) :: u32) = ucast x - ucast y" for x y :: "64 word"
proof transfer
  fix x y :: int
  have "(2 :: int) ^ 32 dvd 2 ^ 64" by (simp add: le_imp_power_dvd)
  then have "x mod 2 ^ 64 mod 2 ^ 32 = x mod 2 ^ 32" "y mod 2 ^ 64 mod 2 ^ 32 = y mod 2 ^ 32" by (rule mod_mod_cancel)+
  then have "(x mod 2 ^ 64 - y mod 2 ^ 64) mod 2 ^ 32 = (x - y) mod 2 ^ 32" by (rule mod_diff_cong)
  then show "take_bit LENGTH(32) (take_bit LENGTH(64) (x - y)) =
      take_bit LENGTH(32) (take_bit LENGTH(64) x - take_bit LENGTH(64) y)"
    by (simp add: take_bit_eq_mod mod_mod_cancel)
qed
lemma sint_diff:
  fixes u v :: u32
  assumes "unat u < 2 ^ 31" and "unat v < 2 ^ 31"
  shows "sint (u - v) = int (unat u) - int (unat v)"
proof -
  have "u - v = word_of_int (int (unat u) - int (unat v))" by (simp add: wi_hom_sub [symmetric])
  then have "sint (u - v) = signed_take_bit 31 (int (unat u) - int (unat v))" by (simp only: sint_sbintrunc')  simp
  also have "\<dots> = int (unat u) - int (unat v)"
  proof (rule signed_take_bit_int_eq_self)
    have "int (unat u) < 2 ^ 31" "int (unat v) < 2 ^ 31" using assms by (simp_all add: nat_less_numeral_power_cancel_iff flip: of_nat_less_iff [where 'a = int])
    then show "- (2 ^ 31) \<le> int (unat u) - int (unat v)" "int (unat u) - int (unat v) < 2 ^ 31" by linarith+
  qed
  finally show ?thesis .
qed

lemma not_after_since:
  assumes "in_window b x" and "in_window b y"
  shows "not_after x y \<longleftrightarrow> since b x \<le> since b y"
proof -
  have "(ucast (x - y) :: u32) = ucast (x - b) - ucast (y - b)" by (simp add: ucast_diff)
  then show ?thesis using sint_diff [of "ucast (x - b)" "ucast (y - b)"] assms
    by (simp add: not_after_def in_window_def since_def flip: of_nat_le_iff [where 'a = int])
qed

section \<open>Lists in the store\<close>

type_synonym queued = "nat \<times> u64 \<times> u32"

fun seg :: "(nat \<Rightarrow> ticker_event_t) \<Rightarrow> nat option \<Rightarrow> queued list \<Rightarrow> nat option \<Rightarrow> bool" where
  "seg ev p [] e \<longleftrightarrow> p = e"
| "seg ev p ((a, t, i) # q) e \<longleftrightarrow> p = Some a \<and> timestamp (ev a) = t \<and> ev_id (ev a) = i \<and> seg ev (ev_next (ev a)) q e"

lemma seg_append: "seg ev p (q @ q') e \<longleftrightarrow> (\<exists>m. seg ev p q m \<and> seg ev m q' e)"
  by (induction q arbitrary: p) auto

lemma seg_upd [simp]: "a \<notin> fst ` set q \<Longrightarrow> seg (ev(a := x)) p q e = seg ev p q e"
  by (induction q arbitrary: p) auto

lemma seg_cong: "(\<And>a. a \<in> fst ` set q \<Longrightarrow> ev a = ev' a) \<Longrightarrow> seg ev p q e = seg ev' p q e"
  by (induction q arbitrary: p) auto

lemma seg_last:
  assumes "seg ev p (q @ [(a, t, i)]) e" and "a \<notin> fst ` set q"
  shows "seg (ev(a := (ev a)\<lparr>ev_next := e'\<rparr>)) p (q @ [(a, t, i)]) e'"
  using assms by (auto simp: seg_append)

definition first_event :: "queued list \<Rightarrow> nat option" where
  "first_event q = (case q of [] \<Rightarrow> None | x # _ \<Rightarrow> Some (fst x))"

lemma seg_first: "seg ev p q None \<Longrightarrow> p = first_event q"
  by (cases q) (auto simp: first_event_def)

lemma insert_walk_seg:
  assumes "seg ev p q None" and "P = (\<lambda>x. \<not> not_after ts (fst (snd x)))"
  shows "insert_walk ev ts prev p = Some (if takeWhile P q = [] then prev else Some (fst (last (takeWhile P q))), first_event (dropWhile P q))"
  using assms(1)
proof (induction q arbitrary: prev p)
  case Nil
  then show ?case by (subst insert_walk.simps) (simp add: first_event_def)
next
  case (Cons x q)
  obtain a t i where x: "x = (a, t, i)" by (cases x)
  then have e: "p = Some a" "timestamp (ev a) = t" "seg ev (ev_next (ev a)) q None" using Cons.prems by auto
  show ?case
  proof (cases "not_after ts t")
    case True
    then show ?thesis using e by (subst insert_walk.simps) (simp add: x assms(2) first_event_def)
  next
    case False
    then have "insert_walk ev ts prev p = insert_walk ev ts (Some a) (ev_next (ev a))" using e by (subst insert_walk.simps) simp
    then show ?thesis using Cons.IH [OF e(3)] False by (simp add: x assms(2))
  qed
qed

lemma remove_walk_seg:
  assumes "seg ev p q None" and "distinct (map fst q)" and "p \<noteq> Some obj"
  shows "\<exists>ev'. remove_walk ev obj p = Some ev' \<and> seg ev' p (filter (\<lambda>x. fst x \<noteq> obj) q) None \<and>
    (\<forall>a. a \<notin> fst ` set q \<longrightarrow> ev' a = ev a)"
  using assms
proof (induction q arbitrary: p)
  case Nil
  then show ?case by (simp add: remove_walk.simps)
next
  case (Cons x q)
  obtain a t i where x: "x = (a, t, i)" by (cases x)
  then have e: "p = Some a" "timestamp (ev a) = t" "ev_id (ev a) = i" "seg ev (ev_next (ev a)) q None" "a \<noteq> obj"
    "a \<notin> fst ` set q" "distinct (map fst q)"
    using Cons.prems by auto
  show ?case
  proof (cases "ev_next (ev a) = Some obj")
    case True
    then obtain t' i' q' where q: "q = (obj, t', i') # q'" using e(4) by (cases q) auto
    have "filter (\<lambda>x. fst x \<noteq> obj) q' = q'" using e(7) by (auto simp: q filter_id_conv)
    moreover have "remove_walk ev obj p = Some (ev(a := (ev a)\<lparr>ev_next := ev_next (ev obj)\<rparr>))"
      using True e(1) by (subst remove_walk.simps) simp
    ultimately show ?thesis using e by (auto simp: x q)
  next
    case False
    obtain ev' where ev': "remove_walk ev obj (ev_next (ev a)) = Some ev'"
      "seg ev' (ev_next (ev a)) (filter (\<lambda>x. fst x \<noteq> obj) q) None" "\<forall>a. a \<notin> fst ` set q \<longrightarrow> ev' a = ev a"
      using Cons.IH [OF e(4,7) False] by blast
    have "remove_walk ev obj p = Some ev'" using False e(1) ev'(1) by (subst remove_walk.simps) simp
    then show ?thesis using ev'(2,3) e by (auto simp: x)
  qed
qed

section \<open>The queue\<close>

definition key :: "u64 \<Rightarrow> queued \<Rightarrow> nat" where "key b x = since b (fst (snd x))"

definition ticker_ok :: "('h, 'f) ticker \<Rightarrow> queued list \<Rightarrow> bool" where
  "ticker_ok s q \<longleftrightarrow> seg (events s) (head s) q None \<and> distinct (map fst q)"

definition ordered :: "u64 \<Rightarrow> queued list \<Rightarrow> bool" where
  "ordered b q \<longleftrightarrow> sorted (map (key b) q) \<and> (\<forall>x \<in> set q. in_window b (fst (snd x)))"

lemma insort_key_split: "insort_key f x q = takeWhile (\<lambda>y. \<not> f x \<le> f y) q @ x # dropWhile (\<lambda>y. \<not> f x \<le> f y) q"
  by (induction q) auto

lemma insort_key_behind: "\<forall>y \<in> set q. f y < f x \<Longrightarrow> insort_key f x (q @ q') = q @ insort_key f x q'"
  by (induction q) auto

lemma ordered_insort: "ordered b q \<Longrightarrow> in_window b t \<Longrightarrow> ordered b (insort_key (key b) (a, t, i) q)"
  by (auto simp: ordered_def sorted_insort_key set_insort_key)

lemma insert_place:
  assumes "ordered b q" and "in_window b t"
  shows "takeWhile (\<lambda>x. \<not> not_after t (fst (snd x))) q @ (a, t, i) # dropWhile (\<lambda>x. \<not> not_after t (fst (snd x))) q = insort_key (key b) (a, t, i) q"
proof -
  have "\<not> not_after t (fst (snd x)) \<longleftrightarrow> \<not> key b (a, t, i) \<le> key b x" if "x \<in> set q" for x
    using not_after_since [OF assms(2), of "fst (snd x)"] assms(1) that by (simp add: ordered_def key_def)
  then show ?thesis unfolding insort_key_split by (metis (mono_tags, lifting) dropWhile_cong takeWhile_cong)
qed

lemma insert_event_queue:
  assumes ok: "ticker_ok s q" and fresh: "a \<notin> fst ` set q" and ord: "ordered b q" "in_window b t"
  shows "\<exists>s'. us_ticker_insert_event r a t i s = Some s' \<and> ticker_ok s' (insort_key (key b) (a, t, i) q) \<and>
    event_handler s' = event_handler s \<and> ticks_called s' = ticks_called s \<and>
    timers s' = (if head s' = Some a then us_ticker_set_interrupt r t (timers s) else timers s)"
proof -
  let ?P = "\<lambda>x. \<not> not_after t (fst (snd x))"
  let ?tw = "takeWhile ?P q" and ?dw = "dropWhile ?P q"
  let ?ev = "(events s)(a := (events s a)\<lparr>timestamp := t, ev_id := i\<rparr>)"
  have q: "q = ?tw @ ?dw" by simp
  have seg: "seg ?ev (head s) q None" using ok fresh by (simp add: ticker_ok_def)
  have fr: "a \<notin> fst ` set ?tw" "a \<notin> fst ` set ?dw" using fresh q by (metis UnCI image_Un set_append)+
  have dst: "distinct (map fst (tw' @ (a, t, i) # dw'))" if "distinct (map fst (tw' @ dw'))" "a \<notin> fst ` set tw'" "a \<notin> fst ` set dw'"
    for tw' dw' :: "queued list"
    using that by auto
  have dst: "distinct (map fst (?tw @ (a, t, i) # ?dw))"
    by (rule dst) (use ok fr in \<open>simp_all only: takeWhile_dropWhile_id ticker_ok_def not_False_eq_True\<close>)
  note walk = insert_walk_seg [OF seg refl, where ts = t and prev = None]
  show ?thesis
  proof (cases "?tw = []")
    case True
    let ?s = "s\<lparr>events := ?ev(a := (?ev a)\<lparr>ev_next := first_event ?dw\<rparr>), head := Some a, timers := us_ticker_set_interrupt r t (timers s)\<rparr>"
    have "us_ticker_insert_event r a t i s = Some ?s"
      using walk True by (simp add: us_ticker_insert_event_def Let_def)
    moreover have "?dw = q" using True q by simp
    then have "ticker_ok ?s (?tw @ (a, t, i) # ?dw)"
      using seg dst seg_first [OF seg] fresh True by (simp add: ticker_ok_def)
    ultimately show ?thesis using insert_place [OF ord] by simp
  next
    case False
    then obtain tw l where tw: "?tw = tw @ [l]" by (metis rev_exhaust)
    obtain c t' i' where l: "l = (c, t', i')" by (cases l)
    have ca: "c \<noteq> a" using fr(1) by (auto simp: tw l)
    let ?e1 = "?ev(c := (?ev c)\<lparr>ev_next := Some a\<rparr>)"
    let ?e2 = "?e1(a := (?e1 a)\<lparr>ev_next := first_event ?dw\<rparr>)"
    let ?s = "s\<lparr>events := ?e2\<rparr>"
    have "us_ticker_insert_event r a t i s = Some ?s"
      using walk False by (simp add: us_ticker_insert_event_def Let_def tw l)
    moreover have "ticker_ok ?s (?tw @ (a, t, i) # ?dw)"
    proof -
      have "\<exists>m. seg ?ev (head s) ?tw m \<and> seg ?ev m ?dw None"
        using seg seg_append [of ?ev "head s" ?tw ?dw None] by (simp only: takeWhile_dropWhile_id)
      then obtain m where m: "seg ?ev (head s) (tw @ [(c, t', i')]) m" "seg ?ev m ?dw None" unfolding tw l by blast
      have c: "c \<notin> fst ` set tw" "c \<notin> fst ` set ?dw" using dst by (auto simp: tw l)
      have na: "a \<notin> fst ` set (tw @ [(c, t', i')])" using fr(1) by (simp only: tw l not_False_eq_True)
      have "seg ?e2 (head s) (tw @ [(c, t', i')]) (Some a)"
        by (rule iffD2 [OF seg_upd [OF na] seg_last [OF m(1) c(1)]])
      moreover have "seg ?e2 (first_event ?dw) ?dw None" using m(2) seg_first [OF m(2)] c(2) fr(2) by simp
      ultimately have "seg ?e2 (head s) ((tw @ [(c, t', i')]) @ (a, t, i) # ?dw) None"
        using ca unfolding seg_append [of _ _ "tw @ [(c, t', i')]"] by auto
      then show ?thesis using dst by (simp add: ticker_ok_def tw l)
    qed
    moreover have "head s \<noteq> Some a" using seg_first [OF seg] fresh by (cases q) (auto simp: first_event_def)
    ultimately show ?thesis using insert_place [OF ord] by simp
  qed
qed

lemma remove_event_queue:
  assumes "ticker_ok s q"
  shows "\<exists>s'. us_ticker_remove_event r a s = Some s' \<and> ticker_ok s' (filter (\<lambda>x. fst x \<noteq> a) q) \<and>
    event_handler s' = event_handler s \<and> ticks_called s' = ticks_called s \<and>
    timers s' = (if head s = Some a
                 then case filter (\<lambda>x. fst x \<noteq> a) q of [] \<Rightarrow> us_ticker_disable_interrupt r (timers s)
                      | x # _ \<Rightarrow> us_ticker_set_interrupt r (fst (snd x)) (timers s)
                 else timers s)"
proof (cases "head s = Some a")
  case True
  then obtain t i q' where q: "q = (a, t, i) # q'" using assms by (cases q) (auto simp: ticker_ok_def)
  have f: "filter (\<lambda>x. fst x \<noteq> a) q = q'" using assms by (auto simp: q ticker_ok_def filter_id_conv)
  have s: "seg (events s) (ev_next (events s a)) q' None" "distinct (map fst q')" using assms by (auto simp: q ticker_ok_def)
  show ?thesis
  proof (cases q')
    case Nil
    then show ?thesis using True s unfolding f by (auto simp: us_ticker_remove_event_def Let_def ticker_ok_def)
  next
    case (Cons x q2)
    then show ?thesis using True s unfolding f by (cases x) (auto simp: us_ticker_remove_event_def Let_def ticker_ok_def)
  qed
next
  case False
  then obtain ev' where "remove_walk (events s) a (head s) = Some ev'" "seg ev' (head s) (filter (\<lambda>x. fst x \<noteq> a) q) None"
    using remove_walk_seg assms unfolding ticker_ok_def by blast
  then show ?thesis using False assms by (simp add: us_ticker_remove_event_def ticker_ok_def distinct_map_filter)
qed

end
