(* ===== verification/Us_Ticker_Run.thy ===== *)
theory Us_Ticker_Run
  imports Us_Ticker_Queue
begin

text \<open>
  Sequences of insertions and removals, and the interrupt: it passes the events that are due to the handler, which may put
  its own event back into the list.
\<close>

section \<open>Insertions and removals\<close>

datatype ticker_op = Insert nat u64 u32 | Remove nat

fun ticker_step :: "'h ticker_rom \<Rightarrow> ticker_op \<Rightarrow> ('h, 'f) ticker \<Rightarrow> ('h, 'f) ticker option" where
  "ticker_step r (Insert a t i) s = us_ticker_insert_event r a t i s"
| "ticker_step r (Remove a) s = us_ticker_remove_event r a s"

fun ticker_run :: "'h ticker_rom \<Rightarrow> ticker_op list \<Rightarrow> ('h, 'f) ticker \<Rightarrow> ('h, 'f) ticker option" where
  "ticker_run r [] s = Some s"
| "ticker_run r (p # ops) s = Option.bind (ticker_step r p s) (ticker_run r ops)"

text \<open>The operations of the abstract queue, and the condition on the calls: an event that is in the list is not inserted again.\<close>

fun queue_op :: "u64 \<Rightarrow> ticker_op \<Rightarrow> queued list \<Rightarrow> queued list" where
  "queue_op b (Insert a t i) q = insort_key (key b) (a, t, i) q"
| "queue_op b (Remove a) q = filter (\<lambda>x. fst x \<noteq> a) q"

fun op_ok :: "u64 \<Rightarrow> ticker_op \<Rightarrow> queued list \<Rightarrow> bool" where
  "op_ok b (Insert a t i) q \<longleftrightarrow> a \<notin> fst ` set q \<and> in_window b t"
| "op_ok b (Remove a) q \<longleftrightarrow> True"

fun ops_ok :: "u64 \<Rightarrow> ticker_op list \<Rightarrow> queued list \<Rightarrow> bool" where
  "ops_ok b [] q \<longleftrightarrow> True"
| "ops_ok b (p # ops) q \<longleftrightarrow> op_ok b p q \<and> ops_ok b ops (queue_op b p q)"

text \<open>The timer was set last for the first event.\<close>

definition armed :: "'h ticker_rom \<Rightarrow> ('h, 'f) ticker \<Rightarrow> queued list \<Rightarrow> bool" where
  "armed r s q \<longleftrightarrow> (case q of [] \<Rightarrow> True | x # _ \<Rightarrow> \<exists>h. timers s = us_ticker_set_interrupt r (fst (snd x)) h)"

definition ticker_inv :: "'h ticker_rom \<Rightarrow> u64 \<Rightarrow> ('h, 'f) ticker \<Rightarrow> queued list \<Rightarrow> bool" where
  "ticker_inv r b s q \<longleftrightarrow> ticker_ok s q \<and> ordered b q \<and> armed r s q"

lemma ordered_filter: "ordered b q \<Longrightarrow> ordered b (filter P q)"
  by (simp add: ordered_def sorted_filter)

lemma ticker_head: "ticker_ok s q \<Longrightarrow> head s = first_event q"
  unfolding ticker_ok_def using seg_first by blast

lemma ticker_step_inv:
  assumes "ticker_inv r b s q" and "op_ok b p q"
  shows "\<exists>s'. ticker_step r p s = Some s' \<and> ticker_inv r b s' (queue_op b p q) \<and>
    event_handler s' = event_handler s \<and> ticks_called s' = ticks_called s"
proof (cases p)
  case (Insert a t i)
  then have op: "a \<notin> fst ` set q" "in_window b t" using assms(2) by simp_all
  have inv: "ticker_ok s q" "ordered b q" "armed r s q" using assms(1) by (simp_all add: ticker_inv_def)
  obtain s' where s': "us_ticker_insert_event r a t i s = Some s'" "ticker_ok s' (insort_key (key b) (a, t, i) q)"
    "event_handler s' = event_handler s" "ticks_called s' = ticks_called s"
    "timers s' = (if head s' = Some a then us_ticker_set_interrupt r t (timers s) else timers s)"
    using insert_event_queue [OF inv(1) op(1) inv(2) op(2)] by blast
  have "armed r s' (insort_key (key b) (a, t, i) q)"
    using inv(3) op(1) s'(5) ticker_head [OF s'(2)]
    by (cases q) (auto simp: armed_def first_event_def split: if_splits)
  then show ?thesis using s' ordered_insort [OF inv(2) op(2)] by (simp add: Insert ticker_inv_def)
next
  case (Remove a)
  have inv: "ticker_ok s q" "ordered b q" "armed r s q" using assms(1) by (simp_all add: ticker_inv_def)
  obtain s' where s': "us_ticker_remove_event r a s = Some s'" "ticker_ok s' (filter (\<lambda>x. fst x \<noteq> a) q)"
    "event_handler s' = event_handler s" "ticks_called s' = ticks_called s"
    "timers s' = (if head s = Some a
                 then case filter (\<lambda>x. fst x \<noteq> a) q of [] \<Rightarrow> us_ticker_disable_interrupt r (timers s)
                      | x # _ \<Rightarrow> us_ticker_set_interrupt r (fst (snd x)) (timers s)
                 else timers s)"
    using remove_event_queue [OF inv(1)] by blast
  have "armed r s' (filter (\<lambda>x. fst x \<noteq> a) q)"
  proof (cases "head s = Some a")
    case True
    then show ?thesis using s'(5) by (auto simp: armed_def split: list.splits)
  next
    case False
    then show ?thesis using s'(5) inv(3) ticker_head [OF inv(1)] by (cases q) (auto simp: armed_def first_event_def)
  qed
  then show ?thesis using s' ordered_filter [OF inv(2)] by (simp add: Remove ticker_inv_def)
qed

lemma ticker_run_inv:
  assumes "ticker_inv r b s q" and "ops_ok b ops q"
  shows "\<exists>s'. ticker_run r ops s = Some s' \<and> ticker_inv r b s' (fold (queue_op b) ops q)"
  using assms
proof (induction ops arbitrary: s q)
  case (Cons p ops)
  then have "op_ok b p q" "ops_ok b ops (queue_op b p q)" by simp_all
  with ticker_step_inv [OF Cons.prems(1)] Cons.IH show ?case by fastforce
qed simp

section \<open>The interrupt\<close>

text \<open>
  A handler that, for an event's identity, does nothing or puts the event back at another time; the identity is the event's address. The
  code allows any handler: one that inserts or removes other events is not covered.
\<close>

definition rearming :: "'h ticker_rom \<Rightarrow> (u32 \<Rightarrow> u64 option) \<Rightarrow> u32 \<Rightarrow> ('h, u32 \<Rightarrow> u64 option) ticker \<Rightarrow> ('h, u32 \<Rightarrow> u64 option) ticker option" where
  "rearming r f i s = (case f i of None \<Rightarrow> Some s | Some t \<Rightarrow> us_ticker_insert_event r (unat i) t i s)"

fun put_back :: "u64 \<Rightarrow> (u32 \<Rightarrow> u64 option) \<Rightarrow> queued \<Rightarrow> queued list \<Rightarrow> queued list" where
  "put_back b f (a, t, i) q = (case f i of None \<Rightarrow> q | Some t' \<Rightarrow> insort_key (key b) (a, t', i) q)"

text \<open>
  What is relied on of the timers: programming them does not change the tick counter. No time passes during an interrupt
  in this model: the counter is read anew for each event, as in the code, but it shows the same time.
\<close>

locale ticker_device =
  fixes r :: "'h ticker_rom"
  assumes period_counts: "SYSTIMER_TickGet r (RTIM_ChangePeriod r APP_TIM_ID n h) = SYSTIMER_TickGet r h"
    and stop_counts: "SYSTIMER_TickGet r (RTIM_Cmd r APP_TIM_ID False h) = SYSTIMER_TickGet r h"
    and clear_counts: "SYSTIMER_TickGet r (RTIM_INTClear r APP_TIM_ID h) = SYSTIMER_TickGet r h"
begin

lemma read_same [simp]:
  "us_ticker_read r (us_ticker_set_interrupt r t h) = us_ticker_read r h"
  "us_ticker_read r (us_ticker_clear_interrupt r h) = us_ticker_read r h"
  by (simp_all add: us_ticker_read_def us_ticker_set_interrupt_def us_ticker_clear_interrupt_def Let_def period_counts clear_counts)

lemma ordered_tail: "ordered b (x # q) \<Longrightarrow> ordered b q"
  by (simp add: ordered_def)

lemma irq_loop_queue:
  assumes "ticker_ok s (D @ R)" and "ordered b (D @ R)" and "event_handler s = Some f" and "\<forall>(a, t, i) \<in> set D. a = unat i"
    and "now = ucast (us_ticker_read r (timers s))" and "in_window b now"
    and "\<forall>x \<in> set D. not_after (fst (snd x)) now" and "\<forall>x \<in> set R. \<not> not_after (fst (snd x)) now"
    and "\<forall>(a, t, i) \<in> set D. \<forall>t'. f i = Some t' \<longrightarrow> in_window b t' \<and> \<not> not_after t' now"
  shows "\<exists>s'. irq_loop r (rearming r) s = Some s' \<and> ticker_ok s' (fold (put_back b f) D R) \<and> ordered b (fold (put_back b f) D R) \<and>
    armed r s' (fold (put_back b f) D R) \<and> event_handler s' = Some f \<and>
    ticks_called s' = ticks_called s @ map (\<lambda>x. snd (snd x)) D"
  using assms
proof (induction D arbitrary: s R)
  case Nil
  show ?case
  proof (cases R)
    case N: Nil
    then have "head s = None" using ticker_head [OF Nil.prems(1)] N by (simp add: first_event_def)
    then have "irq_loop r (rearming r) s = Some (s\<lparr>timers := us_ticker_disable_interrupt r (timers s)\<rparr>)"
      by (subst irq_loop.simps) simp
    then show ?thesis using Nil.prems(1-3) N by (simp add: ticker_ok_def armed_def)
  next
    case (Cons x R')
    obtain a t i where x: "x = (a, t, i)" by (cases x)
    then have h: "head s = Some a" "timestamp (events s a) = t" using Nil.prems(1) Cons by (simp_all add: ticker_ok_def)
    moreover have "\<not> not_after t now" using Nil.prems(8) by (simp add: Cons x)
    ultimately have "irq_loop r (rearming r) s = Some (s\<lparr>timers := us_ticker_set_interrupt r t (timers s)\<rparr>)"
      using Nil.prems(5) by (subst irq_loop.simps) simp
    then show ?thesis using Nil.prems(1-3) by (auto simp: Cons x ticker_ok_def armed_def)
  qed
next
  case (Cons x D)
  obtain a t i where x: "x = (a, t, i)" by (cases x)
  have a: "a = unat i" using Cons.prems(4) by (simp add: x)
  have h: "head s = Some a" "timestamp (events s a) = t" "ev_id (events s a) = i" using Cons.prems(1) by (simp_all add: ticker_ok_def x)
  let ?s = "s\<lparr>head := ev_next (events s a), ticks_called := ticks_called s @ [i]\<rparr>"
  have fresh: "a \<notin> fst ` set (D @ R)" using Cons.prems(1) by (simp add: ticker_ok_def x image_Un)
  have ok: "ticker_ok ?s (D @ R)" using Cons.prems(1) by (simp add: ticker_ok_def x)
  have ord: "ordered b (D @ R)" using Cons.prems(2) ordered_tail by simp
  have due: "not_after t now" using Cons.prems(7) by (simp add: x)
  have step: "irq_loop r (rearming r) s = Option.bind (rearming r f i ?s) (irq_loop r (rearming r))"
    using due Cons.prems(3,5) h by (subst irq_loop.simps) (simp add: call_handler_def)
  have fut: "\<forall>(a, t, i) \<in> set D. \<forall>t'. f i = Some t' \<longrightarrow> in_window b t' \<and> \<not> not_after t' now" using Cons.prems(9) by simp
  have idD: "\<forall>(a, t, i) \<in> set D. a = unat i" "\<forall>x \<in> set D. not_after (fst (snd x)) now" using Cons.prems(4,7) by simp_all
  have "\<exists>s1. rearming r f i ?s = Some s1 \<and> ticker_ok s1 (D @ put_back b f (a, t, i) R) \<and> ordered b (D @ put_back b f (a, t, i) R) \<and>
      event_handler s1 = Some f \<and> ticks_called s1 = ticks_called s @ [i] \<and> us_ticker_read r (timers s1) = us_ticker_read r (timers s) \<and>
      (\<forall>x \<in> set (put_back b f (a, t, i) R). \<not> not_after (fst (snd x)) now)"
  proof (cases "f i")
    case None
    then show ?thesis using ok ord Cons.prems(3,8) by (simp add: rearming_def)
  next
    case (Some t')
    have t': "in_window b t'" "\<not> not_after t' now" using Cons.prems(9) Some by (simp_all add: x)
    obtain s1 where s1: "us_ticker_insert_event r a t' i ?s = Some s1" "ticker_ok s1 (insort_key (key b) (a, t', i) (D @ R))"
      "event_handler s1 = event_handler ?s" "ticks_called s1 = ticks_called ?s"
      "timers s1 = (if head s1 = Some a then us_ticker_set_interrupt r t' (timers ?s) else timers ?s)"
      using insert_event_queue [OF ok fresh ord t'(1)] by blast
    have "key b y < key b (a, t', i)" if "y \<in> set D" for y
    proof -
      have "in_window b (fst (snd y))" using ord that by (auto simp: ordered_def)
      then have "since b (fst (snd y)) \<le> since b now" using not_after_since [OF _ Cons.prems(6)] idD(2) that by blast
      moreover have "since b now < since b t'" using not_after_since [OF t'(1) Cons.prems(6)] t'(2) by simp
      ultimately show ?thesis by (simp add: key_def)
    qed
    then have ins: "insort_key (key b) (a, t', i) (D @ R) = D @ insort_key (key b) (a, t', i) R" by (intro insort_key_behind) blast
    have "ordered b (D @ insort_key (key b) (a, t', i) R)" using ordered_insort [OF ord t'(1), of a i] ins by simp
    then show ?thesis using s1 t'(2) Cons.prems(3,8) Some unfolding ins by (auto simp: rearming_def a set_insort_key)
  qed
  then obtain s1 where s1: "rearming r f i ?s = Some s1" "ticker_ok s1 (D @ put_back b f (a, t, i) R)" "ordered b (D @ put_back b f (a, t, i) R)"
    "event_handler s1 = Some f" "ticks_called s1 = ticks_called s @ [i]" "us_ticker_read r (timers s1) = us_ticker_read r (timers s)"
    "\<forall>x \<in> set (put_back b f (a, t, i) R). \<not> not_after (fst (snd x)) now"
    by blast
  have "now = ucast (us_ticker_read r (timers s1))" using Cons.prems(5) s1(6) by simp
  from Cons.IH [OF s1(2-4) idD(1) this Cons.prems(6) idD(2) s1(7) fut] show ?case
    using step s1(1,5) by (simp add: x)
qed

end

end
