(* ===== verification/Us_Ticker_Props.thy ===== *)
theory Us_Ticker_Props
  imports Us_Ticker_Run
begin

text \<open>
  The properties of the microsecond ticker, over \<^verbatim>\<open>common/mbed/targets/hal/rtl8711b/us_ticker_api.c\<close> and \<^verbatim>\<open>us_ticker.c\<close>, and a model of the
  timers.
\<close>

section \<open>Timers\<close>

record timer_block =
  systick :: u32
  period :: u32
  enabled :: bool

definition timer_rom :: "timer_block ticker_rom" where
  "timer_rom = \<lparr>SYSTIMER_TickGet = systick, RTIM_TimeBaseInit = (\<lambda>n p h. if n = APP_TIM_ID then h\<lparr>period := p\<rparr> else h),
     RTIM_Cmd = (\<lambda>n on h. if n = APP_TIM_ID then h\<lparr>enabled := on\<rparr> else h),
     RTIM_ChangePeriod = (\<lambda>n p h. if n = APP_TIM_ID then h\<lparr>period := p\<rparr> else h), RTIM_INTClear = (\<lambda>n h. h),
     us_to_ticks = (\<lambda>us. us div 31)\<rparr>"

interpretation ticker_hw: ticker_device timer_rom
  by unfold_locales (simp_all add: timer_rom_def)

definition example_ticker :: "u32 \<Rightarrow> (timer_block, u32 \<Rightarrow> u64 option) ticker" where
  "example_ticker now = \<lparr>event_handler = None, head = None, events = (\<lambda>_. \<lparr>timestamp = 0, ev_id = 0, ev_next = None\<rparr>),
     us_ticker_inited = True, timers = \<lparr>systick = now, period = 0, enabled = True\<rparr>, ticks_called = []\<rparr>"

section \<open>The queue\<close>

text \<open>
  C15: the linked list is a queue ordered by time. Whatever sequence of insertions and removals the program makes, as long as no event is
  inserted while it is in the list and the times lie within \<open>2 ^ 31\<close> microseconds of each other, also across the overflow
  of the clock, every call returns, the list holds the events inserted and not removed, sorted by time, those of equal time in reverse order
  of their insertion, and the timer was set last for the first of them.
\<close>

theorem ticker_queue_ordered:
  assumes "head s = None" and "ops_ok b ops []"
  shows "\<exists>s' q. ticker_run r ops s = Some s' \<and> q = fold (queue_op b) ops [] \<and> ticker_ok s' q \<and> ordered b q \<and> armed r s' q"
proof -
  have "ticker_inv r b s []" using assms(1) by (simp add: ticker_inv_def ticker_ok_def ordered_def armed_def)
  from ticker_run_inv [OF this assms(2)] show ?thesis by (auto simp: ticker_inv_def)
qed

theorem ticker_queue_ordered_witness:
  "\<exists>s'. ticker_run timer_rom [Insert 1 0x100000005 1, Insert 2 0xfffffff0 2, Insert 3 0x100000001 3, Remove 1] (example_ticker 0) = Some s' \<and>
     ticker_ok s' [(2, 0xfffffff0, 2), (3, 0x100000001, 3)]"
  using ticker_queue_ordered [where s = "example_ticker 0" and b = "0xfffffff0" and r = timer_rom and
      ops = "[Insert 1 0x100000005 1, Insert 2 0xfffffff0 2, Insert 3 0x100000001 3, Remove 1]"]
  by (auto simp: example_ticker_def in_window_def since_def key_def simp del: ticker_run.simps)

section \<open>The interrupt\<close>

lemma filter_split:
  fixes k :: "'a \<Rightarrow> nat"
  assumes "sorted (map k q)"
  shows "filter (\<lambda>x. k x \<le> n) q @ filter (\<lambda>x. \<not> k x \<le> n) q = q"
  using assms
proof (induction q)
  case (Cons x q)
  show ?case
  proof (cases "k x \<le> n")
    case False
    then have "filter (\<lambda>x. k x \<le> n) q = []" "filter (\<lambda>x. \<not> k x \<le> n) q = q" using Cons.prems by (auto simp: filter_empty_conv filter_id_conv)
    then show ?thesis using False by simp
  qed (use Cons in simp)
qed simp

definition due :: "u64 \<Rightarrow> queued \<Rightarrow> bool" where "due now x \<longleftrightarrow> not_after (fst (snd x)) now"

lemma due_split:
  assumes "ordered b q" and "in_window b now"
  shows "filter (due now) q @ filter (\<lambda>x. \<not> due now x) q = q"
proof -
  have "due now x \<longleftrightarrow> key b x \<le> since b now" if "x \<in> set q" for x
    using assms that not_after_since [OF _ assms(2)] by (simp add: due_def key_def ordered_def)
  then have "filter (due now) q = filter (\<lambda>x. key b x \<le> since b now) q" "filter (\<lambda>x. \<not> due now x) q = filter (\<lambda>x. \<not> key b x \<le> since b now) q"
    by (auto intro: filter_cong)
  then show ?thesis using filter_split [of "key b" q] assms(1) by (simp add: ordered_def)
qed

text \<open>
  A time whose distance from now has 32 bits of \<open>2 ^ 31\<close> microseconds or more counts as past: an event that is inserted, or put
  back by its handler, so far ahead is due at once. This is why the times of the next property are bounded.
\<close>

lemma far_ahead_is_due:
  assumes "2 ^ 31 \<le> since now t"
  shows "not_after t now"
proof -
  define d where "d = (ucast (t - now) :: u32)"
  have "2 ^ 31 \<le> unat d" using assms by (simp only: since_def d_def)
  then have "int (2 ^ 31) \<le> int (unat d)" by (simp only: of_nat_le_iff)
  then have lo: "2 ^ 31 \<le> uint d" by simp
  have hi: "uint d < 2 ^ 32" using uint_lt2p [of d] by simp
  have "uint d div 2 ^ 31 = 1" using lo hi by simp
  then have "bit (uint d) 31" by (simp add: bit_iff_odd)
  then have "bit d 31" by (simp add: bit_uint_iff)
  then have "sint d < 0" using bit_last_iff [of d] by simp
  then show ?thesis by (simp add: not_after_def d_def)
qed

text \<open>
  C16: the interrupt handles the events that are due, in the order of their times, and no others, and it ends; then the list
  is ordered again and the timer set for its first event. This holds under the following conditions. A handler is set, and the list is
  a queue as in C15. The times in the list and the
  time of the interrupt lie in one window of \<open>2 ^ 31\<close> microseconds. The handler is given the address of the event as
  its identity, and either does nothing with the list or puts this event, and no other, back for a time after the interrupt's and in the same window
  (a time further ahead counts as past and is due at once, \<open>far_ahead_is_due\<close>, so that a handler that always does
  this keeps the interrupt busy for ever). The clock stands still during the interrupt: programming the timers does not change
  it, and the time that the handlers take is not counted.
\<close>

theorem ticker_irq_handles_due:
  assumes "ticker_device r" and "ticker_ok s q" and "ordered b q" and "event_handler s = Some f" and "\<forall>(a, t, i) \<in> set q. a = unat i"
    and "now = ucast (us_ticker_read r (timers s))" and "in_window b now"
    and "\<forall>(a, t, i) \<in> set q. \<forall>t'. f i = Some t' \<longrightarrow> in_window b t' \<and> \<not> not_after t' now"
  shows "\<exists>s' q'. us_ticker_irq_handler r (rearming r) s = Some s' \<and>
    ticks_called s' = ticks_called s @ map (\<lambda>x. snd (snd x)) (filter (due now) q) \<and>
    q' = fold (put_back b f) (filter (due now) q) (filter (\<lambda>x. \<not> due now x) q) \<and> ticker_ok s' q' \<and> ordered b q' \<and> armed r s' q'"
proof -
  let ?s = "s\<lparr>timers := us_ticker_clear_interrupt r (timers s)\<rparr>"
  let ?D = "filter (due now) q" and ?R = "filter (\<lambda>x. \<not> due now x) q"
  have "ticker_ok ?s (?D @ ?R)" "ordered b (?D @ ?R)" using assms(2,3) due_split [OF assms(3,7)] by (simp_all add: ticker_ok_def)
  moreover have "event_handler ?s = Some f" "now = ucast (us_ticker_read r (timers ?s))"
    using assms(4,6) ticker_device.read_same(2) [OF assms(1)] by simp_all
  moreover have "\<forall>(a, t, i) \<in> set ?D. a = unat i" "\<forall>x \<in> set ?D. not_after (fst (snd x)) now" "\<forall>x \<in> set ?R. \<not> not_after (fst (snd x)) now"
    "\<forall>(a, t, i) \<in> set ?D. \<forall>t'. f i = Some t' \<longrightarrow> in_window b t' \<and> \<not> not_after t' now"
    using assms(5,8) by (auto simp: due_def)
  ultimately show ?thesis
    using ticker_device.irq_loop_queue [OF assms(1), of ?s ?D ?R b f now] assms(7) by (auto simp: us_ticker_irq_handler_def)
qed

definition example_queued :: "(timer_block, u32 \<Rightarrow> u64 option) ticker" where
  "example_queued = (example_ticker 0)\<lparr>head := Some 1, event_handler := Some (\<lambda>i. if i = 1 then Some 50 else None),
     events := (\<lambda>a. if a = 1 then \<lparr>timestamp = 0, ev_id = 1, ev_next = Some 2\<rparr> else \<lparr>timestamp = 20, ev_id = 2, ev_next = None\<rparr>)\<rparr>"

theorem ticker_irq_handles_due_witness:
  "\<exists>s'. us_ticker_irq_handler timer_rom (rearming timer_rom) example_queued = Some s' \<and> ticks_called s' = [1] \<and>
     ticker_ok s' [(2, 20, 2), (1, 50, 1)]"
proof -
  let ?f = "\<lambda>i :: u32. if i = 1 then Some (50 :: u64) else None" and ?q = "[(1, 0, 1), (2, 20, 2)] :: queued list"
  have ok: "ticker_ok example_queued ?q" "event_handler example_queued = Some ?f" "ticks_called example_queued = []"
    by (simp_all add: example_queued_def example_ticker_def ticker_ok_def)
  have ord: "ordered 0 ?q" "in_window 0 0" by (simp_all add: ordered_def in_window_def since_def key_def)
  have now: "0 = (ucast (us_ticker_read timer_rom (timers example_queued)) :: u64)"
    by (simp add: us_ticker_read_def timer_rom_def example_queued_def example_ticker_def)
  have due: "due 0 (1, 0, 1)" "\<not> due 0 (2, 20, 2)" "\<not> not_after 50 0" by (simp_all add: due_def not_after_def)
  have "put_back 0 ?f (1, 0, 1) [(2, 20, 2)] = [(2, 20, 2), (1, 50, 1)]" by (simp add: key_def since_def)
  then show ?thesis
    using ticker_irq_handles_due [OF ticker_hw.ticker_device_axioms ok(1) ord(1) ok(2) _ now ord(2)] due ok(3)
    by (auto simp: in_window_def since_def simp del: put_back.simps)
qed

section \<open>What the code does at the edges\<close>

lemma time_cast [simp]: "(ucast (ucast w :: u64) :: u32) = w"
  by (rule bit_word_eqI) (simp add: bit_simps)

lemma us_ticker_read_small: "us_ticker_read r h < 131072"
proof -
  have "unat (SYSTIMER_TickGet r h * 1000000) < 2 ^ LENGTH(32)" by (rule unsigned_less)
  then have "unat (us_ticker_read r h) < 131072" by (simp add: us_ticker_read_def unat_div less_mult_imp_div_less)
  then show ?thesis by (simp add: word_less_nat_alt)
qed

lemma beyond_half_always_due:
  assumes "2 ^ 31 + 131072 \<le> since 0 t"
  shows "not_after t (ucast (us_ticker_read r h))"
proof (rule far_ahead_is_due)
  let ?u = "ucast t :: u32" and ?c = "us_ticker_read r h"
  have c: "unat ?c < 131072" using us_ticker_read_small [of r h] by (simp add: word_less_nat_alt)
  have u: "2 ^ 31 + 131072 \<le> unat ?u" using assms by (simp add: since_def)
  have "ucast (ucast ?c :: u64) = ?c" by simp
  moreover have "?c \<le> ?u" using c u by (simp add: word_le_nat_alt)
  ultimately show "2 ^ 31 \<le> since (ucast ?c) t" using c u by (simp add: since_def ucast_diff unat_sub)
qed



lemma self_linked_loops:
  assumes "irq_loop r call s = Some s'"
  shows "\<not> (head s = Some p \<and> ev_next (events s p) = Some p \<and> event_handler s = None \<and>
    not_after (timestamp (events s p)) (ucast (us_ticker_read r (timers s))))"
  using assms
proof (rule irq_loop.raw_induct [rotated])
  fix loop :: "'a ticker_rom \<Rightarrow> ('b \<Rightarrow> u32 \<Rightarrow> ('a, 'b) ticker \<Rightarrow> ('a, 'b) ticker option) \<Rightarrow> ('a, 'b) ticker \<Rightarrow> ('a, 'b) ticker option"
  let ?P = "\<lambda>(r :: 'a ticker_rom) (s :: ('a, 'b) ticker). head s = Some p \<and> ev_next (events s p) = Some p \<and> event_handler s = None \<and>
    not_after (timestamp (events s p)) (ucast (us_ticker_read r (timers s)))"
  fix r :: "'a ticker_rom" and call :: "'b \<Rightarrow> u32 \<Rightarrow> ('a, 'b) ticker \<Rightarrow> ('a, 'b) ticker option" and s s' :: "('a, 'b) ticker"
  assume ih: "\<And>r call s s'. loop r call s = Some s' \<Longrightarrow> \<not> ?P r s"
    and run: "(case head s of None \<Rightarrow> Some (s\<lparr>timers := us_ticker_disable_interrupt r (timers s)\<rparr>)
      | Some p \<Rightarrow>
          if not_after (timestamp (events s p)) (ucast (us_ticker_read r (timers s)))
          then Option.bind (call_handler call p (s\<lparr>head := ev_next (events s p)\<rparr>)) (loop r call)
          else Some (s\<lparr>timers := us_ticker_set_interrupt r (timestamp (events s p)) (timers s)\<rparr>)) = Some s'"
  show "\<not> ?P r s" using run ih [of r call "s\<lparr>head := Some p\<rparr>" s'] by (auto simp: call_handler_def)
qed

text \<open>
  An event that is inserted while it is in the list is linked to itself. The interrupt in which it is due, without a handler that removes
  it, does not end.
\<close>

theorem ticker_double_insert_hangs:
  assumes "ticker_device r" and "ticker_ok s [(a, t, i)]" and "event_handler s = None"
    and "not_after t' (ucast (us_ticker_read r (timers s)))"
  shows "\<exists>s'. us_ticker_insert_event r a t' i' s = Some s' \<and> us_ticker_irq_handler r call s' = None"
proof -
  have h: "head s = Some a" "ev_next (events s a) = None" using assms(2) by (simp_all add: ticker_ok_def)
  let ?s = "s\<lparr>head := Some a, timers := us_ticker_set_interrupt r t' (timers s),
      events := (events s)(a := (events s a)\<lparr>timestamp := t', ev_id := i', ev_next := Some a\<rparr>)\<rparr>"
  have "not_after t' t'" by (simp add: not_after_def)
  then have "us_ticker_insert_event r a t' i' s = Some ?s"
    using h by (simp add: us_ticker_insert_event_def insert_walk.simps Let_def)
  moreover have "us_ticker_irq_handler r call ?s = None"
  proof (rule ccontr)
    assume "us_ticker_irq_handler r call ?s \<noteq> None"
    then obtain s' where "irq_loop r call (?s\<lparr>timers := us_ticker_clear_interrupt r (timers ?s)\<rparr>) = Some s'"
      by (auto simp: us_ticker_irq_handler_def)
    from self_linked_loops [OF this, of a] show False using h assms(3,4) ticker_device.read_same [OF assms(1)] by simp
  qed
  ultimately show ?thesis by blast
qed

theorem ticker_double_insert_hangs_witness:
  "\<exists>s'. us_ticker_insert_event timer_rom 1 0 1
       ((example_ticker 0)\<lparr>head := Some 1, events := (\<lambda>_. \<lparr>timestamp = 0, ev_id = 1, ev_next = None\<rparr>)\<rparr>) = Some s' \<and>
     us_ticker_irq_handler timer_rom (rearming timer_rom) s' = None"
  using ticker_double_insert_hangs [OF ticker_hw.ticker_device_axioms,
      of "(example_ticker 0)\<lparr>head := Some 1, events := (\<lambda>_. \<lparr>timestamp = 0, ev_id = 1, ev_next = None\<rparr>)\<rparr>" 1 0 1 0 1 "rearming timer_rom"]
  by (simp add: example_ticker_def ticker_ok_def not_after_def us_ticker_read_def timer_rom_def)

text \<open>
  For a time that has just passed the timer is set almost \<open>2 ^ 32\<close> microseconds ahead: an event inserted late waits for over an hour.
\<close>

theorem ticker_late_event_waits:
  assumes "0 < d" and "d \<le> us_ticker_read r h" and "31 \<le> 0xffffffff - d"
  shows "us_ticker_set_interrupt r (ucast (us_ticker_read r h - d)) h = RTIM_ChangePeriod r APP_TIM_ID (us_to_ticks r (0xffffffff - d)) h"
proof -
  have "us_ticker_read r h - d < us_ticker_read r h" using assms(1,2) by (simp add: word_less_nat_alt word_le_nat_alt unat_sub word_neq_0_conv)
  then have "\<not> us_ticker_read r h \<le> us_ticker_read r h - d" by simp
  moreover have "0xffffffff - us_ticker_read r h + (us_ticker_read r h - d) = 0xffffffff - d" by simp
  ultimately show ?thesis using assms(3) unfolding us_ticker_set_interrupt_def Let_def TIMER_TICK_US_def time_cast
    by (simp only: if_False not_less [symmetric])
qed

end
